(* ===== verification/Bloomd_Prelude.thy ===== *)
theory Bloomd_Prelude
  imports Main "HOL-Library.Word"
begin

text \<open>
  Shared vocabulary of the development: names for the fixed-width integer types of the C
  sources, the error numbers the code distinguishes, strings as the code stores them, the
  named collections of rewrite rules, and the generic lemmas on words, byte lists and
  little-endian layouts that the component theories use.
\<close>

unbundle bit_operations_syntax

section \<open>Types\<close>

type_synonym byte = "8 word"
type_synonym u16 = "16 word"
type_synonym u32 = "32 word"
type_synonym u64 = "64 word"

text \<open>
  \<open>errno\<close>: the error numbers the sources name. On Linux \<open>ENOTSUP\<close> is \<open>EOPNOTSUPP\<close> and
  \<open>EWOULDBLOCK\<close> is \<open>EAGAIN\<close>. Every other value is \<open>Eother n\<close>. A C function that returns
  \<open>0\<close> or \<open>-errno\<close> is modelled with result type \<open>errno option\<close>, \<^term>\<open>None\<close> being \<open>0\<close>;
  one that returns a value or \<open>-errno\<close> with \<open>errno + 'a\<close>.
\<close>

datatype errno =
    EPERM | ENOENT | EINTR | EIO | EBADF | EAGAIN | ENOMEM | EACCES | EEXIST | EINVAL
  | ENOSPC | EPIPE | ERANGE | ENAMETOOLONG | ENOSYS | E2BIG | EPROTO | EOPNOTSUPP
  | ECONNRESET | ETIMEDOUT | EUCLEAN | Eother nat

type_synonym rc = "errno option"

text \<open>
  \<open>strerror\<close> as glibc prints it in the C locale for the error numbers above.
\<close>

fun strerror :: "errno \<Rightarrow> string" where
  "strerror EPERM = ''Operation not permitted''"
| "strerror ENOENT = ''No such file or directory''"
| "strerror EINTR = ''Interrupted system call''"
| "strerror EIO = ''Input/output error''"
| "strerror EBADF = ''Bad file descriptor''"
| "strerror EAGAIN = ''Resource temporarily unavailable''"
| "strerror ENOMEM = ''Cannot allocate memory''"
| "strerror EACCES = ''Permission denied''"
| "strerror EEXIST = ''File exists''"
| "strerror EINVAL = ''Invalid argument''"
| "strerror ENOSPC = ''No space left on device''"
| "strerror EPIPE = ''Broken pipe''"
| "strerror ERANGE = ''Numerical result out of range''"
| "strerror ENAMETOOLONG = ''File name too long''"
| "strerror ENOSYS = ''Function not implemented''"
| "strerror E2BIG = ''Argument list too long''"
| "strerror EPROTO = ''Protocol error''"
| "strerror EOPNOTSUPP = ''Operation not supported''"
| "strerror ECONNRESET = ''Connection reset by peer''"
| "strerror ETIMEDOUT = ''Connection timed out''"
| "strerror EUCLEAN = ''Structure needs cleaning''"
| "strerror (Eother n) = ''Unknown error''"

text \<open>The Linux numbers; some results are kept in a variable as \<open>-errno\<close>.\<close>

fun errno_num :: "errno \<Rightarrow> int" where
  "errno_num EPERM = 1" | "errno_num ENOENT = 2" | "errno_num EINTR = 4" | "errno_num EIO = 5"
| "errno_num E2BIG = 7" | "errno_num EBADF = 9" | "errno_num EAGAIN = 11"
| "errno_num ENOMEM = 12" | "errno_num EACCES = 13" | "errno_num EEXIST = 17"
| "errno_num EINVAL = 22" | "errno_num ENOSPC = 28" | "errno_num EPIPE = 32"
| "errno_num ERANGE = 34" | "errno_num ENAMETOOLONG = 36" | "errno_num ENOSYS = 38"
| "errno_num EPROTO = 71" | "errno_num EOPNOTSUPP = 95" | "errno_num ECONNRESET = 104"
| "errno_num ETIMEDOUT = 110" | "errno_num EUCLEAN = 117" | "errno_num (Eother n) = 1 + int n"

lemma errno_num_pos [simp]: "errno_num e > 0"
  by (cases e) simp_all

section \<open>Named collections\<close>

named_theorems codec_simps \<open>encoders, decoders and their round trips\<close>

section \<open>Strings\<close>

text \<open>
  C strings are \<^typ>\<open>string\<close> (a list of 8-bit characters without the terminating NUL).
  \<open>snprintf_to n s\<close> is what \<open>snprintf(buf, n, "%s", s)\<close> leaves in \<open>buf\<close>.
\<close>

abbreviation NUL :: char where "NUL \<equiv> CHR 0x00"
abbreviation LF :: char where "LF \<equiv> CHR 0x0A"
abbreviation CR :: char where "CR \<equiv> CHR 0x0D"
abbreviation slash :: char where "slash \<equiv> CHR 0x2F"

definition snprintf_to :: "nat \<Rightarrow> string \<Rightarrow> string" where
  "snprintf_to n s = take (n - 1) s"

definition bytes_of_string :: "string \<Rightarrow> byte list" where
  "bytes_of_string s = map (\<lambda>c. of_char c) s"

definition string_of_bytes :: "byte list \<Rightarrow> string" where
  "string_of_bytes bs = map (\<lambda>b. char_of (unat b)) bs"

lemma length_bytes_of_string [simp]: "length (bytes_of_string s) = length s"
  by (simp add: bytes_of_string_def)

lemma length_string_of_bytes [simp]: "length (string_of_bytes bs) = length bs"
  by (simp add: string_of_bytes_def)

lemma bytes_of_string_Nil [simp]: "bytes_of_string [] = []"
  by (simp add: bytes_of_string_def)

lemma bytes_of_string_append [simp]:
  "bytes_of_string (s @ t) = bytes_of_string s @ bytes_of_string t"
  by (simp add: bytes_of_string_def)

lemma unat_less: "unat (b :: byte) < 256"
  using unsigned_less [of b, where ?'a = nat] by simp

lemma unat_of_char_byte: "unat (of_char c :: byte) = of_char c"
proof -
  have "(of_char c :: byte) = of_nat (of_char c)" by (simp only: of_nat_of_char)
  moreover have "(of_char c :: nat) < 256" by simp
  ultimately show ?thesis by (simp add: unat_of_nat)
qed

lemma char_of_of_char_word: "char_of (unat (of_char c :: byte)) = c"
  by (simp add: unat_of_char_byte)

lemma of_char_char_of_byte: "of_char (char_of (unat (b :: byte))) = b"
proof -
  have "(of_char (char_of (unat b)) :: nat) = unat b mod 256"
    by (simp add: of_char_of)
  also have "\<dots> = unat b" using unat_less [of b] by simp
  finally have "of_nat (of_char (char_of (unat b))) = b" by simp
  then show ?thesis by (simp only: of_nat_of_char)
qed

lemma string_of_bytes_of_string [simp]: "string_of_bytes (bytes_of_string s) = s"
  by (simp add: string_of_bytes_def bytes_of_string_def char_of_of_char_word comp_def)

lemma bytes_of_string_of_bytes [simp]: "bytes_of_string (string_of_bytes bs) = bs"
  by (simp add: string_of_bytes_def bytes_of_string_def of_char_char_of_byte comp_def)

lemma bytes_of_string_inject [simp]: "bytes_of_string s = bytes_of_string t \<longleftrightarrow> s = t"
  by (metis string_of_bytes_of_string)

section \<open>Bits of words and little-endian layouts\<close>

lemma bit_fold_or:
  fixes a :: "'a::len word"
  shows "bit (fold (\<lambda>i out. out OR f i) xs a) n \<longleftrightarrow> bit a n \<or> (\<exists>i\<in>set xs. bit (f i) n)"
  by (induction xs arbitrary: a) (auto simp: bit_or_iff)

lemma byte_bit_ge: "8 \<le> n \<Longrightarrow> \<not> bit (b :: byte) n"
  by (auto dest: bit_imp_le_length)

text \<open>
  \<open>le_byte v i\<close> is byte \<open>i\<close> of a word stored little-endian: C's
  \<open>(uint8_t)((value >> (8 * i)) & 0xff)\<close>.
\<close>

definition le_byte :: "'a::len word \<Rightarrow> nat \<Rightarrow> byte" where
  "le_byte v i = ucast (drop_bit (8 * i) v AND 0xFF)"

lemma bit_le_byte: "bit (le_byte v i) n \<longleftrightarrow> n < 8 \<and> bit v (8 * i + n)"
proof -
  have "(0xFF :: 'a word) = mask 8" by (simp add: mask_numeral)
  then have "le_byte v i = ucast (drop_bit (8 * i) v AND mask 8)"
    by (simp only: le_byte_def)
  then show ?thesis
    by (auto simp: bit_ucast_iff bit_and_iff bit_drop_bit_eq bit_mask_iff simp del: mask_numeral
      dest: bit_imp_le_length)
qed

definition le_bytes :: "nat \<Rightarrow> 'a::len word \<Rightarrow> byte list" where
  "le_bytes n v = map (le_byte v) [0..<n]"

definition le_word :: "nat \<Rightarrow> byte list \<Rightarrow> 'a::len word" where
  "le_word n p = fold (\<lambda>i out. out OR push_bit (8 * i) (ucast (p ! i))) [0..<n] 0"

lemma length_le_bytes [simp]: "length (le_bytes n v) = n"
  by (simp add: le_bytes_def)

lemma nth_le_bytes [simp]: "i < n \<Longrightarrow> le_bytes n v ! i = le_byte v i"
  by (simp add: le_bytes_def)

lemma bit_le_word:
  "bit (le_word n p :: 'a::len word) k \<longleftrightarrow> k < LENGTH('a) \<and> k div 8 < n \<and> bit (p ! (k div 8)) (k mod 8)"
proof -
  have "bit (le_word n p :: 'a word) k \<longleftrightarrow>
    (\<exists>i<n. k < LENGTH('a) \<and> 8 * i \<le> k \<and> bit (p ! i) (k - 8 * i))"
    by (auto simp: le_word_def bit_fold_or bit_push_bit_iff bit_ucast_iff)
  also have "\<dots> \<longleftrightarrow> (\<exists>i<n. k < LENGTH('a) \<and> i = k div 8 \<and> bit (p ! i) (k - 8 * i))"
  proof (rule ex_cong1)
    fix i
    have "i = k div 8" if "8 * i \<le> k" "bit (p ! i) (k - 8 * i)"
    proof -
      have "k - 8 * i < 8" using that(2) byte_bit_ge not_le by blast
      then show ?thesis using that(1) by linarith
    qed
    then show "(i < n \<and> k < LENGTH('a) \<and> 8 * i \<le> k \<and> bit (p ! i) (k - 8 * i)) =
      (i < n \<and> k < LENGTH('a) \<and> i = k div 8 \<and> bit (p ! i) (k - 8 * i))" by auto
  qed
  finally show ?thesis by (auto simp: minus_mult_div_eq_mod)
qed

lemma le_word_le_bytes:
  assumes "LENGTH('a) = 8 * n"
  shows "le_word n (le_bytes n v @ r) = (v :: 'a::len word)"
proof (rule bit_word_eqI)
  fix k assume k: "k < LENGTH('a)"
  then have "k div 8 < n" using assms by linarith
  with k show "bit (le_word n (le_bytes n v @ r) :: 'a word) k = bit v k"
    by (simp add: bit_le_word nth_append bit_le_byte)
qed

lemma le_bytes_le_word:
  assumes "LENGTH('a) = 8 * n" "n \<le> length p"
  shows "le_bytes n (le_word n p :: 'a::len word) = take n p"
proof (rule nth_equalityI)
  show "length (le_bytes n (le_word n p :: 'a word)) = length (take n p)" using assms by simp
next
  fix i assume "i < length (le_bytes n (le_word n p :: 'a word))"
  then have i: "i < n" by simp
  have "le_byte (le_word n p :: 'a word) i = p ! i"
  proof (rule bit_word_eqI)
    fix k assume "k < LENGTH(8)"
    then have "k < 8" by simp
    then show "bit (le_byte (le_word n p :: 'a word) i) k = bit (p ! i) k"
      using i assms(1) by (auto simp: bit_le_byte bit_le_word)
  qed
  then show "le_bytes n (le_word n p :: 'a word) ! i = take n p ! i" using i by simp
qed

lemma upt_2: "[0..<2] = [0, 1 :: nat]" by (simp add: upt_rec)
lemma upt_4: "[0..<4] = [0, 1, 2, 3 :: nat]" by (simp add: upt_rec)
lemma upt_8: "[0..<8] = [0, 1, 2, 3, 4, 5, 6, 7 :: nat]" by (simp add: upt_rec)

end
