(* ===== verification/Os_World.thy ===== *)
theory Os_World
  imports Bloomd_Prelude
begin

text \<open>
  The operating-system services the sources call, as explicit state. A \<open>world\<close> holds the
  directory entries, the inodes with their current and their synced contents, the open file
  descriptors, the clock readings still to come and the state of the BPF side of the kernel
  (an abstract type here). Every call that may fail takes its outcome from a script: a finite
  list of outcomes, one per call, \<^term>\<open>Normal\<close> once the list is used up. A theorem over every
  script is a theorem over every pattern of short writes, interruptions and errors. The same
  theory models the two transfer loops of \<open>src/src/util.c\<close> that everything else uses.
\<close>

section \<open>State\<close>

datatype outcome = Normal | Short nat | Fail errno

record inode =
  idata :: "byte list"
  isynced :: "byte list"

record 'k world =
  kern :: 'k
  dirents :: "string \<Rightarrow> nat option"
  inodes :: "nat \<Rightarrow> inode"
  fdtab :: "int \<Rightarrow> nat option"
  next_ino :: nat
  next_fd :: int
  script :: "outcome list"
  ticks :: "u64 list"
  clock :: u64

definition empty_inode :: inode where
  "empty_inode = \<lparr>idata = [], isynced = []\<rparr>"

definition next_outcome :: "'k world \<Rightarrow> outcome \<times> 'k world" where
  "next_outcome w = (case script w of [] \<Rightarrow> (Normal, w) | oc # r \<Rightarrow> (oc, w\<lparr>script := r\<rparr>))"

section \<open>Calls on files\<close>

text \<open>\<open>open(path, O_CREAT | O_WRONLY [| O_TRUNC] [| O_APPEND])\<close>: every descriptor the sources
  write through either appends or starts at offset 0 of a truncated file, so writes append.\<close>

definition sys_open :: "string \<Rightarrow> bool \<Rightarrow> 'k world \<Rightarrow> (errno + int) \<times> 'k world" where
  "sys_open path trunc w =
    (case next_outcome w of
       (Fail e, w) \<Rightarrow> (Inl e, w)
     | (_, w) \<Rightarrow>
         let fd = next_fd w in
         (case dirents w path of
            Some ino \<Rightarrow>
              (Inr fd, w\<lparr>next_fd := fd + 1, fdtab := (fdtab w)(fd := Some ino),
                 inodes := (if trunc then (inodes w)(ino := (inodes w ino)\<lparr>idata := []\<rparr>)
                            else inodes w)\<rparr>)
          | None \<Rightarrow>
              (Inr fd, w\<lparr>next_fd := fd + 1, next_ino := Suc (next_ino w),
                 fdtab := (fdtab w)(fd := Some (next_ino w)),
                 dirents := (dirents w)(path := Some (next_ino w)),
                 inodes := (inodes w)(next_ino w := empty_inode)\<rparr>)))"

text \<open>\<open>open(path, O_RDONLY)\<close>.\<close>

definition sys_open_rd :: "string \<Rightarrow> 'k world \<Rightarrow> (errno + int) \<times> 'k world" where
  "sys_open_rd path w =
    (case next_outcome w of
       (Fail e, w) \<Rightarrow> (Inl e, w)
     | (_, w) \<Rightarrow>
         (case dirents w path of
            None \<Rightarrow> (Inl ENOENT, w)
          | Some ino \<Rightarrow> (Inr (next_fd w),
              w\<lparr>next_fd := next_fd w + 1, fdtab := (fdtab w)(next_fd w := Some ino)\<rparr>)))"

definition sys_write :: "int \<Rightarrow> byte list \<Rightarrow> 'k world \<Rightarrow> (errno + nat) \<times> 'k world" where
  "sys_write fd buf w =
    (case fdtab w fd of
       None \<Rightarrow> (Inl EBADF, w)
     | Some ino \<Rightarrow>
         (case next_outcome w of
            (Fail e, w) \<Rightarrow> (Inl e, w)
          | (oc, w) \<Rightarrow>
              let n = (case oc of Short k \<Rightarrow> min k (length buf) | _ \<Rightarrow> length buf) in
              (Inr n, w\<lparr>inodes := (inodes w)(ino := (inodes w ino)
                          \<lparr>idata := idata (inodes w ino) @ take n buf\<rparr>)\<rparr>)))"

text \<open>\<open>read(fd, buf, n)\<close> at file offset \<open>off\<close>.\<close>

definition sys_read_at :: "int \<Rightarrow> nat \<Rightarrow> nat \<Rightarrow> 'k world \<Rightarrow> (errno + byte list) \<times> 'k world" where
  "sys_read_at fd off n w =
    (case fdtab w fd of
       None \<Rightarrow> (Inl EBADF, w)
     | Some ino \<Rightarrow>
         (case next_outcome w of
            (Fail e, w) \<Rightarrow> (Inl e, w)
          | (oc, w) \<Rightarrow>
              let k = (case oc of Short k \<Rightarrow> min (max 1 k) n | _ \<Rightarrow> n) in
              (Inr (take k (drop off (idata (inodes w ino)))), w)))"

definition sys_fsync :: "int \<Rightarrow> 'k world \<Rightarrow> rc \<times> 'k world" where
  "sys_fsync fd w =
    (case fdtab w fd of
       None \<Rightarrow> (Some EBADF, w)
     | Some ino \<Rightarrow>
         (case next_outcome w of
            (Fail e, w) \<Rightarrow> (Some e, w)
          | (_, w) \<Rightarrow> (None, w\<lparr>inodes := (inodes w)(ino := (inodes w ino)
                        \<lparr>isynced := idata (inodes w ino)\<rparr>)\<rparr>)))"

definition sys_ftruncate :: "int \<Rightarrow> nat \<Rightarrow> 'k world \<Rightarrow> rc \<times> 'k world" where
  "sys_ftruncate fd len w =
    (case fdtab w fd of
       None \<Rightarrow> (Some EBADF, w)
     | Some ino \<Rightarrow>
         (case next_outcome w of
            (Fail e, w) \<Rightarrow> (Some e, w)
          | (_, w) \<Rightarrow>
              let d = idata (inodes w ino) in
              (None, w\<lparr>inodes := (inodes w)(ino := (inodes w ino)
                 \<lparr>idata := take len d @ replicate (len - length d) 0\<rparr>)\<rparr>)))"

definition sys_truncate :: "string \<Rightarrow> nat \<Rightarrow> 'k world \<Rightarrow> rc \<times> 'k world" where
  "sys_truncate path len w =
    (case next_outcome w of
       (Fail e, w) \<Rightarrow> (Some e, w)
     | (_, w) \<Rightarrow>
         (case dirents w path of
            None \<Rightarrow> (Some ENOENT, w)
          | Some ino \<Rightarrow>
              let d = idata (inodes w ino) in
              (None, w\<lparr>inodes := (inodes w)(ino := (inodes w ino)
                 \<lparr>idata := take len d @ replicate (len - length d) 0\<rparr>)\<rparr>)))"

definition sys_lseek_end :: "int \<Rightarrow> 'k world \<Rightarrow> (errno + nat) \<times> 'k world" where
  "sys_lseek_end fd w =
    (case fdtab w fd of
       None \<Rightarrow> (Inl EBADF, w)
     | Some ino \<Rightarrow>
         (case next_outcome w of
            (Fail e, w) \<Rightarrow> (Inl e, w)
          | (_, w) \<Rightarrow> (Inr (length (idata (inodes w ino))), w)))"

definition sys_close :: "int \<Rightarrow> 'k world \<Rightarrow> 'k world" where
  "sys_close fd w = w\<lparr>fdtab := (fdtab w)(fd := None)\<rparr>"

definition sys_unlink :: "string \<Rightarrow> 'k world \<Rightarrow> rc \<times> 'k world" where
  "sys_unlink path w =
    (case next_outcome w of
       (Fail e, w) \<Rightarrow> (Some e, w)
     | (_, w) \<Rightarrow>
         (case dirents w path of
            None \<Rightarrow> (Some ENOENT, w)
          | Some _ \<Rightarrow> (None, w\<lparr>dirents := (dirents w)(path := None)\<rparr>)))"

definition sys_rename :: "string \<Rightarrow> string \<Rightarrow> 'k world \<Rightarrow> rc \<times> 'k world" where
  "sys_rename src dst w =
    (case next_outcome w of
       (Fail e, w) \<Rightarrow> (Some e, w)
     | (_, w) \<Rightarrow>
         (case dirents w src of
            None \<Rightarrow> (Some ENOENT, w)
          | Some ino \<Rightarrow> (None, w\<lparr>dirents := (dirents w)(src := None, dst := Some ino)\<rparr>)))"

text \<open>\<open>mkdir(path, mode)\<close>: directories are not part of the state; the script decides.\<close>

definition sys_mkdir :: "string \<Rightarrow> int \<Rightarrow> 'k world \<Rightarrow> rc \<times> 'k world" where
  "sys_mkdir path mode w = (case next_outcome w of (Fail e, w) \<Rightarrow> (Some e, w) | (_, w) \<Rightarrow> (None, w))"

text \<open>\<open>clock_gettime(CLOCK_MONOTONIC)\<close> in milliseconds: the next reading of the script of ticks.\<close>

definition bloomd_now_ms :: "'k world \<Rightarrow> u64 \<times> 'k world" where
  "bloomd_now_ms w =
    (case ticks w of [] \<Rightarrow> (clock w, w) | t # ts \<Rightarrow> (t, w\<lparr>ticks := ts, clock := t\<rparr>))"

lemmas sys_defs =
  sys_open_def sys_open_rd_def sys_write_def sys_read_at_def sys_fsync_def sys_ftruncate_def
  sys_truncate_def sys_lseek_end_def sys_close_def sys_unlink_def sys_rename_def next_outcome_def
  bloomd_now_ms_def

section \<open>Transfer loops\<close>

lemma script_sys_write:
  "sys_write fd buf w = (r, w') \<Longrightarrow> length (script w') \<le> length (script w)"
  "sys_write fd buf w = (Inl EINTR, w') \<Longrightarrow> length (script w') < length (script w)"
  by (auto simp: sys_write_def next_outcome_def Let_def split: option.splits list.splits outcome.splits)

text \<open>
  \<open>bloomd_write_all\<close>: retries on \<open>EINTR\<close>, advances over short writes, maps \<open>EAGAIN\<close> to
  \<open>ETIMEDOUT\<close> and a zero-length write to \<open>EPIPE\<close>. It ends because an interruption uses up an
  outcome of the script and every other round writes at least one byte.
\<close>

function bloomd_write_all :: "int \<Rightarrow> byte list \<Rightarrow> 'k world \<Rightarrow> rc \<times> 'k world" where
  "bloomd_write_all fd buf w =
    (if buf = [] then (None, w)
     else (case sys_write fd buf w of
       (Inl e, w') \<Rightarrow>
         (if e = EINTR then bloomd_write_all fd buf w'
          else if e = EAGAIN then (Some ETIMEDOUT, w')
          else (Some e, w'))
     | (Inr n, w') \<Rightarrow>
         (if n = 0 then (Some EPIPE, w') else bloomd_write_all fd (drop n buf) w')))"
  by pat_completeness auto
termination
proof (relation "measure (\<lambda>(fd, buf, w). length (script w) + length buf)", goal_cases)
  case 1
  show ?case by simp
next
  case (2 fd buf w r w' e)
  then show ?case using script_sys_write(2) [of fd buf w w'] by auto
next
  case (3 fd buf w r w' n)
  then have "length (script w') \<le> length (script w)"
    using script_sys_write(1) [of fd buf w r w'] by auto
  with 3 show ?case by (cases buf) auto
qed

declare bloomd_write_all.simps [simp del]

section \<open>The bytes a write adds\<close>

text \<open>
  \<open>fd_ino\<close> and \<open>fd_data\<close> read the file behind a descriptor. A transfer loop only appends, and it
  touches nothing but the file behind its descriptor and the script.
\<close>

definition file_data :: "string \<Rightarrow> 'k world \<Rightarrow> byte list option" where
  "file_data path w = map_option (\<lambda>ino. idata (inodes w ino)) (dirents w path)"

definition file_synced :: "string \<Rightarrow> 'k world \<Rightarrow> byte list option" where
  "file_synced path w = map_option (\<lambda>ino. isynced (inodes w ino)) (dirents w path)"

definition append_ino :: "nat \<Rightarrow> byte list \<Rightarrow> 'k world \<Rightarrow> 'k world" where
  "append_ino ino bs w =
     w\<lparr>inodes := (inodes w)(ino := (inodes w ino)\<lparr>idata := idata (inodes w ino) @ bs\<rparr>)\<rparr>"

lemma append_ino_simps [simp]:
  "kern (append_ino ino bs w) = kern w" "dirents (append_ino ino bs w) = dirents w"
  "fdtab (append_ino ino bs w) = fdtab w" "next_ino (append_ino ino bs w) = next_ino w"
  "next_fd (append_ino ino bs w) = next_fd w" "script (append_ino ino bs w) = script w"
  "ticks (append_ino ino bs w) = ticks w" "clock (append_ino ino bs w) = clock w"
  "idata (inodes (append_ino ino bs w) ino) = idata (inodes w ino) @ bs"
  "isynced (inodes (append_ino ino bs w) j) = isynced (inodes w j)"
  "j \<noteq> ino \<Longrightarrow> inodes (append_ino ino bs w) j = inodes w j"
  by (simp_all add: append_ino_def)

lemma append_ino_Nil [simp]: "append_ino ino [] w = w"
  by (simp add: append_ino_def)

lemma append_ino_append: "append_ino ino bs (append_ino ino as w) = append_ino ino (as @ bs) w"
  by (simp add: append_ino_def)

lemma append_ino_script: "append_ino ino bs (w\<lparr>script := s\<rparr>) = (append_ino ino bs w)\<lparr>script := s\<rparr>"
  by (simp add: append_ino_def)

lemma sys_write_eq:
  assumes "fdtab w fd = Some ino"
  shows "script w = [] \<Longrightarrow> sys_write fd buf w = (Inr (length buf), append_ino ino buf w)"
    and "script w = Normal # s \<Longrightarrow>
      sys_write fd buf w = (Inr (length buf), (append_ino ino buf w)\<lparr>script := s\<rparr>)"
    and "script w = Short k # s \<Longrightarrow> sys_write fd buf w =
      (Inr (min k (length buf)), (append_ino ino (take (min k (length buf)) buf) w)\<lparr>script := s\<rparr>)"
    and "script w = Fail e # s \<Longrightarrow> sys_write fd buf w = (Inl e, w\<lparr>script := s\<rparr>)"
  using assms by (simp_all add: sys_write_def next_outcome_def append_ino_def Let_def)

lemma sys_write_cases:
  assumes "fdtab w fd = Some ino" and "sys_write fd buf w = (r, w')"
  obtains (err) e s where "r = Inl e" "w' = w\<lparr>script := s\<rparr>" "set s \<subseteq> set (script w)"
  | (ok) n s where "r = Inr n" "n \<le> length buf"
      "w' = (append_ino ino (take n buf) w)\<lparr>script := s\<rparr>" "set s \<subseteq> set (script w)"
      "\<forall>k. Short k \<notin> set (script w) \<Longrightarrow> n = length buf"
proof (cases "script w")
  case Nil
  have "append_ino ino buf w = (append_ino ino buf w)\<lparr>script := []\<rparr>"
    using Nil by (simp add: append_ino_def)
  then show ?thesis
    using sys_write_eq(1) [OF assms(1) Nil, of buf] assms(2) Nil
    by (intro ok [of "length buf" "[]"]) simp_all
next
  case (Cons oc s)
  then have sub: "set s \<subseteq> set (script w)" by auto
  show ?thesis
  proof (cases oc)
    case Normal
    with Cons sys_write_eq(2) [OF assms(1), of s buf] assms(2) sub show ?thesis
      by (intro ok [of "length buf" s]) simp_all
  next
    case (Short k)
    then have "Short k \<in> set (script w)" using Cons by simp
    with Short Cons sys_write_eq(3) [OF assms(1), of k s buf] assms(2) sub show ?thesis
      by (intro ok [of "min k (length buf)" s]) (simp_all, blast)
  next
    case (Fail e)
    with Cons sys_write_eq(4) [OF assms(1), of e s buf] assms(2) sub show ?thesis
      by (intro err [of e s]) simp_all
  qed
qed

text \<open>One round of the loop: it stops with an error, is interrupted, or gets on by \<open>n\<close> bytes.\<close>

lemma write_all_round:
  assumes "fdtab w fd = Some ino" "bloomd_write_all fd buf w = (r, w')" "buf \<noteq> []"
  obtains (stop) s where "r \<noteq> None" "w' = w\<lparr>script := s\<rparr>" "set s \<subseteq> set (script w)"
  | (retry) w1 where "sys_write fd buf w = (Inl EINTR, w1)" "bloomd_write_all fd buf w1 = (r, w')"
      "w1 = w\<lparr>script := script w1\<rparr>" "set (script w1) \<subseteq> set (script w)"
  | (part) n w1 where "sys_write fd buf w = (Inr n, w1)" "n \<noteq> 0" "n \<le> length buf" "bloomd_write_all fd (drop n buf) w1 = (r, w')"
      "w1 = (append_ino ino (take n buf) w)\<lparr>script := script w1\<rparr>" "set (script w1) \<subseteq> set (script w)"
      "\<forall>k. Short k \<notin> set (script w) \<Longrightarrow> n = length buf"
proof -
  obtain r1 w1 where w1: "sys_write fd buf w = (r1, w1)" by fastforce
  note unf = bloomd_write_all.simps [of fd buf w]
  from assms(1) w1 show thesis
  proof (cases rule: sys_write_cases)
    case (err e s)
    then show thesis
      using stop [of s] retry [of w1] assms(2,3) w1 unf by (cases "e = EINTR") (auto split: if_splits)
  next
    case (ok n s)
    show thesis
    proof (cases "n = 0")
      case True
      then show thesis using stop [of s] assms(2,3) w1 unf ok by auto
    next
      case False
      then show thesis using part [of n w1] assms(2,3) w1 unf ok by simp
    qed
  qed
qed

text \<open>
  What the loop guarantees: it appends a prefix of the buffer to the file behind the descriptor,
  the whole buffer exactly when it returns 0, and changes nothing else.
\<close>

lemma bloomd_write_all_spec:
  assumes "fdtab w fd = Some ino" and "bloomd_write_all fd buf w = (r, w')"
  shows "\<exists>n s. n \<le> length buf \<and> w' = (append_ino ino (take n buf) w)\<lparr>script := s\<rparr> \<and>
           set s \<subseteq> set (script w) \<and> (r = None \<longrightarrow> n = length buf) \<and>
           (r \<noteq> None \<and> (\<forall>k. Short k \<notin> set (script w)) \<longrightarrow> n = 0)"
  using assms
proof (induction fd buf w arbitrary: r w' rule: bloomd_write_all.induct)
  case (1 fd buf w)
  show ?case
  proof (cases "buf = []")
    case True
    with "1.prems" show ?thesis
      by (intro exI [of _ 0] exI [of _ "script w"]) (auto simp: bloomd_write_all.simps [of fd "[]" w])
  next
    case False
    from "1.prems" False show ?thesis
    proof (cases rule: write_all_round)
      case (stop s)
      then show ?thesis by (intro exI [of _ 0] exI [of _ s]) auto
    next
      case (retry w1)
      have "fdtab w1 fd = Some ino" by (subst retry(3)) (use "1.prems"(1) in simp)
      from "1.IH"(1) [OF False retry(1) [symmetric] refl refl this retry(2)] obtain n s where
        "n \<le> length buf" "w' = (append_ino ino (take n buf) w1)\<lparr>script := s\<rparr>" "set s \<subseteq> set (script w1)"
        "r = None \<longrightarrow> n = length buf" "r \<noteq> None \<and> (\<forall>k. Short k \<notin> set (script w1)) \<longrightarrow> n = 0" by blast
      moreover have "(append_ino ino bs w1)\<lparr>script := s\<rparr> = (append_ino ino bs w)\<lparr>script := s\<rparr>" for bs
        by (subst retry(3)) (simp add: append_ino_script)
      ultimately show ?thesis using retry(4) by (intro exI [of _ n] exI [of _ s]) auto
    next
      case (part n w1)
      have "fdtab w1 fd = Some ino" by (subst part(5)) (use "1.prems"(1) in simp)
      from "1.IH"(2) [OF False part(1) [symmetric] refl part(2) this part(4)] obtain m s where
        ih: "m \<le> length (drop n buf)" "w' = (append_ino ino (take m (drop n buf)) w1)\<lparr>script := s\<rparr>" "set s \<subseteq> set (script w1)"
        "r = None \<longrightarrow> m = length (drop n buf)" by blast
      moreover have "(append_ino ino bs w1)\<lparr>script := s\<rparr> = (append_ino ino (take n buf @ bs) w)\<lparr>script := s\<rparr>" for bs
        by (subst part(5)) (simp add: append_ino_script append_ino_append)
      moreover have "n = length buf \<Longrightarrow> r = None" using part(4) by (simp add: bloomd_write_all.simps [of fd "[]"])
      ultimately show ?thesis using part(3,6,7) by (intro exI [of _ "n + m"] exI [of _ s]) (auto simp: take_add)
    qed
  qed
qed

lemma bloomd_write_all_normal:
  assumes "script w = []" "fdtab w fd = Some ino"
  shows "bloomd_write_all fd buf w = (None, append_ino ino buf w)"
  using sys_write_eq(1) [OF assms(2,1), of buf]
  by (cases "buf = []")
    (simp_all add: bloomd_write_all.simps [of fd buf w] bloomd_write_all.simps [of fd "[]"])

section \<open>Well-formed worlds\<close>

text \<open>
  No two paths name one file (the sources never link), the inode and descriptor counters are
  ahead of everything in use. Every call keeps this, whatever the script says.
\<close>

definition world_ok :: "'k world \<Rightarrow> bool" where
  "world_ok w \<longleftrightarrow>
    (\<forall>p q i. dirents w p = Some i \<longrightarrow> dirents w q = Some i \<longrightarrow> p = q) \<and>
    (\<forall>p i. dirents w p = Some i \<longrightarrow> i < next_ino w) \<and>
    (\<forall>fd i. fdtab w fd = Some i \<longrightarrow> i < next_ino w \<and> fd < next_fd w)"

lemma world_okD:
  assumes "world_ok w"
  shows "dirents w p = Some i \<Longrightarrow> dirents w q = Some i \<Longrightarrow> p = q"
    "dirents w p = Some i \<Longrightarrow> i < next_ino w"
    "fdtab w fd = Some i \<Longrightarrow> i < next_ino w" "fdtab w fd = Some i \<Longrightarrow> fd < next_fd w"
    "fdtab w (next_fd w) = None"
  using assms unfolding world_ok_def by (blast | (metis less_irrefl option.exhaust))+

lemma world_ok_cong [simp]:
  "world_ok (w\<lparr>script := s\<rparr>) = world_ok w" "world_ok (w\<lparr>kern := k\<rparr>) = world_ok w"
  "world_ok (w\<lparr>inodes := f\<rparr>) = world_ok w" "world_ok (w\<lparr>ticks := t\<rparr>) = world_ok w"
  "world_ok (w\<lparr>clock := c\<rparr>) = world_ok w" "world_ok (append_ino ino bs w) = world_ok w"
  by (simp_all add: world_ok_def)

lemma next_outcome_script:
  assumes "next_outcome w = (oc, w')"
  shows "\<exists>s. w' = w\<lparr>script := s\<rparr>"
proof -
  have "w' = w\<lparr>script := script w'\<rparr>"
    using assms by (cases "script w") (auto simp: next_outcome_def)
  then show ?thesis ..
qed

text \<open>What a successful \<open>open\<close> for writing does, and that a failed one does nothing.\<close>

lemma sys_open_Inl: "sys_open p t w = (Inl e, w') \<Longrightarrow> \<exists>s. w' = w\<lparr>script := s\<rparr>"
  by (auto simp: sys_open_def next_outcome_def Let_def
    split: list.splits outcome.splits option.splits)

lemma sys_open_Inr:
  assumes "sys_open p t w = (Inr fd, w')"
  obtains ino x where "fd = next_fd w" "next_fd w' = next_fd w + 1"
    "fdtab w' = (fdtab w)(fd := Some ino)" "dirents w' = (dirents w)(p := Some ino)"
    "inodes w' = (inodes w)(ino := x)" "t \<Longrightarrow> idata x = []" "kern w' = kern w"
    "dirents w p = Some ino \<and> next_ino w' = next_ino w \<and> (\<not> t \<longrightarrow> x = inodes w ino) \<or>
     dirents w p = None \<and> ino = next_ino w \<and> next_ino w' = Suc (next_ino w) \<and> x = empty_inode"
proof (cases "dirents w p")
  case None
  with assms show ?thesis
    by (intro that [of "next_ino w" empty_inode])
      (auto simp: sys_open_def next_outcome_def Let_def empty_inode_def
        split: list.splits outcome.splits)
next
  case (Some i)
  with assms show ?thesis
    by (intro that [of i "if t then (inodes w i)\<lparr>idata := []\<rparr> else inodes w i"])
      (auto simp: sys_open_def next_outcome_def Let_def fun_upd_idem
        split: list.splits outcome.splits)
qed

lemma world_ok_open:
  assumes ok: "world_ok w" and op: "sys_open p t w = (r, w')"
  shows "world_ok w'"
proof (cases r)
  case (Inl e)
  then show ?thesis using ok op sys_open_Inl by fastforce
next
  case (Inr fd)
  from op [unfolded Inr] show ?thesis
  proof (cases rule: sys_open_Inr)
    case (1 ino x)
    note d = world_okD [OF ok]
    have ino: "dirents w q = Some ino \<Longrightarrow> q = p" for q
      using 1(8) d(1) d(2) [of q ino] by auto
    have lt: "i < next_ino w \<Longrightarrow> i < next_ino w'" "ino < next_ino w'" for i
      using 1(8) d(2) [of p ino] by auto
    show ?thesis
      unfolding world_ok_def 1(2-4)
      using ino lt d(1-4) 1(1) by (auto split: if_splits) (smt (verit))+
  qed
qed

lemma world_ok_close: "world_ok w \<Longrightarrow> world_ok (sys_close fd w)"
  by (auto simp: sys_close_def world_ok_def split: if_splits)

lemma world_ok_unlink: "world_ok w \<Longrightarrow> world_ok (snd (sys_unlink p w))"
  by (auto simp: sys_unlink_def next_outcome_def world_ok_def
    split: list.splits outcome.splits option.splits if_splits)

lemma world_ok_rename: "world_ok w \<Longrightarrow> world_ok (snd (sys_rename p q w))"
  by (auto simp: sys_rename_def next_outcome_def world_ok_def
    split: list.splits outcome.splits option.splits if_splits)

lemma sys_fsync_cases:
  assumes "sys_fsync fd w = (r, w')"
  obtains (ok) ino s where "r = None" "fdtab w fd = Some ino"
      "w' = w\<lparr>script := s, inodes := (inodes w)(ino := (inodes w ino)\<lparr>isynced := idata (inodes w ino)\<rparr>)\<rparr>"
  | (err) e s where "r = Some e" "w' = w\<lparr>script := s\<rparr>"
proof (cases "fdtab w fd")
  case None
  with assms show ?thesis by (intro err [of EBADF "script w"]) (auto simp: sys_fsync_def)
next
  case (Some ino)
  obtain oc w1 where o: "next_outcome w = (oc, w1)" by fastforce
  then obtain s where s: "w1 = w\<lparr>script := s\<rparr>" using next_outcome_script by blast
  show ?thesis
    using assms Some o s
    by (cases oc) (auto simp: sys_fsync_def intro: ok [of ino s] err [of _ s])
qed

lemma sys_unlink_cases:
  assumes "sys_unlink p w = (r, w')"
  obtains (ok) s where "r = None" "dirents w p \<noteq> None"
      "w' = w\<lparr>script := s, dirents := (dirents w)(p := None)\<rparr>"
  | (err) e s where "r = Some e" "w' = w\<lparr>script := s\<rparr>"
proof -
  obtain oc w1 where o: "next_outcome w = (oc, w1)" by fastforce
  then obtain s where s: "w1 = w\<lparr>script := s\<rparr>" using next_outcome_script by blast
  show ?thesis
    using assms o s
    by (cases oc; cases "dirents w p") (auto simp: sys_unlink_def intro: ok [of s] err [of _ s])
qed

lemma sys_rename_cases:
  assumes "sys_rename p q w = (r, w')"
  obtains (ok) ino s where "r = None" "dirents w p = Some ino"
      "w' = w\<lparr>script := s, dirents := (dirents w)(p := None, q := Some ino)\<rparr>"
  | (err) e s where "r = Some e" "w' = w\<lparr>script := s\<rparr>"
proof -
  obtain oc w1 where o: "next_outcome w = (oc, w1)" by fastforce
  then obtain s where s: "w1 = w\<lparr>script := s\<rparr>" using next_outcome_script by blast
  show ?thesis
    using assms o s
    by (cases oc; cases "dirents w p") (auto simp: sys_rename_def intro: ok [of _ s] err [of _ s])
qed

end
