(* ===== verification/Protocol.thy ===== *)
theory Protocol
  imports Bloomd_Prelude
begin

text \<open>
  The wire protocol of \<open>src/src/protocol.c\<close> and \<open>src/include/bloomd.h\<close>: little-endian integer
  codecs, the growable buffer with its frame limit, the sixteen-byte frame header, responses and
  error responses, and the two length-prefixed field readers. Structures that the daemon copies
  byte for byte (\<open>memcpy\<close> of the packed header and of the request structures) are laid out as on
  a little-endian machine.
\<close>

section \<open>Constants and enumerations\<close>

definition BLOOMD_MAX_FRAME_BODY :: nat where "BLOOMD_MAX_FRAME_BODY = 1024 * 1024"
definition BLOOMD_MAX_NAME_LEN :: nat where "BLOOMD_MAX_NAME_LEN = 63"
definition BLOOMD_MAX_BATCH_ITEMS :: nat where "BLOOMD_MAX_BATCH_ITEMS = 1024"
definition BLOOMD_DIGEST_SIZE :: nat where "BLOOMD_DIGEST_SIZE = 16"

lemmas protocol_consts = BLOOMD_MAX_FRAME_BODY_def BLOOMD_MAX_NAME_LEN_def
  BLOOMD_MAX_BATCH_ITEMS_def BLOOMD_DIGEST_SIZE_def

definition BLOOMD_PROTOCOL_MAGIC :: "byte list" where
  "BLOOMD_PROTOCOL_MAGIC = [0x42, 0x4C, 0x4D, 0x31]"

datatype bloomd_opcode =
    OP_PING | OP_CREATE | OP_ADD | OP_CHECK | OP_MADD | OP_MCHECK | OP_INFO | OP_LIST | OP_DROP
  | OP_STATS

fun opcode_byte :: "bloomd_opcode \<Rightarrow> byte" where
  "opcode_byte OP_PING = 1" | "opcode_byte OP_CREATE = 2" | "opcode_byte OP_ADD = 3"
| "opcode_byte OP_CHECK = 4" | "opcode_byte OP_MADD = 5" | "opcode_byte OP_MCHECK = 6"
| "opcode_byte OP_INFO = 7" | "opcode_byte OP_LIST = 8" | "opcode_byte OP_DROP = 9"
| "opcode_byte OP_STATS = 10"

text \<open>The \<open>switch (req->header.opcode)\<close>: the enumerator an opcode byte stands for, if any.\<close>

definition opcode_of :: "byte \<Rightarrow> bloomd_opcode option" where
  "opcode_of b = find (\<lambda>op. opcode_byte op = b)
     [OP_PING, OP_CREATE, OP_ADD, OP_CHECK, OP_MADD, OP_MCHECK, OP_INFO, OP_LIST, OP_DROP, OP_STATS]"

lemma opcode_of_byte [simp]: "opcode_of (opcode_byte op) = Some op"
  by (cases op) (simp_all add: opcode_of_def)

datatype bloomd_status =
    STATUS_OK | STATUS_BAD_REQUEST | STATUS_TOO_LARGE | STATUS_NOT_FOUND | STATUS_EXISTS
  | STATUS_UNSUPPORTED | STATUS_IO | STATUS_BPF | STATUS_NAME | STATUS_STATE | STATUS_PERM
  | STATUS_INTERNAL

fun status_byte :: "bloomd_status \<Rightarrow> byte" where
  "status_byte STATUS_OK = 0" | "status_byte STATUS_BAD_REQUEST = 1"
| "status_byte STATUS_TOO_LARGE = 2" | "status_byte STATUS_NOT_FOUND = 3"
| "status_byte STATUS_EXISTS = 4" | "status_byte STATUS_UNSUPPORTED = 5"
| "status_byte STATUS_IO = 6" | "status_byte STATUS_BPF = 7" | "status_byte STATUS_NAME = 8"
| "status_byte STATUS_STATE = 9" | "status_byte STATUS_PERM = 10"
| "status_byte STATUS_INTERNAL = 11"

datatype bloomd_error_code =
    ERR_NONE | ERR_PARSE | ERR_RANGE | ERR_TIMEOUT | ERR_SHORT_IO | ERR_UNSUPPORTED_KERNEL
  | ERR_BPF_PRIVS | ERR_BPFFS | ERR_METADATA

fun error_word :: "bloomd_error_code \<Rightarrow> u32" where
  "error_word ERR_NONE = 0" | "error_word ERR_PARSE = 1" | "error_word ERR_RANGE = 2"
| "error_word ERR_TIMEOUT = 3" | "error_word ERR_SHORT_IO = 4"
| "error_word ERR_UNSUPPORTED_KERNEL = 5" | "error_word ERR_BPF_PRIVS = 6"
| "error_word ERR_BPFFS = 7" | "error_word ERR_METADATA = 8"

definition bloomd_status_string :: "byte \<Rightarrow> string" where
  "bloomd_status_string st =
    (case map_of [(0, ''ok''), (1, ''bad_request''), (2, ''too_large''), (3, ''not_found''),
       (4, ''exists''), (5, ''unsupported''), (6, ''io''), (7, ''bpf''), (8, ''name''),
       (9, ''state''), (10, ''perm''), (11, ''internal'')] st of
       Some text \<Rightarrow> text | None \<Rightarrow> ''unknown'')"

definition bloomd_errno_string :: "u32 \<Rightarrow> string" where
  "bloomd_errno_string code =
    (case map_of [(0, ''none''), (1, ''parse_error''), (2, ''range_error''), (3, ''timeout''),
       (4, ''short_io''), (5, ''unsupported_kernel''), (6, ''bpf_privileges''), (7, ''bpffs''),
       (8, ''metadata'')] code of
       Some text \<Rightarrow> text | None \<Rightarrow> ''unknown'')"

section \<open>Integer codecs\<close>

definition bloomd_store_u16 :: "u16 \<Rightarrow> byte list" where
  "bloomd_store_u16 value = [ucast (value AND 0xFF), ucast (drop_bit 8 value AND 0xFF)]"

definition bloomd_store_u32 :: "u32 \<Rightarrow> byte list" where
  "bloomd_store_u32 value = [ucast (value AND 0xFF), ucast (drop_bit 8 value AND 0xFF),
     ucast (drop_bit 16 value AND 0xFF), ucast (drop_bit 24 value AND 0xFF)]"

definition bloomd_store_u64 :: "u64 \<Rightarrow> byte list" where
  "bloomd_store_u64 value = map (\<lambda>i. ucast (drop_bit (8 * i) value AND 0xFF)) [0..<8]"

definition bloomd_load_u16 :: "byte list \<Rightarrow> u16" where
  "bloomd_load_u16 p = ucast (p ! 0) OR push_bit 8 (ucast (p ! 1))"

definition bloomd_load_u32 :: "byte list \<Rightarrow> u32" where
  "bloomd_load_u32 p = ucast (p ! 0) OR push_bit 8 (ucast (p ! 1)) OR
     push_bit 16 (ucast (p ! 2)) OR push_bit 24 (ucast (p ! 3))"

definition bloomd_load_u64 :: "byte list \<Rightarrow> u64" where
  "bloomd_load_u64 p = fold (\<lambda>i out. out OR push_bit (8 * i) (ucast (p ! i))) [0..<8] 0"

lemma store_le_bytes:
  "bloomd_store_u16 a = le_bytes 2 a" "bloomd_store_u32 b = le_bytes 4 b"
  "bloomd_store_u64 c = le_bytes 8 c"
  by (simp_all add: bloomd_store_u16_def bloomd_store_u32_def bloomd_store_u64_def le_bytes_def
    le_byte_def upt_2 upt_4)

lemma load_le_word:
  "bloomd_load_u16 p = le_word 2 p" "bloomd_load_u32 p = le_word 4 p"
  "bloomd_load_u64 p = le_word 8 p"
  by (simp_all add: bloomd_load_u16_def bloomd_load_u32_def bloomd_load_u64_def le_word_def
    upt_2 upt_4 or.assoc)

lemma length_store [simp]:
  "length (bloomd_store_u16 a) = 2" "length (bloomd_store_u32 b) = 4"
  "length (bloomd_store_u64 c) = 8"
  by (simp_all add: store_le_bytes)

lemma load_store [simp, codec_simps]:
  "bloomd_load_u16 (bloomd_store_u16 a @ r) = a"
  "bloomd_load_u32 (bloomd_store_u32 b @ r) = b"
  "bloomd_load_u64 (bloomd_store_u64 c @ r) = c"
  by (simp_all add: store_le_bytes load_le_word le_word_le_bytes)

lemma load_store' [simp, codec_simps]:
  "bloomd_load_u16 (bloomd_store_u16 a) = a"
  "bloomd_load_u32 (bloomd_store_u32 b) = b"
  "bloomd_load_u64 (bloomd_store_u64 c) = c"
  using load_store [where r = "[]"] by simp_all

lemma store_load [codec_simps]:
  "2 \<le> length p \<Longrightarrow> bloomd_store_u16 (bloomd_load_u16 p) = take 2 p"
  "4 \<le> length p \<Longrightarrow> bloomd_store_u32 (bloomd_load_u32 p) = take 4 p"
  "8 \<le> length p \<Longrightarrow> bloomd_store_u64 (bloomd_load_u64 p) = take 8 p"
  by (simp_all add: store_le_bytes load_le_word le_bytes_le_word)

section \<open>Buffers\<close>

text \<open>
  \<open>buf_data\<close> holds the first \<open>len\<close> bytes of the allocation, \<open>buf_cap\<close> its size. Whether \<open>realloc\<close>
  can deliver \<open>n\<close> bytes is the parameter \<open>mem n\<close>.
\<close>

record bloomd_buffer =
  buf_data :: "byte list"
  buf_cap :: nat

definition bloomd_buffer_init :: bloomd_buffer where
  "bloomd_buffer_init = \<lparr>buf_data = [], buf_cap = 0\<rparr>"

definition bloomd_buffer_reserve ::
  "(nat \<Rightarrow> bool) \<Rightarrow> bloomd_buffer \<Rightarrow> nat \<Rightarrow> rc \<times> bloomd_buffer" where
  "bloomd_buffer_reserve mem buf cap =
    (if cap \<le> buf_cap buf then (None, buf)
     else if \<not> mem cap then (Some ENOMEM, buf)
     else (None, buf\<lparr>buf_cap := cap\<rparr>))"

definition bloomd_buffer_append ::
  "(nat \<Rightarrow> bool) \<Rightarrow> bloomd_buffer \<Rightarrow> byte list \<Rightarrow> rc \<times> bloomd_buffer" where
  "bloomd_buffer_append mem buf data =
    (if length data = 0 then (None, buf)
     else if length (buf_data buf) + length data > BLOOMD_MAX_FRAME_BODY then (Some E2BIG, buf)
     else (case bloomd_buffer_reserve mem buf (length (buf_data buf) + length data) of
       (Some e, buf) \<Rightarrow> (Some e, buf)
     | (None, buf) \<Rightarrow> (None, buf\<lparr>buf_data := buf_data buf @ data\<rparr>)))"

definition bloomd_buffer_append_u16 ::
  "(nat \<Rightarrow> bool) \<Rightarrow> bloomd_buffer \<Rightarrow> u16 \<Rightarrow> rc \<times> bloomd_buffer" where
  "bloomd_buffer_append_u16 mem buf value = bloomd_buffer_append mem buf (bloomd_store_u16 value)"

definition bloomd_buffer_append_u32 ::
  "(nat \<Rightarrow> bool) \<Rightarrow> bloomd_buffer \<Rightarrow> u32 \<Rightarrow> rc \<times> bloomd_buffer" where
  "bloomd_buffer_append_u32 mem buf value = bloomd_buffer_append mem buf (bloomd_store_u32 value)"

definition bloomd_buffer_append_u64 ::
  "(nat \<Rightarrow> bool) \<Rightarrow> bloomd_buffer \<Rightarrow> u64 \<Rightarrow> rc \<times> bloomd_buffer" where
  "bloomd_buffer_append_u64 mem buf value = bloomd_buffer_append mem buf (bloomd_store_u64 value)"

text \<open>A \<open>double\<close> is kept as its 64-bit IEEE pattern, so its bytes are those of the pattern.\<close>

definition bloomd_buffer_append_double ::
  "(nat \<Rightarrow> bool) \<Rightarrow> bloomd_buffer \<Rightarrow> u64 \<Rightarrow> rc \<times> bloomd_buffer" where
  "bloomd_buffer_append_double mem buf value = bloomd_buffer_append mem buf (bloomd_store_u64 value)"

definition bloomd_buffer_append_str ::
  "(nat \<Rightarrow> bool) \<Rightarrow> bloomd_buffer \<Rightarrow> string \<Rightarrow> rc \<times> bloomd_buffer" where
  "bloomd_buffer_append_str mem buf str = bloomd_buffer_append mem buf (bytes_of_string str)"

definition buffer_ok :: "bloomd_buffer \<Rightarrow> bool" where
  "buffer_ok buf \<longleftrightarrow> length (buf_data buf) \<le> buf_cap buf \<and> length (buf_data buf) \<le> BLOOMD_MAX_FRAME_BODY"

lemma buffer_append_cases:
  assumes "bloomd_buffer_append mem buf data = (r, buf')"
  obtains (ok) "r = None" "buf_data buf' = buf_data buf @ data" "buf_cap buf \<le> buf_cap buf'"
      "buffer_ok buf \<Longrightarrow> buffer_ok buf'"
  | (err) e where "r = Some e" "buf' = buf"
  using assms
  by (auto simp: bloomd_buffer_append_def bloomd_buffer_reserve_def buffer_ok_def
    split: if_splits option.splits prod.splits)

lemma buffer_append_Nil [simp]: "bloomd_buffer_append mem buf [] = (None, buf)"
  by (simp add: bloomd_buffer_append_def)

lemma buffer_append_fits:
  assumes "\<And>n. mem n" "length (buf_data buf) + length data \<le> BLOOMD_MAX_FRAME_BODY"
  shows "\<exists>buf'. bloomd_buffer_append mem buf data = (None, buf') \<and>
    buf_data buf' = buf_data buf @ data"
  using assms by (auto simp: bloomd_buffer_append_def bloomd_buffer_reserve_def)

section \<open>Frame headers\<close>

record bloomd_frame_header =
  magic :: "byte list"
  version :: byte
  opcode :: byte
  flags :: byte
  status :: byte
  request_id :: u32
  body_len :: u32

definition header_bytes :: "bloomd_frame_header \<Rightarrow> byte list" where
  "header_bytes h = magic h @ [version h, opcode h, flags h, status h] @
     bloomd_store_u32 (request_id h) @ bloomd_store_u32 (body_len h)"

definition header_of_bytes :: "byte list \<Rightarrow> bloomd_frame_header" where
  "header_of_bytes b = \<lparr>magic = take 4 b, version = b ! 4, opcode = b ! 5, flags = b ! 6,
     status = b ! 7, request_id = bloomd_load_u32 (drop 8 b), body_len = bloomd_load_u32 (drop 12 b)\<rparr>"

definition bloomd_header_is_valid :: "bloomd_frame_header \<Rightarrow> rc" where
  "bloomd_header_is_valid hdr =
    (if magic hdr \<noteq> BLOOMD_PROTOCOL_MAGIC then Some EPROTO
     else if version hdr \<noteq> 1 then Some EPROTO
     else if unat (body_len hdr) > BLOOMD_MAX_FRAME_BODY then Some E2BIG
     else None)"

lemma length_header_bytes: "length (magic h) = 4 \<Longrightarrow> length (header_bytes h) = 16"
  by (simp add: header_bytes_def)

section \<open>Responses\<close>

record bloomd_response =
  rheader :: bloomd_frame_header
  rbody :: bloomd_buffer

definition bloomd_response_init :: "byte \<Rightarrow> u32 \<Rightarrow> bloomd_response" where
  "bloomd_response_init opc rid =
    \<lparr>rheader = \<lparr>magic = BLOOMD_PROTOCOL_MAGIC, version = 1, opcode = opc, flags = 0x01,
       status = status_byte STATUS_OK, request_id = rid, body_len = 0\<rparr>,
     rbody = bloomd_buffer_init\<rparr>"

definition bloomd_response_reset :: "bloomd_response \<Rightarrow> byte \<Rightarrow> u32 \<Rightarrow> bloomd_response" where
  "bloomd_response_reset resp opc rid =
    \<lparr>rheader = \<lparr>magic = BLOOMD_PROTOCOL_MAGIC, version = 1, opcode = opc, flags = 0x01,
       status = status_byte STATUS_OK, request_id = rid, body_len = 0\<rparr>,
     rbody = (rbody resp)\<lparr>buf_data := []\<rparr>\<rparr>"

definition bloomd_response_error ::
  "(nat \<Rightarrow> bool) \<Rightarrow> bloomd_response \<Rightarrow> bloomd_status \<Rightarrow> bloomd_error_code \<Rightarrow> string
    \<Rightarrow> rc \<times> bloomd_response" where
  "bloomd_response_error mem resp st code message =
    (let resp = resp\<lparr>rbody := (rbody resp)\<lparr>buf_data := []\<rparr>,
           rheader := (rheader resp)\<lparr>flags := 0x03, status := status_byte st\<rparr>\<rparr>;
         message_len = (of_nat (length message) :: u32)
     in case bloomd_buffer_append_u32 mem (rbody resp) (error_word code) of
          (Some e, b) \<Rightarrow> (Some e, resp\<lparr>rbody := b\<rparr>)
        | (None, b) \<Rightarrow>
            (case bloomd_buffer_append_u32 mem b message_len of
               (Some e, b) \<Rightarrow> (Some e, resp\<lparr>rbody := b\<rparr>)
             | (None, b) \<Rightarrow>
                 (case bloomd_buffer_append mem b
                    (take (unat message_len) (bytes_of_string message)) of
                    (r, b) \<Rightarrow> (r, resp\<lparr>rbody := b\<rparr>))))"

section \<open>Length-prefixed fields\<close>

definition bloomd_protocol_read_name :: "byte list \<Rightarrow> errno + (byte list \<times> nat)" where
  "bloomd_protocol_read_name buf =
    (if length buf < 2 then Inl EINVAL
     else let nlen = unat (bloomd_load_u16 buf) in
       if nlen = 0 \<or> nlen > BLOOMD_MAX_NAME_LEN then Inl EINVAL
       else if length buf < 2 + nlen then Inl EINVAL
       else Inr (take nlen (drop 2 buf), 2 + nlen))"

text \<open>\<open>Inr (payload, consumed)\<close>; \<open>buf\<close> is the memory from the pointer to the end of the body.\<close>

definition bloomd_protocol_read_payload :: "byte list \<Rightarrow> errno + (byte list \<times> nat)" where
  "bloomd_protocol_read_payload buf =
    (if length buf < 4 then Inl EINVAL
     else let plen = unat (bloomd_load_u32 buf) in
       if plen > BLOOMD_MAX_FRAME_BODY then Inl E2BIG
       else if length buf < 4 + plen then Inl EINVAL
       else Inr (take plen (drop 4 buf), 4 + plen))"

lemma read_payload_Inr:
  assumes "bloomd_protocol_read_payload buf = Inr (p, c)"
  shows "c = 4 + length p" "c \<le> length buf" "p = take (length p) (drop 4 buf)"
    "length p \<le> BLOOMD_MAX_FRAME_BODY" "take c buf = bloomd_store_u32 (of_nat (length p)) @ p"
proof -
  let ?n = "unat (bloomd_load_u32 buf)"
  from assms have a: "4 \<le> length buf" "?n \<le> BLOOMD_MAX_FRAME_BODY" "4 + ?n \<le> length buf"
    "p = take ?n (drop 4 buf)" "c = 4 + ?n"
    by (auto simp: bloomd_protocol_read_payload_def Let_def split: if_splits)
  then have lp: "length p = ?n" by simp
  show "c = 4 + length p" "c \<le> length buf" "p = take (length p) (drop 4 buf)"
    "length p \<le> BLOOMD_MAX_FRAME_BODY" using a lp by simp_all
  have "take c buf = take 4 buf @ p" using a by (simp add: take_add)
  also have "take 4 buf = bloomd_store_u32 (bloomd_load_u32 buf)"
    using a(1) by (simp add: store_load)
  finally show "take c buf = bloomd_store_u32 (of_nat (length p)) @ p"
    using lp by simp
qed

lemma read_payload_store:
  assumes "length p \<le> BLOOMD_MAX_FRAME_BODY"
  shows "bloomd_protocol_read_payload (bloomd_store_u32 (of_nat (length p)) @ p @ rest)
    = Inr (p, 4 + length p)"
proof -
  have "unat (of_nat (length p) :: u32) = length p"
    using assms by (simp add: unat_of_nat protocol_consts)
  then show ?thesis using assms
    by (simp add: bloomd_protocol_read_payload_def)
qed

section \<open>Properties\<close>

text \<open>
  The sixteen-byte header survives the wire: reading the fields back from the bytes of a
  header, whatever follows them, gives the header, and the layout is exactly sixteen bytes.
\<close>

lemma frame_header_roundtrip:
  assumes "length (magic h) = 4"
  shows "header_of_bytes (header_bytes h @ rest) = h \<and> length (header_bytes h) = 16"
proof -
  obtain m0 m1 m2 m3 where m: "magic h = [m0, m1, m2, m3]"
    using assms by (auto simp: numeral_eq_Suc length_Suc_conv)
  have "header_of_bytes (header_bytes h @ rest) = h"
    by (cases h) (use m in \<open>simp add: header_of_bytes_def header_bytes_def\<close>)
  then show ?thesis by (simp add: length_header_bytes [OF assms])
qed

lemma frame_header_roundtrip_witness:
  "header_of_bytes (header_bytes (rheader (bloomd_response_init 3 77)) @ [9]) =
     rheader (bloomd_response_init 3 77)"
proof -
  have "length (magic (rheader (bloomd_response_init 3 77))) = 4"
    by (simp add: bloomd_response_init_def BLOOMD_PROTOCOL_MAGIC_def)
  from frame_header_roundtrip [OF this] show ?thesis by blast
qed

text \<open>
  An error response, when memory lasts and the message fits a frame: whatever the response
  held before, its body becomes the error code, the length of the message and the message, the flags
  mark an error response, the status is the one given, and the other header fields are untouched.
\<close>

lemma response_error_layout:
  assumes "\<forall>n. alloc n" "length message + 8 \<le> BLOOMD_MAX_FRAME_BODY"
  shows "\<exists>resp'. bloomd_response_error alloc resp st code message = (None, resp') \<and>
    buf_data (rbody resp') = bloomd_store_u32 (error_word code) @
      bloomd_store_u32 (of_nat (length message)) @ bytes_of_string message \<and>
    rheader resp' = (rheader resp)\<lparr>flags := 0x03, status := status_byte st\<rparr>"
proof -
  have len: "unat (of_nat (length message) :: u32) = length message"
    using assms(2) by (simp add: unat_of_nat protocol_consts)
  have a: "\<exists>b'. bloomd_buffer_append alloc b data = (None, b') \<and> buf_data b' = buf_data b @ data"
    if "length (buf_data b) + length data \<le> BLOOMD_MAX_FRAME_BODY" for b data
    using buffer_append_fits [of alloc b data] assms(1) that by blast
  let ?b0 = "(rbody resp)\<lparr>buf_data := []\<rparr>"
  obtain b1 where b1: "bloomd_buffer_append alloc ?b0 (bloomd_store_u32 (error_word code)) = (None, b1)"
    "buf_data b1 = bloomd_store_u32 (error_word code)"
    using a [of ?b0 "bloomd_store_u32 (error_word code)"] by (auto simp: protocol_consts)
  obtain b2 where b2: "bloomd_buffer_append alloc b1 (bloomd_store_u32 (of_nat (length message))) = (None, b2)"
    "buf_data b2 = bloomd_store_u32 (error_word code) @ bloomd_store_u32 (of_nat (length message))"
    using a [of b1 "bloomd_store_u32 (of_nat (length message))"] b1(2) by (auto simp: protocol_consts)
  obtain b3 where b3: "bloomd_buffer_append alloc b2 (bytes_of_string message) = (None, b3)"
    "buf_data b3 = bloomd_store_u32 (error_word code) @ bloomd_store_u32 (of_nat (length message)) @
      bytes_of_string message"
    using a [of b2 "bytes_of_string message"] b2(2) assms(2) by auto
  show ?thesis
    using b1 b2 b3 len by (simp add: bloomd_response_error_def bloomd_buffer_append_u32_def Let_def)
qed

lemma response_error_layout_witness:
  "\<exists>resp'. bloomd_response_error (\<lambda>_. True) (bloomd_response_init 4 1) STATUS_NOT_FOUND ERR_NONE
      ''filter not found'' = (None, resp') \<and>
    buf_data (rbody resp') = bloomd_store_u32 0 @ bloomd_store_u32 16 @ bytes_of_string ''filter not found''"
  using response_error_layout [of "\<lambda>_. True" "''filter not found''" "bloomd_response_init 4 1"
      STATUS_NOT_FOUND ERR_NONE]
  by (auto simp: protocol_consts)

end
