(* ===== verification/Names_Paths.thy ===== *)
theory Names_Paths
  imports Protocol
begin

text \<open>
  Filter names, path construction and command-line values: the string helpers of
  \<open>src/src/util.c\<close> and the path predicates of \<open>src/src/daemon.c\<close>. \<open>strtoul\<close> is modelled as the C
  standard describes it for bases 8 and 10 on a 64-bit \<open>unsigned long\<close>.
\<close>

section \<open>Filter names\<close>

definition PATH_MAX :: nat where "PATH_MAX = 4096"

definition char_le :: "char \<Rightarrow> char \<Rightarrow> bool" where
  "char_le a b \<longleftrightarrow> (of_char a :: nat) \<le> of_char b"

definition name_char :: "char \<Rightarrow> bool" where
  "name_char ch \<longleftrightarrow>
     char_le CHR ''a'' ch \<and> char_le ch CHR ''z'' \<or>
     char_le CHR ''A'' ch \<and> char_le ch CHR ''Z'' \<or>
     char_le CHR ''0'' ch \<and> char_le ch CHR ''9'' \<or>
     ch = CHR ''-'' \<or> ch = CHR ''_''"

definition bloomd_name_is_valid :: "string \<Rightarrow> bool" where
  "bloomd_name_is_valid name =
    (if length name = 0 \<or> length name > BLOOMD_MAX_NAME_LEN then False
     else list_all name_char name)"

definition bloomd_validate_filter_name :: "string \<Rightarrow> (errno \<times> string) option" where
  "bloomd_validate_filter_name name =
    (if \<not> bloomd_name_is_valid name
     then Some (EINVAL, ''invalid filter name: use 1-63 chars from [A-Za-z0-9_-]'')
     else None)"

text \<open>The daemon checks a name where it lies in the request body, before it copies it.\<close>

definition bloomd_name_view_is_valid :: "byte list \<Rightarrow> nat \<Rightarrow> rc" where
  "bloomd_name_view_is_valid src len =
    (if len = 0 \<or> len > BLOOMD_MAX_NAME_LEN then Some EINVAL
     else if list_all name_char (string_of_bytes (take len src)) then None
     else Some EINVAL)"

definition bloomd_parse_name_copy :: "byte list \<Rightarrow> nat \<Rightarrow> errno + string" where
  "bloomd_parse_name_copy src len =
    (if bloomd_name_view_is_valid src len \<noteq> None then Inl EINVAL
     else Inr (string_of_bytes (take len src)))"

lemma name_char_not_special [simp]:
  "\<not> name_char NUL" "\<not> name_char slash" "\<not> name_char LF" "\<not> name_char CR" "\<not> name_char CHR ''=''"
  "\<not> name_char CHR ''.''"
  by (simp_all add: name_char_def char_le_def)

lemma name_valid_chars:
  assumes "bloomd_name_is_valid s"
  shows "s \<noteq> []" "length s \<le> 63" "NUL \<notin> set s" "slash \<notin> set s" "LF \<notin> set s" "CR \<notin> set s"
    "CHR ''.'' \<notin> set s"
  using assms name_char_not_special
  by (auto simp: bloomd_name_is_valid_def protocol_consts list_all_iff split: if_splits)

lemma name_view_valid_iff:
  assumes "len \<le> length src"
  shows "bloomd_name_view_is_valid src len = None \<longleftrightarrow>
    bloomd_name_is_valid (string_of_bytes (take len src))"
  using assms by (auto simp: bloomd_name_view_is_valid_def bloomd_name_is_valid_def)

section \<open>Paths\<close>

definition bloomd_join_path :: "string \<Rightarrow> string \<Rightarrow> string \<Rightarrow> nat \<Rightarrow> errno + string" where
  "bloomd_join_path root leaf suffix out_sz =
    (let s = root @ ''/'' @ leaf @ suffix in
     if length s \<ge> out_sz then Inl ENAMETOOLONG else Inr s)"

definition bloomd_build_pin_path :: "string \<Rightarrow> string \<Rightarrow> nat \<Rightarrow> errno + string" where
  "bloomd_build_pin_path root name out_sz = bloomd_join_path root name '''' out_sz"

definition bloomd_build_meta_path :: "string \<Rightarrow> string \<Rightarrow> nat \<Rightarrow> errno + string" where
  "bloomd_build_meta_path root name out_sz = bloomd_join_path root name ''.meta'' out_sz"

definition bloomd_build_log_path :: "string \<Rightarrow> string \<Rightarrow> nat \<Rightarrow> errno + string" where
  "bloomd_build_log_path root name out_sz = bloomd_join_path root name ''.digests'' out_sz"

lemmas build_path_defs = bloomd_build_pin_path_def bloomd_build_meta_path_def
  bloomd_build_log_path_def bloomd_join_path_def Let_def

definition bloomd_has_suffix :: "string \<Rightarrow> string \<Rightarrow> bool" where
  "bloomd_has_suffix name suffix =
    (if length name < length suffix then False
     else drop (length name - length suffix) name = suffix)"

definition bloomd_meta_entry_name :: "string \<Rightarrow> errno + string" where
  "bloomd_meta_entry_name entry =
    (if \<not> bloomd_has_suffix entry ''.meta'' then Inl EINVAL
     else let len = length entry - length ''.meta'' in
       if len = 0 \<or> len > BLOOMD_MAX_NAME_LEN then Inl EINVAL
       else let out = take len entry in
         if bloomd_name_is_valid out then Inr out else Inl EINVAL)"

text \<open>\<open>strrchr(path, '/')\<close> returns the text from the last slash on.\<close>

definition strrchr_slash :: "string \<Rightarrow> string option" where
  "strrchr_slash path =
    (if slash \<in> set path then Some (slash # rev (takeWhile (\<lambda>c. c \<noteq> slash) (rev path))) else None)"

definition bloomd_path_has_name :: "string \<Rightarrow> string \<Rightarrow> bool" where
  "bloomd_path_has_name path name =
    (case strrchr_slash path of None \<Rightarrow> False | Some s \<Rightarrow> tl s = name)"

definition bloomd_path_under_root :: "string \<Rightarrow> string \<Rightarrow> bool" where
  "bloomd_path_under_root path root \<longleftrightarrow>
     take (length root) path = root \<and>
     (length path = length root \<or> length path > length root \<and> path ! length root = slash)"

text \<open>The text before the last slash; the loop stops before the first character.\<close>

definition bloomd_socket_parent :: "string \<Rightarrow> nat \<Rightarrow> errno + string" where
  "bloomd_socket_parent socket_path parent_sz =
    (if length socket_path \<ge> parent_sz then Inl ENAMETOOLONG
     else case find (\<lambda>i. socket_path ! i = slash) (rev [1..<length socket_path]) of
       Some i \<Rightarrow> Inr (take i socket_path)
     | None \<Rightarrow> Inl EINVAL)"

lemma join_path_Inr:
  "bloomd_join_path root leaf suffix n = Inr p \<longleftrightarrow> p = root @ ''/'' @ leaf @ suffix \<and> length p < n"
  by (auto simp: bloomd_join_path_def Let_def)

lemma join_path_leaf_inj:
  assumes "bloomd_join_path root a suffix n = Inr p" "bloomd_join_path root b suffix n = Inr p"
  shows "a = b"
  using assms by (simp add: join_path_Inr)

lemma strrchr_slash_append:
  "slash \<notin> set s \<Longrightarrow> strrchr_slash (p @ slash # s) = Some (slash # s)"
  by (auto simp: strrchr_slash_def takeWhile_append)

lemma built_pin_path_accepted:
  assumes "bloomd_build_pin_path root name n = Inr p" "bloomd_name_is_valid name"
  shows "bloomd_path_under_root p root \<and> bloomd_path_has_name p name"
proof -
  have p: "p = root @ slash # name"
    using assms(1) by (auto simp: bloomd_build_pin_path_def join_path_Inr)
  moreover have "slash \<notin> set name" using assms(2) by (rule name_valid_chars)
  ultimately show ?thesis
    by (simp add: bloomd_path_under_root_def bloomd_path_has_name_def strrchr_slash_append nth_append)
qed

lemma meta_entry_name_roundtrip:
  assumes "bloomd_name_is_valid name"
  shows "bloomd_meta_entry_name (name @ ''.meta'') = Inr name"
  using assms name_valid_chars [OF assms]
  by (simp add: bloomd_meta_entry_name_def bloomd_has_suffix_def Let_def protocol_consts)

lemma meta_entry_name_Inr:
  assumes "bloomd_meta_entry_name entry = Inr name"
  shows "entry = name @ ''.meta''" "bloomd_name_is_valid name"
proof -
  from assms have h: "bloomd_has_suffix entry ''.meta''" "name = take (length entry - 5) entry"
    "bloomd_name_is_valid name"
    by (auto simp: bloomd_meta_entry_name_def Let_def eval_nat_numeral split: if_splits)
  then have "drop (length entry - 5) entry = ''.meta''"
    by (simp add: bloomd_has_suffix_def eval_nat_numeral split: if_splits)
  with h(2) show "entry = name @ ''.meta''" by (metis append_take_drop_id)
  show "bloomd_name_is_valid name" by (rule h(3))
qed

section \<open>Numbers in text\<close>

definition c_isspace :: "char \<Rightarrow> bool" where
  "c_isspace c \<longleftrightarrow> c \<in> {CHR 0x20, CHR 0x09, CHR 0x0A, CHR 0x0B, CHR 0x0C, CHR 0x0D}"

definition digit_val :: "char \<Rightarrow> int" where
  "digit_val c = of_char c - 48"

definition is_digit_of :: "int \<Rightarrow> char \<Rightarrow> bool" where
  "is_digit_of base c \<longleftrightarrow> 48 \<le> (of_char c :: int) \<and> of_char c < 48 + base"

definition digits_val :: "int \<Rightarrow> string \<Rightarrow> int" where
  "digits_val base ds = foldl (\<lambda>a c. a * base + digit_val c) 0 ds"

text \<open>\<open>strtoul (s, &end, base)\<close> for base at most 10: the value, \<open>errno\<close>, and the text at \<open>end\<close>.\<close>

definition strtoul :: "int \<Rightarrow> string \<Rightarrow> u64 \<times> rc \<times> string" where
  "strtoul base s =
    (let s1 = dropWhile c_isspace s;
         neg = (s1 \<noteq> [] \<and> hd s1 = CHR ''-'');
         s2 = (if s1 \<noteq> [] \<and> (hd s1 = CHR ''-'' \<or> hd s1 = CHR ''+'') then tl s1 else s1);
         ds = takeWhile (is_digit_of base) s2;
         rest = dropWhile (is_digit_of base) s2;
         v = digits_val base ds
     in if ds = [] then (0, None, s)
        else if v \<ge> 2 ^ 64 then (- 1, Some ERANGE, rest)
        else ((if neg then - of_int v else of_int v), None, rest))"

definition bloomd_parse_octal_mode :: "string \<Rightarrow> errno + int" where
  "bloomd_parse_octal_mode text =
    (if text = [] then Inl EINVAL
     else case strtoul 8 text of (value, err, end) \<Rightarrow>
       if err \<noteq> None \<or> end = text \<or> end \<noteq> [] \<or> uint value > 511
       then Inl EINVAL else Inr (uint value))"

datatype bloomd_log_sync_mode = LOG_SYNC_PERIODIC | LOG_SYNC_ALWAYS

definition bloomd_parse_log_sync_mode :: "string \<Rightarrow> errno + bloomd_log_sync_mode" where
  "bloomd_parse_log_sync_mode text =
    (if text = ''periodic'' then Inr LOG_SYNC_PERIODIC
     else if text = ''always'' then Inr LOG_SYNC_ALWAYS
     else Inl EINVAL)"

text \<open>Decimal printing, \<open>%u\<close> and \<open>%llu\<close>, of a number that is not negative.\<close>

definition dec_char :: "int \<Rightarrow> char" where
  "dec_char n = char_of (48 + n)"

function dec_digits :: "int \<Rightarrow> string" where
  "dec_digits n = (if n < 10 then [dec_char n] else dec_digits (n div 10) @ [dec_char (n mod 10)])"
  by pat_completeness auto
termination by (relation "measure nat") auto

declare dec_digits.simps [simp del]

lemma dec_digit_char:
  assumes "0 \<le> n" "n < 10"
  shows "is_digit_of 10 (dec_char n)" "digit_val (dec_char n) = n"
  using assms by (simp_all add: dec_char_def is_digit_of_def digit_val_def of_char_of)

lemma dec_digits_are_digits: "0 \<le> n \<Longrightarrow> list_all (is_digit_of 10) (dec_digits n)"
proof (induction n rule: dec_digits.induct)
  case (1 n)
  then show ?case
    by (cases "n < 10") (simp_all add: dec_digits.simps [of n] dec_digit_char)
qed

lemma digits_val_snoc: "digits_val b (ds @ [c]) = digits_val b ds * b + digit_val c"
  by (simp add: digits_val_def)

lemma digits_val_dec_digits: "0 \<le> n \<Longrightarrow> digits_val 10 (dec_digits n) = n"
proof (induction n rule: dec_digits.induct)
  case (1 n)
  show ?case
  proof (cases "n < 10")
    case True
    with "1.prems" show ?thesis
      by (simp add: dec_digits.simps [of n] digits_val_def dec_digit_char)
  next
    case False
    with 1 show ?thesis
      by (simp add: dec_digits.simps [of n] digits_val_snoc dec_digit_char)
  qed
qed

lemma dec_digits_neq_Nil: "dec_digits n \<noteq> []"
  by (simp add: dec_digits.simps [of n])

lemma digit_not_special:
  "is_digit_of 10 c \<Longrightarrow> \<not> c_isspace c \<and> c \<noteq> CHR ''-'' \<and> c \<noteq> CHR ''+'' \<and> c \<noteq> LF \<and> c \<noteq> CR \<and> c \<noteq> NUL"
  by (auto simp: is_digit_of_def c_isspace_def)

lemma strtoul_dec_digits:
  assumes "0 \<le> n" "n < 2 ^ 64"
  shows "strtoul 10 (dec_digits n) = (of_int n, None, [])"
proof -
  have ds: "\<forall>c\<in>set (dec_digits n). is_digit_of 10 c"
    using dec_digits_are_digits [OF assms(1)] by (simp add: list_all_iff)
  obtain c cs where c: "dec_digits n = c # cs"
    using dec_digits_neq_Nil [of n] by (cases "dec_digits n") auto
  then have "is_digit_of 10 c" using ds by simp
  note nc = digit_not_special [OF this]
  have tw: "takeWhile (is_digit_of 10) (dec_digits n) = dec_digits n"
    "dropWhile (is_digit_of 10) (dec_digits n) = []" using ds by simp_all
  have dw: "dropWhile c_isspace (dec_digits n) = dec_digits n" using nc c by simp
  show ?thesis
    unfolding strtoul_def dw Let_def using nc tw assms
    by (simp add: c digits_val_dec_digits [OF assms(1), unfolded c])
qed

end
