(* ===== verification/Doubles.thy ===== *)
theory Doubles
  imports Names_Paths
begin

text \<open>
  IEEE-754 doubles as 64-bit patterns: the comparisons the code makes on error rates, correct
  rounding of a positive rational to a double, \<open>printf("%.17g")\<close> and \<open>strtod\<close>. Only what the
  sources use is modelled: error rates are compared with 0.0 and 1.0, printed into the metadata
  file and parsed back, and turned into a hash count through \<open>ceil(log2(1.0 / rate))\<close>.
\<close>

section \<open>Fields, comparisons, value\<close>

type_synonym double = u64

definition dsign :: "double \<Rightarrow> bool" where "dsign d = bit d 63"
definition dexp :: "double \<Rightarrow> int" where "dexp d = uint (drop_bit 52 d AND 0x7FF)"
definition dfrac :: "double \<Rightarrow> int" where "dfrac d = uint (d AND 0xFFFFFFFFFFFFF)"

definition isfinite :: "double \<Rightarrow> bool" where
  "isfinite d \<longleftrightarrow> dexp d \<noteq> 2047"

text \<open>\<open>d <= 0.0\<close> and \<open>d >= 1.0\<close> for finite \<open>d\<close>.\<close>

definition dle_zero :: "double \<Rightarrow> bool" where
  "dle_zero d \<longleftrightarrow> dsign d \<or> d = 0"

definition dge_one :: "double \<Rightarrow> bool" where
  "dge_one d \<longleftrightarrow> \<not> dsign d \<and> 0x3FF0000000000000 \<le> d"

text \<open>\<open>dfinite_rate\<close> is the test on error rates that CREATE and the metadata reader share.\<close>

definition rate_ok :: "double \<Rightarrow> bool" where
  "rate_ok d \<longleftrightarrow> isfinite d \<and> \<not> dle_zero d \<and> \<not> dge_one d"

text \<open>A finite positive double is \<open>dmant d * 2 ^ dscale d\<close>.\<close>

definition dmant :: "double \<Rightarrow> int" where
  "dmant d = (if dexp d = 0 then dfrac d else 2 ^ 52 + dfrac d)"

definition dscale :: "double \<Rightarrow> int" where
  "dscale d = max (dexp d) 1 - 1075"

text \<open>Its value as a fraction.\<close>

definition dnum :: "double \<Rightarrow> int" where "dnum d = dmant d * 2 ^ nat (dscale d)"
definition dden :: "double \<Rightarrow> int" where "dden d = 2 ^ nat (- dscale d)"

section \<open>Rounding a positive fraction to a double\<close>

function bitlen :: "int \<Rightarrow> int" where
  "bitlen n = (if n \<le> 0 then 0 else 1 + bitlen (n div 2))"
  by pat_completeness auto
termination by (relation "measure nat") auto

declare bitlen.simps [simp del]

definition div_half_even :: "int \<Rightarrow> int \<Rightarrow> int" where
  "div_half_even a b =
    (let q = a div b; r = a mod b in
     if 2 * r < b then q else if 2 * r > b then q + 1 else if even q then q else q + 1)"

definition pow2_frac :: "int \<Rightarrow> int \<times> int" where
  "pow2_frac k = (2 ^ nat k, 2 ^ nat (- k))"

text \<open>\<open>floor (log 2 (p / q))\<close> for positive \<open>p\<close>, \<open>q\<close>.\<close>

definition floor_log2 :: "int \<Rightarrow> int \<Rightarrow> int" where
  "floor_log2 p q =
    (let k = bitlen p - bitlen q; (a, b) = pow2_frac k in
     if p * b \<ge> q * a then k else k - 1)"

definition round_double :: "int \<Rightarrow> int \<Rightarrow> double" where
  "round_double p q =
    (if p = 0 then 0
     else let e = max (- 1074) (floor_log2 p q - 52);
              (a, b) = pow2_frac e;
              m = div_half_even (p * b) (q * a);
              bits = (e + 1074) * 2 ^ 52 + m
          in if bits \<ge> 2047 * 2 ^ 52 then 0x7FF0000000000000 else of_int bits)"

section \<open>printf: seventeen significant digits\<close>

text \<open>
  The decimal exponent: the power of ten the leading digit stands for. Doubles reach from
  \<open>10 ^ -324\<close> to \<open>10 ^ 308\<close>, so 400 steps are enough.
\<close>

fun dec_up :: "nat \<Rightarrow> int \<Rightarrow> int \<Rightarrow> int" where
  "dec_up 0 p q = 0"
| "dec_up (Suc n) p q = (if p < 10 * q then 0 else 1 + dec_up n p (10 * q))"

fun dec_down :: "nat \<Rightarrow> int \<Rightarrow> int \<Rightarrow> int" where
  "dec_down 0 p q = 0"
| "dec_down (Suc n) p q = (if q \<le> p then 0 else dec_down n (10 * p) q - 1)"

definition dec_exponent :: "int \<Rightarrow> int \<Rightarrow> int" where
  "dec_exponent p q = (if q \<le> p then dec_up 400 p q else dec_down 400 p q)"

definition sig17 :: "int \<Rightarrow> int \<Rightarrow> int \<times> int" where
  "sig17 p q =
    (let x = dec_exponent p q;
         d = div_half_even (p * 10 ^ nat (16 - x)) (q * 10 ^ nat (x - 16))
     in if d \<ge> 10 ^ 17 then (10 ^ 16, x + 1) else (d, x))"

definition strip_zeros :: "string \<Rightarrow> string" where
  "strip_zeros s = rev (dropWhile (\<lambda>c. c = CHR ''0'') (rev s))"

definition with_point :: "string \<Rightarrow> string \<Rightarrow> string" where
  "with_point whole frac = (let f = strip_zeros frac in if f = [] then whole else whole @ ''.'' @ f)"

definition fmt_exp :: "int \<Rightarrow> string" where
  "fmt_exp x = (if x < 0 then ''e-'' else ''e+'') @
     (let n = \<bar>x\<bar> in (if n < 10 then ''0'' else '''') @ dec_digits n)"

definition fmt_g17 :: "double \<Rightarrow> string" where
  "fmt_g17 d =
    (if \<not> isfinite d then (if dfrac d = 0 then (if dsign d then ''-inf'' else ''inf'')
                          else (if dsign d then ''-nan'' else ''nan''))
     else (if dsign d then ''-'' else '''') @
       (if dmant d = 0 then ''0''
        else let (m, x) = sig17 (dnum d) (dden d); ds = dec_digits m in
          if - 4 \<le> x \<and> x < 17
          then (if x < 0 then with_point ''0'' (replicate (nat (- x - 1)) CHR ''0'' @ ds)
                else with_point (take (nat x + 1) ds) (drop (nat x + 1) ds))
          else with_point (take 1 ds) (drop 1 ds) @ fmt_exp x))"

section \<open>strtod\<close>

definition to_lower :: "char \<Rightarrow> char" where
  "to_lower c = (if char_le CHR ''A'' c \<and> char_le c CHR ''Z'' then char_of (of_char c + 32 :: int) else c)"

definition has_prefix_ci :: "string \<Rightarrow> string \<Rightarrow> bool" where
  "has_prefix_ci pre s \<longleftrightarrow> map to_lower (take (length pre) s) = pre"

definition is_hex :: "char \<Rightarrow> bool" where
  "is_hex c \<longleftrightarrow> is_digit_of 10 c \<or> char_le CHR ''a'' (to_lower c) \<and> char_le (to_lower c) CHR ''f''"

definition hex_val :: "char \<Rightarrow> int" where
  "hex_val c = (if is_digit_of 10 c then digit_val c else of_char (to_lower c) - 87)"

text \<open>Digits, an optional point and more digits: the digits before and after, and the rest.\<close>

definition scan_mantissa :: "(char \<Rightarrow> bool) \<Rightarrow> string \<Rightarrow> string \<times> string \<times> string" where
  "scan_mantissa isd s =
    (let w = takeWhile isd s; r = dropWhile isd s in
     if r \<noteq> [] \<and> hd r = CHR ''.'' \<and> (w \<noteq> [] \<or> takeWhile isd (tl r) \<noteq> [])
     then (w, takeWhile isd (tl r), dropWhile isd (tl r)) else (w, [], r))"

text \<open>An optional exponent introduced by \<open>mark\<close>; the text is left alone when no digit follows.\<close>

definition scan_exponent :: "char \<Rightarrow> string \<Rightarrow> int \<times> string" where
  "scan_exponent mark s =
    (if s \<noteq> [] \<and> to_lower (hd s) = mark
     then let t = tl s;
              neg = (t \<noteq> [] \<and> hd t = CHR ''-'');
              u = (if t \<noteq> [] \<and> (hd t = CHR ''-'' \<or> hd t = CHR ''+'') then tl t else t);
              ds = takeWhile (is_digit_of 10) u
          in if ds = [] then (0, s)
             else ((if neg then - digits_val 10 ds else digits_val 10 ds),
                   dropWhile (is_digit_of 10) u)
     else (0, s))"

text \<open>
  The sign is put on the pattern; \<open>ERANGE\<close> on overflow and, as glibc does, when the result is
  subnormal or zero and not exact.
\<close>

definition put_sign :: "bool \<Rightarrow> double \<Rightarrow> double" where
  "put_sign neg d = (if neg then d OR 0x8000000000000000 else d)"

definition round_result :: "bool \<Rightarrow> int \<Rightarrow> int \<Rightarrow> double \<times> rc" where
  "round_result neg p q =
    (let d = round_double p q in
     (put_sign neg d,
      if \<not> isfinite d then Some ERANGE
      else if dexp d = 0 \<and> dnum d * q \<noteq> p * dden d then Some ERANGE
      else None))"

definition strtod :: "string \<Rightarrow> double \<times> rc \<times> string" where
  "strtod s =
    (let s1 = dropWhile c_isspace s;
         neg = (s1 \<noteq> [] \<and> hd s1 = CHR ''-'');
         s2 = (if s1 \<noteq> [] \<and> (hd s1 = CHR ''-'' \<or> hd s1 = CHR ''+'') then tl s1 else s1)
     in if has_prefix_ci ''infinity'' s2 then (put_sign neg 0x7FF0000000000000, None, drop 8 s2)
        else if has_prefix_ci ''inf'' s2 then (put_sign neg 0x7FF0000000000000, None, drop 3 s2)
        else if has_prefix_ci ''nan'' s2 then (put_sign neg 0x7FF8000000000000, None, drop 3 s2)
        else let (hw, hf, hr) = scan_mantissa is_hex (drop 2 s2) in
          if has_prefix_ci ''0x'' s2 \<and> hw @ hf \<noteq> []
          then let (x, r) = scan_exponent CHR ''p'' hr;
                   m = foldl (\<lambda>a c. a * 16 + hex_val c) 0 (hw @ hf);
                   k = x - 4 * int (length hf);
                   (v, e) = round_result neg (m * 2 ^ nat k) (2 ^ nat (- k))
               in (v, e, r)
          else let (w, f, r) = scan_mantissa (is_digit_of 10) s2 in
            if w @ f = [] then (0, None, s)
            else let (x, r) = scan_exponent CHR ''e'' r;
                     k = x - int (length f);
                     (v, e) = round_result neg (digits_val 10 (w @ f) * 10 ^ nat k) (10 ^ nat (- k))
                 in (v, e, r))"

section \<open>The hash count of an error rate\<close>

text \<open>
  \<open>1.0 / rate\<close> is correctly rounded; \<open>log2\<close> of the mathematics library is the parameter
  \<open>log2\<close>. \<open>ceil\<close> of a finite double is an integer, of an infinite one the same infinity.
\<close>

definition dceil :: "double \<Rightarrow> int" where
  "dceil d = (if dsign d then - (dnum d div dden d) else - ((- dnum d) div dden d))"

definition dnan :: "double \<Rightarrow> bool" where
  "dnan d \<longleftrightarrow> dexp d = 2047 \<and> dfrac d \<noteq> 0"

text \<open>
  A comparison with a NaN is false, so both tests fail for a NaN and the value reaches the cast,
  which C leaves undefined there: the parameter \<open>nan_cast\<close>.
\<close>

definition bloomd_hashes_for_error_rate :: "(double \<Rightarrow> double) \<Rightarrow> u32 \<Rightarrow> double \<Rightarrow> u32" where
  "bloomd_hashes_for_error_rate log2 nan_cast rate =
    (if \<not> isfinite rate \<or> dle_zero rate \<or> dge_one rate then 0
     else let l = log2 (round_double (dden rate) (dnum rate)) in
       if dnan l then nan_cast
       else if \<not> isfinite l then (if dsign l then 1 else 15)
       else let hashes = dceil l in
         if hashes < 1 then 1 else if hashes > 15 then 15 else of_int hashes)"

text \<open>Rounding a non-negative fraction never gives a NaN.\<close>

lemma exp_of_bits:
  assumes "0 \<le> bits" "bits < 2047 * 2 ^ 52"
  shows "dexp (of_int bits) \<noteq> 2047"
proof -
  have u: "uint (of_int bits :: double) = bits"
    using assms by (simp add: uint_word_of_int_eq take_bit_int_eq_self)
  have m: "(0x7FF :: double) = mask 11" by (simp add: mask_eq_exp_minus_1)
  have d: "take_bit LENGTH(64) bits = bits" using assms by (simp add: take_bit_int_eq_self)
  have "drop_bit 52 (of_int bits :: double) AND 0x7FF = take_bit 11 (drop_bit 52 (of_int bits))"
    unfolding m by (simp only: take_bit_eq_mask)
  then have "uint (drop_bit 52 (of_int bits :: double) AND 0x7FF) = take_bit 11 (drop_bit 52 bits)"
    by (simp only: unsigned_take_bit_eq unsigned_drop_bit_eq u d)
  then have "uint (drop_bit 52 (of_int bits :: double) AND 0x7FF) = take_bit 11 (bits div 2 ^ 52)"
    unfolding drop_bit_eq_div [of 52 bits] .
  moreover have "bits div 2 ^ 52 < 2047" using assms by simp
  moreover have "take_bit 11 (bits div 2 ^ 52) \<le> bits div 2 ^ 52"
    using assms by (simp add: take_bit_eq_mod zmod_le_nonneg_dividend)
  ultimately show ?thesis by (simp add: dexp_def)
qed

lemma div_half_even_nonneg: "0 \<le> a \<Longrightarrow> 0 < b \<Longrightarrow> 0 \<le> div_half_even a b"
  by (simp add: div_half_even_def Let_def pos_imp_zdiv_nonneg_iff)

lemma round_double_not_nan:
  assumes "0 \<le> p" "0 < q"
  shows "\<not> dnan (round_double p q)"
proof -
  define e where "e = max (- 1074) (floor_log2 p q - 52)"
  let ?bits = "(e + 1074) * 2 ^ 52 + div_half_even (p * 2 ^ nat (- e)) (q * 2 ^ nat e)"
  have e0: "0 \<le> e + 1074" by (simp add: e_def)
  have "0 \<le> div_half_even (p * 2 ^ nat (- e)) (q * 2 ^ nat e)"
    using assms by (intro div_half_even_nonneg) simp_all
  moreover have "0 \<le> (e + 1074) * 2 ^ 52" by (rule mult_nonneg_nonneg [OF e0]) simp
  ultimately have b: "0 \<le> ?bits" by (rule add_nonneg_nonneg [rotated])
  have z: "dexp 0 \<noteq> 2047" "dfrac 0x7FF0000000000000 = 0" by (simp_all add: dexp_def dfrac_def)
  have r: "round_double p q = (if p = 0 then 0 else if ?bits \<ge> 2047 * 2 ^ 52 then 0x7FF0000000000000 else of_int ?bits)"
    unfolding round_double_def e_def pow2_frac_def Let_def by simp
  show ?thesis
    unfolding r dnan_def using z exp_of_bits [OF b] by auto
qed

end
