(* ===== verification/Bpf_Kernel.thy ===== *)
theory Bpf_Kernel
  imports Os_World Doubles
begin

text \<open>
  The kernel interface of \<open>src/src/bpf.c\<close>. The \<open>bpf(2)\<close> system call, \<open>close\<close> on a map descriptor
  and \<open>unlink\<close> on a bpffs path act on an abstract kernel state and are parameters, collected in
  an environment record; so are \<open>realloc\<close>'s success, \<open>log2\<close>, the process id, the names
  \<open>readdir\<close> returns for a directory (in its order), the file system type \<open>statfs\<close> reports
  (\<^term>\<open>None\<close> when it fails) and \<open>time\<close>. The functions of
  \<open>bpf.c\<close> are translated over them. The locale \<open>bpf_kernel\<close> states what the daemon relies on:
  what each command does to descriptors, pins and the digests a map holds, and above all that a
  digest pushed into a Bloom map is never reported absent.
\<close>

section \<open>The system call\<close>

definition BPF_MAP_TYPE_BLOOM_FILTER :: u32 where "BPF_MAP_TYPE_BLOOM_FILTER = 30"
definition BPF_OBJ_NAME_LEN :: nat where "BPF_OBJ_NAME_LEN = 16"

record bloomd_bpf_map_info =
  mi_type :: u32
  mi_key_size :: u32
  mi_value_size :: u32
  mi_max_entries :: u32
  mi_map_extra :: u64

record map_create_attr =
  ca_map_type :: u32
  ca_key_size :: u32
  ca_value_size :: u32
  ca_max_entries :: u32
  ca_map_extra :: u64
  ca_map_name :: string

datatype bpf_attr =
    BPF_MAP_CREATE map_create_attr
  | BPF_OBJ_GET string
  | BPF_OBJ_PIN int string
  | BPF_MAP_UPDATE_ELEM int "byte list"
  | BPF_MAP_LOOKUP_ELEM int "byte list"
  | BPF_OBJ_GET_INFO_BY_FD int

text \<open>The return value, \<open>errno\<close>, and the information structure the kernel filled in.\<close>

record bpf_ret =
  br_ret :: int
  br_errno :: errno
  br_info :: bloomd_bpf_map_info

record 'k env =
  sys_bpf :: "bpf_attr \<Rightarrow> 'k \<Rightarrow> bpf_ret \<times> 'k"
  close_map :: "int \<Rightarrow> 'k \<Rightarrow> 'k"
  unlink_pin :: "string \<Rightarrow> 'k \<Rightarrow> rc \<times> 'k"
  mem :: "nat \<Rightarrow> bool"
  libm_log2 :: "double \<Rightarrow> double"
  nan_cast :: u32
  getpid :: int
  sys_readdir :: "string \<Rightarrow> 'k world \<Rightarrow> errno + string list"
  fs_magic :: "string \<Rightarrow> int option"
  time_now :: "'k world \<Rightarrow> int"

definition bloomd_sys_bpf :: "'k env \<Rightarrow> bpf_attr \<Rightarrow> 'k world \<Rightarrow> bpf_ret \<times> 'k world" where
  "bloomd_sys_bpf E attr w = (case sys_bpf E attr (kern w) of (r, k) \<Rightarrow> (r, w\<lparr>kern := k\<rparr>))"

section \<open>The functions of bpf.c\<close>

text \<open>Every caller passes a 256-byte message buffer.\<close>

type_synonym err = "errno \<times> string"

definition errcap :: nat where "errcap = 256"

definition bloomd_errmsg :: "string \<Rightarrow> string" where
  "bloomd_errmsg msg = snprintf_to errcap msg"

definition bloomd_errno_msg :: "string \<Rightarrow> errno \<Rightarrow> string" where
  "bloomd_errno_msg prefix e = snprintf_to errcap (prefix @ '': '' @ strerror e)"

definition map_name_char :: "char \<Rightarrow> char" where
  "map_name_char ch =
    (if char_le CHR ''a'' ch \<and> char_le ch CHR ''z'' \<or> char_le CHR ''A'' ch \<and> char_le ch CHR ''Z'' \<or>
        char_le CHR ''0'' ch \<and> char_le ch CHR ''9'' \<or> ch = CHR ''_''
     then ch else CHR ''_'')"

definition bloomd_map_name :: "string \<Rightarrow> string" where
  "bloomd_map_name name = ''bd_'' @ map map_name_char (take (BPF_OBJ_NAME_LEN - 1 - 3) name)"

definition bloomd_bpf_probe_support :: "'k env \<Rightarrow> 'k world \<Rightarrow> err option \<times> 'k world" where
  "bloomd_bpf_probe_support E w =
    (case bloomd_sys_bpf E (BPF_MAP_CREATE
        \<lparr>ca_map_type = BPF_MAP_TYPE_BLOOM_FILTER, ca_key_size = 0, ca_value_size = 16,
         ca_max_entries = 64, ca_map_extra = 5, ca_map_name = bloomd_map_name ''probe''\<rparr>) w of
       (r, w) \<Rightarrow>
         if br_ret r \<ge> 0 then (None, w\<lparr>kern := close_map E (br_ret r) (kern w)\<rparr>)
         else let e = br_errno r in
           if e = EINVAL \<or> e = EOPNOTSUPP \<or> e = ENOSYS
           then (Some (EOPNOTSUPP, bloomd_errmsg
                   ''kernel/userspace does not support BPF_MAP_TYPE_BLOOM_FILTER''), w)
           else if e = EPERM \<or> e = EACCES
           then (Some (EPERM, bloomd_errmsg (''BPF Bloom map probe failed due to insufficient privilege '' @
                   ''(need CAP_BPF/CAP_SYS_ADMIN or equivalent)'')), w)
           else (Some (e, bloomd_errno_msg ''BPF Bloom map probe failed'' e), w))"

definition bloomd_bpf_open_pinned :: "'k env \<Rightarrow> string \<Rightarrow> 'k world \<Rightarrow> (errno + int) \<times> 'k world" where
  "bloomd_bpf_open_pinned E path w =
    (case bloomd_sys_bpf E (BPF_OBJ_GET path) w of
       (r, w) \<Rightarrow> (if br_ret r < 0 then Inl (br_errno r) else Inr (br_ret r), w))"

definition bloomd_bpf_create_map ::
  "'k env \<Rightarrow> string \<Rightarrow> u64 \<Rightarrow> u32 \<Rightarrow> 'k world \<Rightarrow> (err + int) \<times> 'k world" where
  "bloomd_bpf_create_map E name capacity hashes w =
    (if capacity = 0 \<or> capacity > 0xFFFFFFFF
     then (Inl (ERANGE, bloomd_errmsg ''capacity must fit in a 32-bit max_entries field''), w)
     else if hashes > 15
     then (Inl (ERANGE, bloomd_errmsg ''hash count must be between 0 and 15''), w)
     else (case bloomd_sys_bpf E (BPF_MAP_CREATE
             \<lparr>ca_map_type = BPF_MAP_TYPE_BLOOM_FILTER, ca_key_size = 0, ca_value_size = 16,
              ca_max_entries = ucast capacity, ca_map_extra = ucast (hashes AND 0x0f),
              ca_map_name = bloomd_map_name name\<rparr>) w of
            (r, w) \<Rightarrow>
              if br_ret r < 0
              then (Inl (br_errno r, bloomd_errno_msg ''BPF_MAP_CREATE failed'' (br_errno r)), w)
              else (Inr (br_ret r), w)))"

definition bloomd_bpf_pin_map ::
  "'k env \<Rightarrow> int \<Rightarrow> string \<Rightarrow> 'k world \<Rightarrow> err option \<times> 'k world" where
  "bloomd_bpf_pin_map E fd path w =
    (case bloomd_sys_bpf E (BPF_OBJ_PIN fd path) w of
       (r, w) \<Rightarrow>
         if br_ret r \<noteq> 0
         then (Some (br_errno r, bloomd_errno_msg ''BPF_OBJ_PIN failed'' (br_errno r)), w)
         else (None, w))"

definition bloomd_bpf_add_digest ::
  "'k env \<Rightarrow> int \<Rightarrow> byte list \<Rightarrow> 'k world \<Rightarrow> err option \<times> 'k world" where
  "bloomd_bpf_add_digest E fd digest w =
    (case bloomd_sys_bpf E (BPF_MAP_UPDATE_ELEM fd digest) w of
       (r, w) \<Rightarrow>
         if br_ret r \<noteq> 0
         then (Some (br_errno r, bloomd_errno_msg ''BPF_MAP_UPDATE_ELEM failed'' (br_errno r)), w)
         else (None, w))"

definition bloomd_bpf_check_digest ::
  "'k env \<Rightarrow> int \<Rightarrow> byte list \<Rightarrow> 'k world \<Rightarrow> (err + bool) \<times> 'k world" where
  "bloomd_bpf_check_digest E fd digest w =
    (case bloomd_sys_bpf E (BPF_MAP_LOOKUP_ELEM fd digest) w of
       (r, w) \<Rightarrow>
         if br_ret r = 0 then (Inr True, w)
         else if br_errno r = ENOENT then (Inr False, w)
         else (Inl (br_errno r, bloomd_errno_msg ''BPF_MAP_LOOKUP_ELEM failed'' (br_errno r)), w))"

definition bloomd_bpf_get_map_info ::
  "'k env \<Rightarrow> int \<Rightarrow> 'k world \<Rightarrow> (err + bloomd_bpf_map_info) \<times> 'k world" where
  "bloomd_bpf_get_map_info E fd w =
    (if fd < 0 then (Inl (EINVAL, ''''), w)
     else (case bloomd_sys_bpf E (BPF_OBJ_GET_INFO_BY_FD fd) w of
       (r, w) \<Rightarrow>
         if br_ret r \<noteq> 0
         then (Inl (br_errno r, bloomd_errno_msg ''BPF_OBJ_GET_INFO_BY_FD failed'' (br_errno r)), w)
         else (Inr (br_info r), w)))"

definition bloomd_bpf_unpin :: "'k env \<Rightarrow> string \<Rightarrow> 'k world \<Rightarrow> err option \<times> 'k world" where
  "bloomd_bpf_unpin E path w =
    (case unlink_pin E path (kern w) of
       (r, k) \<Rightarrow>
         (case r of
            None \<Rightarrow> None
          | Some e \<Rightarrow> if e = ENOENT then None else Some (e, bloomd_errno_msg ''unlink failed'' e),
          w\<lparr>kern := k\<rparr>))"

text \<open>\<open>bloomd_bpf_close (&fd)\<close>: the descriptor left in the variable, and the world.\<close>

definition bloomd_bpf_close :: "'k env \<Rightarrow> int \<Rightarrow> 'k world \<Rightarrow> int \<times> 'k world" where
  "bloomd_bpf_close E fd w =
    (if fd \<ge> 0 then (- 1, w\<lparr>kern := close_map E fd (kern w)\<rparr>) else (fd, w))"

lemmas bpf_call_defs = bloomd_sys_bpf_def bloomd_bpf_open_pinned_def bloomd_bpf_pin_map_def
  bloomd_bpf_add_digest_def bloomd_bpf_check_digest_def bloomd_bpf_unpin_def bloomd_bpf_close_def

lemma bloomd_map_name_length: "length (bloomd_map_name name) < BPF_OBJ_NAME_LEN"
  by (simp add: bloomd_map_name_def BPF_OBJ_NAME_LEN_def)

section \<open>What the daemon relies on\<close>

text \<open>
  Observers of the kernel state: \<open>obj k fd\<close> is the map behind a descriptor, \<open>pinned k path\<close> the map
  behind a pin, \<open>held k m\<close> the digests pushed into map \<open>m\<close> so far. The laws are those of
  \<open>bpf(2)\<close>: a created map is new and empty, a command that fails changes nothing, opening a pin
  answers \<open>ENOENT\<close> only where nothing is pinned, a pin refuses an existing path, an update adds the digest to the one map behind the descriptor, and a lookup of
  a digest the map holds does not answer \<open>ENOENT\<close>.
\<close>

locale bpf_kernel =
  fixes E :: "'k env"
    and kinv :: "'k \<Rightarrow> bool"
    and obj :: "'k \<Rightarrow> int \<Rightarrow> nat option"
    and held :: "'k \<Rightarrow> nat \<Rightarrow> byte list set"
    and pinned :: "'k \<Rightarrow> string \<Rightarrow> nat option"
  assumes inv_bpf: "kinv k \<Longrightarrow> kinv (snd (sys_bpf E a k))"
    and inv_close: "kinv k \<Longrightarrow> kinv (close_map E fd k)"
    and inv_unlink: "kinv k \<Longrightarrow> kinv (snd (unlink_pin E path k))"
    and create_ok: "\<lbrakk>kinv k; sys_bpf E (BPF_MAP_CREATE c) k = (r, k'); br_ret r \<ge> 0\<rbrakk> \<Longrightarrow>
      obj k (br_ret r) = None \<and>
      (\<exists>m. (\<forall>fd. obj k fd \<noteq> Some m) \<and> (\<forall>p. pinned k p \<noteq> Some m) \<and>
        obj k' = (obj k)(br_ret r \<mapsto> m) \<and> held k' = (held k)(m := {}) \<and> pinned k' = pinned k)"
    and create_err: "\<lbrakk>kinv k; sys_bpf E (BPF_MAP_CREATE c) k = (r, k'); br_ret r < 0\<rbrakk> \<Longrightarrow>
      obj k' = obj k \<and> held k' = held k \<and> pinned k' = pinned k"
    and get_ok: "\<lbrakk>kinv k; sys_bpf E (BPF_OBJ_GET p) k = (r, k'); br_ret r \<ge> 0\<rbrakk> \<Longrightarrow>
      obj k (br_ret r) = None \<and> pinned k p \<noteq> None \<and>
      obj k' = (obj k)(br_ret r := pinned k p) \<and> held k' = held k \<and> pinned k' = pinned k"
    and get_err: "\<lbrakk>kinv k; sys_bpf E (BPF_OBJ_GET p) k = (r, k'); br_ret r < 0\<rbrakk> \<Longrightarrow>
      obj k' = obj k \<and> held k' = held k \<and> pinned k' = pinned k"
    and get_enoent: "\<lbrakk>kinv k; sys_bpf E (BPF_OBJ_GET p) k = (r, k'); br_ret r < 0;
      br_errno r = ENOENT\<rbrakk> \<Longrightarrow> pinned k p = None"
    and pin_ok: "\<lbrakk>kinv k; sys_bpf E (BPF_OBJ_PIN fd p) k = (r, k'); br_ret r = 0\<rbrakk> \<Longrightarrow>
      pinned k p = None \<and> obj k fd \<noteq> None \<and> obj k' = obj k \<and> held k' = held k \<and>
      pinned k' = (pinned k)(p := obj k fd)"
    and pin_err: "\<lbrakk>kinv k; sys_bpf E (BPF_OBJ_PIN fd p) k = (r, k'); br_ret r \<noteq> 0\<rbrakk> \<Longrightarrow>
      obj k' = obj k \<and> held k' = held k \<and> pinned k' = pinned k"
    and update_ok: "\<lbrakk>kinv k; sys_bpf E (BPF_MAP_UPDATE_ELEM fd d) k = (r, k'); br_ret r = 0\<rbrakk> \<Longrightarrow>
      (\<exists>m. obj k fd = Some m \<and> held k' = (held k)(m := insert d (held k m))) \<and>
      obj k' = obj k \<and> pinned k' = pinned k"
    and update_err: "\<lbrakk>kinv k; sys_bpf E (BPF_MAP_UPDATE_ELEM fd d) k = (r, k'); br_ret r \<noteq> 0\<rbrakk> \<Longrightarrow>
      obj k' = obj k \<and> held k' = held k \<and> pinned k' = pinned k"
    and lookup_frame: "\<lbrakk>kinv k; sys_bpf E (BPF_MAP_LOOKUP_ELEM fd d) k = (r, k')\<rbrakk> \<Longrightarrow>
      obj k' = obj k \<and> held k' = held k \<and> pinned k' = pinned k"
    and lookup_held: "\<lbrakk>kinv k; sys_bpf E (BPF_MAP_LOOKUP_ELEM fd d) k = (r, k');
      obj k fd = Some m; d \<in> held k m\<rbrakk> \<Longrightarrow> br_ret r = 0 \<or> br_errno r \<noteq> ENOENT"
    and info_frame: "\<lbrakk>kinv k; sys_bpf E (BPF_OBJ_GET_INFO_BY_FD fd) k = (r, k')\<rbrakk> \<Longrightarrow>
      obj k' = obj k \<and> held k' = held k \<and> pinned k' = pinned k"
    and close_obs: "kinv k \<Longrightarrow> obj (close_map E fd k) = (obj k)(fd := None) \<and>
      held (close_map E fd k) = held k \<and> pinned (close_map E fd k) = pinned k"
    and unlink_ok: "\<lbrakk>kinv k; unlink_pin E p k = (None, k')\<rbrakk> \<Longrightarrow>
      obj k' = obj k \<and> held k' = held k \<and> pinned k' = (pinned k)(p := None)"
    and unlink_err: "\<lbrakk>kinv k; unlink_pin E p k = (Some e, k')\<rbrakk> \<Longrightarrow>
      obj k' = obj k \<and> held k' = held k \<and> pinned k' = pinned k"
begin

lemma add_digest_ok:
  assumes "kinv (kern w)" "bloomd_bpf_add_digest E fd d w = (None, w')"
  shows "\<exists>m. obj (kern w) fd = Some m \<and>
      held (kern w') = (held (kern w))(m := insert d (held (kern w) m))"
    "obj (kern w') = obj (kern w)" "pinned (kern w') = pinned (kern w)" "kinv (kern w')"
    "w' = w\<lparr>kern := kern w'\<rparr>"
  using assms update_ok [OF assms(1)] inv_bpf [OF assms(1), of "BPF_MAP_UPDATE_ELEM fd d"]
  by (auto simp: bpf_call_defs split: prod.splits if_splits)

lemma add_digest_err:
  assumes "kinv (kern w)" "bloomd_bpf_add_digest E fd d w = (Some x, w')"
  shows "obj (kern w') = obj (kern w)" "held (kern w') = held (kern w)"
    "pinned (kern w') = pinned (kern w)" "kinv (kern w')" "w' = w\<lparr>kern := kern w'\<rparr>"
  using assms update_err [OF assms(1)] inv_bpf [OF assms(1), of "BPF_MAP_UPDATE_ELEM fd d"]
  by (auto simp: bpf_call_defs split: prod.splits if_splits)

lemma check_digest_obs:
  assumes "kinv (kern w)" "bloomd_bpf_check_digest E fd d w = (r, w')"
  shows "obj (kern w') = obj (kern w)" "held (kern w') = held (kern w)"
    "pinned (kern w') = pinned (kern w)" "kinv (kern w')" "w' = w\<lparr>kern := kern w'\<rparr>"
  using assms lookup_frame [OF assms(1)] inv_bpf [OF assms(1), of "BPF_MAP_LOOKUP_ELEM fd d"]
  by (auto simp: bpf_call_defs split: prod.splits if_splits)

lemma check_digest_held:
  assumes "kinv (kern w)" "obj (kern w) fd = Some m" "d \<in> held (kern w) m"
  shows "fst (bloomd_bpf_check_digest E fd d w) \<noteq> Inr False"
  using lookup_held [OF assms(1) _ assms(2,3)]
  by (auto simp: bpf_call_defs split: prod.splits)

lemma pin_map_ok:
  assumes "kinv (kern w)" "bloomd_bpf_pin_map E fd p w = (None, w')"
  shows "pinned (kern w) p = None" "obj (kern w) fd \<noteq> None" "obj (kern w') = obj (kern w)"
    "held (kern w') = held (kern w)" "pinned (kern w') = (pinned (kern w))(p := obj (kern w) fd)"
    "kinv (kern w')" "w' = w\<lparr>kern := kern w'\<rparr>"
  using assms pin_ok [OF assms(1)] inv_bpf [OF assms(1), of "BPF_OBJ_PIN fd p"]
  by (auto simp: bpf_call_defs split: prod.splits if_splits)

lemma pin_map_err:
  assumes "kinv (kern w)" "bloomd_bpf_pin_map E fd p w = (Some x, w')"
  shows "obj (kern w') = obj (kern w)" "held (kern w') = held (kern w)"
    "pinned (kern w') = pinned (kern w)" "kinv (kern w')" "w' = w\<lparr>kern := kern w'\<rparr>"
  using assms pin_err [OF assms(1)] inv_bpf [OF assms(1), of "BPF_OBJ_PIN fd p"]
  by (auto simp: bpf_call_defs split: prod.splits if_splits)

lemma unpin_obs:
  assumes "kinv (kern w)" "bloomd_bpf_unpin E p w = (r, w')"
  shows "obj (kern w') = obj (kern w)" "held (kern w') = held (kern w)"
    "pinned (kern w') = pinned (kern w) \<or> pinned (kern w') = (pinned (kern w))(p := None)"
    "kinv (kern w')" "w' = w\<lparr>kern := kern w'\<rparr>"
  using assms unlink_ok [OF assms(1)] unlink_err [OF assms(1)] inv_unlink [OF assms(1), of p]
  by (auto simp: bpf_call_defs split: prod.splits option.splits if_splits)

lemma create_map_ok:
  assumes "kinv (kern w)" "bloomd_bpf_create_map E n c h w = (Inr fd, w')"
  shows "fd \<ge> 0" "obj (kern w) fd = None"
    "\<exists>m. (\<forall>fd. obj (kern w) fd \<noteq> Some m) \<and> (\<forall>p. pinned (kern w) p \<noteq> Some m) \<and>
      obj (kern w') = (obj (kern w))(fd \<mapsto> m) \<and> held (kern w') = (held (kern w))(m := {}) \<and>
      pinned (kern w') = pinned (kern w)"
    "kinv (kern w')" "w' = w\<lparr>kern := kern w'\<rparr>" "c \<noteq> 0" "c \<le> 0xFFFFFFFF" "h \<le> 15"
proof -
  from assms(2) obtain a r k where *: "sys_bpf E (BPF_MAP_CREATE a) (kern w) = (r, k)"
    "br_ret r \<ge> 0" "fd = br_ret r" "w' = w\<lparr>kern := k\<rparr>"
    and g: "c \<noteq> 0" "c \<le> 0xFFFFFFFF" "h \<le> 15"
    by (auto simp: bloomd_bpf_create_map_def bloomd_sys_bpf_def not_less
      split: if_splits prod.splits)
  show "fd \<ge> 0" "obj (kern w) fd = None"
    "\<exists>m. (\<forall>fd. obj (kern w) fd \<noteq> Some m) \<and> (\<forall>p. pinned (kern w) p \<noteq> Some m) \<and>
      obj (kern w') = (obj (kern w))(fd \<mapsto> m) \<and> held (kern w') = (held (kern w))(m := {}) \<and>
      pinned (kern w') = pinned (kern w)"
    "w' = w\<lparr>kern := kern w'\<rparr>" "c \<noteq> 0" "c \<le> 0xFFFFFFFF" "h \<le> 15"
    using create_ok [OF assms(1) *(1,2)] * g by simp_all
  show "kinv (kern w')" using inv_bpf [OF assms(1), of "BPF_MAP_CREATE a"] * by simp
qed

lemma create_map_err:
  assumes "kinv (kern w)" "bloomd_bpf_create_map E n c h w = (Inl x, w')"
  shows "obj (kern w') = obj (kern w)" "held (kern w') = held (kern w)"
    "pinned (kern w') = pinned (kern w)" "kinv (kern w')" "w' = w\<lparr>kern := kern w'\<rparr>"
  using assms create_err [OF assms(1)] inv_bpf [OF assms(1)]
  by (auto simp: bloomd_bpf_create_map_def bloomd_sys_bpf_def split: prod.splits if_splits)
    (metis snd_conv)

lemma open_pinned_ok:
  assumes "kinv (kern w)" "bloomd_bpf_open_pinned E p w = (Inr fd, w')"
  shows "fd \<ge> 0" "obj (kern w) fd = None" "pinned (kern w) p \<noteq> None"
    "obj (kern w') = (obj (kern w))(fd := pinned (kern w) p)" "held (kern w') = held (kern w)"
    "pinned (kern w') = pinned (kern w)" "kinv (kern w')" "w' = w\<lparr>kern := kern w'\<rparr>"
  using assms get_ok [OF assms(1), of p] inv_bpf [OF assms(1), of "BPF_OBJ_GET p"]
  by (auto simp: bpf_call_defs split: prod.splits if_splits)

lemma open_pinned_err:
  assumes "kinv (kern w)" "bloomd_bpf_open_pinned E p w = (Inl e, w')"
  shows "obj (kern w') = obj (kern w)" "held (kern w') = held (kern w)"
    "pinned (kern w') = pinned (kern w)" "kinv (kern w')" "w' = w\<lparr>kern := kern w'\<rparr>"
    "e = ENOENT \<Longrightarrow> pinned (kern w) p = None"
  using assms get_err [OF assms(1), of p] get_enoent [OF assms(1), of p]
    inv_bpf [OF assms(1), of "BPF_OBJ_GET p"]
  by (auto simp: bpf_call_defs split: prod.splits if_splits)

lemma map_info_obs:
  assumes "kinv (kern w)" "bloomd_bpf_get_map_info E fd w = (r, w')"
  shows "obj (kern w') = obj (kern w)" "held (kern w') = held (kern w)"
    "pinned (kern w') = pinned (kern w)" "kinv (kern w')" "w' = w\<lparr>kern := kern w'\<rparr>"
  using assms info_frame [OF assms(1), of fd] inv_bpf [OF assms(1), of "BPF_OBJ_GET_INFO_BY_FD fd"]
  by (auto simp: bloomd_bpf_get_map_info_def bpf_call_defs split: prod.splits if_splits)

lemma close_map_obs:
  assumes "kinv (kern w)" "bloomd_bpf_close E fd w = (fd', w')"
  shows "obj (kern w') = (if fd \<ge> 0 then (obj (kern w))(fd := None) else obj (kern w))"
    "held (kern w') = held (kern w)" "pinned (kern w') = pinned (kern w)" "kinv (kern w')"
    "w' = w\<lparr>kern := kern w'\<rparr>" "fd' < 0"
  using assms close_obs [OF assms(1)] inv_close [OF assms(1)]
  by (auto simp: bpf_call_defs split: if_splits)

end

end
