(* ===== verification/Mock_Kernel.thy ===== *)
theory Mock_Kernel
  imports Bpf_Kernel
begin

text \<open>
  The kernel the repository's own recovery test runs the daemon against
  (\<open>src/tests/test_recovery_log_state.c\<close>, installed through \<open>bloomd_bpf_set_mock_syscall\<close>): up to
  eight maps that store digests exactly, up to eight pins, descriptors that are duplicates of a
  memory file whose inode identifies the map. It provides every law of \<open>bpf_kernel\<close>, so the
  contract can be met, and it is the kernel the concrete examples of the development run on.
  Paths here are shorter than \<open>PATH_MAX\<close>, so the \<open>snprintf\<close> into a pin entry keeps them whole.
\<close>

section \<open>State and operations\<close>

definition MOCK_MAX_MAPS :: nat where "MOCK_MAX_MAPS = 8"
definition MOCK_MAX_PINS :: nat where "MOCK_MAX_PINS = 8"
definition MOCK_MAX_DIGESTS :: nat where "MOCK_MAX_DIGESTS = 64"

record mock_map =
  mm_ino :: nat
  mm_max_entries :: u32
  mm_value_size :: u32
  mm_map_extra :: u64
  mm_digests :: "byte list list"

record mock =
  mock_maps :: "mock_map list"
  mock_pins :: "(string \<times> nat) list"
  mock_fds :: "int \<Rightarrow> nat option"
  mock_next_fd :: int

definition mock_reset :: mock where
  "mock_reset = \<lparr>mock_maps = [], mock_pins = [], mock_fds = (\<lambda>_. None), mock_next_fd = 3\<rparr>"

text \<open>\<open>memfd_create\<close> gives each map a memory file with an inode number of its own.\<close>

definition mock_map_create :: "u32 \<Rightarrow> u64 \<Rightarrow> u32 \<Rightarrow> mock \<Rightarrow> nat option \<times> mock" where
  "mock_map_create max_entries map_extra value_size k =
    (if length (mock_maps k) = MOCK_MAX_MAPS then (None, k)
     else (Some (length (mock_maps k)),
       k\<lparr>mock_maps := mock_maps k @ [\<lparr>mm_ino = length (mock_maps k), mm_max_entries = max_entries,
           mm_value_size = value_size, mm_map_extra = map_extra, mm_digests = []\<rparr>]\<rparr>))"

definition mock_map_handle :: "nat \<Rightarrow> mock \<Rightarrow> int \<times> mock" where
  "mock_map_handle index k =
    (mock_next_fd k, k\<lparr>mock_fds := (mock_fds k)(mock_next_fd k := Some (mm_ino (mock_maps k ! index))),
       mock_next_fd := mock_next_fd k + 1\<rparr>)"

definition mock_map_by_fd :: "int \<Rightarrow> mock \<Rightarrow> nat option" where
  "mock_map_by_fd fd k =
    (case mock_fds k fd of
       None \<Rightarrow> None
     | Some ino \<Rightarrow> find (\<lambda>i. mm_ino (mock_maps k ! i) = ino) [0..<length (mock_maps k)])"

definition mock_map_has :: "nat \<Rightarrow> byte list \<Rightarrow> mock \<Rightarrow> bool" where
  "mock_map_has index digest k = List.member (mm_digests (mock_maps k ! index)) digest"

definition mock_map_add :: "nat \<Rightarrow> byte list \<Rightarrow> mock \<Rightarrow> bool \<times> mock" where
  "mock_map_add index digest k =
    (if mock_map_has index digest k then (True, k)
     else let map = mock_maps k ! index in
       if length (mm_digests map) = MOCK_MAX_DIGESTS then (False, k)
       else (True, k\<lparr>mock_maps :=
         (mock_maps k)[index := map\<lparr>mm_digests := mm_digests map @ [digest]\<rparr>]\<rparr>))"

definition mock_pin_find :: "string \<Rightarrow> mock \<Rightarrow> nat option" where
  "mock_pin_find path k = map_of (mock_pins k) path"

definition mock_pin_add :: "string \<Rightarrow> nat \<Rightarrow> mock \<Rightarrow> rc \<times> mock" where
  "mock_pin_add path map_index k =
    (if mock_pin_find path k \<noteq> None then (Some EEXIST, k)
     else if length (mock_pins k) = MOCK_MAX_PINS then (Some ENOSPC, k)
     else (None, k\<lparr>mock_pins := mock_pins k @ [(path, map_index)]\<rparr>))"

definition mock_pin_remove :: "string \<Rightarrow> mock \<Rightarrow> mock" where
  "mock_pin_remove path k =
    k\<lparr>mock_pins := takeWhile (\<lambda>(p, _). p \<noteq> path) (mock_pins k) @
                   tl (dropWhile (\<lambda>(p, _). p \<noteq> path) (mock_pins k))\<rparr>"

definition no_info :: bloomd_bpf_map_info where
  "no_info = \<lparr>mi_type = 0, mi_key_size = 0, mi_value_size = 0, mi_max_entries = 0, mi_map_extra = 0\<rparr>"

abbreviation ret_ok :: "int \<Rightarrow> bpf_ret" where
  "ret_ok n \<equiv> \<lparr>br_ret = n, br_errno = Eother 0, br_info = no_info\<rparr>"

abbreviation ret_err :: "errno \<Rightarrow> bpf_ret" where
  "ret_err e \<equiv> \<lparr>br_ret = - 1, br_errno = e, br_info = no_info\<rparr>"

fun mock_bpf_syscall :: "bpf_attr \<Rightarrow> mock \<Rightarrow> bpf_ret \<times> mock" where
  "mock_bpf_syscall (BPF_MAP_CREATE a) k =
    (if ca_map_type a \<noteq> BPF_MAP_TYPE_BLOOM_FILTER then (ret_err EINVAL, k)
     else case mock_map_create (ca_max_entries a) (ca_map_extra a) (ca_value_size a) k of
       (None, k) \<Rightarrow> (ret_err ENOMEM, k)
     | (Some index, k) \<Rightarrow> (case mock_map_handle index k of (fd, k) \<Rightarrow> (ret_ok fd, k)))"
| "mock_bpf_syscall (BPF_OBJ_GET path) k =
    (case mock_pin_find path k of
       None \<Rightarrow> (ret_err ENOENT, k)
     | Some index \<Rightarrow> (case mock_map_handle index k of (fd, k) \<Rightarrow> (ret_ok fd, k)))"
| "mock_bpf_syscall (BPF_OBJ_PIN fd path) k =
    (case mock_map_by_fd fd k of
       None \<Rightarrow> (ret_err EBADF, k)
     | Some index \<Rightarrow>
         (case mock_pin_add path index k of
            (Some e, k) \<Rightarrow> (ret_err e, k)
          | (None, k) \<Rightarrow> (ret_ok 0, k)))"
| "mock_bpf_syscall (BPF_MAP_UPDATE_ELEM fd value) k =
    (case mock_map_by_fd fd k of
       None \<Rightarrow> (ret_err EBADF, k)
     | Some index \<Rightarrow>
         (case mock_map_add index value k of
            (False, k) \<Rightarrow> (ret_err E2BIG, k)
          | (True, k) \<Rightarrow> (ret_ok 0, k)))"
| "mock_bpf_syscall (BPF_MAP_LOOKUP_ELEM fd value) k =
    (case mock_map_by_fd fd k of
       None \<Rightarrow> (ret_err EBADF, k)
     | Some index \<Rightarrow> if \<not> mock_map_has index value k then (ret_err ENOENT, k) else (ret_ok 0, k))"
| "mock_bpf_syscall (BPF_OBJ_GET_INFO_BY_FD fd) k =
    (case mock_map_by_fd fd k of
       None \<Rightarrow> (ret_err EBADF, k)
     | Some index \<Rightarrow>
         (\<lparr>br_ret = 0, br_errno = Eother 0,
           br_info = \<lparr>mi_type = BPF_MAP_TYPE_BLOOM_FILTER, mi_key_size = 0,
             mi_value_size = mm_value_size (mock_maps k ! index),
             mi_max_entries = mm_max_entries (mock_maps k ! index),
             mi_map_extra = mm_map_extra (mock_maps k ! index)\<rparr>\<rparr>, k))"

text \<open>Closing a descriptor, and removing a pin by \<open>unlink\<close> (the tests call \<open>mock_pin_remove\<close>).\<close>

definition mock_close :: "int \<Rightarrow> mock \<Rightarrow> mock" where
  "mock_close fd k = k\<lparr>mock_fds := (mock_fds k)(fd := None)\<rparr>"

definition mock_unlink :: "string \<Rightarrow> mock \<Rightarrow> rc \<times> mock" where
  "mock_unlink path k =
    (if mock_pin_find path k = None then (Some ENOENT, k) else (None, mock_pin_remove path k))"

text \<open>An environment over the mock; \<open>log2\<close> is the exponent of a power of two, 0 elsewhere.\<close>

definition mock_log2 :: "double \<Rightarrow> double" where
  "mock_log2 d = round_double (max 0 (dexp d - 1023)) 1"

text \<open>The names of the pins directly under a directory.\<close>

definition mock_pin_names :: "string \<Rightarrow> mock \<Rightarrow> string list" where
  "mock_pin_names dir k =
    map (drop (length dir + 1)) (List.filter (\<lambda>p. take (length dir + 1) p = dir @ ''/'') (map fst (mock_pins k)))"

definition mock_env :: "mock env" where
  "mock_env = \<lparr>sys_bpf = mock_bpf_syscall, close_map = mock_close, unlink_pin = mock_unlink,
     mem = (\<lambda>_. True), libm_log2 = mock_log2, nan_cast = 0, getpid = 1,
     sys_readdir = (\<lambda>path w. Inr (mock_pin_names path (kern w))),
     fs_magic = (\<lambda>_. Some 0xCAFE4A11), time_now = (\<lambda>_. 0)\<rparr>"

section \<open>The mock meets the contract\<close>

definition mock_inv :: "mock \<Rightarrow> bool" where
  "mock_inv k \<longleftrightarrow>
     (\<forall>i < length (mock_maps k). mm_ino (mock_maps k ! i) = i) \<and>
     (\<forall>fd ino. mock_fds k fd = Some ino \<longrightarrow> ino < length (mock_maps k) \<and> fd < mock_next_fd k) \<and>
     (\<forall>p i. (p, i) \<in> set (mock_pins k) \<longrightarrow> i < length (mock_maps k)) \<and>
     distinct (map fst (mock_pins k)) \<and> 0 \<le> mock_next_fd k"

definition mock_held :: "mock \<Rightarrow> nat \<Rightarrow> byte list set" where
  "mock_held k m = (if m < length (mock_maps k) then set (mm_digests (mock_maps k ! m)) else {})"

definition mock_pinned :: "mock \<Rightarrow> string \<Rightarrow> nat option" where
  "mock_pinned k p = mock_pin_find p k"

lemma find_unique: "(\<And>j. j < n \<Longrightarrow> P j \<longleftrightarrow> j = i) \<Longrightarrow> i < n \<Longrightarrow> find P [0..<n] = Some i"
  by (auto simp: find_Some_iff intro!: exI [of _ i])

lemma mock_map_by_fd_eq: "mock_inv k \<Longrightarrow> mock_map_by_fd fd k = mock_fds k fd"
  by (auto simp: mock_map_by_fd_def mock_inv_def split: option.splits intro!: find_unique)

lemma map_of_remove_first:
  "distinct (map fst ps) \<Longrightarrow>
   map_of (takeWhile (\<lambda>(p, _). p \<noteq> x) ps @ tl (dropWhile (\<lambda>(p, _). p \<noteq> x) ps)) = (map_of ps)(x := None)"
proof (induction ps)
  case (Cons a ps)
  obtain p i where a: "a = (p, i)" by fastforce
  show ?case
  proof (cases "p = x")
    case True
    then have "map_of ps x = None" using Cons.prems a by (simp add: map_of_eq_None_iff)
    then show ?thesis using True a by auto
  next
    case False
    then show ?thesis using Cons a by (auto simp: fun_eq_iff)
  qed
qed auto

lemma remove_first_sub: "set (takeWhile P ps @ tl (dropWhile P ps)) \<subseteq> set ps"
  by (induction ps) auto

lemma remove_first_distinct:
  "distinct (map fst ps) \<Longrightarrow> distinct (map fst (takeWhile P ps @ tl (dropWhile P ps)))"
proof (induction ps)
  case (Cons a ps)
  have "fst ` set (takeWhile P ps @ tl (dropWhile P ps)) \<subseteq> fst ` set ps"
    by (rule image_mono) (rule remove_first_sub)
  then have "fst a \<notin> fst ` set (takeWhile P ps @ tl (dropWhile P ps))" using Cons.prems by auto
  then show ?case using Cons by auto
qed auto

lemma mock_pin_remove_pinned:
  assumes "mock_inv k"
  shows "mock_pinned (mock_pin_remove p k) = (mock_pinned k)(p := None)"
proof -
  have "distinct (map fst (mock_pins k))" using assms by (simp add: mock_inv_def)
  note e = map_of_remove_first [OF this, of p]
  show ?thesis
    unfolding mock_pinned_def mock_pin_find_def mock_pin_remove_def
    by (rule ext) (simp add: e del: map_of_append)
qed

lemma mock_inv_pin_remove: "mock_inv k \<Longrightarrow> mock_inv (mock_pin_remove p k)"
  using remove_first_sub [where P = "\<lambda>(q, _). q \<noteq> p" and ps = "mock_pins k"]
    remove_first_distinct [where P = "\<lambda>(q, _). q \<noteq> p" and ps = "mock_pins k"]
  unfolding mock_inv_def mock_pin_remove_def
  by (simp del: set_append map_append) blast

lemma mock_inv_handle:
  "mock_inv k \<Longrightarrow> i < length (mock_maps k) \<Longrightarrow> mock_inv (snd (mock_map_handle i k))"
  by (fastforce simp: mock_inv_def mock_map_handle_def)

lemma mock_inv_create:
  "mock_inv k \<Longrightarrow> mock_map_create a b c k = (Some i, k') \<Longrightarrow> mock_inv k' \<and> i < length (mock_maps k')"
  by (fastforce simp: mock_inv_def mock_map_create_def nth_append split: if_splits)

lemma mock_pin_bound: "mock_inv k \<Longrightarrow> mock_pin_find p k = Some i \<Longrightarrow> i < length (mock_maps k)"
  by (auto simp: mock_inv_def mock_pin_find_def dest!: map_of_SomeD)

lemma mock_inv_pin_add:
  "mock_inv k \<Longrightarrow> i < length (mock_maps k) \<Longrightarrow> mock_inv (snd (mock_pin_add p i k))"
  by (auto simp: mock_inv_def mock_pin_add_def mock_pin_find_def map_of_eq_None_iff)

lemma mock_inv_add: "mock_inv k \<Longrightarrow> mock_inv (snd (mock_map_add i d k))"
  by (cases "i < length (mock_maps k)")
    (auto simp: mock_inv_def mock_map_add_def Let_def nth_list_update list_update_beyond)

lemma mock_fds_bound: "mock_inv k \<Longrightarrow> mock_fds k fd = Some i \<Longrightarrow> i < length (mock_maps k)"
  by (auto simp: mock_inv_def)

lemma mock_inv_syscall:
  assumes "mock_inv k"
  shows "mock_inv (snd (mock_bpf_syscall a k))"
proof (cases a)
  case (BPF_MAP_CREATE c)
  obtain o1 k1 where m: "mock_map_create (ca_max_entries c) (ca_map_extra c) (ca_value_size c) k = (o1, k1)"
    by fastforce
  show ?thesis
  proof (cases o1)
    case None
    then have "k1 = k" using m by (simp add: mock_map_create_def split: if_splits)
    then show ?thesis using BPF_MAP_CREATE assms None m by simp
  next
    case (Some i)
    then show ?thesis
      using BPF_MAP_CREATE assms m mock_inv_create [OF assms, of _ _ _ i k1] mock_inv_handle [of k1 i]
      by (auto split: prod.splits)
  qed
next
  case (BPF_OBJ_GET p)
  then show ?thesis using assms mock_inv_handle [OF assms mock_pin_bound [OF assms]]
    by (force split: prod.splits option.splits)
next
  case (BPF_OBJ_PIN fd p)
  then show ?thesis using assms mock_inv_pin_add [OF assms mock_fds_bound [OF assms], of fd _ p]
    by (force simp: mock_map_by_fd_eq split: prod.splits option.splits)
next
  case (BPF_MAP_UPDATE_ELEM fd d)
  then show ?thesis using assms mock_inv_add [OF assms, of _ d]
    by (auto split: prod.splits option.splits bool.splits) (metis snd_conv)+
qed (use assms in \<open>auto split: option.splits\<close>)

lemma mock_create_law:
  assumes inv: "mock_inv k" and s: "mock_bpf_syscall (BPF_MAP_CREATE c) k = (r, k')"
    and ok: "br_ret r \<ge> 0"
  shows "mock_fds k (br_ret r) = None"
    "(\<forall>fd. mock_fds k fd \<noteq> Some (length (mock_maps k)))"
    "(\<forall>p. mock_pinned k p \<noteq> Some (length (mock_maps k)))"
    "mock_fds k' = (mock_fds k)(br_ret r \<mapsto> length (mock_maps k))"
    "mock_held k' = (mock_held k)(length (mock_maps k) := {})" "mock_pinned k' = mock_pinned k"
proof -
  from s ok have k': "k' = snd (mock_map_handle (length (mock_maps k))
      (snd (mock_map_create (ca_max_entries c) (ca_map_extra c) (ca_value_size c) k)))"
    and r: "br_ret r = mock_next_fd k" and n: "length (mock_maps k) \<noteq> MOCK_MAX_MAPS"
    by (auto simp: mock_map_create_def mock_map_handle_def split: if_splits)
  show "mock_fds k (br_ret r) = None" using inv r
    by (cases "mock_fds k (br_ret r)") (fastforce simp: mock_inv_def)+
  show "\<forall>fd. mock_fds k fd \<noteq> Some (length (mock_maps k))" using mock_fds_bound [OF inv] by blast
  show "\<forall>p. mock_pinned k p \<noteq> Some (length (mock_maps k))"
    using mock_pin_bound [OF inv] by (auto simp: mock_pinned_def)
  show "mock_fds k' = (mock_fds k)(br_ret r \<mapsto> length (mock_maps k))"
    using n by (simp add: k' r mock_map_handle_def mock_map_create_def)
  show "mock_held k' = (mock_held k)(length (mock_maps k) := {})"
    using n by (auto simp: k' mock_map_handle_def mock_map_create_def mock_held_def nth_append fun_eq_iff)
  show "mock_pinned k' = mock_pinned k"
    using n by (simp add: k' mock_map_handle_def mock_map_create_def mock_pinned_def
      mock_pin_find_def fun_eq_iff)
qed

lemma mock_get_law:
  assumes inv: "mock_inv k" and s: "mock_bpf_syscall (BPF_OBJ_GET p) k = (r, k')"
    and ok: "br_ret r \<ge> 0"
  shows "mock_fds k (br_ret r) = None" "mock_pinned k p \<noteq> None"
    "mock_fds k' = (mock_fds k)(br_ret r := mock_pinned k p)"
    "mock_held k' = mock_held k" "mock_pinned k' = mock_pinned k"
proof -
  from s ok obtain i where i: "mock_pin_find p k = Some i" and k': "k' = snd (mock_map_handle i k)"
    and r: "br_ret r = mock_next_fd k"
    by (auto simp: mock_map_handle_def split: option.splits)
  have "mm_ino (mock_maps k ! i) = i" using inv mock_pin_bound [OF inv i] by (simp add: mock_inv_def)
  then show "mock_fds k' = (mock_fds k)(br_ret r := mock_pinned k p)"
    by (simp add: k' r i mock_map_handle_def mock_pinned_def)
  show "mock_fds k (br_ret r) = None" using inv r
    by (cases "mock_fds k (br_ret r)") (fastforce simp: mock_inv_def)+
  show "mock_pinned k p \<noteq> None" using i by (simp add: mock_pinned_def)
  show "mock_held k' = mock_held k" "mock_pinned k' = mock_pinned k"
    by (auto simp: k' mock_map_handle_def mock_held_def mock_pinned_def mock_pin_find_def fun_eq_iff)
qed

lemma mock_update_law:
  assumes inv: "mock_inv k" and s: "mock_bpf_syscall (BPF_MAP_UPDATE_ELEM fd d) k = (r, k')"
    and ok: "br_ret r = 0"
  shows "\<exists>m. mock_fds k fd = Some m \<and> mock_held k' = (mock_held k)(m := insert d (mock_held k m))"
    "mock_fds k' = mock_fds k" "mock_pinned k' = mock_pinned k"
proof -
  from s ok inv obtain i where i: "mock_fds k fd = Some i" and a: "mock_map_add i d k = (True, k')"
    by (auto simp: mock_map_by_fd_eq split: option.splits prod.splits bool.splits)
  have b: "i < length (mock_maps k)" by (rule mock_fds_bound [OF inv i])
  have "mock_held k' = (mock_held k)(i := insert d (mock_held k i))"
    using a b by (auto simp: mock_map_add_def mock_map_has_def mock_held_def Let_def fun_eq_iff
      nth_list_update split: if_splits)
  with i show "\<exists>m. mock_fds k fd = Some m \<and> mock_held k' = (mock_held k)(m := insert d (mock_held k m))"
    by blast
  show "mock_fds k' = mock_fds k" "mock_pinned k' = mock_pinned k"
    using a by (auto simp: mock_map_add_def Let_def mock_pinned_def mock_pin_find_def fun_eq_iff
      split: if_splits)
qed

lemma mock_env_sel [simp]:
  "sys_bpf mock_env = mock_bpf_syscall" "close_map mock_env = mock_close"
  "unlink_pin mock_env = mock_unlink" "mem mock_env = (\<lambda>_. True)"
  by (simp_all add: mock_env_def)

interpretation mk: bpf_kernel mock_env mock_inv mock_fds mock_held mock_pinned
proof (unfold_locales, goal_cases)
  case (1 k a) then show ?case by (simp add: mock_inv_syscall)
next
  case (2 k fd) then show ?case by (auto simp: mock_close_def mock_inv_def)
next
  case (3 k p) then show ?case by (auto simp: mock_unlink_def mock_inv_pin_remove)
next
  case (4 k c r k') then show ?case
    using mock_create_law [of k c r k'] by (intro conjI exI [of _ "length (mock_maps k)"]) simp_all
next
  case (5 k c r k') then show ?case
    by (auto simp: mock_map_create_def mock_map_handle_def mock_inv_def split: if_splits)
next
  case (6 k p r k') then show ?case using mock_get_law [of k p r k'] by simp
next
  case (7 k p r k') then show ?case
    by (auto simp: mock_map_handle_def mock_inv_def split: option.splits)
next
  case (8 k p r k') then show ?case
    by (auto simp: mock_pinned_def mock_map_handle_def mock_inv_def split: option.splits)
next
  case (9 k fd p r k') then show ?case
    by (auto simp: mock_map_by_fd_eq mock_pin_add_def mock_pinned_def mock_held_def
      mock_pin_find_def fun_eq_iff map_add_def split: option.splits if_splits)
next
  case (10 k fd p r k') then show ?case
    by (auto simp: mock_map_by_fd_eq mock_pin_add_def split: option.splits if_splits)
next
  case (11 k fd d r k') then show ?case using mock_update_law [of k fd d r k'] by simp
next
  case (12 k fd d r k') then show ?case
    by (auto simp: mock_map_by_fd_eq mock_map_add_def Let_def
      split: option.splits if_splits)
next
  case (13 k fd d r k') then show ?case
    by (auto split: option.splits if_splits)
next
  case (14 k fd d r k' m) then show ?case
    using mock_fds_bound [OF 14(1), of fd]
    by (auto simp: mock_map_by_fd_eq mock_map_has_def mock_held_def
      split: option.splits if_splits)
next
  case (15 k fd r k') then show ?case
    by (auto split: option.splits)
next
  case (16 k fd) then show ?case
    by (auto simp: mock_close_def mock_held_def mock_pinned_def mock_pin_find_def fun_eq_iff)
next
  case (17 k p k') then show ?case
    using mock_pin_remove_pinned [OF 17(1), of p]
    by (auto simp: mock_unlink_def mock_pin_remove_def mock_held_def fun_eq_iff
      split: if_splits)
next
  case (18 k p e k') then show ?case
    by (auto simp: mock_unlink_def split: if_splits)
qed

end
