(* ===== verification/Digest_Log.thy ===== *)
theory Digest_Log
  imports Os_World Protocol
begin

text \<open>
  The append-only digest log of \<open>src/src/log.c\<close>: opening, the write buffer of 64 digests,
  flushing, syncing, truncating, and the replay loop with its treatment of a torn last record.
  The buffer of a filter is the list of its first \<open>log_buf_len\<close> bytes.
\<close>

section \<open>Operations\<close>

definition BLOOMD_LOG_BUFFER_CAP :: nat where "BLOOMD_LOG_BUFFER_CAP = 64 * BLOOMD_DIGEST_SIZE"

lemmas log_consts = BLOOMD_LOG_BUFFER_CAP_def BLOOMD_DIGEST_SIZE_def

definition bloomd_log_reset :: "string \<Rightarrow> 'k world \<Rightarrow> rc \<times> 'k world" where
  "bloomd_log_reset path w =
    (case sys_open path True w of
       (Inl e, w) \<Rightarrow> (Some e, w)
     | (Inr fd, w) \<Rightarrow>
         (case sys_fsync fd w of
            (Some e, w) \<Rightarrow> (Some e, sys_close fd w)
          | (None, w) \<Rightarrow> (None, sys_close fd w)))"

definition bloomd_log_open_append :: "string \<Rightarrow> 'k world \<Rightarrow> (errno + int) \<times> 'k world" where
  "bloomd_log_open_append path w = sys_open path False w"

definition bloomd_log_open_create :: "string \<Rightarrow> 'k world \<Rightarrow> (errno + int) \<times> 'k world" where
  "bloomd_log_open_create path w = sys_open path True w"

definition bloomd_log_append_fd :: "int \<Rightarrow> byte list \<Rightarrow> 'k world \<Rightarrow> rc \<times> 'k world" where
  "bloomd_log_append_fd fd digest w =
    (if fd < 0 then (Some EINVAL, w) else bloomd_write_all fd digest w)"

definition bloomd_log_sync :: "int \<Rightarrow> 'k world \<Rightarrow> rc \<times> 'k world" where
  "bloomd_log_sync fd w = (if fd < 0 then (Some EINVAL, w) else sys_fsync fd w)"

definition bloomd_log_buffer_append ::
  "int \<Rightarrow> byte list \<Rightarrow> byte list \<Rightarrow> 'k world \<Rightarrow> rc \<times> byte list \<times> 'k world" where
  "bloomd_log_buffer_append fd buf digest w =
    (if fd < 0 then (Some EINVAL, buf, w)
     else if length buf > BLOOMD_LOG_BUFFER_CAP then (Some EINVAL, buf, w)
     else if length buf + BLOOMD_DIGEST_SIZE > BLOOMD_LOG_BUFFER_CAP
     then (case bloomd_write_all fd buf w of
             (Some e, w) \<Rightarrow> (Some e, buf, w)
           | (None, w) \<Rightarrow> (None, digest, w))
     else (None, buf @ digest, w))"

definition bloomd_log_buffer_flush ::
  "int \<Rightarrow> byte list \<Rightarrow> bool \<Rightarrow> 'k world \<Rightarrow> rc \<times> byte list \<times> 'k world" where
  "bloomd_log_buffer_flush fd buf sync w =
    (if fd < 0 then (Some EINVAL, buf, w)
     else case (if length buf > 0 then bloomd_write_all fd buf w else (None, w)) of
       (Some e, w) \<Rightarrow> (Some e, buf, w)
     | (None, w) \<Rightarrow>
         if \<not> sync then (None, [], w)
         else (case bloomd_log_sync fd w of (r, w) \<Rightarrow> (r, [], w)))"

definition bloomd_log_truncate :: "int \<Rightarrow> nat \<Rightarrow> bool \<Rightarrow> 'k world \<Rightarrow> rc \<times> 'k world" where
  "bloomd_log_truncate fd len sync w =
    (if fd < 0 then (Some EINVAL, w)
     else case sys_ftruncate fd len w of
       (Some e, w) \<Rightarrow> (Some e, w)
     | (None, w) \<Rightarrow> if \<not> sync then (None, w) else bloomd_log_sync fd w)"

definition bloomd_log_close :: "int \<Rightarrow> bool \<Rightarrow> 'k world \<Rightarrow> int \<times> 'k world" where
  "bloomd_log_close fd sync w =
    (if fd < 0 then (fd, w)
     else let w = (if sync then snd (bloomd_log_sync fd w) else w) in (- 1, sys_close fd w))"

definition bloomd_remove_path_if_exists :: "string \<Rightarrow> 'k world \<Rightarrow> rc \<times> 'k world" where
  "bloomd_remove_path_if_exists path w =
    (case sys_unlink path w of
       (Some e, w) \<Rightarrow> if e = ENOENT then (None, w) else (Some e, w)
     | (None, w) \<Rightarrow> (None, w))"

definition bloomd_log_delete :: "string \<Rightarrow> 'k world \<Rightarrow> rc \<times> 'k world" where
  "bloomd_log_delete path w = bloomd_remove_path_if_exists path w"

section \<open>Replay\<close>

definition fd_len :: "int \<Rightarrow> 'k world \<Rightarrow> nat" where
  "fd_len fd w = (case fdtab w fd of None \<Rightarrow> 0 | Some ino \<Rightarrow> length (idata (inodes w ino)))"

lemma sys_read_at_frame:
  assumes "sys_read_at fd off n w = (r, w')"
  shows "w' = w\<lparr>script := script w'\<rparr>" "length (script w') \<le> length (script w)"
    "r = Inl EINTR \<Longrightarrow> length (script w') < length (script w)"
    "r = Inr bs \<Longrightarrow> length bs \<le> fd_len fd w - off \<and> length bs \<le> n"
  using assms
  by (auto simp: sys_read_at_def next_outcome_def fd_len_def Let_def
    split: option.splits list.splits outcome.splits)

lemma fd_len_script [simp]: "fd_len fd (w\<lparr>script := s\<rparr>) = fd_len fd w"
  by (simp add: fd_len_def split: option.split)

lemma fd_len_kern [simp]: "fd_len fd (w\<lparr>kern := k\<rparr>) = fd_len fd w"
  by (simp add: fd_len_def split: option.split)

lemma fd_len_read_at:
  "sys_read_at fd off n w = (r, w') \<Longrightarrow> fd_len fd w' = fd_len fd w"
  using sys_read_at_frame(1) [of fd off n w r w'] fd_len_script by metis

text \<open>
  The two nested loops as one recursion: \<open>part\<close> is the filled part of the \<open>digest\<close> array, \<open>off\<close>
  the file offset, \<open>count\<close> the records replayed. The callback works on the kernel state and its
  context, as both callbacks of the sources do, and answers \<open>True\<close> for a nonzero return.
\<close>

type_synonym ('c, 'k) replay_cb = "byte list \<Rightarrow> 'c \<Rightarrow> 'k \<Rightarrow> bool \<times> 'c \<times> 'k"

function replay_loop ::
  "('c, 'k) replay_cb \<Rightarrow> string \<Rightarrow> bool \<Rightarrow> int \<Rightarrow> nat \<Rightarrow> byte list \<Rightarrow> 'c \<Rightarrow> nat \<Rightarrow> 'k world
    \<Rightarrow> (errno + nat) \<times> 'c \<times> 'k world" where
  "replay_loop cb path trunc fd off part ctx count w =
    (case sys_read_at fd off (BLOOMD_DIGEST_SIZE - length part) w of
       (Inl e, w') \<Rightarrow>
         (if e = EINTR then replay_loop cb path trunc fd off part ctx count w'
          else (Inl e, ctx, sys_close fd w'))
     | (Inr bs, w') \<Rightarrow>
         (if bs = []
          then (if part = [] then (Inr count, ctx, sys_close fd w')
                else let w' = sys_close fd w' in
                  if trunc
                  then (case sys_truncate path (count * BLOOMD_DIGEST_SIZE) w' of
                          (Some e, w') \<Rightarrow> (Inl e, ctx, w')
                        | (None, w') \<Rightarrow> (Inr count, ctx, w'))
                  else (Inr count, ctx, w'))
          else if length (part @ bs) < BLOOMD_DIGEST_SIZE
          then replay_loop cb path trunc fd (off + length bs) (part @ bs) ctx count w'
          else (case cb (part @ bs) ctx (kern w') of
                  (fail, ctx', k) \<Rightarrow>
                    if fail then (Inl EINVAL, ctx', sys_close fd (w'\<lparr>kern := k\<rparr>))
                    else replay_loop cb path trunc fd (off + length bs) [] ctx' (count + 1)
                           (w'\<lparr>kern := k\<rparr>))))"
  by pat_completeness auto
termination
proof (relation "measure (\<lambda>(cb, path, trunc, fd, off, part, ctx, count, w).
    length (script w) + (fd_len fd w - off))", goal_cases)
  case 1
  show ?case by simp
next
  case (2 cb path trunc fd off part ctx count w x w' e)
  then have r: "sys_read_at fd off (BLOOMD_DIGEST_SIZE - length part) w = (Inl EINTR, w')" by simp
  have "fd_len fd w' = fd_len fd w"
    by (rule fd_len_read_at [OF r])
  with sys_read_at_frame(3) [OF r] show ?case by simp
next
  case (3 cb path trunc fd off part ctx count w x w' bs)
  then have r: "sys_read_at fd off (BLOOMD_DIGEST_SIZE - length part) w = (Inr bs, w')" by simp
  have "fd_len fd w' = fd_len fd w"
    by (rule fd_len_read_at [OF r])
  moreover have "length bs \<le> fd_len fd w - off" "0 < length bs"
    using sys_read_at_frame(4) [OF r] 3 by auto
  ultimately have "fd_len fd w' - (off + length bs) < fd_len fd w - off" by linarith
  then show ?case using sys_read_at_frame(2) [OF r] by simp
next
  case (4 cb path trunc fd off part ctx count w x w' bs fail z ctx' k)
  then have r: "sys_read_at fd off (BLOOMD_DIGEST_SIZE - length part) w = (Inr bs, w')" by simp
  have "fd_len fd w' = fd_len fd w"
    by (rule fd_len_read_at [OF r])
  moreover have "length bs \<le> fd_len fd w - off" "0 < length bs"
    using sys_read_at_frame(4) [OF r] 4 by auto
  ultimately have "fd_len fd w' - (off + length bs) < fd_len fd w - off" by linarith
  then show ?case using sys_read_at_frame(2) [OF r] by simp
qed

declare replay_loop.simps [simp del]

definition log_replay_impl ::
  "string \<Rightarrow> ('c, 'k) replay_cb \<Rightarrow> 'c \<Rightarrow> bool \<Rightarrow> 'k world \<Rightarrow> (errno + nat) \<times> 'c \<times> 'k world" where
  "log_replay_impl path cb ctx truncate_partial w =
    (case sys_open_rd path w of
       (Inl e, w) \<Rightarrow> (Inl e, ctx, w)
     | (Inr fd, w) \<Rightarrow> replay_loop cb path truncate_partial fd 0 [] ctx 0 w)"

definition bloomd_log_replay ::
  "string \<Rightarrow> ('c, 'k) replay_cb \<Rightarrow> 'c \<Rightarrow> 'k world \<Rightarrow> (errno + nat) \<times> 'c \<times> 'k world" where
  "bloomd_log_replay path cb ctx w = log_replay_impl path cb ctx True w"

definition bloomd_log_replay_readonly ::
  "string \<Rightarrow> ('c, 'k) replay_cb \<Rightarrow> 'c \<Rightarrow> 'k world \<Rightarrow> (errno + nat) \<times> 'c \<times> 'k world" where
  "bloomd_log_replay_readonly path cb ctx w = log_replay_impl path cb ctx False w"

section \<open>What replay computes\<close>

text \<open>
  \<open>log_records data\<close> are the complete sixteen-byte records of a log file; \<open>run_cb\<close> applies the
  callback to a list of records until one is refused.
\<close>

function log_records :: "byte list \<Rightarrow> byte list list" where
  "log_records data =
    (if length data < BLOOMD_DIGEST_SIZE then []
     else take BLOOMD_DIGEST_SIZE data # log_records (drop BLOOMD_DIGEST_SIZE data))"
  by pat_completeness auto
termination by (relation "measure length") (auto simp: BLOOMD_DIGEST_SIZE_def)

declare log_records.simps [simp del]

fun run_cb :: "('c, 'k) replay_cb \<Rightarrow> byte list list \<Rightarrow> 'c \<Rightarrow> 'k \<Rightarrow> bool \<times> 'c \<times> 'k" where
  "run_cb cb [] ctx k = (False, ctx, k)"
| "run_cb cb (d # ds) ctx k =
    (case cb d ctx k of (fail, ctx', k') \<Rightarrow> if fail then (True, ctx', k') else run_cb cb ds ctx' k')"

lemma log_records_short [simp]: "length data < 16 \<Longrightarrow> log_records data = []"
  by (simp add: log_records.simps [of data] BLOOMD_DIGEST_SIZE_def)

lemma log_records_Cons:
  "length d = 16 \<Longrightarrow> log_records (d @ r) = d # log_records r"
  by (simp add: log_records.simps [of "d @ r"] BLOOMD_DIGEST_SIZE_def)

lemma log_records_concat:
  "\<forall>d\<in>set ds. length d = 16 \<Longrightarrow> length r < 16 \<Longrightarrow> log_records (concat ds @ r) = ds"
  by (induction ds) (auto simp: log_records_Cons)

lemma log_records_append:
  assumes "16 dvd length a"
  shows "log_records (a @ b) = log_records a @ log_records b"
  using assms
proof (induction a rule: log_records.induct)
  case (1 a)
  show ?case
  proof (cases "length a < 16")
    case True
    then have "a = []" using "1.prems" by (auto elim: dvdE)
    then show ?thesis by simp
  next
    case False
    define a1 a2 where "a1 = take 16 a" and "a2 = drop 16 a"
    have s: "a = a1 @ a2" "length a1 = 16" using False by (simp_all add: a1_def a2_def)
    have "16 dvd length a2" using "1.prems" False by (simp add: a2_def dvd_diff_nat)
    then have "log_records (a2 @ b) = log_records a2 @ log_records b"
      using "1.IH" False by (simp add: a2_def BLOOMD_DIGEST_SIZE_def)
    then show ?thesis using s by (simp add: log_records_Cons)
  qed
qed

text \<open>
  How a successful replay leaves the files: as they were, or with the log cut to its complete
  records; the latter only when asked for and only when a torn record follows them.
\<close>

definition replay_end :: "string \<Rightarrow> bool \<Rightarrow> byte list \<Rightarrow> nat \<Rightarrow> 'k world \<Rightarrow> 'k world \<Rightarrow> bool" where
  "replay_end path trunc data n w w' \<longleftrightarrow>
    (\<exists>w0. inodes w0 = inodes w \<and> dirents w0 = dirents w \<and>
       (w' = w0 \<and> (\<not> trunc \<or> length data = 16 * n) \<or>
        trunc \<and> length data > 16 * n \<and> sys_truncate path (n * 16) w0 = (None, w')))"

lemma replay_end_cong:
  "inodes w1 = inodes w \<Longrightarrow> dirents w1 = dirents w \<Longrightarrow>
    replay_end path trunc data n w1 w' = replay_end path trunc data n w w'"
  by (simp add: replay_end_def)

lemma sys_read_at_prefix:
  assumes "fdtab w fd = Some ino" "sys_read_at fd off n w = (Inr bs, w')"
  shows "bs = take (length bs) (drop off (idata (inodes w ino)))"
proof -
  obtain oc w1 where o: "next_outcome w = (oc, w1)" by fastforce
  then have "inodes w1 = inodes w" by (auto simp: next_outcome_def split: list.splits)
  with assms o show ?thesis
    by (cases oc) (auto simp: sys_read_at_def Let_def min_def)
qed

lemma replay_piece:
  assumes rd: "sys_read_at fd off (BLOOMD_DIGEST_SIZE - length part) w = (Inr bs, w1)"
    and fd: "fdtab w fd = Some ino" "data = idata (inodes w ino)" and p: "length part < 16"
  shows "length (part @ bs) \<le> 16" "bs @ drop (off + length bs) data = drop off data"
    "bs = [] \<Longrightarrow> drop off data = []"
    "\<not> length (part @ bs) < 16 \<Longrightarrow> log_records (part @ drop off data) = (part @ bs) # log_records (drop (off + length bs) data)"
proof -
  have bs: "bs = take (length bs) (drop off data)" using sys_read_at_prefix [OF fd(1) rd] fd(2) by simp
  show l: "length (part @ bs) \<le> 16" using sys_read_at_frame(4) [OF rd refl] p by (auto simp: BLOOMD_DIGEST_SIZE_def)
  show r: "bs @ drop (off + length bs) data = drop off data"
    using append_take_drop_id [of "length bs" "drop off data"] bs by (simp add: add.commute)
  show "drop off data = []" if "bs = []"
    using rd fd p that
    by (auto simp: sys_read_at_def next_outcome_def BLOOMD_DIGEST_SIZE_def Let_def split: list.splits outcome.splits)
  show "log_records (part @ drop off data) = (part @ bs) # log_records (drop (off + length bs) data)"
    if "\<not> length (part @ bs) < 16"
    using log_records_Cons [of "part @ bs" "drop (off + length bs) data"] l that r by simp
qed

lemma replay_cut:
  assumes "bs @ drop (off + length bs) data = drop off data" "off \<le> length data" "16 * count \<le> off"
    "part = drop (16 * count) (take off data)"
  shows "part @ bs = drop (16 * count) (take (off + length bs) data)" "off + length bs \<le> length data"
proof -
  have l: "length bs \<le> length data - off" using arg_cong [OF assms(1), of length] by simp
  have "take (length bs) (drop off data) = bs" using assms(1) by (metis append_eq_conv_conj)
  then show "part @ bs = drop (16 * count) (take (off + length bs) data)" using assms(2-4) by (simp add: take_add)
  show "off + length bs \<le> length data" using l assms(2) by simp
qed

text \<open>The end of the file: the loop closes the descriptor and cuts a torn record if asked to.\<close>

lemma replay_loop_eof:
  assumes rd: "sys_read_at fd off (BLOOMD_DIGEST_SIZE - length part) w = (Inr [], w1)"
    and run: "replay_loop cb path trunc fd off part ctx count w = (Inr n, ctx', w')"
    and l: "length data = 16 * count + length part"
  shows "n = count" "ctx' = ctx" "kern w' = kern w" "replay_end path trunc data n w w'"
proof -
  have w1: "w1 = w\<lparr>script := script w1\<rparr>" by (rule sys_read_at_frame(1) [OF rd])
  have fr: "inodes w1 = inodes w" "dirents w1 = dirents w" "kern w1 = kern w" by (subst w1, simp)+
  have fin: "(part = [] \<and> w' = sys_close fd w1 \<or> \<not> trunc \<and> w' = sys_close fd w1 \<or>
      part \<noteq> [] \<and> trunc \<and> sys_truncate path (count * 16) (sys_close fd w1) = (None, w')) \<and> n = count \<and> ctx' = ctx"
    using run rd by (auto simp: replay_loop.simps [of cb path trunc fd off part ctx count w]
      BLOOMD_DIGEST_SIZE_def Let_def split: if_splits prod.splits option.splits)
  then show "n = count" "ctx' = ctx" by simp_all
  show "kern w' = kern w"
    using fin fr(3) by (auto simp: sys_close_def sys_truncate_def next_outcome_def Let_def
      split: list.splits outcome.splits option.splits)
  show "replay_end path trunc data n w w'"
    unfolding replay_end_def using fin fr l
    by (intro exI [of _ "sys_close fd w1"]) (auto simp: sys_close_def)
qed

text \<open>
  The replay loop at any point of a file: what is still to be delivered are the complete records
  of the unread part, in order. Interruptions and short reads make no difference.
\<close>

lemma replay_loop_ok:
  assumes "fdtab w fd = Some ino" and "data = idata (inodes w ino)"
    and "off \<le> length data" and "part = drop (16 * count) (take off data)"
    and "16 * count \<le> off" and "length part < 16"
    and "replay_loop cb path trunc fd off part ctx count w = (Inr n, ctx', w')"
  shows "run_cb cb (log_records (part @ drop off data)) ctx (kern w) = (False, ctx', kern w') \<and>
     n = count + length (log_records (part @ drop off data)) \<and>
     replay_end path trunc data n w w'"
  using assms
proof (induction cb path trunc fd off part ctx count w rule: replay_loop.induct)
  case (1 cb path trunc fd off part ctx count w)
  note prems = "1.prems" and ih = "1.IH"
  note unfold = replay_loop.simps [of cb path trunc fd off part ctx count w] BLOOMD_DIGEST_SIZE_def
  obtain r w1 where rd: "sys_read_at fd off (BLOOMD_DIGEST_SIZE - length part) w = (r, w1)" by fastforce
  have w1: "w1 = w\<lparr>script := script w1\<rparr>" by (rule sys_read_at_frame(1) [OF rd])
  have fr: "fdtab w1 = fdtab w" "inodes w1 = inodes w" "dirents w1 = dirents w" "kern w1 = kern w"
    by (subst w1, simp)+
  note same = replay_end_cong [OF fr(2,3)]
  show ?case
  proof (cases r)
    case (Inl e)
    then have "e = EINTR" "replay_loop cb path trunc fd off part ctx count w1 = (Inr n, ctx', w')"
      using prems(7) rd by (auto simp: unfold(1) split: if_splits)
    then show ?thesis using ih(1) [OF rd [symmetric] Inl] prems(1-6) fr by (auto simp: fr same)
  next
    case (Inr bs)
    note piece = replay_piece [OF rd [unfolded Inr] prems(1,2,6)]
    note cut = replay_cut [OF piece(2) prems(3,5,4)]
    let ?off = "off + length bs"
    consider (eof) "bs = []" | (more) "bs \<noteq> []" "length (part @ bs) < 16" | (full) "bs \<noteq> []" "\<not> length (part @ bs) < 16"
      by blast
    then show ?thesis
    proof cases
      case eof
      then have offl: "off = length data" using piece(3) prems(3) by simp
      have lp: "length data = 16 * count + length part" using prems(3,4,5) offl by simp
      show ?thesis
        using replay_loop_eof [OF rd [unfolded Inr eof] prems(7) lp] offl prems(6) by simp
    next
      case more
      then have "replay_loop cb path trunc fd ?off (part @ bs) ctx count w1 = (Inr n, ctx', w')"
        using prems(7) rd Inr by (simp add: unfold)
      then have "run_cb cb (log_records ((part @ bs) @ drop ?off data)) ctx (kern w1) = (False, ctx', kern w') \<and>
          n = count + length (log_records ((part @ bs) @ drop ?off data)) \<and> replay_end path trunc data n w1 w'"
        using more prems(1,2,5) fr cut by (intro ih(2) [OF rd [symmetric] Inr]) (simp_all add: BLOOMD_DIGEST_SIZE_def)
      then show ?thesis using piece(2) unfolding same fr(4) by auto
    next
      case full
      obtain fail c1 k1 where cb: "cb (part @ bs) ctx (kern w1) = (fail, c1, k1)" by (metis prod_cases3)
      have nf: "\<not> fail" and rec: "replay_loop cb path trunc fd ?off [] c1 (count + 1) (w1\<lparr>kern := k1\<rparr>) = (Inr n, ctx', w')"
        using prems(7) rd Inr full cb by (auto simp: unfold split: if_splits)
      have o16: "?off = 16 * (count + 1)" using full(2) piece(1) prems(3,4,5) by simp
      have "run_cb cb (log_records ([] @ drop ?off data)) c1 (kern (w1\<lparr>kern := k1\<rparr>)) = (False, ctx', kern w') \<and>
          n = count + 1 + length (log_records ([] @ drop ?off data)) \<and> replay_end path trunc data n (w1\<lparr>kern := k1\<rparr>) w'"
        using full prems(1,2) fr cut(2) o16 rec nf cb
        by (intro ih(3) [OF rd [symmetric] Inr _ _ cb [symmetric] refl]) (simp_all add: BLOOMD_DIGEST_SIZE_def)
      moreover have "replay_end path trunc data n (w1\<lparr>kern := k1\<rparr>) w' = replay_end path trunc data n w w'"
        by (rule replay_end_cong) (simp_all add: fr)
      ultimately show ?thesis using piece(4) [OF full(2)] cb nf fr(4) by auto
    qed
  qed
qed

lemma length_log_records: "length (log_records data) = length data div 16"
proof (induction data rule: log_records.induct)
  case (1 data)
  show ?case
  proof (cases "length data < 16")
    case False
    then have "length (log_records (drop 16 data)) = (length data - 16) div 16"
      using 1 by (simp add: BLOOMD_DIGEST_SIZE_def)
    then have "length (log_records data) = Suc ((length data - 16) div 16)"
      using False by (subst log_records.simps) (simp add: BLOOMD_DIGEST_SIZE_def)
    then show ?thesis using False by (simp add: le_div_geq)
  qed simp
qed

text \<open>Without error outcomes the loop succeeds as soon as the callback accepts every record.\<close>

lemma next_outcome_no_fail:
  assumes "\<forall>e. Fail e \<notin> set (script w)"
  obtains oc w' where "next_outcome w = (oc, w')" "\<forall>e. oc \<noteq> Fail e" "w' = w\<lparr>script := script w'\<rparr>"
    "set (script w') \<subseteq> set (script w)"
proof (cases "script w")
  case Nil
  then show ?thesis using that [of Normal w] by (simp add: next_outcome_def)
next
  case (Cons oc s)
  then show ?thesis using that [of oc "w\<lparr>script := s\<rparr>"] assms
    by (auto simp: next_outcome_def)
qed

lemma sys_read_at_no_fail:
  assumes "\<forall>e. Fail e \<notin> set (script w)" "fdtab w fd = Some ino"
  obtains bs w' where "sys_read_at fd off n w = (Inr bs, w')" "w' = w\<lparr>script := script w'\<rparr>"
    "set (script w') \<subseteq> set (script w)"
proof -
  obtain oc w' where o: "next_outcome w = (oc, w')" "\<forall>e. oc \<noteq> Fail e"
    "w' = w\<lparr>script := script w'\<rparr>" "set (script w') \<subseteq> set (script w)"
    using next_outcome_no_fail [OF assms(1)] .
  then show ?thesis using that [of _ w'] assms(2)
    by (cases oc) (simp_all add: sys_read_at_def Let_def)
qed

lemma sys_truncate_no_fail:
  assumes "\<forall>e. Fail e \<notin> set (script w)" "dirents w path = Some ino"
  shows "\<exists>w'. sys_truncate path len w = (None, w')"
proof -
  obtain oc w' where o: "next_outcome w = (oc, w')" "\<forall>e. oc \<noteq> Fail e"
    "w' = w\<lparr>script := script w'\<rparr>"
    using next_outcome_no_fail [OF assms(1)] .
  have "dirents w' path = Some ino" by (subst o(3)) (simp add: assms(2))
  then show ?thesis using o(1,2) by (cases oc) (simp_all add: sys_truncate_def Let_def)
qed

lemma sys_open_rd_no_fail:
  assumes "\<forall>e. Fail e \<notin> set (script w)" "dirents w path = Some ino"
  obtains fd w' where "sys_open_rd path w = (Inr fd, w')" "fdtab w' fd = Some ino"
    "inodes w' = inodes w" "dirents w' = dirents w" "kern w' = kern w"
    "\<forall>e. Fail e \<notin> set (script w')"
proof -
  obtain oc w1 where o: "next_outcome w = (oc, w1)" "\<forall>e. oc \<noteq> Fail e"
    "w1 = w\<lparr>script := script w1\<rparr>" "set (script w1) \<subseteq> set (script w)"
    using next_outcome_no_fail [OF assms(1)] .
  have fr: "dirents w1 = dirents w" "inodes w1 = inodes w" "kern w1 = kern w"
    by (subst o(3), simp)+
  show ?thesis
    using that [of "next_fd w1" "w1\<lparr>next_fd := next_fd w1 + 1, fdtab := (fdtab w1)(next_fd w1 \<mapsto> ino)\<rparr>"]
      o(1,2,4) fr assms
    by (cases oc) (auto simp: sys_open_rd_def)
qed

lemma sys_truncate_ok:
  assumes "sys_truncate path len w = (None, w')" "dirents w path = Some ino"
  shows "dirents w' = dirents w" "kern w' = kern w"
    "idata (inodes w' ino) = take len (idata (inodes w ino)) @ replicate (len - length (idata (inodes w ino))) 0"
proof -
  obtain oc w1 where o: "next_outcome w = (oc, w1)" by fastforce
  then have fr: "inodes w1 = inodes w" "dirents w1 = dirents w" "kern w1 = kern w"
    by (auto simp: next_outcome_def split: list.splits)
  show "dirents w' = dirents w" "kern w' = kern w"
    "idata (inodes w' ino) = take len (idata (inodes w ino)) @ replicate (len - length (idata (inodes w ino))) 0"
    using assms o fr by (cases oc; auto simp: sys_truncate_def Let_def)+
qed

lemma replay_loop_succeeds:
  assumes "fdtab w fd = Some ino" and "dirents w path \<noteq> None"
    and "\<forall>e. Fail e \<notin> set (script w)" and "length part < 16"
    and "\<not> fst (run_cb cb (log_records (part @ drop off (idata (inodes w ino)))) ctx (kern w))"
  shows "\<exists>n ctx' w'. replay_loop cb path trunc fd off part ctx count w = (Inr n, ctx', w')"
  using assms
proof (induction cb path trunc fd off part ctx count w rule: replay_loop.induct)
  case (1 cb path trunc fd off part ctx count w)
  note prems = "1.prems" and ih = "1.IH"
  note unfold = replay_loop.simps [of cb path trunc fd off part ctx count w] BLOOMD_DIGEST_SIZE_def
  let ?data = "idata (inodes w ino)"
  obtain bs w1 where rd: "sys_read_at fd off (BLOOMD_DIGEST_SIZE - length part) w = (Inr bs, w1)"
    and w1: "w1 = w\<lparr>script := script w1\<rparr>" and sc: "set (script w1) \<subseteq> set (script w)"
    using sys_read_at_no_fail [OF prems(3,1)] .
  have fr: "fdtab w1 = fdtab w" "inodes w1 = inodes w" "dirents w1 = dirents w" "kern w1 = kern w"
    by (subst w1, simp)+
  have nf: "\<forall>e. Fail e \<notin> set (script w1)" using sc prems(3) by blast
  note piece = replay_piece [OF rd prems(1) refl prems(4)]
  let ?off = "off + length bs"
  consider (eof) "bs = []" | (more) "bs \<noteq> []" "length (part @ bs) < 16" | (full) "bs \<noteq> []" "\<not> length (part @ bs) < 16"
    by blast
  then show ?case
  proof cases
    case eof
    have "dirents (sys_close fd w1) path \<noteq> None" "\<forall>e. Fail e \<notin> set (script (sys_close fd w1))"
      using prems(2) fr nf by (simp_all add: sys_close_def)
    then obtain w2 where "sys_truncate path (count * BLOOMD_DIGEST_SIZE) (sys_close fd w1) = (None, w2)"
      using sys_truncate_no_fail by blast
    then show ?thesis using rd eof by (simp add: unfold(1) Let_def)
  next
    case more
    have "\<exists>n ctx' w'. replay_loop cb path trunc fd ?off (part @ bs) ctx count w1 = (Inr n, ctx', w')"
      using more prems(1,2,5) fr nf piece(2)
      by (intro ih(2) [OF rd [symmetric] refl]) (simp_all add: BLOOMD_DIGEST_SIZE_def)
    then show ?thesis using rd more by (simp add: unfold)
  next
    case full
    obtain fail c1 k1 where cb: "cb (part @ bs) ctx (kern w1) = (fail, c1, k1)" by (metis prod_cases3)
    have ok: "\<not> fail" "\<not> fst (run_cb cb (log_records (drop ?off ?data)) c1 k1)"
      using prems(5) piece(4) [OF full(2)] cb fr(4) by (auto split: if_splits)
    have "\<exists>n ctx' w'. replay_loop cb path trunc fd ?off [] c1 (count + 1) (w1\<lparr>kern := k1\<rparr>) = (Inr n, ctx', w')"
      using full prems(1,2) fr nf ok cb
      by (intro ih(3) [OF rd [symmetric] refl _ _ cb [symmetric] refl]) (simp_all add: BLOOMD_DIGEST_SIZE_def)
    then show ?thesis using rd full ok(1) cb by (simp add: unfold)
  qed
qed

lemma replay_end_data:
  assumes "replay_end path True (idata (inodes w ino)) n w w'" "dirents w path = Some ino"
  shows "file_data path w' = Some (take (16 * n) (idata (inodes w ino)))"
proof -
  from assms(1) obtain w0 where w0: "inodes w0 = inodes w" "dirents w0 = dirents w"
    and "w' = w0 \<and> length (idata (inodes w ino)) = 16 * n \<or>
      16 * n < length (idata (inodes w ino)) \<and> sys_truncate path (n * 16) w0 = (None, w')"
    by (auto simp: replay_end_def)
  then show ?thesis
    using assms(2) sys_truncate_ok [of path "n * 16" w0 w' ino]
    by (auto simp: file_data_def mult.commute)
qed

section \<open>Properties\<close>

text \<open>
  C8. Replaying a log under any pattern of short reads delivers exactly its complete
  sixteen-byte records, in file order, to the callback, counts them, and cuts a torn last record
  off the file; the loop always ends.
\<close>

theorem log_replay_correct:
  assumes "dirents w path = Some ino" and "\<forall>e. Fail e \<notin> set (script w)"
    and "run_cb cb (log_records (idata (inodes w ino))) ctx (kern w) = (False, c, k)"
  shows "\<exists>w'. bloomd_log_replay path cb ctx w = (Inr (length (idata (inodes w ino)) div 16), c, w') \<and>
     kern w' = k \<and>
     file_data path w' = Some (take (16 * (length (idata (inodes w ino)) div 16)) (idata (inodes w ino)))"
proof -
  obtain fd w1 where op: "sys_open_rd path w = (Inr fd, w1)" and fd: "fdtab w1 fd = Some ino"
    and fr: "inodes w1 = inodes w" "dirents w1 = dirents w" "kern w1 = kern w"
    and sc: "\<forall>e. Fail e \<notin> set (script w1)"
    using sys_open_rd_no_fail [OF assms(2,1)] .
  obtain n c' w' where lp: "replay_loop cb path True fd 0 [] ctx 0 w1 = (Inr n, c', w')"
    using replay_loop_succeeds [of w1 fd ino path "[]" cb 0 ctx True 0] fd sc assms(1,3) fr by auto
  have "run_cb cb (log_records (idata (inodes w ino))) ctx (kern w1) = (False, c', kern w') \<and>
     n = length (log_records (idata (inodes w ino))) \<and>
     replay_end path True (idata (inodes w ino)) n w1 w'"
    using replay_loop_ok [OF fd refl _ _ _ _ lp] fr by auto
  then show ?thesis
    using op lp fr assms(1,3) replay_end_cong [OF fr(1,2)] replay_end_data [of path w ino n w']
    by (auto simp: bloomd_log_replay_def log_replay_impl_def length_log_records)
qed

definition replay_sample :: "unit world" where
  "replay_sample = \<lparr>kern = (), dirents = [''/m/a.log'' \<mapsto> 0],
     inodes = (\<lambda>_. \<lparr>idata = replicate 16 7 @ [1, 2, 3], isynced = []\<rparr>), fdtab = (\<lambda>_. None),
     next_ino = 1, next_fd = 3, script = [Normal, Short 5, Short 1], ticks = [], clock = 0\<rparr>"

theorem log_replay_correct_witness:
  "\<exists>w'. bloomd_log_replay ''/m/a.log'' (\<lambda>d ctx k. (False, ctx @ [d], k)) [] replay_sample =
      (Inr 1, [replicate 16 7], w') \<and> file_data ''/m/a.log'' w' = Some (replicate 16 7)"
proof -
  let ?cb = "\<lambda>d ctx k. (False, ctx @ [d], k)"
  have data: "dirents replay_sample ''/m/a.log'' = Some 0"
    "idata (inodes replay_sample 0) = replicate 16 7 @ [1, 2, 3]"
    by (simp_all add: replay_sample_def)
  have "\<forall>e. Fail e \<notin> set (script replay_sample)" by (simp add: replay_sample_def)
  moreover have "run_cb ?cb (log_records (idata (inodes replay_sample 0))) [] (kern replay_sample) =
      (False, [replicate 16 7], ())"
    unfolding data(2) by (subst log_records_Cons) (simp_all add: replay_sample_def)
  ultimately show ?thesis
    using log_replay_correct [OF data(1), of ?cb "[]" "[replicate 16 7]" "()"] by (simp add: data(2))
qed

end
