(* ===== verification/Meta_File.thy ===== *)
theory Meta_File
  imports Mock_Kernel Digest_Log
begin

text \<open>
  The metadata file of a filter, \<open>src/src/meta.c\<close>: the text the daemon writes, the atomic
  replacement of the file (temporary file, sync, rename), and the line-by-line reader with its
  duplicate, range and consistency checks. Main results: the replacement is all or nothing under
  every pattern of failures, and a written file reads back as the metadata it was written from.
\<close>

section \<open>Metadata\<close>

record bloomd_filter_meta =
  fm_name :: string
  fm_backend :: string
  fm_digest :: string
  fm_pin_path :: string
  fm_meta_path :: string
  fm_log_path :: string
  fm_capacity :: u64
  fm_error_rate :: double
  fm_hashes :: u32
  fm_value_size :: u32
  fm_metadata_version :: u32
  fm_has_data :: bool
  fm_log_clean :: bool

definition BLOOMD_BACKEND_NAME :: string where "BLOOMD_BACKEND_NAME = ''bpf_bloom''"
definition BLOOMD_DIGEST_NAME :: string where "BLOOMD_DIGEST_NAME = ''siphash128-v1''"

section \<open>Writing\<close>

definition meta_line :: "string \<Rightarrow> string \<Rightarrow> string" where
  "meta_line key value = key @ ''='' @ value @ [LF]"

definition flag_text :: "bool \<Rightarrow> string" where
  "flag_text b = (if b then ''1'' else ''0'')"

definition meta_body :: "bloomd_filter_meta \<Rightarrow> string" where
  "meta_body m =
     meta_line ''version'' (dec_digits (uint (fm_metadata_version m))) @
     meta_line ''name'' (fm_name m) @
     meta_line ''backend'' (fm_backend m) @
     meta_line ''digest'' (fm_digest m) @
     meta_line ''capacity'' (dec_digits (uint (fm_capacity m))) @
     meta_line ''error_rate'' (fmt_g17 (fm_error_rate m)) @
     meta_line ''hashes'' (dec_digits (uint (fm_hashes m))) @
     meta_line ''value_size'' (dec_digits (uint (fm_value_size m))) @
     meta_line ''has_data'' (flag_text (fm_has_data m)) @
     meta_line ''log_clean'' (flag_text (fm_log_clean m)) @
     meta_line ''pin_path'' (fm_pin_path m)"

definition meta_tmp_path :: "int \<Rightarrow> string \<Rightarrow> string" where
  "meta_tmp_path pid path = path @ ''.tmp.'' @ dec_digits pid"

text \<open>
  The directory sync after the rename is best effort (its result is ignored) and has no effect
  on the modelled state.
\<close>

definition bloomd_meta_write_atomic :: "'k env \<Rightarrow> bloomd_filter_meta \<Rightarrow> 'k world \<Rightarrow> rc \<times> 'k world" where
  "bloomd_meta_write_atomic E meta w =
    (let body = meta_body meta; tmp = meta_tmp_path (getpid E) (fm_meta_path meta) in
     if length body \<ge> 2048 then (Some ENAMETOOLONG, w)
     else if length tmp \<ge> PATH_MAX then (Some ENAMETOOLONG, w)
     else case sys_open tmp True w of
       (Inl e, w) \<Rightarrow> (Some e, w)
     | (Inr fd, w) \<Rightarrow>
         (case bloomd_write_all fd (bytes_of_string body) w of
            (Some e, w) \<Rightarrow> (Some e, snd (sys_unlink tmp (sys_close fd w)))
          | (None, w) \<Rightarrow>
              (case sys_fsync fd w of
                 (Some e, w) \<Rightarrow> (Some e, snd (sys_unlink tmp (sys_close fd w)))
               | (None, w) \<Rightarrow>
                   (case sys_rename tmp (fm_meta_path meta) (sys_close fd w) of
                      (Some e, w) \<Rightarrow> (Some e, snd (sys_unlink tmp w))
                    | (None, w) \<Rightarrow> (None, w)))))"

definition bloomd_meta_delete :: "string \<Rightarrow> 'k world \<Rightarrow> rc \<times> 'k world" where
  "bloomd_meta_delete path w = bloomd_remove_path_if_exists path w"

text \<open>\<open>now\<close> is the reading of \<open>time(NULL)\<close>.\<close>

definition bloomd_meta_recover_stale :: "string \<Rightarrow> int \<Rightarrow> 'k world \<Rightarrow> rc \<times> 'k world" where
  "bloomd_meta_recover_stale path now w =
    (let recovered = path @ ''.stale.'' @ dec_digits now in
     if length recovered \<ge> PATH_MAX then (Some ENAMETOOLONG, w)
     else sys_rename path recovered w)"

section \<open>Reading\<close>

definition bloomd_meta_assign_string :: "nat \<Rightarrow> string \<Rightarrow> errno + string" where
  "bloomd_meta_assign_string dst_sz value =
    (if length value \<ge> dst_sz then Inl ENAMETOOLONG else Inr (snprintf_to dst_sz value))"

definition bloomd_meta_parse_u32 :: "string \<Rightarrow> errno + u32" where
  "bloomd_meta_parse_u32 value =
    (case strtoul 10 value of (parsed, err, end) \<Rightarrow>
       if err \<noteq> None \<or> end = value \<or> end \<noteq> [] \<or> parsed > 0xFFFFFFFF then Inl EINVAL
       else Inr (ucast parsed))"

definition bloomd_meta_parse_u64 :: "string \<Rightarrow> errno + u64" where
  "bloomd_meta_parse_u64 value =
    (case strtoul 10 value of (parsed, err, end) \<Rightarrow>
       if err \<noteq> None \<or> end = value \<or> end \<noteq> [] then Inl EINVAL else Inr parsed)"

definition bloomd_meta_parse_double :: "string \<Rightarrow> errno + double" where
  "bloomd_meta_parse_double value =
    (case strtod value of (parsed, err, end) \<Rightarrow>
       if err \<noteq> None \<or> end = value \<or> end \<noteq> [] then Inl EINVAL else Inr parsed)"

definition bloomd_trim_newline :: "string \<Rightarrow> string" where
  "bloomd_trim_newline line = rev (dropWhile (\<lambda>c. c = LF \<or> c = CR) (rev line))"

text \<open>\<open>fgets\<close> into a 1024-byte array: up to 1023 characters, ending after the first newline.\<close>

definition fgets_line :: "string \<Rightarrow> string" where
  "fgets_line s =
    (let t = take 1023 s; p = takeWhile (\<lambda>c. c \<noteq> LF) t in take (length p + 1) t)"

lemma fgets_line_length: "s \<noteq> [] \<Longrightarrow> 0 < length (fgets_line s)"
  by (cases s) (auto simp: fgets_line_def Let_def)

text \<open>
  The state of the parse: the structure being filled and the keys seen (the \<open>have_\<close> flags; the
  version has none, a second version line is refused because the field is no longer zero).
\<close>

record meta_parse =
  mp_meta :: bloomd_filter_meta
  mp_seen :: "string list"

definition meta_zero :: bloomd_filter_meta where
  "meta_zero = \<lparr>fm_name = [], fm_backend = [], fm_digest = [], fm_pin_path = [], fm_meta_path = [],
     fm_log_path = [], fm_capacity = 0, fm_error_rate = 0, fm_hashes = 0, fm_value_size = 0,
     fm_metadata_version = 0, fm_has_data = True, fm_log_clean = False\<rparr>"

definition meta_parse_init :: meta_parse where
  "meta_parse_init = \<lparr>mp_meta = meta_zero, mp_seen = []\<rparr>"

definition have_key :: "meta_parse \<Rightarrow> string \<Rightarrow> bool" where
  "have_key st key = List.member (mp_seen st) key"

definition meta_set ::
  "meta_parse \<Rightarrow> string \<Rightarrow> (errno + 'a) \<Rightarrow> ('a \<Rightarrow> bloomd_filter_meta \<Rightarrow> bloomd_filter_meta)
    \<Rightarrow> errno + meta_parse" where
  "meta_set st key v upd =
    (if have_key st key then Inl EINVAL
     else case v of
       Inl _ \<Rightarrow> Inl EINVAL
     | Inr x \<Rightarrow> Inr (st\<lparr>mp_meta := upd x (mp_meta st), mp_seen := key # mp_seen st\<rparr>))"

definition parse_flag :: "string \<Rightarrow> errno + bool" where
  "parse_flag value =
    (case bloomd_meta_parse_u32 value of
       Inl e \<Rightarrow> Inl e
     | Inr x \<Rightarrow> if x \<noteq> 0 \<and> x \<noteq> 1 then Inl EINVAL else Inr (x \<noteq> 0))"

definition meta_apply_key :: "meta_parse \<Rightarrow> string \<Rightarrow> string \<Rightarrow> errno + meta_parse" where
  "meta_apply_key st key value =
    (if key = ''version'' then
       (if fm_metadata_version (mp_meta st) \<noteq> 0 then Inl EINVAL
        else case bloomd_meta_parse_u32 value of
          Inl _ \<Rightarrow> Inl EINVAL
        | Inr x \<Rightarrow> Inr (st\<lparr>mp_meta := (mp_meta st)\<lparr>fm_metadata_version := x\<rparr>\<rparr>))
     else if key = ''name'' then
       meta_set st key (bloomd_meta_assign_string 64 value) (\<lambda>x m. m\<lparr>fm_name := x\<rparr>)
     else if key = ''backend'' then
       meta_set st key (bloomd_meta_assign_string 16 value) (\<lambda>x m. m\<lparr>fm_backend := x\<rparr>)
     else if key = ''digest'' then
       meta_set st key (bloomd_meta_assign_string 32 value) (\<lambda>x m. m\<lparr>fm_digest := x\<rparr>)
     else if key = ''capacity'' then
       meta_set st key (bloomd_meta_parse_u64 value) (\<lambda>x m. m\<lparr>fm_capacity := x\<rparr>)
     else if key = ''error_rate'' then
       meta_set st key (bloomd_meta_parse_double value) (\<lambda>x m. m\<lparr>fm_error_rate := x\<rparr>)
     else if key = ''hashes'' then
       meta_set st key (bloomd_meta_parse_u32 value) (\<lambda>x m. m\<lparr>fm_hashes := x\<rparr>)
     else if key = ''value_size'' then
       meta_set st key (bloomd_meta_parse_u32 value) (\<lambda>x m. m\<lparr>fm_value_size := x\<rparr>)
     else if key = ''has_data'' then
       meta_set st key (parse_flag value) (\<lambda>x m. m\<lparr>fm_has_data := x\<rparr>)
     else if key = ''log_clean'' then
       meta_set st key (parse_flag value) (\<lambda>x m. m\<lparr>fm_log_clean := x\<rparr>)
     else if key = ''pin_path'' then
       meta_set st key (bloomd_meta_assign_string PATH_MAX value) (\<lambda>x m. m\<lparr>fm_pin_path := x\<rparr>)
     else Inl EINVAL)"

text \<open>One round of the reading loop. The line is a C string, so it ends at a NUL.\<close>

definition meta_apply_line :: "meta_parse \<Rightarrow> string \<Rightarrow> errno + meta_parse" where
  "meta_apply_line st raw =
    (let line = bloomd_trim_newline (takeWhile (\<lambda>c. c \<noteq> NUL) raw) in
     if line = [] \<or> hd line = CHR ''#'' then Inr st
     else if CHR ''='' \<notin> set line then Inl EINVAL
     else meta_apply_key st (takeWhile (\<lambda>c. c \<noteq> CHR ''='') line)
            (tl (dropWhile (\<lambda>c. c \<noteq> CHR ''='') line)))"

function meta_lines_loop :: "meta_parse \<Rightarrow> string \<Rightarrow> errno + meta_parse" where
  "meta_lines_loop st s =
    (if s = [] then Inr st
     else case meta_apply_line st (fgets_line s) of
       Inl e \<Rightarrow> Inl e
     | Inr st' \<Rightarrow> meta_lines_loop st' (drop (length (fgets_line s)) s))"
  by pat_completeness auto
termination
  by (relation "measure (\<lambda>(st, s). length s)") (use fgets_line_length in \<open>auto\<close>)

declare meta_lines_loop.simps [simp del]

text \<open>The checks after the last line.\<close>

definition meta_finish :: "meta_parse \<Rightarrow> string \<Rightarrow> errno + bloomd_filter_meta" where
  "meta_finish st path =
    (let meta = mp_meta st in
     if \<not> (have_key st ''name'' \<and> have_key st ''backend'' \<and> have_key st ''digest'' \<and>
           have_key st ''capacity'' \<and> have_key st ''error_rate'' \<and> have_key st ''hashes'' \<and>
           have_key st ''value_size'' \<and> have_key st ''pin_path'') then Inl EINVAL
     else if fm_metadata_version meta \<noteq> 1 then Inl EINVAL
     else if \<not> bloomd_name_is_valid (fm_name meta) then Inl EINVAL
     else if fm_backend meta \<noteq> BLOOMD_BACKEND_NAME \<or> fm_digest meta \<noteq> BLOOMD_DIGEST_NAME then Inl EINVAL
     else if fm_value_size meta \<noteq> 16 \<or> fm_capacity meta = 0 \<or> fm_hashes meta > 15 \<or>
             \<not> isfinite (fm_error_rate meta) \<or> dle_zero (fm_error_rate meta) \<or>
             dge_one (fm_error_rate meta) then Inl EINVAL
     else let meta = (if \<not> have_key st ''log_clean''
                      then meta\<lparr>fm_log_clean := \<not> fm_has_data meta\<rparr> else meta)
          in Inr (meta\<lparr>fm_meta_path := snprintf_to PATH_MAX path\<rparr>))"

definition meta_parse_text :: "string \<Rightarrow> string \<Rightarrow> errno + bloomd_filter_meta" where
  "meta_parse_text path s =
    (case meta_lines_loop meta_parse_init s of
       Inl e \<Rightarrow> Inl e
     | Inr st \<Rightarrow> meta_finish st path)"

definition bloomd_meta_read_file ::
  "string \<Rightarrow> 'k world \<Rightarrow> (errno + bloomd_filter_meta) \<times> 'k world" where
  "bloomd_meta_read_file path w =
    (case next_outcome w of
       (Fail e, w) \<Rightarrow> (Inl e, w)
     | (_, w) \<Rightarrow>
         (case file_data path w of
            None \<Rightarrow> (Inl ENOENT, w)
          | Some bs \<Rightarrow> (meta_parse_text path (string_of_bytes bs), w)))"

section \<open>Round trip\<close>

definition meta_ok :: "bloomd_filter_meta \<Rightarrow> bool" where
  "meta_ok m \<longleftrightarrow> bloomd_name_is_valid (fm_name m) \<and> fm_backend m = BLOOMD_BACKEND_NAME \<and>
     fm_digest m = BLOOMD_DIGEST_NAME \<and> fm_value_size m = 16 \<and> fm_capacity m \<noteq> 0 \<and>
     fm_hashes m \<le> 15 \<and> rate_ok (fm_error_rate m) \<and> fm_metadata_version m = 1"

text \<open>
  \<open>text_ok s\<close>: a value that fits a line of the file: no NUL, no line break, and short enough that
  \<open>pin_path=\<close>, the value and the newline fit one \<open>fgets\<close> of 1023 characters.
\<close>

definition text_ok :: "string \<Rightarrow> bool" where
  "text_ok s \<longleftrightarrow> NUL \<notin> set s \<and> LF \<notin> set s \<and> CR \<notin> set s \<and> length s \<le> 1012"

lemma fgets_line_meta:
  assumes "LF \<notin> set key" "LF \<notin> set v" "length key + length v \<le> 1021"
  shows "fgets_line (meta_line key v @ r) = meta_line key v"
proof -
  have nolf: "\<forall>c\<in>set (key @ ''='' @ v). c \<noteq> LF" using assms(1,2) by auto
  have m: "meta_line key v = (key @ ''='' @ v) @ [LF]" by (simp add: meta_line_def)
  have len: "length (meta_line key v) \<le> 1023" using assms(3) by (simp add: meta_line_def)
  then have t: "take 1023 (meta_line key v @ r) = meta_line key v @ take (1023 - length (meta_line key v)) r"
    by simp
  have "takeWhile (\<lambda>c. c \<noteq> LF) (meta_line key v @ q) = key @ ''='' @ v" for q
    unfolding m using nolf by (simp add: takeWhile_append)
  then show ?thesis unfolding fgets_line_def Let_def t
    by (simp add: meta_line_def)
qed

lemma trim_newline_line:
  assumes "CR \<notin> set s" "LF \<notin> set s"
  shows "bloomd_trim_newline (s @ [LF]) = s"
proof -
  have "dropWhile (\<lambda>c. c = LF \<or> c = CR) (rev s) = rev s"
    using assms by (cases "rev s") (auto simp: rev_swap)
  then show ?thesis by (simp add: bloomd_trim_newline_def)
qed

lemma apply_line_meta:
  assumes "text_ok v" "key \<noteq> []" "hd key \<noteq> CHR ''#''" "CHR ''='' \<notin> set key"
    "NUL \<notin> set key" "LF \<notin> set key" "CR \<notin> set key"
  shows "meta_apply_line st (meta_line key v) = meta_apply_key st key v"
proof -
  have "takeWhile (\<lambda>c. c \<noteq> NUL) (meta_line key v) = (key @ ''='' @ v) @ [LF]"
    using assms by (simp add: meta_line_def text_ok_def takeWhile_append)
  moreover have "bloomd_trim_newline ((key @ ''='' @ v) @ [LF]) = key @ ''='' @ v"
    using assms by (intro trim_newline_line) (auto simp: text_ok_def)
  moreover have "takeWhile (\<lambda>c. c \<noteq> CHR ''='') (key @ ''='' @ v) = key"
    "dropWhile (\<lambda>c. c \<noteq> CHR ''='') (key @ ''='' @ v) = ''='' @ v"
    using assms(4) by (auto simp: takeWhile_append dropWhile_append)
  ultimately show ?thesis using assms(2,3)
    by (simp add: meta_apply_line_def Let_def)
qed

lemma lines_loop_step:
  assumes "text_ok v" "key \<noteq> []" "hd key \<noteq> CHR ''#''" "CHR ''='' \<notin> set key"
    "NUL \<notin> set key" "LF \<notin> set key" "CR \<notin> set key" "length key \<le> 9 + 1"
    "length key + length v \<le> 1021"
  shows "meta_lines_loop st (meta_line key v @ r) =
    (case meta_apply_key st key v of Inl e \<Rightarrow> Inl e | Inr st' \<Rightarrow> meta_lines_loop st' r)"
proof -
  have ne: "meta_line key v \<noteq> []" by (simp add: meta_line_def)
  have "fgets_line (meta_line key v @ r) = meta_line key v"
    using assms by (intro fgets_line_meta) (auto simp: text_ok_def)
  then show ?thesis
    by (cases "meta_apply_key st key v")
      (simp_all add: meta_lines_loop.simps [of st "meta_line key v @ r"] ne
        apply_line_meta [OF assms(1-7)])
qed

lemma lines_loop_end [simp]: "meta_lines_loop st [] = Inr st"
  by (subst meta_lines_loop.simps) simp

lemma length_dec_digits: "0 \<le> n \<Longrightarrow> n < 10 ^ Suc k \<Longrightarrow> length (dec_digits n) \<le> Suc k"
proof (induction k arbitrary: n)
  case 0
  then show ?case by (simp add: dec_digits.simps [of n])
next
  case (Suc k)
  then show ?case by (cases "n < 10") (simp_all add: dec_digits.simps [of n])
qed

lemma text_ok_dec_digits: "text_ok (dec_digits (uint (x :: 'a::len word)))" if "LENGTH('a) \<le> 64"
proof -
  have "uint x < 2 ^ LENGTH('a)" by (rule uint_lt2p)
  also have "(2 :: int) ^ LENGTH('a) \<le> 2 ^ 64" using that by (intro power_increasing) auto
  also have "(2 :: int) ^ 64 < 10 ^ Suc 19" by simp
  finally have "length (dec_digits (uint x)) \<le> Suc 19" by (intro length_dec_digits) auto
  moreover have "\<forall>c\<in>set (dec_digits (uint x)). is_digit_of 10 c"
    using dec_digits_are_digits [of "uint x"] by (simp add: list_all_iff)
  ultimately show ?thesis using digit_not_special by (fastforce simp: text_ok_def)
qed

lemma parse_u64_dec_digits: "bloomd_meta_parse_u64 (dec_digits (uint x)) = Inr x"
  using strtoul_dec_digits [of "uint x"] uint_lt2p [of x] dec_digits_neq_Nil [of "uint x"]
  by (simp add: bloomd_meta_parse_u64_def)

lemma parse_u32_dec_digits: "bloomd_meta_parse_u32 (dec_digits (uint x)) = Inr x"
proof -
  have lt: "uint x < 2 ^ 32" using uint_lt2p [of x] by simp
  have w: "(of_int (uint x) :: u64) = ucast x" by simp
  have "\<not> (ucast x :: u64) > 0xFFFFFFFF"
    using lt by (simp add: word_less_def uint_up_ucast is_up not_less)
  moreover have "ucast (ucast x :: u64) = x" by (simp add: ucast_up_ucast_id is_up)
  ultimately show ?thesis
    using strtoul_dec_digits [of "uint x"] lt dec_digits_neq_Nil [of "uint x"]
    by (simp add: bloomd_meta_parse_u32_def w)
qed

lemma dec_digits_flag: "dec_digits 1 = ''1''" "dec_digits 0 = ''0''"
  by code_simp+

lemma parse_flag_digit: "parse_flag (flag_text b) = Inr b"
  using parse_u32_dec_digits [of 1] parse_u32_dec_digits [of 0]
  by (simp add: parse_flag_def dec_digits_flag flag_text_def)

lemma text_ok_flag: "text_ok (flag_text b)"
  by (simp add: text_ok_def flag_text_def)

lemma text_ok_name:
  assumes "bloomd_name_is_valid s"
  shows "text_ok s"
proof -
  note name_valid_chars [OF assms]
  then show ?thesis by (simp add: text_ok_def)
qed

lemma assign_string_fits: "length v < n \<Longrightarrow> bloomd_meta_assign_string n v = Inr v"
  by (simp add: bloomd_meta_assign_string_def snprintf_to_def)

text \<open>One line of the written text, read into a state that has not seen its key.\<close>

lemma read_line:
  assumes "text_ok v" "meta_apply_key st key v = Inr st'"
    and "key \<noteq> []" "hd key \<noteq> CHR ''#''" "CHR ''='' \<notin> set key" "NUL \<notin> set key" "LF \<notin> set key"
      "CR \<notin> set key" "length key \<le> 9"
  shows "meta_lines_loop st (meta_line key v @ r) = meta_lines_loop st' r"
  using lines_loop_step [of v key st r] assms by (simp add: text_ok_def)

lemma read_line_long:
  assumes "text_ok v" "length v \<le> 100" "meta_apply_key st key v = Inr st'"
    and "key \<noteq> []" "hd key \<noteq> CHR ''#''" "CHR ''='' \<notin> set key" "NUL \<notin> set key" "LF \<notin> set key"
      "CR \<notin> set key" "length key \<le> 10"
  shows "meta_lines_loop st (meta_line key v @ r) = meta_lines_loop st' r"
  using lines_loop_step [of v key st r] assms by simp

lemma apply_keys:
  "fm_metadata_version M = 0 \<Longrightarrow> meta_apply_key \<lparr>mp_meta = M, mp_seen = S\<rparr> ''version'' (dec_digits (uint x)) =
    Inr \<lparr>mp_meta = M\<lparr>fm_metadata_version := x\<rparr>, mp_seen = S\<rparr>"
  "''name'' \<notin> set S \<Longrightarrow> length v < 64 \<Longrightarrow> meta_apply_key \<lparr>mp_meta = M, mp_seen = S\<rparr> ''name'' v =
    Inr \<lparr>mp_meta = M\<lparr>fm_name := v\<rparr>, mp_seen = ''name'' # S\<rparr>"
  "''backend'' \<notin> set S \<Longrightarrow> length v < 16 \<Longrightarrow> meta_apply_key \<lparr>mp_meta = M, mp_seen = S\<rparr> ''backend'' v =
    Inr \<lparr>mp_meta = M\<lparr>fm_backend := v\<rparr>, mp_seen = ''backend'' # S\<rparr>"
  "''digest'' \<notin> set S \<Longrightarrow> length v < 32 \<Longrightarrow> meta_apply_key \<lparr>mp_meta = M, mp_seen = S\<rparr> ''digest'' v =
    Inr \<lparr>mp_meta = M\<lparr>fm_digest := v\<rparr>, mp_seen = ''digest'' # S\<rparr>"
  "''capacity'' \<notin> set S \<Longrightarrow> meta_apply_key \<lparr>mp_meta = M, mp_seen = S\<rparr> ''capacity'' (dec_digits (uint c)) =
    Inr \<lparr>mp_meta = M\<lparr>fm_capacity := c\<rparr>, mp_seen = ''capacity'' # S\<rparr>"
  "''error_rate'' \<notin> set S \<Longrightarrow> bloomd_meta_parse_double v = Inr d \<Longrightarrow>
    meta_apply_key \<lparr>mp_meta = M, mp_seen = S\<rparr> ''error_rate'' v =
    Inr \<lparr>mp_meta = M\<lparr>fm_error_rate := d\<rparr>, mp_seen = ''error_rate'' # S\<rparr>"
  "''hashes'' \<notin> set S \<Longrightarrow> meta_apply_key \<lparr>mp_meta = M, mp_seen = S\<rparr> ''hashes'' (dec_digits (uint x)) =
    Inr \<lparr>mp_meta = M\<lparr>fm_hashes := x\<rparr>, mp_seen = ''hashes'' # S\<rparr>"
  "''value_size'' \<notin> set S \<Longrightarrow> meta_apply_key \<lparr>mp_meta = M, mp_seen = S\<rparr> ''value_size'' (dec_digits (uint x)) =
    Inr \<lparr>mp_meta = M\<lparr>fm_value_size := x\<rparr>, mp_seen = ''value_size'' # S\<rparr>"
  "''has_data'' \<notin> set S \<Longrightarrow>
    meta_apply_key \<lparr>mp_meta = M, mp_seen = S\<rparr> ''has_data'' (flag_text b) =
    Inr \<lparr>mp_meta = M\<lparr>fm_has_data := b\<rparr>, mp_seen = ''has_data'' # S\<rparr>"
  "''log_clean'' \<notin> set S \<Longrightarrow>
    meta_apply_key \<lparr>mp_meta = M, mp_seen = S\<rparr> ''log_clean'' (flag_text b) =
    Inr \<lparr>mp_meta = M\<lparr>fm_log_clean := b\<rparr>, mp_seen = ''log_clean'' # S\<rparr>"
  "''pin_path'' \<notin> set S \<Longrightarrow> length v < PATH_MAX \<Longrightarrow>
    meta_apply_key \<lparr>mp_meta = M, mp_seen = S\<rparr> ''pin_path'' v =
    Inr \<lparr>mp_meta = M\<lparr>fm_pin_path := v\<rparr>, mp_seen = ''pin_path'' # S\<rparr>"
  by (simp_all add: meta_apply_key_def meta_set_def have_key_def assign_string_fits
      parse_u32_dec_digits parse_u64_dec_digits parse_flag_digit)

lemmas read_keys = read_line [OF _ apply_keys(1)] read_line [OF _ apply_keys(2)]
  read_line [OF _ apply_keys(3)] read_line [OF _ apply_keys(4)] read_line [OF _ apply_keys(5)]
  read_line_long [OF _ _ apply_keys(6)] read_line [OF _ apply_keys(7)]
  read_line_long [OF _ _ apply_keys(8)] read_line [OF _ apply_keys(9)]
  read_line [OF _ apply_keys(10)] read_line [OF _ apply_keys(11), where r = "[]", simplified]

text \<open>The reader's state after the eleven lines the writer prints.\<close>

lemma meta_loop_body:
  assumes "text_ok (fm_name m)" "length (fm_name m) < 64" "text_ok (fm_backend m)"
    "length (fm_backend m) < 16" "text_ok (fm_digest m)" "length (fm_digest m) < 32"
    "text_ok (fm_pin_path m)" "text_ok (fmt_g17 (fm_error_rate m))"
    "length (fmt_g17 (fm_error_rate m)) \<le> 100"
    "bloomd_meta_parse_double (fmt_g17 (fm_error_rate m)) = Inr (fm_error_rate m)"
  shows "meta_lines_loop meta_parse_init (meta_body m) =
    Inr \<lparr>mp_meta = m\<lparr>fm_meta_path := [], fm_log_path := []\<rparr>,
         mp_seen = [''pin_path'', ''log_clean'', ''has_data'', ''value_size'', ''hashes'',
           ''error_rate'', ''capacity'', ''digest'', ''backend'', ''name'']\<rparr>"
proof -
  have pl: "length (fm_pin_path m) < PATH_MAX"
    using assms(7) by (simp add: text_ok_def PATH_MAX_def)
  have vs: "length (dec_digits (uint (fm_value_size m))) \<le> 100"
    using length_dec_digits [of "uint (fm_value_size m)" 9] uint_lt2p [of "fm_value_size m"] by simp
  show ?thesis
    unfolding meta_body_def meta_parse_init_def meta_zero_def
    using assms pl vs
    by (simp add: read_keys(1-5,7-) read_keys(6) [OF _ _ _ assms(10)] text_ok_dec_digits text_ok_flag)
qed

lemma meta_parse_body:
  assumes m: "meta_ok m" and pin: "text_ok (fm_pin_path m)"
    and rate: "strtod (fmt_g17 (fm_error_rate m)) = (fm_error_rate m, None, [])"
      "text_ok (fmt_g17 (fm_error_rate m))" "fmt_g17 (fm_error_rate m) \<noteq> []"
      "length (fmt_g17 (fm_error_rate m)) \<le> 100"
  shows "meta_parse_text path (string_of_bytes (bytes_of_string (meta_body m))) =
    Inr (m\<lparr>fm_meta_path := snprintf_to PATH_MAX path, fm_log_path := []\<rparr>)"
proof -
  have nm: "text_ok (fm_name m)" "length (fm_name m) < 64"
    using m text_ok_name name_valid_chars(2) [of "fm_name m"] by (auto simp: meta_ok_def)
  have fixed: "text_ok (fm_backend m)" "text_ok (fm_digest m)"
    "length (fm_backend m) < 16" "length (fm_digest m) < 32"
    using m by (simp_all add: meta_ok_def text_ok_def BLOOMD_BACKEND_NAME_def BLOOMD_DIGEST_NAME_def)
  have rp: "bloomd_meta_parse_double (fmt_g17 (fm_error_rate m)) = Inr (fm_error_rate m)"
    using rate(1,3) by (simp add: bloomd_meta_parse_double_def)
  show ?thesis
    unfolding meta_parse_text_def string_of_bytes_of_string
    using m meta_loop_body [OF nm fixed(1,3,2,4) pin rate(2,4) rp]
    by (auto simp: meta_finish_def have_key_def Let_def meta_ok_def rate_ok_def not_less)
qed


definition sample_meta :: bloomd_filter_meta where
  "sample_meta = \<lparr>fm_name = ''users'', fm_backend = BLOOMD_BACKEND_NAME,
     fm_digest = BLOOMD_DIGEST_NAME, fm_pin_path = ''/sys/fs/bpf/bloomd/users'',
     fm_meta_path = ''/m/users.meta'', fm_log_path = ''/m/users.digests'', fm_capacity = 1000,
     fm_error_rate = 0x3F847AE147AE147B, fm_hashes = 7, fm_value_size = 16,
     fm_metadata_version = 1, fm_has_data = True, fm_log_clean = False\<rparr>"

lemma sample_rate:
  "fmt_g17 0x3F847AE147AE147B = ''0.01''" 
  "strtod ''0.01'' = (0x3F847AE147AE147B, None, [])" "rate_ok 0x3F847AE147AE147B"
  by code_simp+

lemma sample_meta_ok: "meta_ok sample_meta" "text_ok (fm_pin_path sample_meta)"
  by (simp_all add: meta_ok_def sample_meta_def sample_rate text_ok_def) code_simp?

lemma sample_parse_body:
  "meta_parse_text path (string_of_bytes (bytes_of_string (meta_body (sample_meta\<lparr>fm_has_data := h, fm_log_clean := c\<rparr>)))) =
    Inr (sample_meta\<lparr>fm_has_data := h, fm_log_clean := c, fm_meta_path := snprintf_to PATH_MAX path,
      fm_log_path := []\<rparr>)"
  by (subst meta_parse_body) (use sample_meta_ok in \<open>simp_all add: sample_meta_def sample_rate text_ok_def meta_ok_def\<close>)


section \<open>Atomic replacement\<close>

text \<open>
  \<open>only_files P w w'\<close>: between the two worlds nothing changed but the directory entries of the
  paths in \<open>P\<close> and the files these entries named before; open descriptors and the kernel are as
  they were.
\<close>

definition only_files :: "string set \<Rightarrow> 'k world \<Rightarrow> 'k world \<Rightarrow> bool" where
  "only_files P w w' \<longleftrightarrow> world_ok w' \<and> kern w' = kern w \<and> fdtab w' = fdtab w \<and>
     next_ino w \<le> next_ino w' \<and> next_fd w \<le> next_fd w' \<and>
     (\<forall>p. p \<notin> P \<longrightarrow> dirents w' p = dirents w p) \<and>
     (\<forall>p\<in>P. \<forall>i. dirents w' p = Some i \<longrightarrow> i < next_ino w \<longrightarrow> (\<exists>q\<in>P. dirents w q = Some i)) \<and>
     (\<forall>i. i < next_ino w \<longrightarrow> (\<forall>p\<in>P. dirents w p \<noteq> Some i) \<longrightarrow> inodes w' i = inodes w i)"

lemma only_files_refl: "world_ok w \<Longrightarrow> only_files P w (w\<lparr>script := s\<rparr>)"
  by (auto simp: only_files_def)

lemma only_files_mono:
  assumes "only_files P w w'" "P \<subseteq> Q"
  shows "only_files Q w w'"
proof -
  note f = assms(1) [unfolded only_files_def]
  have "\<exists>q\<in>Q. dirents w q = Some i" if i: "p \<in> Q" "dirents w' p = Some i" "i < next_ino w" for p i
  proof (cases "p \<in> P")
    case True
    then obtain q where "q \<in> P" "dirents w q = Some i" using f i by blast
    then show ?thesis using assms(2) by blast
  next
    case False
    then show ?thesis using f i by auto
  qed
  moreover have "\<forall>p. p \<notin> Q \<longrightarrow> dirents w' p = dirents w p"
    "\<forall>i. i < next_ino w \<longrightarrow> (\<forall>p\<in>Q. dirents w p \<noteq> Some i) \<longrightarrow> inodes w' i = inodes w i"
    using f assms(2) by blast+
  ultimately show ?thesis using f by (simp add: only_files_def)
qed

lemma only_files_file:
  assumes "world_ok w" "only_files P w w'" "q \<notin> P"
  shows "file_data q w' = file_data q w" "file_synced q w' = file_synced q w"
proof -
  have "inodes w' i = inodes w i" if "dirents w q = Some i" for i
  proof -
    have "\<forall>p\<in>P. dirents w p \<noteq> Some i" using world_okD(1) [OF assms(1) _ that] assms(3) by blast
    moreover have "i < next_ino w" using world_okD(2) [OF assms(1) that] .
    ultimately show ?thesis using assms(2) by (simp add: only_files_def)
  qed
  moreover have "dirents w' q = dirents w q" using assms by (simp add: only_files_def)
  ultimately show "file_data q w' = file_data q w" "file_synced q w' = file_synced q w"
    by (cases "dirents w q"; simp add: file_data_def file_synced_def)+
qed

text \<open>The states between opening the temporary file and the rename.\<close>

definition staging :: "string \<Rightarrow> int \<Rightarrow> nat \<Rightarrow> 'k world \<Rightarrow> 'k world \<Rightarrow> bool" where
  "staging tmp fd ino w w' \<longleftrightarrow> world_ok w \<and> world_ok w' \<and> kern w' = kern w \<and> fd = next_fd w \<and>
     fdtab w' = (fdtab w)(fd := Some ino) \<and> dirents w' = (dirents w)(tmp := Some ino) \<and>
     (\<forall>i. i \<noteq> ino \<longrightarrow> inodes w' i = inodes w i) \<and>
     (dirents w tmp = Some ino \<or> ino = next_ino w) \<and>
     next_ino w \<le> next_ino w' \<and> next_fd w \<le> next_fd w'"

lemma staging_open:
  assumes "world_ok w" "sys_open tmp True w = (Inr fd, w1)"
  obtains ino where "staging tmp fd ino w w1" "idata (inodes w1 ino) = []"
  using assms(2)
proof (cases rule: sys_open_Inr)
  case (1 ino x)
  have "staging tmp fd ino w w1"
    unfolding staging_def using 1 assms world_ok_open [OF assms] by auto
  then show ?thesis using 1 by (intro that [of ino]) auto
qed

lemma staging_write:
  assumes "staging tmp fd ino w w1" "bloomd_write_all fd buf w1 = (r, w2)"
  shows "staging tmp fd ino w w2" "r = None \<Longrightarrow> idata (inodes w2 ino) = idata (inodes w1 ino) @ buf"
proof -
  have "fdtab w1 fd = Some ino" using assms(1) by (simp add: staging_def)
  then obtain n s where "w2 = (append_ino ino (take n buf) w1)\<lparr>script := s\<rparr>"
    "r = None \<longrightarrow> n = length buf"
    using bloomd_write_all_spec [OF _ assms(2)] by blast
  then show "staging tmp fd ino w w2"
    "r = None \<Longrightarrow> idata (inodes w2 ino) = idata (inodes w1 ino) @ buf"
    using assms(1) by (auto simp: staging_def)
qed

lemma staging_fsync:
  assumes "staging tmp fd ino w w1" "sys_fsync fd w1 = (r, w2)"
  shows "staging tmp fd ino w w2" "idata (inodes w2 ino) = idata (inodes w1 ino)"
    "r = None \<Longrightarrow> isynced (inodes w2 ino) = idata (inodes w1 ino)"
proof -
  have *: "staging tmp fd ino w w2 \<and> idata (inodes w2 ino) = idata (inodes w1 ino) \<and>
      (r = None \<longrightarrow> isynced (inodes w2 ino) = idata (inodes w1 ino))"
    using assms(2)
  proof (cases rule: sys_fsync_cases)
    case (ok i s)
    moreover have "i = ino" using ok assms(1) by (simp add: staging_def)
    ultimately show ?thesis using assms(1) by (simp add: staging_def)
  next
    case (err e s)
    then show ?thesis using assms(1) by (simp add: staging_def)
  qed
  then show "staging tmp fd ino w w2" "idata (inodes w2 ino) = idata (inodes w1 ino)"
    "r = None \<Longrightarrow> isynced (inodes w2 ino) = idata (inodes w1 ino)" by auto
qed

text \<open>Giving up: the temporary file is closed and unlinked, if the unlink succeeds.\<close>

lemma staging_abort:
  assumes "staging tmp fd ino w w1"
  shows "only_files {tmp} w (snd (sys_unlink tmp ((sys_close fd w1)\<lparr>script := s\<rparr>)))"
proof -
  let ?c = "(sys_close fd w1)\<lparr>script := s\<rparr>"
  have c: "world_ok ?c" "fdtab ?c = fdtab w" "dirents ?c = (dirents w)(tmp := Some ino)"
    "inodes ?c = inodes w1" "next_ino ?c = next_ino w1" "next_fd ?c = next_fd w1" "kern ?c = kern w"
    using assms world_okD(5) [of w] world_ok_close [of w1 fd]
    by (auto simp: staging_def sys_close_def fun_upd_idem)
  obtain r w2 where u: "sys_unlink tmp ?c = (r, w2)" by fastforce
  have "world_ok w2" using world_ok_unlink [OF c(1), of tmp] u by simp
  moreover have "\<exists>s d. (d = None \<or> d = Some ino) \<and> w2 = ?c\<lparr>script := s, dirents := (dirents w)(tmp := d)\<rparr>"
    using u
  proof (cases rule: sys_unlink_cases)
    case (ok s)
    then show ?thesis using c(3) by (intro exI [of _ s] exI [of _ None]) auto
  next
    case (err e s)
    then show ?thesis using c(3) by (intro exI [of _ s] exI [of _ "Some ino"]) (simp add: sys_close_def)
  qed
  ultimately show ?thesis using assms c u by (auto simp: only_files_def staging_def)
qed

lemma staging_commit:
  assumes "staging tmp fd ino w w1" "tmp \<noteq> path"
    and "sys_rename tmp path (sys_close fd w1) = (None, w2)"
  shows "only_files {path, tmp} w w2" "file_data path w2 = Some (idata (inodes w1 ino))"
    "file_synced path w2 = Some (isynced (inodes w1 ino))" "dirents w2 tmp = None"
proof -
  have c: "world_ok (sys_close fd w1)" using assms(1) world_ok_close by (auto simp: staging_def)
  have wok: "world_ok w2" using world_ok_rename [OF c, of tmp path] assms(3) by simp
  from assms(3) obtain s where w2: "w2 = (sys_close fd w1)\<lparr>script := s,
      dirents := (dirents (sys_close fd w1))(tmp := None, path := Some ino)\<rparr>"
    using assms(1) by (cases rule: sys_rename_cases) (auto simp: sys_close_def staging_def)
  show "file_data path w2 = Some (idata (inodes w1 ino))"
    "file_synced path w2 = Some (isynced (inodes w1 ino))" "dirents w2 tmp = None"
    using assms(2) by (simp_all add: w2 sys_close_def file_data_def file_synced_def)
  have "(fdtab w)(fd := None) = fdtab w"
    using assms(1) world_okD(5) [of w] by (auto simp: staging_def fun_upd_idem)
  then show "only_files {path, tmp} w w2"
    using wok assms(1) by (auto simp: only_files_def w2 sys_close_def staging_def)
qed

lemma meta_tmp_path_neq [simp]: "meta_tmp_path pid path \<noteq> path" "path \<noteq> meta_tmp_path pid path"
  by (simp_all add: meta_tmp_path_def)

lemma meta_write_ok:
  assumes "world_ok w" "bloomd_meta_write_atomic E m w = (None, w')"
  shows "only_files {fm_meta_path m, meta_tmp_path (getpid E) (fm_meta_path m)} w w'"
    "file_data (fm_meta_path m) w' = Some (bytes_of_string (meta_body m))"
    "file_synced (fm_meta_path m) w' = Some (bytes_of_string (meta_body m))"
    "dirents w' (meta_tmp_path (getpid E) (fm_meta_path m)) = None"
proof -
  let ?tmp = "meta_tmp_path (getpid E) (fm_meta_path m)" and ?b = "bytes_of_string (meta_body m)"
  from assms(2) obtain fd w1 w2 w3 where op: "sys_open ?tmp True w = (Inr fd, w1)"
    and wr: "bloomd_write_all fd ?b w1 = (None, w2)" and fs: "sys_fsync fd w2 = (None, w3)"
    and rn: "sys_rename ?tmp (fm_meta_path m) (sys_close fd w3) = (None, w')"
    by (auto simp: bloomd_meta_write_atomic_def Let_def
      split: if_splits sum.splits prod.splits option.splits)
  from staging_open [OF assms(1) op] obtain ino where
    s1: "staging ?tmp fd ino w w1" "idata (inodes w1 ino) = []" by blast
  note s2 = staging_write [OF s1(1) wr]
  note s3 = staging_fsync [OF s2(1) fs]
  show "only_files {fm_meta_path m, ?tmp} w w'" "file_data (fm_meta_path m) w' = Some ?b"
    "file_synced (fm_meta_path m) w' = Some ?b" "dirents w' ?tmp = None"
    using staging_commit [OF s3(1) _ rn] s1 s2 s3 by simp_all
qed

lemma meta_write_err:
  assumes "world_ok w" "bloomd_meta_write_atomic E m w = (Some e, w')"
  shows "only_files {meta_tmp_path (getpid E) (fm_meta_path m)} w w'"
proof -
  let ?tmp = "meta_tmp_path (getpid E) (fm_meta_path m)" and ?b = "bytes_of_string (meta_body m)"
  obtain r1 w1 where op: "sys_open ?tmp True w = (r1, w1)" by fastforce
  show ?thesis
  proof (cases r1)
    case (Inl e1)
    then show ?thesis
      using assms op sys_open_Inl [of ?tmp True w e1 w1] only_files_refl [OF assms(1)]
        only_files_refl [OF assms(1), of _ "script w"]
      by (auto simp: bloomd_meta_write_atomic_def Let_def split: if_splits)
  next
    case (Inr fd)
    from staging_open [OF assms(1) op [unfolded Inr]] obtain ino where
      s1: "staging ?tmp fd ino w w1" by blast
    obtain r2 w2 where wr: "bloomd_write_all fd ?b w1 = (r2, w2)" by fastforce
    note s2 = staging_write(1) [OF s1 wr]
    obtain r3 w3 where fs: "sys_fsync fd w2 = (r3, w3)" by fastforce
    note s3 = staging_fsync(1) [OF s2 fs]
    obtain r4 w4 where rn: "sys_rename ?tmp (fm_meta_path m) (sys_close fd w3) = (r4, w4)" by fastforce
    have noscript: "(sys_close fd v)\<lparr>script := script (sys_close fd v)\<rparr> = sys_close fd v" for v by simp
    have a2: "only_files {?tmp} w (snd (sys_unlink ?tmp (sys_close fd w2)))"
      using staging_abort [OF s2, of "script (sys_close fd w2)"] by (simp only: noscript)
    have a3: "only_files {?tmp} w (snd (sys_unlink ?tmp (sys_close fd w3)))"
      using staging_abort [OF s3, of "script (sys_close fd w3)"] by (simp only: noscript)
    have a4: "only_files {?tmp} w (snd (sys_unlink ?tmp w4))" if "r4 \<noteq> None"
      using rn that staging_abort [OF s3] by (cases rule: sys_rename_cases) auto
    have a0: "only_files {?tmp} w w" using only_files_refl [OF assms(1), of _ "script w"] by simp
    show ?thesis
      using assms(2) op Inr wr fs rn a0 a2 a3 a4
      by (auto simp: bloomd_meta_write_atomic_def Let_def split: if_splits option.splits)
  qed
qed

text \<open>
  C5. Replacing a metadata file is all or nothing under every pattern of short writes,
  interruptions and failing calls. When the writer returns 0 the metadata path names a file whose
  contents and whose synced contents are exactly the printed metadata, and no temporary file is
  left. When it returns an error the file under the metadata path, synced contents included, is
  what it was before. Either way no other path, no open descriptor and nothing in the kernel
  changes.
\<close>

theorem meta_write_atomic_all_or_nothing:
  assumes "world_ok w" "bloomd_meta_write_atomic E m w = (r, w')"
  shows "only_files {fm_meta_path m, meta_tmp_path (getpid E) (fm_meta_path m)} w w'
    \<and> (r = None \<longrightarrow> file_data (fm_meta_path m) w' = Some (bytes_of_string (meta_body m))
        \<and> file_synced (fm_meta_path m) w' = Some (bytes_of_string (meta_body m))
        \<and> dirents w' (meta_tmp_path (getpid E) (fm_meta_path m)) = None)
    \<and> (r \<noteq> None \<longrightarrow> file_data (fm_meta_path m) w' = file_data (fm_meta_path m) w
        \<and> file_synced (fm_meta_path m) w' = file_synced (fm_meta_path m) w)"
proof (cases r)
  case None
  then show ?thesis using meta_write_ok [OF assms(1)] assms(2) by auto
next
  case (Some e)
  note o = meta_write_err [OF assms(1) assms(2) [unfolded Some]]
  then show ?thesis
    using Some only_files_file [OF assms(1) o, of "fm_meta_path m"] only_files_mono [OF o]
    by auto
qed

definition sample_world :: "outcome list \<Rightarrow> mock world" where
  "sample_world sc = \<lparr>kern = mock_reset, dirents = (\<lambda>_. None), inodes = (\<lambda>_. empty_inode),
     fdtab = (\<lambda>_. None), next_ino = 0, next_fd = 3, script = sc, ticks = [], clock = 0\<rparr>"

lemma sample_world_ok [simp]: "world_ok (sample_world sc)"
  by (simp add: sample_world_def world_ok_def)

lemma sample_digits: "dec_digits 1 = ''1''" "dec_digits 7 = ''7''" "dec_digits 16 = ''16''"
  "dec_digits 1000 = ''1000''"
  by code_simp+

lemma sample_body_length: "length (meta_body sample_meta) = 170"
  by (simp add: meta_body_def meta_line_def sample_meta_def sample_rate flag_text_def
    sample_digits BLOOMD_BACKEND_NAME_def BLOOMD_DIGEST_NAME_def)

lemma sample_tmp_length: "length (meta_tmp_path (getpid mock_env) (fm_meta_path sample_meta)) < PATH_MAX"
  by (simp add: meta_tmp_path_def mock_env_def sample_meta_def PATH_MAX_def sample_digits)

text \<open>With no failure in the script the whole replacement succeeds.\<close>

lemma sample_write_ok:
  "fst (bloomd_meta_write_atomic mock_env sample_meta (sample_world [])) = None"
  using sample_tmp_length
  by (simp add: bloomd_meta_write_atomic_def Let_def sample_body_length sample_world_def
    bloomd_write_all_normal sys_open_def next_outcome_def sys_fsync_def sys_rename_def sys_close_def
    fun_upd_def)

theorem meta_write_atomic_all_or_nothing_witness:
  "file_data (fm_meta_path sample_meta)
     (snd (bloomd_meta_write_atomic mock_env sample_meta (sample_world []))) =
   Some (bytes_of_string (meta_body sample_meta))"
proof -
  obtain w' where w': "bloomd_meta_write_atomic mock_env sample_meta (sample_world []) = (None, w')"
    using sample_write_ok by (metis prod.collapse)
  show ?thesis using meta_write_atomic_all_or_nothing [OF sample_world_ok w'] w' by simp
qed

end
