(* ===== verification/Hash.thy ===== *)
theory Hash
  imports Bloomd_Prelude
begin

text \<open>
  The payload digest of \<open>src/src/hash.c\<close>: two keyed SipHash lanes run in lock step over the
  payload, stored as sixteen little-endian bytes. The reference is SipHash-2-4 as published:
  the message is padded with zeros and its length byte, cut into 64-bit little-endian words,
  each word absorbed with two rounds, four rounds at the end. The main result is that the
  interleaved, unrolled routine computes two independent reference hashes.
\<close>

section \<open>The routine of the source\<close>

type_synonym sipstate = "u64 \<times> u64 \<times> u64 \<times> u64"

definition bloomd_rotl64 :: "u64 \<Rightarrow> nat \<Rightarrow> u64" where
  "bloomd_rotl64 x bits = push_bit bits x OR drop_bit (64 - bits) x"

definition bloomd_load64_le :: "byte list \<Rightarrow> u64" where
  "bloomd_load64_le src = fold (\<lambda>i out. out OR push_bit (8 * i) (ucast (src ! i))) [0..<8] 0"

definition bloomd_store64_le :: "u64 \<Rightarrow> byte list" where
  "bloomd_store64_le value = map (\<lambda>i. ucast (drop_bit (8 * i) value AND 0xFF)) [0..<8]"

definition bloomd_sipround :: "sipstate \<Rightarrow> sipstate" where
  "bloomd_sipround s = (case s of (v0, v1, v2, v3) \<Rightarrow>
     let v0 = v0 + v1;
         v1 = bloomd_rotl64 v1 13;
         v1 = v1 XOR v0;
         v0 = bloomd_rotl64 v0 32;
         v2 = v2 + v3;
         v3 = bloomd_rotl64 v3 16;
         v3 = v3 XOR v2;
         v0 = v0 + v3;
         v3 = bloomd_rotl64 v3 21;
         v3 = v3 XOR v0;
         v2 = v2 + v1;
         v1 = bloomd_rotl64 v1 17;
         v1 = v1 XOR v2;
         v2 = bloomd_rotl64 v2 32
     in (v0, v1, v2, v3))"

text \<open>
  The \<open>switch\<close> falls through from \<open>case (len & 7)\<close> to \<open>case 1\<close>, so byte \<open>i\<close> is merged exactly
  when \<open>i < len & 7\<close>.
\<close>

definition bloomd_tail64 :: "byte list \<Rightarrow> nat \<Rightarrow> u64" where
  "bloomd_tail64 data len =
    (let r = len mod 8;
         out = push_bit 56 (of_nat len);
         out = (if 7 \<le> r then out OR push_bit 48 (ucast (data ! 6)) else out);
         out = (if 6 \<le> r then out OR push_bit 40 (ucast (data ! 5)) else out);
         out = (if 5 \<le> r then out OR push_bit 32 (ucast (data ! 4)) else out);
         out = (if 4 \<le> r then out OR push_bit 24 (ucast (data ! 3)) else out);
         out = (if 3 \<le> r then out OR push_bit 16 (ucast (data ! 2)) else out);
         out = (if 2 \<le> r then out OR push_bit 8 (ucast (data ! 1)) else out);
         out = (if 1 \<le> r then out OR ucast (data ! 0) else out)
     in out)"

text \<open>The \<open>while (data != end)\<close> loop; \<open>n\<close> counts the eight-byte blocks before \<open>end\<close>.\<close>

fun siphash_dual_loop ::
  "nat \<Rightarrow> byte list \<Rightarrow> sipstate \<Rightarrow> sipstate \<Rightarrow> byte list \<times> sipstate \<times> sipstate" where
  "siphash_dual_loop 0 data a b = (data, a, b)"
| "siphash_dual_loop (Suc n) data (a0, a1, a2, a3) (b0, b1, b2, b3) =
    (let m = bloomd_load64_le data;
         a = bloomd_sipround (a0, a1, a2, a3 XOR m);
         b = bloomd_sipround (b0, b1, b2, b3 XOR m);
         (a0, a1, a2, a3) = bloomd_sipround a;
         (b0, b1, b2, b3) = bloomd_sipround b
     in siphash_dual_loop n (drop 8 data) (a0 XOR m, a1, a2, a3) (b0 XOR m, b1, b2, b3))"

definition bloomd_siphash128_dual ::
  "byte list \<Rightarrow> nat \<Rightarrow> u64 \<Rightarrow> u64 \<Rightarrow> u64 \<Rightarrow> u64 \<Rightarrow> u64 \<times> u64" where
  "bloomd_siphash128_dual data len k0 k1 k2 k3 =
    (let a = (0x736f6d6570736575 XOR k0, 0x646f72616e646f6d XOR k1,
              0x6c7967656e657261 XOR k0, 0x7465646279746573 XOR k1);
         b = (0x736f6d6570736575 XOR k2, 0x646f72616e646f6d XOR k3,
              0x6c7967656e657261 XOR k2, 0x7465646279746573 XOR k3);
         (data, (a0, a1, a2, a3), (b0, b1, b2, b3)) = siphash_dual_loop (len div 8) data a b;
         final = bloomd_tail64 data len;
         a = bloomd_sipround (a0, a1, a2, a3 XOR final);
         b = bloomd_sipround (b0, b1, b2, b3 XOR final);
         (a0, a1, a2, a3) = bloomd_sipround a;
         (b0, b1, b2, b3) = bloomd_sipround b;
         a = bloomd_sipround (a0 XOR final, a1, a2 XOR 0xff, a3);
         b = bloomd_sipround (b0 XOR final, b1, b2 XOR 0xff, b3);
         a = bloomd_sipround a;
         b = bloomd_sipround b;
         a = bloomd_sipround a;
         b = bloomd_sipround b;
         (a0, a1, a2, a3) = bloomd_sipround a;
         (b0, b1, b2, b3) = bloomd_sipround b
     in (a0 XOR a1 XOR a2 XOR a3, b0 XOR b1 XOR b2 XOR b3))"

definition bloomd_digest_payload :: "byte list \<Rightarrow> byte list" where
  "bloomd_digest_payload data =
    (let (lo, hi) = bloomd_siphash128_dual data (length data)
           0x0706050403020100 0x0f0e0d0c0b0a0908 0x1716151413121110 0x1f1e1d1c1b1a1918
     in bloomd_store64_le lo @ bloomd_store64_le hi)"

section \<open>The reference: SipHash-2-4\<close>

fun chunks8 :: "nat \<Rightarrow> byte list \<Rightarrow> byte list list" where
  "chunks8 0 bs = []"
| "chunks8 (Suc n) bs = take 8 bs # chunks8 n (drop 8 bs)"

definition sip_pad :: "byte list \<Rightarrow> byte list" where
  "sip_pad msg = msg @ replicate (7 - length msg mod 8) 0 @ [of_nat (length msg)]"

definition sip_words :: "byte list \<Rightarrow> u64 list" where
  "sip_words msg = map (le_word 8) (chunks8 (Suc (length msg div 8)) (sip_pad msg))"

definition sip_absorb :: "sipstate \<Rightarrow> u64 \<Rightarrow> sipstate" where
  "sip_absorb s m = (case s of (v0, v1, v2, v3) \<Rightarrow>
     case (bloomd_sipround ^^ 2) (v0, v1, v2, v3 XOR m) of (w0, w1, w2, w3) \<Rightarrow>
       (w0 XOR m, w1, w2, w3))"

definition sip_init :: "u64 \<Rightarrow> u64 \<Rightarrow> sipstate" where
  "sip_init k0 k1 = (0x736f6d6570736575 XOR k0, 0x646f72616e646f6d XOR k1,
                     0x6c7967656e657261 XOR k0, 0x7465646279746573 XOR k1)"

definition sip_finish :: "sipstate \<Rightarrow> u64" where
  "sip_finish s = (case s of (v0, v1, v2, v3) \<Rightarrow>
     case (bloomd_sipround ^^ 4) (v0, v1, v2 XOR 0xff, v3) of (w0, w1, w2, w3) \<Rightarrow>
       w0 XOR w1 XOR w2 XOR w3)"

definition siphash24 :: "u64 \<Rightarrow> u64 \<Rightarrow> byte list \<Rightarrow> u64" where
  "siphash24 k0 k1 msg = sip_finish (foldl sip_absorb (sip_init k0 k1) (sip_words msg))"

section \<open>Load, store and tail\<close>

lemma bloomd_load64_le_word: "bloomd_load64_le src = le_word 8 src"
  by (simp add: bloomd_load64_le_def le_word_def)

lemma bloomd_store64_le_bytes: "bloomd_store64_le v = le_bytes 8 v"
  by (simp add: bloomd_store64_le_def le_bytes_def le_byte_def)

lemma length_bloomd_store64_le [simp]: "length (bloomd_store64_le v) = 8"
  by (simp add: bloomd_store64_le_bytes)

lemma le_word_take: "n \<le> m \<Longrightarrow> n \<le> length p \<Longrightarrow> le_word n (take m p) = le_word n p"
  by (rule bit_word_eqI) (auto simp: bit_le_word)

lemma bloomd_tail64_le_word:
  assumes "length data = len mod 8"
  shows "bloomd_tail64 data len = le_word 8 (data @ replicate (7 - len mod 8) 0 @ [of_nat len])"
proof -
  define p where "p = data @ replicate (7 - len mod 8) 0 @ [of_nat len :: byte]"
  have p7: "p ! 7 = of_nat len" using assms by (auto simp: p_def nth_append not_less mod_less_divisor [of 8, THEN less_le_trans]
      dest: less_le_trans [OF mod_less_divisor [of 8 len]])
  have lo: "p ! i = (if i < len mod 8 then data ! i else 0)" if "i < 7" for i
    using assms that by (auto simp: p_def nth_append)
  have top: "push_bit 56 (of_nat len :: u64) = push_bit 56 (ucast (of_nat len :: byte))"
  proof (rule bit_word_eqI)
    fix k assume "k < LENGTH(64)"
    then show "bit (push_bit 56 (of_nat len :: u64)) k =
      bit (push_bit 56 (ucast (of_nat len :: byte)) :: u64) k"
      by (auto simp: bit_push_bit_iff bit_ucast_iff bit_of_nat_iff)
  qed
  have "le_word 8 p = (ucast (p ! 0) OR push_bit 8 (ucast (p ! 1)) OR push_bit 16 (ucast (p ! 2))
     OR push_bit 24 (ucast (p ! 3)) OR push_bit 32 (ucast (p ! 4)) OR push_bit 40 (ucast (p ! 5))
     OR push_bit 48 (ucast (p ! 6)) OR push_bit 56 (ucast (p ! 7)) :: u64)"
    by (simp add: le_word_def upt_8 or.assoc)
  then show ?thesis
    unfolding p_def [symmetric] bloomd_tail64_def Let_def top
    by (simp add: p7 lo or.assoc or.commute or.left_commute)
qed

section \<open>Equivalence with the reference\<close>

lemma sip_absorb_unfold:
  "sip_absorb (v0, v1, v2, v3) m =
    (case bloomd_sipround (bloomd_sipround (v0, v1, v2, v3 XOR m)) of (w0, w1, w2, w3) \<Rightarrow>
       (w0 XOR m, w1, w2, w3))"
  by (simp add: sip_absorb_def numeral_2_eq_2)

lemma siphash_dual_loop_fold:
  "siphash_dual_loop n data a b =
    (drop (8 * n) data, foldl sip_absorb a (map (le_word 8) (chunks8 n data)),
     foldl sip_absorb b (map (le_word 8) (chunks8 n data)))" if "8 * n \<le> length data"
  using that
proof (induction n arbitrary: data a b)
  case 0
  then show ?case by simp
next
  case (Suc n)
  obtain a0 a1 a2 a3 b0 b1 b2 b3 where ab: "a = (a0, a1, a2, a3)" "b = (b0, b1, b2, b3)"
    by (metis prod_cases4)
  have w: "(le_word 8 (take 8 data) :: u64) = le_word 8 data"
    using Suc.prems by (intro le_word_take) auto
  have d: "8 * n \<le> length (drop 8 data)" using Suc.prems by simp
  show ?case
    by (simp add: ab Suc.IH [OF d] bloomd_load64_le_word sip_absorb_unfold w Let_def
      add.commute split: prod.splits)
qed

lemma chunks8_append:
  "8 * n \<le> length xs \<Longrightarrow> chunks8 (n + m) (xs @ ys) = chunks8 n xs @ chunks8 m (drop (8 * n) xs @ ys)"
  by (induction n arbitrary: xs) (auto simp: add.commute)

lemma sip_words_split:
  "sip_words msg = map (le_word 8) (chunks8 (length msg div 8) msg) @
     [bloomd_tail64 (drop (8 * (length msg div 8)) msg) (length msg)]"
proof -
  let ?n = "length msg div 8" and ?d = "drop (8 * (length msg div 8)) msg"
  let ?last = "?d @ replicate (7 - length msg mod 8) 0 @ [of_nat (length msg) :: byte]"
  have "8 * ?n \<le> length msg" by simp
  then have "chunks8 (?n + 1) (sip_pad msg) = chunks8 ?n msg @ chunks8 1 ?last"
    unfolding sip_pad_def by (subst chunks8_append) auto
  moreover have ld: "length ?d = length msg mod 8" by (simp add: minus_mult_div_eq_mod)
  moreover have "length ?last = 8" using ld by simp
  ultimately show ?thesis
    by (simp add: sip_words_def bloomd_tail64_le_word [OF ld])
qed

lemma sip_finish_unfold:
  "sip_finish (v0, v1, v2, v3) =
    (case bloomd_sipround (bloomd_sipround (bloomd_sipround (bloomd_sipround
       (v0, v1, v2 XOR 0xff, v3)))) of (w0, w1, w2, w3) \<Rightarrow> w0 XOR w1 XOR w2 XOR w3)"
  by (simp add: sip_finish_def eval_nat_numeral)

lemma dual_lanes:
  assumes len: "length data = len"
  shows "bloomd_siphash128_dual data len k0 k1 k2 k3 = (siphash24 k0 k1 data, siphash24 k2 k3 data)"
proof -
  let ?ws = "map (le_word 8) (chunks8 (len div 8) data)"
  obtain a0 a1 a2 a3 b0 b1 b2 b3 where
    a: "foldl sip_absorb (sip_init k0 k1) ?ws = (a0, a1, a2, a3)" and
    b: "foldl sip_absorb (sip_init k2 k3) ?ws = (b0, b1, b2, b3)"
    by (metis prod_cases4)
  define t where "t = bloomd_tail64 (drop (8 * (len div 8)) data) len"
  obtain c0 c1 c2 c3 d0 d1 d2 d3 where
    c: "bloomd_sipround (bloomd_sipround (a0, a1, a2, a3 XOR t)) = (c0, c1, c2, c3)" and
    d: "bloomd_sipround (bloomd_sipround (b0, b1, b2, b3 XOR t)) = (d0, d1, d2, d3)"
    by (metis prod_cases4)
  have lp: "siphash_dual_loop (len div 8) data (sip_init k0 k1) (sip_init k2 k3) =
     (drop (8 * (len div 8)) data, (a0, a1, a2, a3), (b0, b1, b2, b3))"
    using len by (subst siphash_dual_loop_fold) (auto simp: a b)
  have lo: "siphash24 k0 k1 data = sip_finish (c0 XOR t, c1, c2, c3)"
    using len a c by (simp add: siphash24_def sip_words_split sip_absorb_unfold t_def)
  have hi: "siphash24 k2 k3 data = sip_finish (d0 XOR t, d1, d2, d3)"
    using len b d by (simp add: siphash24_def sip_words_split sip_absorb_unfold t_def)
  show ?thesis
    unfolding bloomd_siphash128_dual_def sip_init_def [symmetric] lo hi sip_finish_unfold
    by (simp add: Let_def lp c d t_def [symmetric] split: prod.splits)
qed

lemma length_digest [simp]: "length (bloomd_digest_payload data) = 16"
  by (simp add: bloomd_digest_payload_def Let_def split: prod.splits)

section \<open>Properties\<close>

text \<open>
  C14. The digest of every payload is the pair of SipHash-2-4 values of that payload under the
  keys 00..0f and 10..1f, each stored in little-endian order, and it has sixteen bytes: the
  interleaved two-lane loop with its fall-through tail agrees with the published algorithm on
  every message length.
\<close>

theorem digest_is_two_siphash24:
  "bloomd_digest_payload data =
     le_bytes 8 (siphash24 0x0706050403020100 0x0f0e0d0c0b0a0908 data) @
     le_bytes 8 (siphash24 0x1716151413121110 0x1f1e1d1c1b1a1918 data) \<and>
   length (bloomd_digest_payload data) = 16"
proof
  show "bloomd_digest_payload data =
     le_bytes 8 (siphash24 0x0706050403020100 0x0f0e0d0c0b0a0908 data) @
     le_bytes 8 (siphash24 0x1716151413121110 0x1f1e1d1c1b1a1918 data)"
    by (simp only: bloomd_digest_payload_def dual_lanes [OF refl] Let_def prod.case
      bloomd_store64_le_bytes)
qed (rule length_digest)

lemma vector_msg:
  "(map word_of_nat [0..<15] :: byte list) = [0, 1, 2, 3, 4, 5, 6, 7, 8, 9, 10, 11, 12, 13, 14]"
  by (simp add: upt_rec)

lemma vector_words:
  "sip_words (map word_of_nat [0..<15]) = [0x0706050403020100, 0x0f0e0d0c0b0a0908]"
  unfolding vector_msg by (simp add: sip_words_def sip_pad_def le_word_def upt_8)

lemma vector_siphash24:
  "siphash24 0x0706050403020100 0x0f0e0d0c0b0a0908 (map word_of_nat [0..<15]) = 0xa129ca6149be45e5"
  unfolding siphash24_def vector_words
  by (simp add: sip_init_def sip_absorb_unfold sip_finish_unfold bloomd_sipround_def
    bloomd_rotl64_def Let_def)

text \<open>
  The published SipHash-2-4 test vector: on the fifteen-byte message 00..0e the first half
  of the digest is 0xa129ca6149be45e5 in little-endian order.
\<close>

lemma digest_siphash_vector:
  "take 8 (bloomd_digest_payload (map word_of_nat [0..<15])) =
     [0xe5, 0x45, 0xbe, 0x49, 0x61, 0xca, 0x29, 0xa1]"
  unfolding bloomd_digest_payload_def dual_lanes [OF refl] Let_def prod.case
    bloomd_store64_le_bytes vector_siphash24
  by (simp add: le_bytes_def upt_8 le_byte_def)

end
