(* ===== verification/Filter_Set.thy ===== *)
theory Filter_Set
  imports Meta_File Hash
begin

text \<open>
  The in-memory table of filters, the \<open>bloomd_filter_set\<close> functions of \<open>src/src/util.c\<close>: a
  growable array with a one-entry lookup cache. The locale \<open>filter_store\<close> is the interface the
  request handlers use, a store indexed by name; the array implements it.
\<close>

section \<open>Filters\<close>

text \<open>\<open>log_buf\<close> holds the first \<open>log_buf_len\<close> bytes of the filter's write buffer.\<close>

record bloomd_filter =
  f_meta :: bloomd_filter_meta
  map_fd :: int
  log_fd :: int
  log_buf :: "byte list"
  log_dirty :: bool
  log_history_incomplete :: bool
  last_log_sync_ms :: u64
  add_calls :: u64
  check_calls :: u64
  batch_add_calls :: u64
  batch_check_calls :: u64

abbreviation f_name :: "bloomd_filter \<Rightarrow> string" where "f_name f \<equiv> fm_name (f_meta f)"

record bloomd_filter_set =
  items :: "bloomd_filter list"
  set_cap :: nat
  last_index :: nat

definition SIZE_MAX :: nat where "SIZE_MAX = 2 ^ 64 - 1"
definition SIZEOF_FILTER :: nat where "SIZEOF_FILTER = 13520"

section \<open>Operations\<close>

definition bloomd_filter_set_init :: bloomd_filter_set where
  "bloomd_filter_set_init = \<lparr>items = [], set_cap = 0, last_index = SIZE_MAX\<rparr>"

text \<open>
  The comparison of a lookup key with the \<open>name\<close> array of a filter: the array is 64 bytes, zero
  after the name.
\<close>

definition name_array :: "bloomd_filter \<Rightarrow> string" where
  "name_array f = f_name f @ replicate (64 - length (f_name f)) NUL"

definition name_matches :: "bloomd_filter \<Rightarrow> string \<Rightarrow> bool" where
  "name_matches f name \<longleftrightarrow>
     name_array f ! length name = NUL \<and> take (length name) (name_array f) = name"

fun find_index :: "(bloomd_filter \<Rightarrow> bool) \<Rightarrow> bloomd_filter list \<Rightarrow> nat option" where
  "find_index P [] = None"
| "find_index P (f # fs) = (if P f then Some 0 else map_option Suc (find_index P fs))"

text \<open>\<open>bloomd_filter_set_find_n\<close>: the index of the filter, and the set with its cache updated.\<close>

definition bloomd_filter_set_find_n ::
  "bloomd_filter_set \<Rightarrow> string \<Rightarrow> nat option \<times> bloomd_filter_set" where
  "bloomd_filter_set_find_n s name =
    (if last_index s < length (items s) \<and> name_matches (items s ! last_index s) name
     then (Some (last_index s), s)
     else case find_index (\<lambda>f. name_matches f name) (items s) of
       Some i \<Rightarrow> (Some i, s\<lparr>last_index := i\<rparr>)
     | None \<Rightarrow> (None, s))"

definition bloomd_filter_set_find ::
  "bloomd_filter_set \<Rightarrow> string \<Rightarrow> nat option \<times> bloomd_filter_set" where
  "bloomd_filter_set_find s name = bloomd_filter_set_find_n s name"

definition bloomd_filter_set_add ::
  "(nat \<Rightarrow> bool) \<Rightarrow> bloomd_filter \<Rightarrow> bloomd_filter_set \<Rightarrow> rc \<times> bloomd_filter_set" where
  "bloomd_filter_set_add alloc f s =
    (let new_cap = (if set_cap s = 0 then 8 else set_cap s * 2) in
     if length (items s) = set_cap s \<and> \<not> alloc (new_cap * SIZEOF_FILTER) then (Some ENOMEM, s)
     else (None, s\<lparr>items := items s @ [f], last_index := length (items s),
             set_cap := (if length (items s) = set_cap s then new_cap else set_cap s)\<rparr>))"

text \<open>Storing through the pointer a lookup returned.\<close>

definition set_item :: "nat \<Rightarrow> bloomd_filter \<Rightarrow> bloomd_filter_set \<Rightarrow> bloomd_filter_set" where
  "set_item i f s = s\<lparr>items := (items s)[i := f]\<rparr>"

definition release_filter :: "'k env \<Rightarrow> bool \<Rightarrow> bloomd_filter \<Rightarrow> 'k world \<Rightarrow> 'k world" where
  "release_filter E sync f w =
    (case bloomd_log_buffer_flush (log_fd f) (log_buf f) sync w of
       (_, _, w) \<Rightarrow> snd (bloomd_bpf_close E (map_fd f) (snd (bloomd_log_close (log_fd f) False w))))"

definition bloomd_filter_set_remove_n ::
  "'k env \<Rightarrow> string \<Rightarrow> bloomd_filter_set \<Rightarrow> 'k world \<Rightarrow> rc \<times> bloomd_filter_set \<times> 'k world" where
  "bloomd_filter_set_remove_n E name s w =
    (case find_index (\<lambda>f. name_matches f name) (items s) of
       None \<Rightarrow> (Some ENOENT, s, w)
     | Some i \<Rightarrow>
         let w = release_filter E False (items s ! i) w;
             rest = take i (items s) @ drop (Suc i) (items s);
             li = last_index s
         in (None, s\<lparr>items := rest, last_index :=
               (if length rest = 0 then SIZE_MAX
                else if li = i \<or> li \<ge> length rest then SIZE_MAX
                else if li > i then li - 1 else li)\<rparr>, w))"

definition bloomd_filter_set_remove ::
  "'k env \<Rightarrow> string \<Rightarrow> bloomd_filter_set \<Rightarrow> 'k world \<Rightarrow> rc \<times> bloomd_filter_set \<times> 'k world" where
  "bloomd_filter_set_remove E name s w = bloomd_filter_set_remove_n E name s w"

definition bloomd_filter_set_free ::
  "'k env \<Rightarrow> bloomd_filter_set \<Rightarrow> 'k world \<Rightarrow> bloomd_filter_set \<times> 'k world" where
  "bloomd_filter_set_free E s w =
    (bloomd_filter_set_init, fold (release_filter E True) (items s) w)"

section \<open>Name lookup\<close>

definition names :: "bloomd_filter_set \<Rightarrow> string list" where
  "names s = map f_name (items s)"

definition set_ok :: "bloomd_filter_set \<Rightarrow> bool" where
  "set_ok s \<longleftrightarrow> distinct (names s) \<and> list_all bloomd_name_is_valid (names s) \<and>
     length (items s) \<le> set_cap s"

definition lookup :: "bloomd_filter_set \<Rightarrow> string \<Rightarrow> bloomd_filter option" where
  "lookup s name = find (\<lambda>f. f_name f = name) (items s)"

lemma name_matches_iff:
  assumes "bloomd_name_is_valid (f_name f)" "bloomd_name_is_valid name"
  shows "name_matches f name \<longleftrightarrow> f_name f = name"
proof
  note a = name_valid_chars [OF assms(1)] and b = name_valid_chars [OF assms(2)]
  assume "name_matches f name"
  then have e: "name_array f ! length name = NUL" and t: "take (length name) (name_array f) = name"
    by (simp_all add: name_matches_def)
  have "\<not> length name < length (f_name f)"
  proof
    assume l: "length name < length (f_name f)"
    then have "f_name f ! length name = NUL" using e by (simp add: name_array_def nth_append)
    with l a(3) nth_mem show False by metis
  qed
  moreover have "\<not> length (f_name f) < length name"
  proof
    assume l: "length (f_name f) < length name"
    have "name ! length (f_name f) = name_array f ! length (f_name f)"
      using l nth_take [OF l, of "name_array f"] t by simp
    also have "\<dots> = NUL" using a(2) by (simp add: name_array_def nth_append)
    finally show False using l b(3) nth_mem by metis
  qed
  ultimately show "f_name f = name" using t by (simp add: name_array_def)
next
  assume eq: "f_name f = name"
  have "length name < 64" using name_valid_chars(2) [OF assms(2)] by simp
  then show "name_matches f name" by (simp add: name_matches_def name_array_def nth_append eq)
qed

lemma find_index_Some:
  "find_index P xs = Some i \<Longrightarrow> i < length xs \<and> P (xs ! i)"
  by (induction xs arbitrary: i) (auto split: if_splits)

lemma find_index_None: "find_index P xs = None \<longleftrightarrow> (\<forall>x\<in>set xs. \<not> P x)"
  by (induction xs) auto

lemma set_ok_valid: "set_ok s \<Longrightarrow> f \<in> set (items s) \<Longrightarrow> bloomd_name_is_valid (f_name f)"
  by (auto simp: set_ok_def names_def list_all_iff)

lemma set_ok_distinct:
  "set_ok s \<Longrightarrow> i < length (items s) \<Longrightarrow> j < length (items s) \<Longrightarrow>
    f_name (items s ! i) = f_name (items s ! j) \<Longrightarrow> i = j"
  by (auto simp: set_ok_def names_def distinct_conv_nth)

lemma lookup_Some:
  assumes "set_ok s"
  shows "lookup s n = Some f \<longleftrightarrow> f \<in> set (items s) \<and> f_name f = n"
proof
  assume "lookup s n = Some f"
  then show "f \<in> set (items s) \<and> f_name f = n"
    by (auto simp: lookup_def find_Some_iff)
next
  assume f: "f \<in> set (items s) \<and> f_name f = n"
  then obtain g where g: "lookup s n = Some g"
    by (cases "lookup s n") (auto simp: lookup_def find_None_iff)
  then have "g \<in> set (items s)" "f_name g = n" by (auto simp: lookup_def find_Some_iff)
  then show "lookup s n = Some f"
    using f g set_ok_distinct [OF assms] by (auto simp: in_set_conv_nth)
qed

lemma lookup_None: "lookup s n = None \<longleftrightarrow> n \<notin> set (names s)"
  by (auto simp: lookup_def find_None_iff names_def)

lemma lookup_nth:
  "set_ok s \<Longrightarrow> i < length (items s) \<Longrightarrow> lookup s (f_name (items s ! i)) = Some (items s ! i)"
  by (simp add: lookup_Some)

text \<open>Lookup with the cache is lookup by a scan: the cache can only be hit by the right filter.\<close>

lemma find_n_spec:
  assumes ok: "set_ok s" and n: "bloomd_name_is_valid n"
    and f: "bloomd_filter_set_find_n s n = (r, s')"
  shows "items s' = items s" "set_cap s' = set_cap s"
    "r = Some i \<Longrightarrow> i < length (items s) \<and> f_name (items s ! i) = n \<and> lookup s n = Some (items s ! i)"
    "r = None \<Longrightarrow> lookup s n = None"
proof -
  have eq: "name_matches g n \<longleftrightarrow> f_name g = n" if "g \<in> set (items s)" for g
    using name_matches_iff [OF set_ok_valid [OF ok that] n] .
  show "items s' = items s" "set_cap s' = set_cap s"
    using f by (auto simp: bloomd_filter_set_find_n_def split: if_splits option.splits)
  show "i < length (items s) \<and> f_name (items s ! i) = n \<and> lookup s n = Some (items s ! i)"
    if "r = Some i"
  proof -
    have "i < length (items s)" "name_matches (items s ! i) n"
      using f that by (auto simp: bloomd_filter_set_find_n_def
        split: if_splits option.splits dest: find_index_Some)
    then show ?thesis using eq lookup_nth [OF ok] by auto
  qed
  show "lookup s n = None" if "r = None"
    using f that eq by (auto simp: bloomd_filter_set_find_n_def lookup_None names_def find_index_None
      split: if_splits option.splits)
qed

section \<open>The store interface\<close>

locale filter_store =
  fixes inv :: "'s \<Rightarrow> bool"
    and look :: "'s \<Rightarrow> string \<Rightarrow> bloomd_filter option"
    and findn :: "'s \<Rightarrow> string \<Rightarrow> nat option \<times> 's"
    and item :: "'s \<Rightarrow> nat \<Rightarrow> bloomd_filter"
    and store :: "nat \<Rightarrow> bloomd_filter \<Rightarrow> 's \<Rightarrow> 's"
    and addf :: "bloomd_filter \<Rightarrow> 's \<Rightarrow> rc \<times> 's"
    and remove :: "string \<Rightarrow> 's \<Rightarrow> rc \<times> 's"
  assumes find_law: "\<lbrakk>inv s; bloomd_name_is_valid n; findn s n = (r, s')\<rbrakk> \<Longrightarrow>
      inv s' \<and> look s' = look s \<and> map_option (item s') r = look s n"
    and store_law: "\<lbrakk>inv s; bloomd_name_is_valid n; findn s n = (Some i, s'); f_name f = n\<rbrakk> \<Longrightarrow>
      inv (store i f s') \<and> look (store i f s') = (look s)(n \<mapsto> f)"
    and add_law: "\<lbrakk>inv s; bloomd_name_is_valid (f_name f); look s (f_name f) = None;
      addf f s = (None, s')\<rbrakk> \<Longrightarrow> inv s' \<and> look s' = (look s)(f_name f \<mapsto> f)"
    and add_err: "addf f s = (Some e, s') \<Longrightarrow> s' = s"
    and remove_law: "\<lbrakk>inv s; bloomd_name_is_valid n; remove n s = (e', s')\<rbrakk> \<Longrightarrow>
      inv s' \<and> look s' = (look s)(n := None) \<and> (e' = None \<longleftrightarrow> look s n \<noteq> None)"
    and look_name: "inv s \<Longrightarrow> look s n = Some f \<Longrightarrow> f_name f = n"
begin

lemma find_hit:
  assumes "inv s" "bloomd_name_is_valid n" "look s n = Some f"
  obtains i s' where "findn s n = (Some i, s')" "item s' i = f" "inv s'" "look s' = look s"
proof -
  obtain r s' where r: "findn s n = (r, s')" by fastforce
  with find_law [OF assms(1,2) r] assms(3) show ?thesis
    by (cases r) (auto intro: that)
qed

lemma find_miss:
  assumes "inv s" "bloomd_name_is_valid n" "look s n = None"
  shows "fst (findn s n) = None"
  using find_law [OF assms(1,2)] assms(3) by (cases "findn s n") auto

text \<open>A filter that was added or stored is found under its name, whatever the cache holds.\<close>

lemma find_after_add:
  assumes "inv s" "bloomd_name_is_valid (f_name f)" "look s (f_name f) = None"
    "addf f s = (None, s')"
  shows "\<exists>i s''. findn s' (f_name f) = (Some i, s'') \<and> item s'' i = f"
  using add_law [OF assms] assms(2) by (metis find_hit fun_upd_same)

lemma find_after_store:
  assumes "inv s" "bloomd_name_is_valid n" "findn s n = (Some i, s')" "f_name f = n"
  shows "\<exists>j s''. findn (store i f s') n = (Some j, s'') \<and> item s'' j = f"
  using store_law [OF assms] assms(2) by (metis find_hit fun_upd_same)

lemma find_after_remove:
  assumes "inv s" "bloomd_name_is_valid n" "remove n s = (r, s')"
  shows "fst (findn s' n) = None"
  using remove_law [OF assms] find_miss [of s' n] assms(2) by simp

lemma find_other_after_remove:
  assumes "inv s" "bloomd_name_is_valid n" "bloomd_name_is_valid n'" "n' \<noteq> n"
    "remove n s = (r, s')" "look s n' = Some f"
  shows "\<exists>i s''. findn s' n' = (Some i, s'') \<and> item s'' i = f"
  using remove_law [OF assms(1,2,5)] find_hit [of s' n' f] assms(3,4,6) by fastforce

end

section \<open>The array implements the store\<close>

lemma set_item_law:
  assumes ok: "set_ok s" and i: "i < length (items s)" "f_name (items s ! i) = f_name f"
  shows "set_ok (set_item i f s)" "lookup (set_item i f s) = (lookup s)(f_name f \<mapsto> f)"
proof -
  have n: "names (set_item i f s) = names s"
    using i by (simp add: names_def set_item_def map_update list_update_same_conv)
  then show ok': "set_ok (set_item i f s)" using ok by (simp add: set_ok_def) (simp add: set_item_def)
  show "lookup (set_item i f s) = (lookup s)(f_name f \<mapsto> f)"
  proof
    fix m
    show "lookup (set_item i f s) m = ((lookup s)(f_name f \<mapsto> f)) m"
    proof (cases "m = f_name f")
      case True
      then show ?thesis
        using i(1) by (simp add: lookup_Some [OF ok']) (simp add: set_item_def set_update_memI)
    next
      case False
      have "lookup (set_item i f s) m = Some g \<longleftrightarrow> lookup s m = Some g" for g
        unfolding lookup_Some [OF ok'] lookup_Some [OF ok]
        using False i by (auto simp: set_item_def in_set_conv_nth nth_list_update)
      then show ?thesis using False by (metis fun_upd_other option.exhaust)
    qed
  qed
qed

lemma filter_set_add_law:
  assumes ok: "set_ok s" and v: "bloomd_name_is_valid (f_name f)" "lookup s (f_name f) = None"
    and a: "bloomd_filter_set_add alloc f s = (None, s')"
  shows "set_ok s'" "lookup s' = (lookup s)(f_name f \<mapsto> f)"
proof -
  have it: "items s' = items s @ [f]" "length (items s') \<le> set_cap s'"
    using a ok by (auto simp: bloomd_filter_set_add_def set_ok_def Let_def split: if_splits)
  then show ok': "set_ok s'"
    using ok v by (auto simp: set_ok_def names_def lookup_None)
  have "lookup s' m = Some g \<longleftrightarrow> ((lookup s)(f_name f \<mapsto> f)) m = Some g" for m g
    using v(2) by (auto simp: lookup_Some [OF ok'] lookup_Some [OF ok] it lookup_None names_def image_iff)
  then show "lookup s' = (lookup s)(f_name f \<mapsto> f)" by (metis option.exhaust ext)
qed

lemma filter_set_remove_law:
  assumes ok: "set_ok s" and n: "bloomd_name_is_valid n"
    and a: "bloomd_filter_set_remove_n E n s w = (r, s', w')"
  shows "set_ok s'" "lookup s' = (lookup s)(n := None)" "r = None \<longleftrightarrow> lookup s n \<noteq> None"
    "r = None \<Longrightarrow> w' = release_filter E False (the (lookup s n)) w" "r \<noteq> None \<Longrightarrow> w' = w"
proof -
  have eq: "name_matches g n \<longleftrightarrow> f_name g = n" if "g \<in> set (items s)" for g
    using name_matches_iff [OF set_ok_valid [OF ok that] n] .
  have all: "set_ok s' \<and> lookup s' = (lookup s)(n := None) \<and> (r = None \<longleftrightarrow> lookup s n \<noteq> None) \<and>
    (r = None \<longrightarrow> w' = release_filter E False (the (lookup s n)) w) \<and> (r \<noteq> None \<longrightarrow> w' = w)"
  proof (cases "find_index (\<lambda>f. name_matches f n) (items s)")
    case None
    then have "lookup s n = None" using eq by (auto simp: find_index_None lookup_None names_def)
    then show ?thesis
      using a None ok by (auto simp: bloomd_filter_set_remove_n_def)
  next
    case (Some i)
    then have i: "i < length (items s)" "f_name (items s ! i) = n"
      using eq find_index_Some [OF Some] by auto
    have it: "items s' = take i (items s) @ drop (Suc i) (items s)" "r = None"
      "w' = release_filter E False (items s ! i) w" "set_cap s' = set_cap s"
      using a Some by (auto simp: bloomd_filter_set_remove_n_def Let_def)
    have split: "items s = take i (items s) @ items s ! i # drop (Suc i) (items s)"
      using i(1) by (simp add: id_take_nth_drop)
    have nd: "n \<notin> f_name ` set (items s')"
      using ok i(2) by (subst (asm) set_ok_def, subst (asm) names_def, subst (asm) split) (auto simp: it)
    have ok': "set_ok s'"
      using ok i(1) by (subst (asm) set_ok_def, subst (asm) (1 2) names_def, subst (asm) (1 2) split)
        (auto simp: it set_ok_def names_def)
    have sub: "set (items s) = insert (items s ! i) (set (items s'))"
      by (subst split) (simp add: it)
    have "lookup s' m = Some g \<longleftrightarrow> ((lookup s)(n := None)) m = Some g" for m g
      using nd i(2) by (auto simp: lookup_Some [OF ok'] lookup_Some [OF ok] sub image_iff)
    then have "lookup s' = (lookup s)(n := None)" by (metis option.exhaust ext)
    then show ?thesis using ok' it lookup_nth [OF ok i(1)] i(2) by simp
  qed
  then show "set_ok s'" "lookup s' = (lookup s)(n := None)" "r = None \<longleftrightarrow> lookup s n \<noteq> None"
    "r = None \<Longrightarrow> w' = release_filter E False (the (lookup s n)) w" "r \<noteq> None \<Longrightarrow> w' = w"
    by auto
qed

lemma set_ok_find: "set_ok s \<Longrightarrow> items s' = items s \<Longrightarrow> set_cap s' = set_cap s \<Longrightarrow> set_ok s'"
  by (simp add: set_ok_def names_def)

interpretation fs: filter_store set_ok lookup bloomd_filter_set_find_n "\<lambda>s i. items s ! i" set_item
  "bloomd_filter_set_add alloc" "\<lambda>n s. case bloomd_filter_set_remove_n E n s w of (r, s', w') \<Rightarrow> (r, s')"
  for alloc E w
proof (unfold_locales, goal_cases)
  case (1 s n r s')
  note f = find_n_spec [OF this]
  have "lookup s' = lookup s" using f(1) by (simp add: lookup_def fun_eq_iff)
  then show ?case
    using f set_ok_find [OF 1(1) f(1,2)] by (cases r) auto
next
  case (2 s n i s' f)
  note h = find_n_spec [OF 2(1-3)]
  have "lookup s' = lookup s" using h(1) by (simp add: lookup_def fun_eq_iff)
  then show ?case
    using set_item_law [OF set_ok_find [OF 2(1) h(1,2)], of i f] h 2(4) by simp
next
  case (3 s f s')
  then show ?case using filter_set_add_law by blast
next
  case (4 f s e s')
  then show ?case by (auto simp: bloomd_filter_set_add_def Let_def split: if_splits)
next
  case (5 s n r s')
  then obtain w' where "bloomd_filter_set_remove_n E n s w = (r, s', w')"
    by (auto split: prod.splits)
  then show ?case using filter_set_remove_law [OF 5(1,2)] by blast
next
  case (6 s n f)
  then show ?case by (simp add: lookup_Some)
qed

section \<open>Sequences of operations\<close>

text \<open>
  The set as the handlers use it: look a filter up, enter a filter whose name a lookup did not find,
  remove a filter. The specification does the same on a map from names to filters.
\<close>

datatype set_op = Op_find string | Op_create bloomd_filter | Op_remove string
datatype set_out = Found "bloomd_filter option" | Created bool | Removed bool

fun op_valid :: "set_op \<Rightarrow> bool" where
  "op_valid (Op_find n) = bloomd_name_is_valid n"
| "op_valid (Op_create f) = bloomd_name_is_valid (f_name f)"
| "op_valid (Op_remove n) = bloomd_name_is_valid n"

fun set_step ::
  "'k env \<Rightarrow> set_op \<Rightarrow> bloomd_filter_set \<times> 'k world \<Rightarrow> set_out \<times> bloomd_filter_set \<times> 'k world" where
  "set_step E (Op_find n) (s, w) =
    (case bloomd_filter_set_find_n s n of (r, s) \<Rightarrow> (Found (map_option (\<lambda>i. items s ! i) r), s, w))"
| "set_step E (Op_create f) (s, w) =
    (case bloomd_filter_set_find s (f_name f) of
       (Some _, s) \<Rightarrow> (Created False, s, w)
     | (None, s) \<Rightarrow> (case bloomd_filter_set_add (\<lambda>_. True) f s of (r, s) \<Rightarrow> (Created (r = None), s, w)))"
| "set_step E (Op_remove n) (s, w) =
    (case bloomd_filter_set_remove_n E n s w of (r, s, w) \<Rightarrow> (Removed (r = None), s, w))"

fun map_step :: "set_op \<Rightarrow> (string \<Rightarrow> bloomd_filter option) \<Rightarrow> set_out \<times> (string \<Rightarrow> bloomd_filter option)" where
  "map_step (Op_find n) M = (Found (M n), M)"
| "map_step (Op_create f) M =
    (if M (f_name f) = None then (Created True, M(f_name f \<mapsto> f)) else (Created False, M))"
| "map_step (Op_remove n) M = (Removed (M n \<noteq> None), M(n := None))"

fun set_run :: "'k env \<Rightarrow> set_op list \<Rightarrow> bloomd_filter_set \<times> 'k world \<Rightarrow> set_out list" where
  "set_run E [] sw = []"
| "set_run E (p # ps) sw = (case set_step E p sw of (out, sw) \<Rightarrow> out # set_run E ps sw)"

fun map_run :: "set_op list \<Rightarrow> (string \<Rightarrow> bloomd_filter option) \<Rightarrow> set_out list" where
  "map_run [] M = []"
| "map_run (p # ps) M = (case map_step p M of (out, M) \<Rightarrow> out # map_run ps M)"

lemma set_step_refines:
  assumes "set_ok s" "op_valid p" "set_step E p (s, w) = (out, s', w')"
  shows "set_ok s' \<and> map_step p (lookup s) = (out, lookup s')"
proof (cases p)
  case (Op_find n)
  obtain r s1 where f: "bloomd_filter_set_find_n s n = (r, s1)" by fastforce
  then show ?thesis using fs.find_law [OF assms(1) _ f] assms(2,3) Op_find by auto
next
  case (Op_create g)
  obtain r s1 where f: "bloomd_filter_set_find_n s (f_name g) = (r, s1)" by fastforce
  note l = fs.find_law [OF assms(1) _ f]
  obtain r2 s2 where a: "bloomd_filter_set_add (\<lambda>_. True) g s1 = (r2, s2)" by fastforce
  have "r2 = None" using a by (auto simp: bloomd_filter_set_add_def Let_def)
  then show ?thesis
    using l assms(2,3) Op_create f a fs.add_law [of s1 g "\<lambda>_. True" s2]
    by (cases r) (auto simp: bloomd_filter_set_find_def)
next
  case (Op_remove n)
  obtain r s1 w1 where r: "bloomd_filter_set_remove_n E n s w = (r, s1, w1)" using prod_cases3 by blast
  then show ?thesis using filter_set_remove_law [OF assms(1) _ r] assms(2,3) Op_remove by auto
qed

text \<open>
  C16. The table of filters is a map: over every sequence of lookups, insertions of new names and
  removals, in every state of the array and of its one-entry cache, the answers are those of a map
  from names to filters. In particular the cache index, which insertion, removal with its shifting
  of the array, and lookup all adjust, never makes a lookup return a wrong or removed filter.
\<close>

theorem filter_set_refines_map:
  assumes "set_ok s" "list_all op_valid ps"
  shows "set_run E ps (s, w) = map_run ps (lookup s)"
  using assms
proof (induction ps arbitrary: s w)
  case (Cons p ps)
  obtain out s' w' where st: "set_step E p (s, w) = (out, s', w')" using prod_cases3 by blast
  then show ?case using set_step_refines [OF _ _ st] Cons by simp
qed simp

definition sample_filter :: bloomd_filter where
  "sample_filter = \<lparr>f_meta = sample_meta, map_fd = 3, log_fd = 5, log_buf = [], log_dirty = False,
     log_history_incomplete = False, last_log_sync_ms = 0, add_calls = 0, check_calls = 0,
     batch_add_calls = 0, batch_check_calls = 0\<rparr>"

lemma sample_valid: "bloomd_name_is_valid ''users''"
  by code_simp

theorem filter_set_refines_map_witness:
  "set_run mock_env [Op_create sample_filter, Op_find ''users'', Op_remove ''users'', Op_find ''users'']
     (bloomd_filter_set_init, sample_world []) =
   [Created True, Found (Some sample_filter), Removed True, Found None]"
proof -
  have "set_ok bloomd_filter_set_init" by (simp add: set_ok_def bloomd_filter_set_init_def names_def)
  moreover have "f_name sample_filter = ''users''" by (simp add: sample_filter_def sample_meta_def)
  ultimately show ?thesis
    using filter_set_refines_map [of bloomd_filter_set_init
      "[Op_create sample_filter, Op_find ''users'', Op_remove ''users'', Op_find ''users'']"]
    by (simp add: sample_valid lookup_def bloomd_filter_set_init_def)
qed

end
