(* ===== verification/Daemon_Core.thy ===== *)
theory Daemon_Core
  imports Filter_Set
begin

text \<open>
  The state of the daemon and the building blocks of its request handlers, from
  \<open>src/src/daemon.c\<close>: the pool that keeps one empty map for reuse, the transition of a filter
  from metadata-only to durable, the dirty mark in the metadata, staging a digest in the log
  before it goes to the kernel, and taking it back when the kernel refuses it.
\<close>

section \<open>State\<close>

record bloomd_stats =
  requests :: u64
  responses :: u64
  errors :: u64
  accepted_connections :: u64
  filters_loaded :: u64
  filters_created :: u64
  filters_dropped :: u64
  orphan_meta :: u64
  orphan_pin :: u64
  empty_pool_hits :: u64
  empty_pool_misses :: u64

record bloomd_empty_map_pool =
  pool_fd :: int
  pool_capacity :: u64
  pool_hashes :: u32
  pool_value_size :: u32

record bloomd_config =
  socket_path :: string
  pin_root :: string
  meta_root :: string
  socket_mode :: int
  log_sync_mode :: bloomd_log_sync_mode
  foreground :: bool
  fail_if_unsupported :: bool

record 'k daemon =
  d_world :: "'k world"
  d_set :: bloomd_filter_set
  d_stats :: bloomd_stats
  d_pool :: bloomd_empty_map_pool

definition bloomd_config_defaults :: bloomd_config where
  "bloomd_config_defaults = \<lparr>socket_path = ''/run/bloomd.sock'', pin_root = ''/sys/fs/bpf/bloomd'',
     meta_root = ''/var/lib/bloomd'', socket_mode = 438, log_sync_mode = LOG_SYNC_PERIODIC,
     foreground = True, fail_if_unsupported = True\<rparr>"

section \<open>The pool of one empty map\<close>

definition bloomd_empty_pool :: bloomd_empty_map_pool where
  "bloomd_empty_pool = \<lparr>pool_fd = - 1, pool_capacity = 0, pool_hashes = 0, pool_value_size = 0\<rparr>"

definition bloomd_take_empty_map ::
  "u64 \<Rightarrow> u32 \<Rightarrow> u32 \<Rightarrow> bloomd_stats \<Rightarrow> bloomd_empty_map_pool
    \<Rightarrow> int \<times> bloomd_stats \<times> bloomd_empty_map_pool" where
  "bloomd_take_empty_map capacity hashes value_size stats pool =
    (if pool_fd pool < 0 \<or> pool_capacity pool \<noteq> capacity \<or> pool_hashes pool \<noteq> hashes \<or>
        pool_value_size pool \<noteq> value_size
     then (- 1, stats\<lparr>empty_pool_misses := empty_pool_misses stats + 1\<rparr>, pool)
     else (pool_fd pool, stats\<lparr>empty_pool_hits := empty_pool_hits stats + 1\<rparr>,
           \<lparr>pool_fd = - 1, pool_capacity = 0, pool_hashes = 0, pool_value_size = 0\<rparr>))"

definition bloomd_store_empty_map ::
  "'k env \<Rightarrow> int \<Rightarrow> u64 \<Rightarrow> u32 \<Rightarrow> u32 \<Rightarrow> bloomd_empty_map_pool \<Rightarrow> 'k world
    \<Rightarrow> bloomd_empty_map_pool \<times> 'k world" where
  "bloomd_store_empty_map E fd capacity hashes value_size pool w =
    (if fd < 0 then (pool, w)
     else let w = (if pool_fd pool \<ge> 0 then snd (bloomd_bpf_close E (pool_fd pool) w) else w) in
       (\<lparr>pool_fd = fd, pool_capacity = capacity, pool_hashes = hashes,
         pool_value_size = value_size\<rparr>, w))"

definition bloomd_close_empty_pool ::
  "'k env \<Rightarrow> bloomd_empty_map_pool \<Rightarrow> 'k world \<Rightarrow> bloomd_empty_map_pool \<times> 'k world" where
  "bloomd_close_empty_pool E pool w =
    (case (if pool_fd pool \<ge> 0 then bloomd_bpf_close E (pool_fd pool) w else (pool_fd pool, w)) of
       (fd, w) \<Rightarrow> (\<lparr>pool_fd = fd, pool_capacity = 0, pool_hashes = 0, pool_value_size = 0\<rparr>, w))"

section \<open>Paths, log and metadata of a filter\<close>

text \<open>No caller looks at the structure after a failure.\<close>

definition bloomd_assign_filter_paths ::
  "bloomd_config \<Rightarrow> bloomd_filter_meta \<Rightarrow> errno + bloomd_filter_meta" where
  "bloomd_assign_filter_paths cfg meta =
    (case bloomd_build_meta_path (meta_root cfg) (fm_name meta) PATH_MAX of
       Inl e \<Rightarrow> Inl e
     | Inr mp \<Rightarrow>
         (case bloomd_build_log_path (meta_root cfg) (fm_name meta) PATH_MAX of
            Inl e \<Rightarrow> Inl e
          | Inr lp \<Rightarrow>
              (case bloomd_build_pin_path (pin_root cfg) (fm_name meta) PATH_MAX of
                 Inl e \<Rightarrow> Inl e
               | Inr pp \<Rightarrow>
                   Inr (meta\<lparr>fm_meta_path := mp, fm_log_path := lp, fm_pin_path := pp\<rparr>))))"

definition bloomd_open_filter_log ::
  "bool \<Rightarrow> bloomd_filter \<Rightarrow> 'k world \<Rightarrow> err option \<times> bloomd_filter \<times> 'k world" where
  "bloomd_open_filter_log trunc flt w =
    (case (if trunc then bloomd_log_open_create (fm_log_path (f_meta flt)) w
           else bloomd_log_open_append (fm_log_path (f_meta flt)) w) of
       (Inl e, w) \<Rightarrow>
         (Some (e, bloomd_errmsg (''failed to open digest log for '' @ f_name flt @ '': '' @ strerror e)),
          flt\<lparr>log_fd := - errno_num e\<rparr>, w)
     | (Inr fd, w) \<Rightarrow>
         (case bloomd_now_ms w of
            (now, w) \<Rightarrow>
              (None, flt\<lparr>log_fd := fd, log_buf := [], log_dirty := False,
                 last_log_sync_ms := now\<rparr>, w)))"

definition bloomd_update_filter_meta_state ::
  "'k env \<Rightarrow> bool \<Rightarrow> bool \<Rightarrow> bloomd_filter \<Rightarrow> 'k world
    \<Rightarrow> err option \<times> bloomd_filter \<times> 'k world" where
  "bloomd_update_filter_meta_state E has_data log_clean flt w =
    (let updated = (f_meta flt)\<lparr>fm_has_data := has_data, fm_log_clean := log_clean\<rparr> in
     case bloomd_meta_write_atomic E updated w of
       (Some e, w) \<Rightarrow> (Some (e, bloomd_errmsg ''failed to write metadata''), flt, w)
     | (None, w) \<Rightarrow> (None, flt\<lparr>f_meta := updated\<rparr>, w))"

definition bloomd_ensure_filter_durable ::
  "'k env \<Rightarrow> bloomd_filter \<Rightarrow> 'k world \<Rightarrow> err option \<times> bloomd_filter \<times> 'k world" where
  "bloomd_ensure_filter_durable E flt w =
    (if fm_has_data (f_meta flt)
     then (if log_fd flt < 0 then bloomd_open_filter_log False flt w else (None, flt, w))
     else case bloomd_bpf_pin_map E (map_fd flt) (fm_pin_path (f_meta flt)) w of
       (Some e, w) \<Rightarrow> (Some e, flt, w)
     | (None, w) \<Rightarrow>
         (case bloomd_open_filter_log True flt w of
            (Some e, flt, w) \<Rightarrow>
              (Some e, flt, snd (bloomd_bpf_unpin E (fm_pin_path (f_meta flt)) w))
          | (None, flt, w) \<Rightarrow>
              (case bloomd_update_filter_meta_state E True True flt w of
                 (Some e, flt, w) \<Rightarrow>
                   (case bloomd_log_close (log_fd flt) False w of
                      (fd, w) \<Rightarrow>
                        let flt = flt\<lparr>log_fd := fd\<rparr>;
                            w = snd (bloomd_log_delete (fm_log_path (f_meta flt)) w)
                        in (Some e, flt, snd (bloomd_bpf_unpin E (fm_pin_path (f_meta flt)) w)))
               | (None, flt, w) \<Rightarrow> (None, flt, w))))"

text \<open>The extra result is \<open>*changed_out\<close>.\<close>

definition bloomd_mark_filter_log_dirty ::
  "'k env \<Rightarrow> bloomd_filter \<Rightarrow> 'k world \<Rightarrow> err option \<times> bool \<times> bloomd_filter \<times> 'k world" where
  "bloomd_mark_filter_log_dirty E flt w =
    (if \<not> fm_has_data (f_meta flt) \<or> \<not> fm_log_clean (f_meta flt) then (None, False, flt, w)
     else case bloomd_update_filter_meta_state E True False flt w of
       (Some e, flt, w) \<Rightarrow> (Some e, False, flt, w)
     | (None, flt, w) \<Rightarrow> (None, True, flt, w))"

section \<open>Periodic sync\<close>

definition BLOOMD_LOG_SYNC_INTERVAL_MS :: u64 where "BLOOMD_LOG_SYNC_INTERVAL_MS = 250"

text \<open>The body of the loop for one filter; the differences of times wrap as in C.\<close>

definition sync_dirty_log ::
  "'k env \<Rightarrow> u64 \<Rightarrow> bool \<Rightarrow> bloomd_filter \<Rightarrow> 'k world \<Rightarrow> bloomd_filter \<times> 'k world" where
  "sync_dirty_log E now_ms force flt w =
    (if \<not> log_dirty flt then (flt, w)
     else if \<not> force \<and> now_ms - last_log_sync_ms flt < BLOOMD_LOG_SYNC_INTERVAL_MS then (flt, w)
     else case bloomd_log_buffer_flush (log_fd flt) (log_buf flt) True w of
       (r, buf, w) \<Rightarrow>
         let flt = flt\<lparr>log_buf := buf, last_log_sync_ms := now_ms\<rparr> in
         if r \<noteq> None then (flt, w)
         else
           let flt = flt\<lparr>log_dirty := False\<rparr> in
           if fm_has_data (f_meta flt) \<and> \<not> fm_log_clean (f_meta flt) \<and>
              \<not> log_history_incomplete flt
           then (case bloomd_update_filter_meta_state E True True flt w of
                   (_, flt, w) \<Rightarrow> (flt, w))
           else (flt, w))"

fun sync_items ::
  "'k env \<Rightarrow> u64 \<Rightarrow> bool \<Rightarrow> bloomd_filter list \<Rightarrow> 'k world \<Rightarrow> bloomd_filter list \<times> 'k world" where
  "sync_items E now_ms force [] w = ([], w)"
| "sync_items E now_ms force (f # fs) w =
    (case sync_dirty_log E now_ms force f w of
       (f, w) \<Rightarrow> (case sync_items E now_ms force fs w of (fs, w) \<Rightarrow> (f # fs, w)))"

definition bloomd_sync_dirty_logs ::
  "'k env \<Rightarrow> u64 \<Rightarrow> bool \<Rightarrow> bloomd_filter_set \<Rightarrow> 'k world \<Rightarrow> bloomd_filter_set \<times> 'k world" where
  "bloomd_sync_dirty_logs E now_ms force s w =
    (case sync_items E now_ms force (items s) w of (fs, w) \<Rightarrow> (s\<lparr>items := fs\<rparr>, w))"

section \<open>Staging a digest\<close>

record bloomd_log_stage =
  prev_buf_len :: nat
  prev_file_size :: nat
  prev_dirty :: bool
  can_truncate :: bool
  overflow_flush :: bool

definition bloomd_stage_digest_for_add ::
  "byte list \<Rightarrow> bloomd_log_sync_mode \<Rightarrow> bloomd_filter \<Rightarrow> 'k world
    \<Rightarrow> rc \<times> bloomd_log_stage \<times> bloomd_filter \<times> 'k world" where
  "bloomd_stage_digest_for_add digest mode flt w =
    (let stage = \<lparr>prev_buf_len = length (log_buf flt), prev_file_size = 0,
           prev_dirty = log_dirty flt, can_truncate = False,
           overflow_flush = (length (log_buf flt) + BLOOMD_DIGEST_SIZE > BLOOMD_LOG_BUFFER_CAP)\<rparr>
     in case (if mode = LOG_SYNC_ALWAYS then sys_lseek_end (log_fd flt) w else (Inr 0, w)) of
          (Inl e, w) \<Rightarrow> (Some e, stage, flt, w)
        | (Inr sz, w) \<Rightarrow>
            let stage = (if mode = LOG_SYNC_ALWAYS
                         then stage\<lparr>prev_file_size := sz, can_truncate := True\<rparr> else stage) in
            (case bloomd_log_buffer_append (log_fd flt) (log_buf flt) digest w of
               (Some e, buf, w) \<Rightarrow> (Some e, stage, flt\<lparr>log_buf := buf\<rparr>, w)
             | (None, buf, w) \<Rightarrow>
                 if mode = LOG_SYNC_ALWAYS
                 then (case bloomd_log_buffer_flush (log_fd flt) buf True w of
                         (r, buf, w) \<Rightarrow> (r, stage, flt\<lparr>log_buf := buf\<rparr>, w))
                 else (None, stage, flt\<lparr>log_buf := buf\<rparr>, w)))"

definition bloomd_rollback_staged_digest ::
  "bloomd_log_stage \<Rightarrow> bloomd_log_sync_mode \<Rightarrow> bloomd_filter \<Rightarrow> 'k world
    \<Rightarrow> bloomd_filter \<times> 'k world" where
  "bloomd_rollback_staged_digest stage mode flt w =
    (if mode = LOG_SYNC_ALWAYS
     then (flt\<lparr>log_buf := [], log_dirty := False\<rparr>,
           if can_truncate stage
           then snd (bloomd_log_truncate (log_fd flt) (prev_file_size stage) True w) else w)
     else (flt\<lparr>log_buf := (if overflow_flush stage then []
                             else take (prev_buf_len stage) (log_buf flt)),
                  log_dirty := prev_dirty stage\<rparr>, w))"

definition bloomd_commit_staged_digest ::
  "bloomd_log_sync_mode \<Rightarrow> bloomd_filter \<Rightarrow> 'k world \<Rightarrow> bloomd_filter \<times> 'k world" where
  "bloomd_commit_staged_digest mode flt w =
    (if mode = LOG_SYNC_ALWAYS
     then (case bloomd_now_ms w of
             (now, w) \<Rightarrow> (flt\<lparr>log_dirty := False, last_log_sync_ms := now\<rparr>, w))
     else (flt\<lparr>log_dirty := True\<rparr>, w))"

section \<open>The files of different filters\<close>

lemma assign_paths_Inr:
  assumes "bloomd_assign_filter_paths cfg m = Inr m'"
  shows "fm_meta_path m' = meta_root cfg @ ''/'' @ fm_name m @ ''.meta''"
    "fm_log_path m' = meta_root cfg @ ''/'' @ fm_name m @ ''.digests''"
    "fm_pin_path m' = pin_root cfg @ ''/'' @ fm_name m" "fm_name m' = fm_name m"
  using assms
  by (auto simp: bloomd_assign_filter_paths_def build_path_defs bloomd_join_path_def Let_def
    split: sum.splits if_splits)

lemma dot_split:
  assumes "CHR ''.'' \<notin> set a" "CHR ''.'' \<notin> set b" "a @ CHR ''.'' # x = b @ CHR ''.'' # y"
  shows "a = b \<and> x = y"
  using assms
proof (induction a arbitrary: b)
  case Nil
  then show ?case by (cases b) auto
next
  case (Cons c a)
  then show ?case by (cases b) auto
qed

text \<open>
  The files of different filters never collide: for two valid, different names the metadata
  files, logs, pins and temporary metadata files are pairwise different paths, and for one filter the
  metadata file, the log and the temporary file are three different paths.
\<close>

lemma filter_paths_disjoint:
  assumes "bloomd_assign_filter_paths cfg m = Inr a" "bloomd_assign_filter_paths cfg m' = Inr b"
    and v: "bloomd_name_is_valid (fm_name m)" "bloomd_name_is_valid (fm_name m')"
  shows "fm_meta_path a \<noteq> fm_log_path b \<and> meta_tmp_path pid (fm_meta_path a) \<noteq> fm_log_path b \<and>
    meta_tmp_path pid (fm_meta_path a) \<noteq> fm_meta_path b \<and>
    (fm_name m \<noteq> fm_name m' \<longrightarrow> fm_meta_path a \<noteq> fm_meta_path b \<and> fm_log_path a \<noteq> fm_log_path b \<and>
      fm_pin_path a \<noteq> fm_pin_path b \<and>
      meta_tmp_path pid (fm_meta_path a) \<noteq> meta_tmp_path pid (fm_meta_path b))"
proof -
  note pa = assign_paths_Inr [OF assms(1)] and pb = assign_paths_Inr [OF assms(2)]
  note dots = dot_split [OF name_valid_chars(7) [OF v(1)] name_valid_chars(7) [OF v(2)]]
  show ?thesis
    unfolding pa pb meta_tmp_path_def
    using dots [of "''meta''" "''digests''"] dots [of "''meta.tmp.'' @ dec_digits pid" "''digests''"]
      dots [of "''meta.tmp.'' @ dec_digits pid" "''meta''"]
    by auto
qed

end
