(* ===== verification/Daemon_Handlers.thy ===== *)
theory Daemon_Handlers
  imports Daemon_Core
begin

text \<open>
  The request handlers and the dispatcher of \<open>src/src/daemon.c\<close>. A handler takes the daemon
  state, the request and the response under construction, and returns its result code, the
  response and the new state; every early return of the source is a branch.
\<close>

section \<open>Requests and results\<close>

text \<open>
  A request view is a frame header and the body behind it; the reader of frames hands over bodies
  of exactly \<open>body_len\<close> bytes.
\<close>

record bloomd_request_view =
  rq_header :: bloomd_frame_header
  rq_body :: "byte list"

abbreviation rq_len :: "bloomd_request_view \<Rightarrow> nat" where
  "rq_len req \<equiv> unat (body_len (rq_header req))"

definition request_ok :: "bloomd_request_view \<Rightarrow> bool" where
  "request_ok req \<longleftrightarrow> length (rq_body req) = rq_len req"

type_synonym 'k handled = "rc \<times> bloomd_response \<times> 'k daemon"

definition respond_error ::
  "'k env \<Rightarrow> bloomd_status \<Rightarrow> bloomd_error_code \<Rightarrow> string \<Rightarrow> bloomd_response \<Rightarrow> 'k daemon
    \<Rightarrow> 'k handled" where
  "respond_error E st code message resp d =
    (case bloomd_response_error (mem E) resp st code message of (r, resp) \<Rightarrow> (r, resp, d))"

definition bloomd_send_bool ::
  "'k env \<Rightarrow> bool \<Rightarrow> bloomd_response \<Rightarrow> 'k daemon \<Rightarrow> 'k handled" where
  "bloomd_send_bool E value resp d =
    (case bloomd_buffer_append (mem E) (rbody resp) [if value then 1 else 0] of
       (r, b) \<Rightarrow> (r, resp\<lparr>rbody := b\<rparr>, d))"

definition bloomd_send_u32_count_bytes ::
  "'k env \<Rightarrow> u16 \<Rightarrow> byte list \<Rightarrow> bloomd_response \<Rightarrow> 'k daemon \<Rightarrow> 'k handled" where
  "bloomd_send_u32_count_bytes E count values resp d =
    (case bloomd_buffer_append_u16 (mem E) (rbody resp) count of
       (Some e, b) \<Rightarrow> (Some e, resp\<lparr>rbody := b\<rparr>, d)
     | (None, b) \<Rightarrow>
         (case bloomd_buffer_append (mem E) b (take (unat count) values) of
            (r, b) \<Rightarrow> (r, resp\<lparr>rbody := b\<rparr>, d)))"

text \<open>
  A run of appends whose results are combined with \<open>rc |= ...\<close>: all of them are tried, the
  result is nonzero as soon as one failed (the only thing its readers test).
\<close>

fun append_all :: "(nat \<Rightarrow> bool) \<Rightarrow> byte list list \<Rightarrow> rc \<Rightarrow> bloomd_buffer \<Rightarrow> rc \<times> bloomd_buffer" where
  "append_all alloc [] r b = (r, b)"
| "append_all alloc (x # xs) r b =
    (case bloomd_buffer_append alloc b x of
       (r', b) \<Rightarrow> append_all alloc xs (if r = None then r' else r) b)"

definition respond_all ::
  "'k env \<Rightarrow> byte list list \<Rightarrow> bloomd_response \<Rightarrow> 'k daemon \<Rightarrow> 'k handled" where
  "respond_all E xs resp d =
    (case append_all (mem E) xs None (rbody resp) of (r, b) \<Rightarrow> (r, resp\<lparr>rbody := b\<rparr>, d))"

section \<open>PING and CREATE\<close>

definition bloomd_handle_ping :: "'k env \<Rightarrow> bloomd_response \<Rightarrow> 'k daemon \<Rightarrow> 'k handled" where
  "bloomd_handle_ping E resp d =
    (case bloomd_buffer_append_str (mem E) (rbody resp) ''PONG'' of
       (r, b) \<Rightarrow> (r, resp\<lparr>rbody := b\<rparr>, d))"

record bloomd_create_request =
  cr_capacity :: u64
  cr_error_rate :: double
  cr_hashes :: u32
  cr_name_len :: u16
  cr_reserved :: u16

definition create_request_of :: "byte list \<Rightarrow> bloomd_create_request" where
  "create_request_of b = \<lparr>cr_capacity = bloomd_load_u64 b, cr_error_rate = bloomd_load_u64 (drop 8 b),
     cr_hashes = bloomd_load_u32 (drop 16 b), cr_name_len = bloomd_load_u16 (drop 20 b),
     cr_reserved = bloomd_load_u16 (drop 22 b)\<rparr>"

definition new_filter_meta :: "'k env \<Rightarrow> string \<Rightarrow> bloomd_create_request \<Rightarrow> bloomd_filter_meta" where
  "new_filter_meta E name hdr = \<lparr>fm_name = name, fm_backend = BLOOMD_BACKEND_NAME,
     fm_digest = BLOOMD_DIGEST_NAME, fm_pin_path = [], fm_meta_path = [], fm_log_path = [],
     fm_capacity = cr_capacity hdr, fm_error_rate = cr_error_rate hdr,
     fm_hashes = (if cr_hashes hdr = 0
                  then bloomd_hashes_for_error_rate (libm_log2 E) (nan_cast E) (cr_error_rate hdr)
                  else cr_hashes hdr),
     fm_value_size = 16, fm_metadata_version = 1, fm_has_data = False, fm_log_clean = True\<rparr>"

definition new_filter :: "bloomd_filter_meta \<Rightarrow> int \<Rightarrow> bloomd_filter" where
  "new_filter meta fd = \<lparr>f_meta = meta, map_fd = fd, log_fd = - 1, log_buf = [], log_dirty = False,
     log_history_incomplete = False, last_log_sync_ms = 0, add_calls = 0, check_calls = 0,
     batch_add_calls = 0, batch_check_calls = 0\<rparr>"

text \<open>
  The second half of CREATE, once a map is at hand: write the metadata, enter the filter into the
  set, and undo what was done when one of them fails.
\<close>

definition create_finish ::
  "'k env \<Rightarrow> bloomd_filter \<Rightarrow> bloomd_response \<Rightarrow> 'k daemon \<Rightarrow> 'k handled" where
  "create_finish E flt resp d =
    (case bloomd_meta_write_atomic E (f_meta flt) (d_world d) of
       (Some e, w) \<Rightarrow>
         respond_error E STATUS_IO ERR_METADATA ''failed to write metadata'' resp
           (d\<lparr>d_world := snd (bloomd_bpf_close E (map_fd flt) w)\<rparr>)
     | (None, w) \<Rightarrow>
         (case bloomd_filter_set_add (mem E) flt (d_set d) of
            (Some e, s) \<Rightarrow>
              let w = snd (bloomd_meta_delete (fm_meta_path (f_meta flt)) w);
                  w = snd (bloomd_log_close (log_fd flt) False w);
                  w = snd (bloomd_log_delete (fm_log_path (f_meta flt)) w);
                  w = snd (bloomd_bpf_unpin E (fm_pin_path (f_meta flt)) w);
                  w = snd (bloomd_bpf_close E (map_fd flt) w)
              in respond_error E STATUS_INTERNAL ERR_NONE ''too many filters'' resp
                   (d\<lparr>d_world := w, d_set := s\<rparr>)
          | (None, s) \<Rightarrow>
              (None, resp, d\<lparr>d_world := w, d_set := s,
                 d_stats := (d_stats d)\<lparr>filters_created := filters_created (d_stats d) + 1\<rparr>\<rparr>)))"

text \<open>A map for the new filter: the one from the pool if it fits, else a new one.\<close>

definition create_with_map ::
  "'k env \<Rightarrow> bloomd_filter_meta \<Rightarrow> bloomd_response \<Rightarrow> 'k daemon \<Rightarrow> 'k handled" where
  "create_with_map E meta resp d =
    (case bloomd_take_empty_map (fm_capacity meta) (fm_hashes meta) (fm_value_size meta)
            (d_stats d) (d_pool d) of
       (fd, stats, pool) \<Rightarrow>
         let d = d\<lparr>d_stats := stats, d_pool := pool\<rparr> in
         if fd \<ge> 0 then create_finish E (new_filter meta fd) resp d
         else case bloomd_bpf_create_map E (fm_name meta) (fm_capacity meta) (fm_hashes meta)
                     (d_world d) of
           (Inl (e, msg), w) \<Rightarrow>
             respond_error E (if e = EPERM then STATUS_PERM else STATUS_BPF)
               (if e = EPERM then ERR_BPF_PRIVS else ERR_UNSUPPORTED_KERNEL) msg resp
               (d\<lparr>d_world := w\<rparr>)
         | (Inr fd, w) \<Rightarrow> create_finish E (new_filter meta fd) resp (d\<lparr>d_world := w\<rparr>))"

text \<open>CREATE once its arguments are checked.\<close>

definition create_named ::
  "'k env \<Rightarrow> bloomd_config \<Rightarrow> string \<Rightarrow> bloomd_create_request \<Rightarrow> bloomd_response \<Rightarrow> 'k daemon
    \<Rightarrow> 'k handled" where
  "create_named E cfg name hdr resp d =
    (case bloomd_filter_set_find (d_set d) name of
       (Some _, s) \<Rightarrow>
         respond_error E STATUS_EXISTS ERR_NONE ''filter already exists'' resp (d\<lparr>d_set := s\<rparr>)
     | (None, s) \<Rightarrow>
         (case bloomd_assign_filter_paths cfg (new_filter_meta E name hdr) of
            Inl _ \<Rightarrow> respond_error E STATUS_INTERNAL ERR_NONE ''failed to build filter paths'' resp
                       (d\<lparr>d_set := s\<rparr>)
          | Inr meta \<Rightarrow> create_with_map E meta resp (d\<lparr>d_set := s\<rparr>)))"

definition bloomd_handle_create ::
  "'k env \<Rightarrow> bloomd_config \<Rightarrow> bloomd_request_view \<Rightarrow> bloomd_response \<Rightarrow> 'k daemon \<Rightarrow> 'k handled" where
  "bloomd_handle_create E cfg req resp d =
    (if rq_len req < 24
     then respond_error E STATUS_BAD_REQUEST ERR_PARSE ''short CREATE body'' resp d
     else let hdr = create_request_of (rq_body req) in
     if 24 + unat (cr_name_len hdr) \<noteq> rq_len req
     then respond_error E STATUS_BAD_REQUEST ERR_PARSE ''malformed CREATE body'' resp d
     else if cr_reserved hdr \<noteq> 0
     then respond_error E STATUS_BAD_REQUEST ERR_PARSE ''CREATE reserved field must be zero'' resp d
     else case bloomd_parse_name_copy (drop 24 (rq_body req)) (unat (cr_name_len hdr)) of
       Inl _ \<Rightarrow> respond_error E STATUS_NAME ERR_PARSE ''invalid name'' resp d
     | Inr name \<Rightarrow>
     if cr_capacity hdr = 0 \<or> cr_capacity hdr > 0xFFFFFFFF \<or> cr_hashes hdr > 15 \<or>
        \<not> isfinite (cr_error_rate hdr) \<or> dle_zero (cr_error_rate hdr) \<or> dge_one (cr_error_rate hdr)
     then respond_error E STATUS_BAD_REQUEST ERR_RANGE ''invalid capacity, error_rate, or hashes'' resp d
     else create_named E cfg name hdr resp d)"

section \<open>ADD and CHECK\<close>

record bloomd_payload_request =
  pr_name_len :: u16
  pr_reserved0 :: u16
  pr_payload_len :: u32

definition payload_request_of :: "byte list \<Rightarrow> bloomd_payload_request" where
  "payload_request_of b = \<lparr>pr_name_len = bloomd_load_u16 b, pr_reserved0 = bloomd_load_u16 (drop 2 b),
     pr_payload_len = bloomd_load_u32 (drop 4 b)\<rparr>"

text \<open>The name and the payload of a well-formed body.\<close>

definition bloomd_parse_name_payload :: "bloomd_request_view \<Rightarrow> errno + (string \<times> byte list)" where
  "bloomd_parse_name_payload req =
    (if rq_len req < 8 then Inl EINVAL
     else let hdr = payload_request_of (rq_body req); n = unat (pr_name_len hdr);
              p = unat (pr_payload_len hdr) in
     if 8 + n + p \<noteq> rq_len req then Inl EINVAL
     else if pr_reserved0 hdr \<noteq> 0 then Inl EINVAL
     else if bloomd_name_view_is_valid (drop 8 (rq_body req)) n \<noteq> None then Inl EINVAL
     else Inr (string_of_bytes (take n (drop 8 (rq_body req))), take p (drop (8 + n) (rq_body req))))"

text \<open>
  What ADD does once the filter is durable and marked: stage the digest, push it into the map,
  commit or roll back. \<open>marked\<close> says whether the log was marked dirty for this request, and
  \<open>restore\<close> whether the mark is to be taken back on a failure.
\<close>

definition restore_clean_mark :: "'k env \<Rightarrow> bool \<Rightarrow> bloomd_filter \<Rightarrow> 'k world \<Rightarrow> bloomd_filter \<times> 'k world" where
  "restore_clean_mark E restore flt w =
    (if restore then snd (bloomd_update_filter_meta_state E True True flt w) else (flt, w))"

definition add_staged ::
  "'k env \<Rightarrow> bloomd_log_sync_mode \<Rightarrow> bool \<Rightarrow> byte list \<Rightarrow> bloomd_filter \<Rightarrow> 'k world
    \<Rightarrow> (bloomd_status \<times> bloomd_error_code \<times> string) option \<times> bloomd_filter \<times> 'k world" where
  "add_staged E mode restore digest flt w =
    (case bloomd_stage_digest_for_add digest mode flt w of
       (Some e, stage, flt, w) \<Rightarrow>
         (case restore_clean_mark E restore flt w of
            (flt, w) \<Rightarrow>
              (Some (STATUS_IO, ERR_METADATA,
                 if mode = LOG_SYNC_ALWAYS then ''failed to sync digest log''
                 else ''failed to append digest log''), flt, w))
     | (None, stage, flt, w) \<Rightarrow>
         (case bloomd_bpf_add_digest E (map_fd flt) digest w of
            (Some (e, msg), w) \<Rightarrow>
              (case bloomd_rollback_staged_digest stage mode flt w of
                 (flt, w) \<Rightarrow>
                   (case restore_clean_mark E restore flt w of
                      (flt, w) \<Rightarrow> (Some (STATUS_BPF, ERR_NONE, msg), flt, w)))
          | (None, w) \<Rightarrow>
              (case bloomd_commit_staged_digest mode flt w of (flt, w) \<Rightarrow> (None, flt, w))))"

text \<open>Before the first digest of a request: make the filter durable, mark the log dirty.\<close>

definition add_prepare ::
  "'k env \<Rightarrow> bloomd_log_sync_mode \<Rightarrow> bloomd_filter \<Rightarrow> 'k world
    \<Rightarrow> err option \<times> bool \<times> bloomd_filter \<times> 'k world" where
  "add_prepare E mode flt w =
    (case bloomd_ensure_filter_durable E flt w of
       (Some e, flt, w) \<Rightarrow> (Some e, False, flt, w)
     | (None, flt, w) \<Rightarrow>
         if mode = LOG_SYNC_PERIODIC then bloomd_mark_filter_log_dirty E flt w
         else (None, False, flt, w))"

definition put_filter :: "nat \<Rightarrow> bloomd_filter \<Rightarrow> 'k world \<Rightarrow> 'k daemon \<Rightarrow> 'k daemon" where
  "put_filter i flt w d = d\<lparr>d_world := w, d_set := set_item i flt (d_set d)\<rparr>"

definition bloomd_handle_add_check ::
  "'k env \<Rightarrow> bool \<Rightarrow> bloomd_log_sync_mode \<Rightarrow> bloomd_request_view \<Rightarrow> bloomd_response \<Rightarrow> 'k daemon
    \<Rightarrow> 'k handled" where
  "bloomd_handle_add_check E is_add mode req resp d =
    (case bloomd_parse_name_payload req of
       Inl _ \<Rightarrow> respond_error E STATUS_BAD_REQUEST ERR_PARSE ''malformed body'' resp d
     | Inr (name, payload) \<Rightarrow>
     (case bloomd_filter_set_find_n (d_set d) name of
        (None, s) \<Rightarrow> respond_error E STATUS_NOT_FOUND ERR_NONE ''filter not found'' resp (d\<lparr>d_set := s\<rparr>)
      | (Some i, s) \<Rightarrow>
          let d = d\<lparr>d_set := s\<rparr>; flt = items s ! i; digest = bloomd_digest_payload payload in
          if is_add
          then (case add_prepare E mode flt (d_world d) of
                  (Some (e, msg), marked, flt, w) \<Rightarrow>
                    respond_error E STATUS_IO ERR_METADATA msg resp (put_filter i flt w d)
                | (None, marked, flt, w) \<Rightarrow>
                    (case add_staged E mode marked digest flt w of
                       (Some (st, code, msg), flt, w) \<Rightarrow>
                         respond_error E st code msg resp (put_filter i flt w d)
                     | (None, flt, w) \<Rightarrow>
                         bloomd_send_bool E True resp
                           (put_filter i (flt\<lparr>add_calls := add_calls flt + 1\<rparr>) w d)))
          else (case bloomd_bpf_check_digest E (map_fd flt) digest (d_world d) of
                  (Inl (e, msg), w) \<Rightarrow>
                    respond_error E STATUS_BPF ERR_NONE msg resp (put_filter i flt w d)
                | (Inr present, w) \<Rightarrow>
                    bloomd_send_bool E present resp
                      (put_filter i (flt\<lparr>check_calls := check_calls flt + 1\<rparr>) w d))))"

section \<open>MADD and MCHECK\<close>

record bloomd_batch_request =
  br_name_len :: u16
  br_item_count :: u16
  br_reserved :: u32

definition batch_request_of :: "byte list \<Rightarrow> bloomd_batch_request" where
  "batch_request_of b = \<lparr>br_name_len = bloomd_load_u16 b, br_item_count = bloomd_load_u16 (drop 2 b),
     br_reserved = bloomd_load_u32 (drop 4 b)\<rparr>"

text \<open>The name, the item count and the bytes of the items.\<close>

definition bloomd_parse_batch :: "bloomd_request_view \<Rightarrow> errno + (string \<times> u16 \<times> byte list)" where
  "bloomd_parse_batch req =
    (if rq_len req < 8 then Inl EINVAL
     else let hdr = batch_request_of (rq_body req); n = unat (br_name_len hdr) in
     if br_item_count hdr = 0 then Inl EINVAL
     else if unat (br_item_count hdr) > BLOOMD_MAX_BATCH_ITEMS then Inl E2BIG
     else if br_reserved hdr \<noteq> 0 then Inl EINVAL
     else if rq_len req < 8 + n then Inl EINVAL
     else if bloomd_name_view_is_valid (drop 8 (rq_body req)) n \<noteq> None then Inl EINVAL
     else Inr (string_of_bytes (take n (drop 8 (rq_body req))), br_item_count hdr,
               take (rq_len req - 8 - n) (drop (8 + n) (rq_body req))))"

text \<open>The scan that checks every item of a MADD before anything is changed: the bytes left over.\<close>

fun scan_payloads :: "nat \<Rightarrow> byte list \<Rightarrow> errno + byte list" where
  "scan_payloads 0 its = Inr its"
| "scan_payloads (Suc k) its =
    (case bloomd_protocol_read_payload its of
       Inl e \<Rightarrow> Inl e
     | Inr (p, consumed) \<Rightarrow> scan_payloads k (drop consumed its))"

text \<open>The loop over the items; \<open>marked\<close> and \<open>added\<close> are \<open>meta_marked_dirty\<close>, \<open>any_added_success\<close>.\<close>

fun batch_loop ::
  "'k env \<Rightarrow> bool \<Rightarrow> bloomd_log_sync_mode \<Rightarrow> bool \<Rightarrow> bool \<Rightarrow> nat \<Rightarrow> byte list \<Rightarrow> byte list
    \<Rightarrow> bloomd_filter \<Rightarrow> 'k world
    \<Rightarrow> ((bloomd_status \<times> bloomd_error_code \<times> string) + (byte list \<times> byte list))
        \<times> bloomd_filter \<times> 'k world" where
  "batch_loop E is_add mode marked added 0 its results flt w = (Inr (results, its), flt, w)"
| "batch_loop E is_add mode marked added (Suc k) its results flt w =
    (case bloomd_protocol_read_payload its of
       Inl e \<Rightarrow> (Inl (STATUS_BAD_REQUEST, ERR_PARSE, ''malformed batch payload''), flt, w)
     | Inr (payload, consumed) \<Rightarrow>
         let digest = bloomd_digest_payload payload in
         if is_add
         then (case add_staged E mode (marked \<and> \<not> added) digest flt w of
                 (Some x, flt, w) \<Rightarrow> (Inl x, flt, w)
               | (None, flt, w) \<Rightarrow>
                   batch_loop E is_add mode marked True k (drop consumed its) (results @ [1]) flt w)
         else (case bloomd_bpf_check_digest E (map_fd flt) digest w of
                 (Inl (e, msg), w) \<Rightarrow> (Inl (STATUS_BPF, ERR_NONE, msg), flt, w)
               | (Inr present, w) \<Rightarrow>
                   batch_loop E is_add mode marked added k (drop consumed its)
                     (results @ [if present then 1 else 0]) flt w))"

definition batch_run ::
  "'k env \<Rightarrow> bool \<Rightarrow> bloomd_log_sync_mode \<Rightarrow> bool \<Rightarrow> u16 \<Rightarrow> byte list \<Rightarrow> nat \<Rightarrow> bloomd_filter
    \<Rightarrow> 'k world \<Rightarrow> bloomd_response \<Rightarrow> 'k daemon \<Rightarrow> 'k handled" where
  "batch_run E is_add mode marked count its i flt w resp d =
    (case batch_loop E is_add mode marked False (unat count) its [] flt w of
       (Inl (st, code, msg), flt, w) \<Rightarrow> respond_error E st code msg resp (put_filter i flt w d)
     | (Inr (results, rest), flt, w) \<Rightarrow>
         if rest \<noteq> []
         then respond_error E STATUS_BAD_REQUEST ERR_PARSE ''batch body has trailing bytes'' resp
                (put_filter i flt w d)
         else bloomd_send_u32_count_bytes E count results resp
                (put_filter i (if is_add then flt\<lparr>batch_add_calls := batch_add_calls flt + 1\<rparr>
                               else flt\<lparr>batch_check_calls := batch_check_calls flt + 1\<rparr>) w d))"

definition bloomd_handle_batch ::
  "'k env \<Rightarrow> bool \<Rightarrow> bloomd_log_sync_mode \<Rightarrow> bloomd_request_view \<Rightarrow> bloomd_response \<Rightarrow> 'k daemon
    \<Rightarrow> 'k handled" where
  "bloomd_handle_batch E is_add mode req resp d =
    (case bloomd_parse_batch req of
       Inl e \<Rightarrow>
         if e = E2BIG
         then respond_error E STATUS_TOO_LARGE ERR_RANGE ''batch item count exceeds protocol limit'' resp d
         else respond_error E STATUS_BAD_REQUEST ERR_PARSE ''malformed batch body'' resp d
     | Inr (name, count, its) \<Rightarrow>
     (case bloomd_filter_set_find_n (d_set d) name of
        (None, s) \<Rightarrow> respond_error E STATUS_NOT_FOUND ERR_NONE ''filter not found'' resp (d\<lparr>d_set := s\<rparr>)
      | (Some i, s) \<Rightarrow>
          let d = d\<lparr>d_set := s\<rparr>; flt = items s ! i in
          if is_add
          then (case scan_payloads (unat count) its of
                  Inl _ \<Rightarrow> respond_error E STATUS_BAD_REQUEST ERR_PARSE ''malformed batch payload'' resp d
                | Inr rest \<Rightarrow>
                    if rest \<noteq> []
                    then respond_error E STATUS_BAD_REQUEST ERR_PARSE ''batch body has trailing bytes'' resp d
                    else (case add_prepare E mode flt (d_world d) of
                            (Some (e, msg), marked, flt, w) \<Rightarrow>
                              respond_error E STATUS_IO ERR_METADATA msg resp (put_filter i flt w d)
                          | (None, marked, flt, w) \<Rightarrow>
                              batch_run E is_add mode marked count its i flt w resp d))
          else batch_run E is_add mode False count its i flt (d_world d) resp d))"

section \<open>INFO, LIST and STATS\<close>

record bloomd_name_request =
  nr_name_len :: u16
  nr_reserved0 :: u16
  nr_reserved1 :: u32

definition name_request_of :: "byte list \<Rightarrow> bloomd_name_request" where
  "name_request_of b = \<lparr>nr_name_len = bloomd_load_u16 b, nr_reserved0 = bloomd_load_u16 (drop 2 b),
     nr_reserved1 = bloomd_load_u32 (drop 4 b)\<rparr>"

text \<open>The checks INFO and DROP share; \<open>op\<close> is the word their messages name.\<close>

definition parse_name_request ::
  "string \<Rightarrow> bloomd_request_view \<Rightarrow> (bloomd_status \<times> bloomd_error_code \<times> string) + string" where
  "parse_name_request op req =
    (if rq_len req < 8 then Inl (STATUS_BAD_REQUEST, ERR_PARSE, ''short '' @ op @ '' body'')
     else let hdr = name_request_of (rq_body req); n = unat (nr_name_len hdr) in
     if 8 + n \<noteq> rq_len req then Inl (STATUS_BAD_REQUEST, ERR_PARSE, ''malformed '' @ op @ '' body'')
     else if nr_reserved0 hdr \<noteq> 0 \<or> nr_reserved1 hdr \<noteq> 0
     then Inl (STATUS_BAD_REQUEST, ERR_PARSE, op @ '' reserved fields must be zero'')
     else if bloomd_name_view_is_valid (drop 8 (rq_body req)) n \<noteq> None
     then Inl (STATUS_NAME, ERR_PARSE, ''invalid name'')
     else Inr (string_of_bytes (take n (drop 8 (rq_body req)))))"

definition filter_state_flags :: "bloomd_filter_meta \<Rightarrow> u32" where
  "filter_state_flags meta =
    (let flg = (if fm_has_data meta then 0x01 else 0x02) in
     if fm_log_clean meta then flg OR 0x04
     else if fm_has_data meta then flg OR 0x08 else flg)"

definition info_fields :: "bloomd_filter \<Rightarrow> byte list list" where
  "info_fields flt =
    (let meta = f_meta flt;
         name_len = (of_nat (length (fm_name meta)) :: u16);
         backend_len = (of_nat (length (fm_backend meta)) :: u16);
         digest_len = (of_nat (length (fm_digest meta)) :: u16);
         pin_len = (of_nat (length (fm_pin_path meta)) :: u32)
     in [bloomd_store_u16 name_len, bloomd_store_u16 backend_len, bloomd_store_u16 digest_len,
         bloomd_store_u16 0, bloomd_store_u64 (fm_capacity meta),
         bloomd_store_u64 (fm_error_rate meta), bloomd_store_u32 (fm_hashes meta),
         bloomd_store_u32 (fm_value_size meta), bloomd_store_u64 (add_calls flt),
         bloomd_store_u64 (check_calls flt), bloomd_store_u64 (batch_add_calls flt),
         bloomd_store_u64 (batch_check_calls flt), bloomd_store_u32 pin_len,
         bloomd_store_u32 (filter_state_flags meta),
         take (unat name_len) (bytes_of_string (fm_name meta)),
         take (unat backend_len) (bytes_of_string (fm_backend meta)),
         take (unat digest_len) (bytes_of_string (fm_digest meta)),
         take (unat pin_len) (bytes_of_string (fm_pin_path meta))])"

definition bloomd_handle_info ::
  "'k env \<Rightarrow> bloomd_request_view \<Rightarrow> bloomd_response \<Rightarrow> 'k daemon \<Rightarrow> 'k handled" where
  "bloomd_handle_info E req resp d =
    (case parse_name_request ''INFO'' req of
       Inl (st, code, msg) \<Rightarrow> respond_error E st code msg resp d
     | Inr name \<Rightarrow>
         (case bloomd_filter_set_find_n (d_set d) name of
            (None, s) \<Rightarrow>
              respond_error E STATUS_NOT_FOUND ERR_NONE ''filter not found'' resp (d\<lparr>d_set := s\<rparr>)
          | (Some i, s) \<Rightarrow> respond_all E (info_fields (items s ! i)) resp (d\<lparr>d_set := s\<rparr>)))"

text \<open>Metadata-only, durable and clean, durable and dirty filters.\<close>

fun bloomd_count_filter_states :: "bloomd_filter list \<Rightarrow> u32 \<times> u32 \<times> u32" where
  "bloomd_count_filter_states [] = (0, 0, 0)"
| "bloomd_count_filter_states (f # fs) =
    (case bloomd_count_filter_states fs of
       (metadata_only, durable_clean, durable_dirty) \<Rightarrow>
         if \<not> fm_has_data (f_meta f) then (metadata_only + 1, durable_clean, durable_dirty)
         else if fm_log_clean (f_meta f) then (metadata_only, durable_clean + 1, durable_dirty)
         else (metadata_only, durable_clean, durable_dirty + 1))"

fun list_names :: "(nat \<Rightarrow> bool) \<Rightarrow> bloomd_filter list \<Rightarrow> bloomd_buffer \<Rightarrow> rc \<times> bloomd_buffer" where
  "list_names alloc [] b = (None, b)"
| "list_names alloc (f # fs) b =
    (let len = (of_nat (length (f_name f)) :: u16) in
     case bloomd_buffer_append_u16 alloc b len of
       (Some e, b) \<Rightarrow> (Some e, b)
     | (None, b) \<Rightarrow>
         (case bloomd_buffer_append alloc b (take (unat len) (bytes_of_string (f_name f))) of
            (Some e, b) \<Rightarrow> (Some e, b)
          | (None, b) \<Rightarrow> list_names alloc fs b))"

definition bloomd_handle_list :: "'k env \<Rightarrow> bloomd_response \<Rightarrow> 'k daemon \<Rightarrow> 'k handled" where
  "bloomd_handle_list E resp d =
    (case bloomd_buffer_append_u32 (mem E) (rbody resp) (of_nat (length (items (d_set d)))) of
       (Some e, b) \<Rightarrow> (Some e, resp\<lparr>rbody := b\<rparr>, d)
     | (None, b) \<Rightarrow>
         (case list_names (mem E) (items (d_set d)) b of (r, b) \<Rightarrow> (r, resp\<lparr>rbody := b\<rparr>, d)))"

definition bloomd_handle_stats :: "'k env \<Rightarrow> bloomd_response \<Rightarrow> 'k daemon \<Rightarrow> 'k handled" where
  "bloomd_handle_stats E resp d =
    (case bloomd_count_filter_states (items (d_set d)) of
       (metadata_only, durable_clean, durable_dirty) \<Rightarrow>
         let st = d_stats d in
         respond_all E
           [bloomd_store_u64 (requests st), bloomd_store_u64 (responses st),
            bloomd_store_u64 (errors st), bloomd_store_u64 (accepted_connections st),
            bloomd_store_u64 (filters_loaded st), bloomd_store_u64 (filters_created st),
            bloomd_store_u64 (filters_dropped st), bloomd_store_u64 (orphan_meta st),
            bloomd_store_u64 (orphan_pin st), bloomd_store_u32 (of_nat (length (items (d_set d)))),
            bloomd_store_u32 metadata_only, bloomd_store_u32 (durable_clean + durable_dirty),
            bloomd_store_u64 (empty_pool_hits st), bloomd_store_u64 (empty_pool_misses st)] resp d)"

section \<open>DROP\<close>

text \<open>The removal itself, after the metadata file is gone.\<close>

definition drop_finish ::
  "'k env \<Rightarrow> string \<Rightarrow> nat \<Rightarrow> bloomd_filter \<Rightarrow> 'k world \<Rightarrow> 'k daemon \<Rightarrow> 'k daemon" where
  "drop_finish E name i flt w d =
    (let meta = f_meta flt;
         pooled_fd = (if fm_has_data meta then - 1 else map_fd flt);
         flt = (if fm_has_data meta then flt else flt\<lparr>map_fd := - 1\<rparr>);
         w = (if fm_has_data meta then snd (bloomd_log_delete (fm_log_path meta) w) else w)
     in case bloomd_filter_set_remove_n E name (set_item i flt (d_set d)) w of
          (_, s, w) \<Rightarrow>
            (case (if pooled_fd \<ge> 0
                   then bloomd_store_empty_map E pooled_fd (fm_capacity meta) (fm_hashes meta)
                          (fm_value_size meta) (d_pool d) w
                   else (d_pool d, w)) of
               (pool, w) \<Rightarrow>
                 d\<lparr>d_world := w, d_set := s, d_pool := pool,
                   d_stats := (d_stats d)\<lparr>filters_dropped := filters_dropped (d_stats d) + 1\<rparr>\<rparr>))"

definition bloomd_handle_drop ::
  "'k env \<Rightarrow> bloomd_request_view \<Rightarrow> bloomd_response \<Rightarrow> 'k daemon \<Rightarrow> 'k handled" where
  "bloomd_handle_drop E req resp d =
    (case parse_name_request ''DROP'' req of
       Inl (st, code, msg) \<Rightarrow> respond_error E st code msg resp d
     | Inr name \<Rightarrow>
     (case bloomd_filter_set_find_n (d_set d) name of
        (None, s) \<Rightarrow> respond_error E STATUS_NOT_FOUND ERR_NONE ''filter not found'' resp (d\<lparr>d_set := s\<rparr>)
      | (Some i, s) \<Rightarrow>
          let d = d\<lparr>d_set := s\<rparr>; flt = items s ! i; meta = f_meta flt in
          (case (if fm_has_data meta then bloomd_bpf_unpin E (fm_pin_path meta) (d_world d)
                 else (None, d_world d)) of
             (Some (e, msg), w) \<Rightarrow>
               respond_error E STATUS_BPF ERR_BPFFS msg resp (d\<lparr>d_world := w\<rparr>)
           | (None, w) \<Rightarrow>
               (case bloomd_meta_delete (fm_meta_path meta) w of
                  (Some e, w) \<Rightarrow>
                    respond_error E STATUS_IO ERR_METADATA ''failed to remove metadata'' resp
                      (d\<lparr>d_world := (if fm_has_data meta
                           then snd (bloomd_bpf_pin_map E (map_fd flt) (fm_pin_path meta) w) else w)\<rparr>)
                | (None, w) \<Rightarrow> (None, resp, drop_finish E name i flt w d)))))"

section \<open>Dispatch\<close>

definition dispatch_op ::
  "'k env \<Rightarrow> bloomd_config \<Rightarrow> bloomd_request_view \<Rightarrow> bloomd_response \<Rightarrow> 'k daemon \<Rightarrow> 'k handled" where
  "dispatch_op E cfg req resp d =
    (let empty_body = (\<lambda>name h. if body_len (rq_header req) \<noteq> 0
          then respond_error E STATUS_BAD_REQUEST ERR_PARSE (name @ '' body must be empty'') resp d
          else h resp d)
     in case opcode_of (opcode (rq_header req)) of
       Some OP_PING \<Rightarrow> empty_body ''PING'' (bloomd_handle_ping E)
     | Some OP_CREATE \<Rightarrow> bloomd_handle_create E cfg req resp d
     | Some OP_ADD \<Rightarrow> bloomd_handle_add_check E True (log_sync_mode cfg) req resp d
     | Some OP_CHECK \<Rightarrow> bloomd_handle_add_check E False (log_sync_mode cfg) req resp d
     | Some OP_MADD \<Rightarrow> bloomd_handle_batch E True (log_sync_mode cfg) req resp d
     | Some OP_MCHECK \<Rightarrow> bloomd_handle_batch E False (log_sync_mode cfg) req resp d
     | Some OP_INFO \<Rightarrow> bloomd_handle_info E req resp d
     | Some OP_LIST \<Rightarrow> empty_body ''LIST'' (bloomd_handle_list E)
     | Some OP_DROP \<Rightarrow> bloomd_handle_drop E req resp d
     | Some OP_STATS \<Rightarrow> empty_body ''STATS'' (bloomd_handle_stats E)
     | None \<Rightarrow> respond_error E STATUS_BAD_REQUEST ERR_PARSE ''unknown opcode'' resp d)"

definition bloomd_dispatch ::
  "'k env \<Rightarrow> bloomd_config \<Rightarrow> bloomd_request_view \<Rightarrow> bloomd_response \<Rightarrow> 'k daemon \<Rightarrow> 'k handled" where
  "bloomd_dispatch E cfg req resp d =
    (case dispatch_op E cfg req resp d of
       (r, resp, d) \<Rightarrow>
         if r \<noteq> None \<and> status (rheader resp) = status_byte STATUS_OK
         then respond_error E STATUS_INTERNAL ERR_NONE ''internal buffer failure'' resp d
         else (None, resp, d))"

end
