(* ===== verification/Frames.thy ===== *)
theory Frames
  imports Daemon_Handlers
begin

text \<open>
  What the building blocks of the handlers leave alone. File and clock operations never touch
  the kernel state and keep the world well formed (\<open>quiet\<close>); operations on a filter keep its
  name and map descriptor and never take back \<open>has_data\<close> (\<open>same_filter\<close>).
\<close>

definition quiet :: "'k world \<Rightarrow> 'k world \<Rightarrow> bool" where
  "quiet w w' \<longleftrightarrow> (world_ok w \<longrightarrow> kern w' = kern w \<and> world_ok w')"

definition same_filter :: "bloomd_filter \<Rightarrow> bloomd_filter \<Rightarrow> bool" where
  "same_filter f f' \<longleftrightarrow> map_fd f' = map_fd f \<and> f_name f' = f_name f \<and>
     (fm_has_data (f_meta f) \<longrightarrow> fm_has_data (f_meta f'))"

lemma quiet_refl [simp, intro]: "quiet w w" by (simp add: quiet_def)
lemma quiet_trans [trans]: "quiet w v \<Longrightarrow> quiet v u \<Longrightarrow> quiet w u" by (simp add: quiet_def)
lemma quiet_script [simp]: "quiet w (w\<lparr>script := s\<rparr>)" by (simp add: quiet_def)

lemma same_filter_refl [simp, intro]: "same_filter f f" by (simp add: same_filter_def)
lemma same_filter_trans [trans]: "same_filter f g \<Longrightarrow> same_filter g h \<Longrightarrow> same_filter f h"
  by (simp add: same_filter_def)

section \<open>System calls\<close>

lemma quiet_sys:
  "sys_open p t w = (r, w') \<Longrightarrow> quiet w w'"
  "sys_fsync fd w = (rc, w') \<Longrightarrow> quiet w w'"
  "sys_ftruncate fd n w = (rc, w') \<Longrightarrow> quiet w w'"
  "sys_lseek_end fd w = (rn, w') \<Longrightarrow> quiet w w'"
  "quiet w (sys_close fd w)"
  "quiet w (snd (sys_unlink p w))"
  "bloomd_now_ms w = (now, w') \<Longrightarrow> quiet w w'"
proof -
  show "quiet w w'" if "sys_open p t w = (r, w')"
  proof (cases r)
    case (Inl e)
    then show ?thesis using that sys_open_Inl by fastforce
  next
    case (Inr fd)
    from that [unfolded Inr] have "kern w' = kern w" by (cases rule: sys_open_Inr) auto
    then show ?thesis using world_ok_open [OF _ that] by (simp add: quiet_def)
  qed
  show "quiet w (sys_close fd w)"
    using world_ok_close by (auto simp: quiet_def sys_close_def)
  show "quiet w (snd (sys_unlink p w))"
  proof -
    obtain r2 w2 where u: "sys_unlink p w = (r2, w2)" by fastforce
    then have "kern w2 = kern w" by (cases rule: sys_unlink_cases) simp_all
    then show ?thesis using u world_ok_unlink [of w p] by (simp add: quiet_def)
  qed
qed (auto simp: quiet_def sys_fsync_def sys_ftruncate_def sys_lseek_end_def bloomd_now_ms_def
  next_outcome_def Let_def split: option.splits list.splits outcome.splits)

lemma quiet_sys_write: "sys_write fd buf w = (r, w') \<Longrightarrow> quiet w w'"
  by (auto simp: quiet_def sys_write_def next_outcome_def Let_def
    split: option.splits list.splits outcome.splits)

lemma quiet_write_all: "bloomd_write_all fd buf w = (r, w') \<Longrightarrow> quiet w w'"
proof (induction fd buf w arbitrary: r w' rule: bloomd_write_all.induct)
  case (1 fd buf w)
  show ?case
  proof (cases "buf = []")
    case True
    then show ?thesis using "1.prems" by (simp add: bloomd_write_all.simps [of fd "[]" w])
  next
    case False
    obtain r1 w1 where s: "sys_write fd buf w = (r1, w1)" by fastforce
    have q: "quiet w w1" by (rule quiet_sys_write [OF s])
    have "quiet w1 w'"
    proof (cases r1)
      case (Inl e)
      then show ?thesis
        using "1.prems" False s "1.IH"(1) [OF False s [symmetric] Inl]
        by (auto simp: bloomd_write_all.simps [of fd buf w] split: if_splits)
    next
      case (Inr n)
      then show ?thesis
        using "1.prems" False s "1.IH"(2) [OF False s [symmetric] Inr]
        by (auto simp: bloomd_write_all.simps [of fd buf w] split: if_splits)
    qed
    with q show ?thesis by (rule quiet_trans)
  qed
qed

section \<open>Log and metadata files\<close>

lemma quiet_log_sync: "bloomd_log_sync fd w = (r, w') \<Longrightarrow> quiet w w'"
  by (auto simp: bloomd_log_sync_def intro: quiet_sys split: if_splits)

lemma quiet_buffer_append: "bloomd_log_buffer_append fd buf dg w = (r, buf', w') \<Longrightarrow> quiet w w'"
  by (auto simp: bloomd_log_buffer_append_def intro: quiet_write_all
    split: if_splits prod.splits option.splits)

lemma quiet_buffer_flush:
  assumes "bloomd_log_buffer_flush fd buf sync w = (r, buf', w')"
  shows "quiet w w'"
proof -
  obtain r1 w1 where w1: "(if length buf > 0 then bloomd_write_all fd buf w else (None, w)) = (r1, w1)"
    by fastforce
  then have "quiet w w1" using quiet_write_all by (auto split: if_splits)
  moreover have "quiet w1 w' \<or> w' = w"
    using assms w1 quiet_log_sync [of fd w1]
    by (auto simp: bloomd_log_buffer_flush_def split: if_splits prod.splits option.splits)
  ultimately show ?thesis using quiet_trans by auto
qed

lemma quiet_log_truncate:
  assumes "bloomd_log_truncate fd n sync w = (r, w')"
  shows "quiet w w'"
proof -
  obtain r1 w1 where t: "sys_ftruncate fd n w = (r1, w1)" by fastforce
  then have "quiet w w1" by (rule quiet_sys)
  moreover have "quiet w1 w' \<or> w' = w"
    using assms t quiet_log_sync [of fd w1]
    by (auto simp: bloomd_log_truncate_def split: if_splits option.splits)
  ultimately show ?thesis using quiet_trans by auto
qed

lemma quiet_log_close: "quiet w (snd (bloomd_log_close fd False w))"
  by (simp add: bloomd_log_close_def quiet_sys(5))

lemma quiet_remove: "quiet w (snd (bloomd_remove_path_if_exists p w))"
  using quiet_sys(6) [of w p]
  by (auto simp: bloomd_remove_path_if_exists_def split: prod.splits option.splits)

lemma quiet_delete: "quiet w (snd (bloomd_log_delete p w))" "quiet w (snd (bloomd_meta_delete p w))"
  by (simp_all add: bloomd_log_delete_def bloomd_meta_delete_def quiet_remove)

lemma quiet_meta_delete: "bloomd_meta_delete p w = (r, w') \<Longrightarrow> quiet w w'"
  using quiet_delete(2) [of w p] by simp

lemma only_files_quiet: "only_files P w w' \<Longrightarrow> quiet w w'"
  by (simp add: only_files_def quiet_def)

lemma quiet_meta_write:
  assumes "bloomd_meta_write_atomic E m w = (r, w')"
  shows "quiet w w'"
proof (cases "world_ok w")
  case True
  then show ?thesis
    using meta_write_ok(1) [OF True, of E m w'] meta_write_err [OF True, of E m _ w'] assms
    by (cases r) (auto intro: only_files_quiet)
qed (simp add: quiet_def)

section \<open>Operations on a filter\<close>

lemma open_filter_log_frame:
  assumes "bloomd_open_filter_log t f w = (r, f', w')"
  shows "quiet w w'" "f_meta f' = f_meta f" "map_fd f' = map_fd f"
proof -
  obtain r1 w1 where o: "sys_open (fm_log_path (f_meta f)) t w = (r1, w1)" by fastforce
  then have o': "(if t then bloomd_log_open_create (fm_log_path (f_meta f)) w
      else bloomd_log_open_append (fm_log_path (f_meta f)) w) = (r1, w1)"
    by (cases t) (simp_all add: bloomd_log_open_create_def bloomd_log_open_append_def)
  obtain now w2 where n: "bloomd_now_ms w1 = (now, w2)" by fastforce
  show "quiet w w'" "f_meta f' = f_meta f" "map_fd f' = map_fd f"
    using assms quiet_sys(1) [OF o] quiet_trans [OF quiet_sys(1) [OF o] quiet_sys(7) [OF n]]
    unfolding bloomd_open_filter_log_def o'
    by (auto simp: n split: sum.splits)
qed

lemma update_state_frame:
  assumes "bloomd_update_filter_meta_state E hda lc f w = (r, f', w')"
  shows "quiet w w'" "f' = (if r = None
    then f\<lparr>f_meta := (f_meta f)\<lparr>fm_has_data := hda, fm_log_clean := lc\<rparr>\<rparr> else f)"
  using assms quiet_meta_write
  by (auto simp: bloomd_update_filter_meta_state_def Let_def split: prod.splits option.splits)

lemma mark_dirty_frame:
  assumes "bloomd_mark_filter_log_dirty E f w = (r, ch, f', w')"
  shows "quiet w w'" "same_filter f f'"
proof -
  obtain r1 f1 w1 where u: "bloomd_update_filter_meta_state E True False f w = (r1, f1, w1)"
    using prod_cases3 by blast
  note fr = update_state_frame [OF u]
  show "quiet w w'" "same_filter f f'"
    using assms u fr
    by (auto simp: bloomd_mark_filter_log_dirty_def same_filter_def split: if_splits option.splits)
qed

lemma stage_frame:
  assumes "bloomd_stage_digest_for_add dg mode f w = (r, st, f', w')"
  shows "quiet w w'" "f' = f\<lparr>log_buf := log_buf f'\<rparr>"
proof -
  obtain r1 w1 where l: "(if mode = LOG_SYNC_ALWAYS then sys_lseek_end (log_fd f) w else (Inr 0, w))
      = (r1, w1)" by fastforce
  then have q1: "quiet w w1" using quiet_sys(4) by (auto split: if_splits)
  obtain r2 b2 w2 where a: "bloomd_log_buffer_append (log_fd f) (log_buf f) dg w1 = (r2, b2, w2)"
    using prod_cases3 by blast
  have q2: "quiet w w2" using quiet_trans [OF q1 quiet_buffer_append [OF a]] .
  obtain r3 b3 w3 where b: "bloomd_log_buffer_flush (log_fd f) b2 True w2 = (r3, b3, w3)"
    using prod_cases3 by blast
  have q3: "quiet w w3" using quiet_trans [OF q2 quiet_buffer_flush [OF b]] .
  show "quiet w w'" "f' = f\<lparr>log_buf := log_buf f'\<rparr>"
    using assms q1 q2 q3 unfolding bloomd_stage_digest_for_add_def Let_def l
    by (auto simp: a b split: sum.splits option.splits if_splits)
qed

lemma rollback_frame:
  assumes "bloomd_rollback_staged_digest st mode f w = (f', w')"
  shows "quiet w w'" "f_meta f' = f_meta f" "map_fd f' = map_fd f"
  using assms quiet_log_truncate [of "log_fd f" "prev_file_size st" True w]
  by (auto simp: bloomd_rollback_staged_digest_def split: if_splits) (metis prod.collapse)

lemma commit_frame:
  assumes "bloomd_commit_staged_digest mode f w = (f', w')"
  shows "quiet w w'" "f_meta f' = f_meta f" "map_fd f' = map_fd f"
  using assms quiet_sys(7) [of w]
  by (auto simp: bloomd_commit_staged_digest_def split: if_splits prod.splits)

lemma restore_frame:
  assumes "restore_clean_mark E b f w = (f', w')"
  shows "quiet w w'" "same_filter f f'"
proof -
  obtain r1 f1 w1 where u: "bloomd_update_filter_meta_state E True True f w = (r1, f1, w1)"
    using prod_cases3 by blast
  note fr = update_state_frame [OF u]
  show "quiet w w'" "same_filter f f'"
    using assms u fr by (auto simp: restore_clean_mark_def same_filter_def split: if_splits)
qed

lemma sync_frame:
  assumes "sync_dirty_log E now force f w = (f', w')"
  shows "quiet w w'" "same_filter f f'"
proof -
  obtain r1 b1 w1 where fl: "bloomd_log_buffer_flush (log_fd f) (log_buf f) True w = (r1, b1, w1)"
    using prod_cases3 by blast
  let ?g = "f\<lparr>log_buf := b1, last_log_sync_ms := now, log_dirty := False\<rparr>"
  obtain r2 f2 w2 where u: "bloomd_update_filter_meta_state E True True ?g w1 = (r2, f2, w2)"
    using prod_cases3 by blast
  note fr = update_state_frame [OF u] and q1 = quiet_buffer_flush [OF fl]
  show "quiet w w'" "same_filter f f'"
    using assms fl u q1 quiet_trans [OF q1 fr(1)] fr(2)
    by (auto simp: sync_dirty_log_def Let_def same_filter_def split: if_splits)
qed

section \<open>Responses\<close>

definition resp_ok :: "bloomd_response \<Rightarrow> bool" where
  "resp_ok resp \<longleftrightarrow> status (rheader resp) = status_byte STATUS_OK"

lemma status_byte_inj: "status_byte a = status_byte b \<longleftrightarrow> a = b"
  by (cases a; cases b) simp_all

lemma respond_error_frame:
  assumes "respond_error E st code msg resp d = (r, resp', d')" "st \<noteq> STATUS_OK"
  shows "d' = d \<and> \<not> resp_ok resp'"
proof -
  have "status (rheader resp') = status_byte st \<and> d' = d"
    using assms(1)
    by (auto simp: respond_error_def bloomd_response_error_def Let_def split: prod.splits option.splits)
  then show ?thesis
    using assms(2) status_byte_inj [of st STATUS_OK] by (auto simp: resp_ok_def)
qed

lemma send_frame:
  "bloomd_send_bool E v resp d = (r, resp', d') \<Longrightarrow> d' = d \<and> rheader resp' = rheader resp"
  "bloomd_send_u32_count_bytes E c vs resp d = (r, resp', d') \<Longrightarrow> d' = d \<and> rheader resp' = rheader resp"
  "respond_all E xs resp d = (r, resp', d') \<Longrightarrow> d' = d \<and> rheader resp' = rheader resp"
  "bloomd_handle_ping E resp d = (r, resp', d') \<Longrightarrow> d' = d \<and> rheader resp' = rheader resp"
  "bloomd_handle_list E resp d = (r, resp', d') \<Longrightarrow> d' = d \<and> rheader resp' = rheader resp"
  "bloomd_handle_stats E resp d = (r, resp', d') \<Longrightarrow> d' = d \<and> rheader resp' = rheader resp"
  by (auto simp: bloomd_send_bool_def bloomd_send_u32_count_bytes_def respond_all_def
    bloomd_handle_ping_def bloomd_handle_list_def bloomd_handle_stats_def Let_def
    split: prod.splits option.splits)

end
