(* ===== verification/Samples.thy ===== *)
theory Samples
  imports Daemon_Handlers
begin

text \<open>
  A concrete daemon for the witnesses: one durable filter \<open>users\<close> on the mock kernel, its log open
  on descriptor 5, and requests that name it.
\<close>

definition sample_kern :: mock where
  "sample_kern = \<lparr>mock_maps = [\<lparr>mm_ino = 0, mm_max_entries = 1000, mm_value_size = 16,
     mm_map_extra = 7, mm_digests = []\<rparr>], mock_pins = [(''/sys/fs/bpf/bloomd/users'', 0)],
     mock_fds = [3 \<mapsto> 0], mock_next_fd = 4\<rparr>"

definition zero_stats :: bloomd_stats where
  "zero_stats = \<lparr>requests = 0, responses = 0, errors = 0, accepted_connections = 0,
     filters_loaded = 0, filters_created = 0, filters_dropped = 0, orphan_meta = 0, orphan_pin = 0,
     empty_pool_hits = 0, empty_pool_misses = 0\<rparr>"

definition sample_daemon :: "mock daemon" where
  "sample_daemon = \<lparr>d_world = \<lparr>kern = sample_kern, dirents = [''/m/users.digests'' \<mapsto> 0],
       inodes = (\<lambda>_. empty_inode), fdtab = [5 \<mapsto> 0], next_ino = 1, next_fd = 6, script = [],
       ticks = [], clock = 0\<rparr>,
     d_set = \<lparr>items = [sample_filter], set_cap = 8, last_index = SIZE_MAX\<rparr>,
     d_stats = zero_stats, d_pool = bloomd_empty_pool\<rparr>"

definition sample_request :: "bloomd_opcode \<Rightarrow> bloomd_request_view" where
  "sample_request op = \<lparr>rq_header = \<lparr>magic = BLOOMD_PROTOCOL_MAGIC, version = 1, opcode = opcode_byte op,
       flags = 0, status = 0, request_id = 7, body_len = 16\<rparr>,
     rq_body = [5, 0, 0, 0, 3, 0, 0, 0, 0x75, 0x73, 0x65, 0x72, 0x73, 0x61, 0x62, 0x63]\<rparr>"

lemma sample_request_ok: "request_ok (sample_request op)"
  by (simp add: request_ok_def sample_request_def)

lemma sample_parse: "bloomd_parse_name_payload (sample_request op) = Inr (''users'', [0x61, 0x62, 0x63])"
  by (simp add: bloomd_parse_name_payload_def sample_request_def) code_simp

end
