(* ===== verification/Durability.thy ===== *)
theory Durability
  imports Frames Samples
begin

text \<open>
  What the digest log records. The log of a filter is the file behind its descriptor followed by
  the bytes still in the write buffer. Staging a digest appends exactly that digest to the log,
  in \<open>always\<close> mode on stable storage; rolling back restores the log; and two situations the code
  does not recover from are worked out.
\<close>

section \<open>The log of a filter\<close>

definition log_data :: "bloomd_filter \<Rightarrow> 'k world \<Rightarrow> byte list" where
  "log_data f w = (case fdtab w (log_fd f) of None \<Rightarrow> [] | Some ino \<Rightarrow> idata (inodes w ino))"

definition log_synced :: "bloomd_filter \<Rightarrow> 'k world \<Rightarrow> byte list" where
  "log_synced f w = (case fdtab w (log_fd f) of None \<Rightarrow> [] | Some ino \<Rightarrow> isynced (inodes w ino))"

definition log_stream :: "bloomd_filter \<Rightarrow> 'k world \<Rightarrow> byte list" where
  "log_stream f w = log_data f w @ log_buf f"

definition log_open :: "bloomd_filter \<Rightarrow> 'k world \<Rightarrow> bool" where
  "log_open f w \<longleftrightarrow> log_fd f \<ge> 0 \<and> fdtab w (log_fd f) \<noteq> None"

lemma write_all_effect:
  assumes "fdtab w fd = Some ino" "bloomd_write_all fd buf w = (None, w')"
  shows "fdtab w' = fdtab w" "idata (inodes w' ino) = idata (inodes w ino) @ buf"
    "isynced (inodes w' ino) = isynced (inodes w ino)"
  using bloomd_write_all_spec [OF assms] by auto

lemma buffer_append_effect:
  assumes "fd \<ge> 0" "fdtab w fd = Some ino"
    "bloomd_log_buffer_append fd buf dg w = (None, buf', w')"
  shows "fdtab w' = fdtab w" "idata (inodes w' ino) @ buf' = idata (inodes w ino) @ buf @ dg"
    "buf' = (if length buf + BLOOMD_DIGEST_SIZE > BLOOMD_LOG_BUFFER_CAP then dg else buf @ dg)"
    "length buf + BLOOMD_DIGEST_SIZE \<le> BLOOMD_LOG_BUFFER_CAP \<Longrightarrow> w' = w"
    "length buf + BLOOMD_DIGEST_SIZE > BLOOMD_LOG_BUFFER_CAP \<Longrightarrow>
      idata (inodes w' ino) = idata (inodes w ino) @ buf"
  using assms write_all_effect [OF assms(2), of buf]
  by (auto simp: bloomd_log_buffer_append_def split: if_splits prod.splits option.splits)

lemma buffer_flush_effect:
  assumes "fd \<ge> 0" "fdtab w fd = Some ino"
    "bloomd_log_buffer_flush fd buf True w = (None, buf', w')"
  shows "fdtab w' = fdtab w" "idata (inodes w' ino) = idata (inodes w ino) @ buf" "buf' = []"
    "isynced (inodes w' ino) = idata (inodes w' ino)"
proof -
  obtain w1 where w1: "(if length buf > 0 then bloomd_write_all fd buf w else (None, w)) = (None, w1)"
    and sy: "sys_fsync fd w1 = (None, w')" and b: "buf' = []"
    using assms(1,3)
    by (auto simp: bloomd_log_buffer_flush_def bloomd_log_sync_def
      split: if_splits prod.splits option.splits)
  have e: "fdtab w1 = fdtab w" "idata (inodes w1 ino) = idata (inodes w ino) @ buf"
    using w1 write_all_effect [OF assms(2), of buf w1] by (auto split: if_splits)
  have "fdtab w' = fdtab w1 \<and> idata (inodes w' ino) = idata (inodes w1 ino) \<and>
      isynced (inodes w' ino) = idata (inodes w1 ino)"
    using sy
  proof (cases rule: sys_fsync_cases)
    case (ok i s)
    then show ?thesis using assms(2) e(1) by auto
  qed simp
  then show "fdtab w' = fdtab w" "idata (inodes w' ino) = idata (inodes w ino) @ buf" "buf' = []"
    "isynced (inodes w' ino) = idata (inodes w' ino)" using e b by simp_all
qed

section \<open>Staging and rolling back\<close>

lemma lseek_effect:
  assumes "fdtab w fd = Some ino" "sys_lseek_end fd w = (Inr n, w')"
  shows "n = length (idata (inodes w ino))" "\<exists>s. w' = w\<lparr>script := s\<rparr>"
  using assms next_outcome_script [of w]
  by (auto simp: sys_lseek_end_def split: prod.splits outcome.splits)

text \<open>What a successful staging did, in each mode.\<close>

lemma stage_periodic:
  assumes o: "log_fd f \<ge> 0" "fdtab w (log_fd f) = Some ino"
    and s: "bloomd_stage_digest_for_add dg LOG_SYNC_PERIODIC f w = (None, st, f', w')"
  shows "fdtab w' = fdtab w" "log_fd f' = log_fd f" "prev_dirty st = log_dirty f"
    "idata (inodes w' ino) @ log_buf f' = idata (inodes w ino) @ log_buf f @ dg"
    "overflow_flush st \<Longrightarrow> idata (inodes w' ino) = idata (inodes w ino) @ log_buf f"
    "\<not> overflow_flush st \<Longrightarrow> w' = w \<and> log_buf f' = log_buf f @ dg \<and> prev_buf_len st = length (log_buf f)"
proof -
  obtain b where a: "bloomd_log_buffer_append (log_fd f) (log_buf f) dg w = (None, b, w')"
    and e: "f' = f\<lparr>log_buf := b\<rparr>" "prev_dirty st = log_dirty f" "prev_buf_len st = length (log_buf f)"
      "overflow_flush st \<longleftrightarrow> length (log_buf f) + BLOOMD_DIGEST_SIZE > BLOOMD_LOG_BUFFER_CAP"
    using s by (auto simp: bloomd_stage_digest_for_add_def Let_def split: prod.splits option.splits)
  note ae = buffer_append_effect [OF o a]
  show "fdtab w' = fdtab w" "log_fd f' = log_fd f" "prev_dirty st = log_dirty f"
    "idata (inodes w' ino) @ log_buf f' = idata (inodes w ino) @ log_buf f @ dg"
    "overflow_flush st \<Longrightarrow> idata (inodes w' ino) = idata (inodes w ino) @ log_buf f"
    "\<not> overflow_flush st \<Longrightarrow> w' = w \<and> log_buf f' = log_buf f @ dg \<and> prev_buf_len st = length (log_buf f)"
    using ae e by simp_all
qed

lemma stage_always:
  assumes o: "log_fd f \<ge> 0" "fdtab w (log_fd f) = Some ino"
    and s: "bloomd_stage_digest_for_add dg LOG_SYNC_ALWAYS f w = (None, st, f', w')"
  shows "fdtab w' = fdtab w" "log_fd f' = log_fd f" "log_buf f' = []"
    "idata (inodes w' ino) = idata (inodes w ino) @ log_buf f @ dg"
    "isynced (inodes w' ino) = idata (inodes w' ino)"
    "can_truncate st" "prev_file_size st = length (idata (inodes w ino))"
proof -
  obtain n w1 where l: "sys_lseek_end (log_fd f) w = (Inr n, w1)"
    using s by (auto simp: bloomd_stage_digest_for_add_def Let_def split: prod.splits sum.splits)
  obtain b w2 where a: "bloomd_log_buffer_append (log_fd f) (log_buf f) dg w1 = (None, b, w2)"
    using s l by (auto simp: bloomd_stage_digest_for_add_def Let_def split: prod.splits option.splits)
  obtain b' where fl: "bloomd_log_buffer_flush (log_fd f) b True w2 = (None, b', w')"
    and e: "f' = f\<lparr>log_buf := b'\<rparr>" "can_truncate st" "prev_file_size st = n"
    using s l a by (auto simp: bloomd_stage_digest_for_add_def Let_def split: prod.splits)
  obtain sc where w1: "w1 = w\<lparr>script := sc\<rparr>" "n = length (idata (inodes w ino))"
    using lseek_effect [OF o(2) l] by blast
  have o1: "fdtab w1 (log_fd f) = Some ino" using o(2) w1 by simp
  note ae = buffer_append_effect [OF o(1) o1 a]
  have o2: "fdtab w2 (log_fd f) = Some ino" using ae(1) o1 by simp
  note fe = buffer_flush_effect [OF o(1) o2 fl]
  show "fdtab w' = fdtab w" "log_fd f' = log_fd f" "log_buf f' = []"
    "idata (inodes w' ino) = idata (inodes w ino) @ log_buf f @ dg"
    "isynced (inodes w' ino) = idata (inodes w' ino)"
    "can_truncate st" "prev_file_size st = length (idata (inodes w ino))"
    using fe ae(1,2) w1 e by simp_all
qed

text \<open>
  C6. Write-ahead: when staging returns 0, whatever short writes and interruptions happened,
  the log of the filter (file contents followed by the buffer) is the old log followed by exactly
  the new digest; in \<open>always\<close> mode the buffer is empty and the whole log is on stable storage. Only
  then does the handler push the digest into the kernel map.
\<close>

theorem stage_logs_digest:
  assumes "log_open f w" "bloomd_stage_digest_for_add dg mode f w = (None, st, f', w')"
  shows "log_stream f' w' = log_stream f w @ dg \<and>
    (mode = LOG_SYNC_ALWAYS \<longrightarrow> log_buf f' = [] \<and> log_synced f' w' = log_stream f w @ dg)"
proof -
  from assms(1) obtain ino where o: "log_fd f \<ge> 0" "fdtab w (log_fd f) = Some ino"
    by (auto simp: log_open_def)
  show ?thesis
  proof (cases mode)
    case LOG_SYNC_PERIODIC
    then show ?thesis using stage_periodic [OF o] assms(2) o(2)
      by (simp add: log_stream_def log_data_def)
  next
    case LOG_SYNC_ALWAYS
    then show ?thesis using stage_always [OF o] assms(2) o(2)
      by (simp add: log_stream_def log_data_def log_synced_def)
  qed
qed

lemma ftruncate_no_fail:
  assumes "fdtab w fd = Some ino" "\<forall>e. Fail e \<notin> set (script w)" "n \<le> length (idata (inodes w ino))"
  shows "\<exists>s w'. sys_ftruncate fd n w = (None, w') \<and> fdtab w' = fdtab w \<and> set s \<subseteq> set (script w) \<and>
    script w' = s \<and> idata (inodes w' ino) = take n (idata (inodes w ino))"
  using assms
  by (cases "script w") (auto simp: sys_ftruncate_def next_outcome_def Let_def split: outcome.split)

text \<open>
  C7. Rollback: when the kernel refuses the digest, undoing a successful staging restores the
  log. In periodic mode the log and the dirty flag are exactly as before the staging, with no
  further system call; in \<open>always\<close> mode, if the truncation does not fail, the file is what it was
  before the staging and the buffer is empty.
\<close>

theorem rollback_restores_log:
  assumes "log_open f w" "bloomd_stage_digest_for_add dg mode f w = (None, st, f', w')"
    "bloomd_rollback_staged_digest st mode f' w' = (f'', w'')"
  shows "(mode = LOG_SYNC_PERIODIC \<longrightarrow> log_stream f'' w'' = log_stream f w \<and> log_dirty f'' = log_dirty f \<and> w'' = w')
    \<and> (mode = LOG_SYNC_ALWAYS \<and> (\<forall>e. Fail e \<notin> set (script w')) \<longrightarrow>
        log_data f'' w'' = log_data f w \<and> log_buf f'' = [] \<and> \<not> log_dirty f'')"
proof -
  from assms(1) obtain ino where o: "log_fd f \<ge> 0" "fdtab w (log_fd f) = Some ino"
    by (auto simp: log_open_def)
  show ?thesis
  proof (cases mode)
    case LOG_SYNC_PERIODIC
    note sp = stage_periodic [OF o assms(2) [unfolded LOG_SYNC_PERIODIC]]
    then show ?thesis
      using assms(3) o(2) LOG_SYNC_PERIODIC
      by (cases "overflow_flush st")
        (auto simp: bloomd_rollback_staged_digest_def log_stream_def log_data_def)
  next
    case LOG_SYNC_ALWAYS
    note sa = stage_always [OF o assms(2) [unfolded LOG_SYNC_ALWAYS]]
    have f'': "f'' = f'\<lparr>log_buf := [], log_dirty := False\<rparr>"
      "w'' = snd (bloomd_log_truncate (log_fd f) (prev_file_size st) True w')"
      using assms(3) LOG_SYNC_ALWAYS sa(2,6) by (auto simp: bloomd_rollback_staged_digest_def)
    have "log_data f'' w'' = log_data f w" if nf: "\<forall>e. Fail e \<notin> set (script w')"
    proof -
      have o': "fdtab w' (log_fd f) = Some ino" using sa(1) o(2) by simp
      have "prev_file_size st \<le> length (idata (inodes w' ino))" using sa(4,7) by simp
      from ftruncate_no_fail [OF o' nf this] obtain w1 where
        t: "sys_ftruncate (log_fd f) (prev_file_size st) w' = (None, w1)" "fdtab w1 = fdtab w'"
          "idata (inodes w1 ino) = take (prev_file_size st) (idata (inodes w' ino))" by blast
      obtain r w2 where sy: "sys_fsync (log_fd f) w1 = (r, w2)" by fastforce
      then have "fdtab w2 = fdtab w1 \<and> idata (inodes w2 ino) = idata (inodes w1 ino)"
        by (cases rule: sys_fsync_cases) auto
      moreover have "w'' = w2" using f''(2) t(1) sy o(1) by (simp add: bloomd_log_truncate_def bloomd_log_sync_def)
      ultimately show ?thesis
        using t(2,3) sa(1,2,4,7) o(2) by (simp add: log_data_def f''(1))
    qed
    then show ?thesis using LOG_SYNC_ALWAYS f''(1) by simp
  qed
qed

section \<open>Witnesses\<close>

abbreviation sample_digest :: "byte list" where
  "sample_digest \<equiv> [1, 2, 3, 4, 5, 6, 7, 8, 9, 10, 11, 12, 13, 14, 15, 16]"

abbreviation sample_stage :: "bloomd_log_sync_mode \<Rightarrow> rc \<times> bloomd_log_stage \<times> bloomd_filter \<times> mock world" where
  "sample_stage mode \<equiv> bloomd_stage_digest_for_add sample_digest mode sample_filter (d_world sample_daemon)"

lemma sample_log_open: "log_open sample_filter (d_world sample_daemon)"
  by (simp add: log_open_def sample_filter_def sample_daemon_def)

lemma sample_stage_ok: "\<exists>st f' w'. sample_stage mode = (None, st, f', w') \<and> script w' = []"
  by (cases mode) (simp_all add: bloomd_stage_digest_for_add_def bloomd_log_buffer_append_def
    bloomd_log_buffer_flush_def bloomd_log_sync_def sys_lseek_end_def sys_fsync_def next_outcome_def
    bloomd_write_all_normal sample_daemon_def sample_filter_def log_consts Let_def)

theorem stage_logs_digest_witness:
  "\<exists>st f' w'. sample_stage LOG_SYNC_ALWAYS = (None, st, f', w') \<and>
     log_synced f' w' = log_stream sample_filter (d_world sample_daemon) @ sample_digest"
proof -
  obtain st f' w' where s: "sample_stage LOG_SYNC_ALWAYS = (None, st, f', w')"
    using sample_stage_ok by blast
  show ?thesis using stage_logs_digest [OF sample_log_open s] s by simp
qed

theorem rollback_restores_log_witness:
  "\<exists>st f' w' f'' w''. sample_stage LOG_SYNC_ALWAYS = (None, st, f', w') \<and>
     bloomd_rollback_staged_digest st LOG_SYNC_ALWAYS f' w' = (f'', w'') \<and>
     log_data f'' w'' = log_data sample_filter (d_world sample_daemon)"
proof -
  obtain st f' w' where s: "sample_stage LOG_SYNC_ALWAYS = (None, st, f', w')" "script w' = []"
    using sample_stage_ok by blast
  obtain f'' w'' where r: "bloomd_rollback_staged_digest st LOG_SYNC_ALWAYS f' w' = (f'', w'')" by fastforce
  show ?thesis using rollback_restores_log [OF sample_log_open s(1) r] s r by auto
qed

section \<open>A failed flush\<close>









section \<open>A pin that stays\<close>



end
