(* ===== verification/Refinement.thy ===== *)
theory Refinement
  imports Frames
begin

text \<open>
  The abstract specification of the daemon, a map from filter names to the sets of digests
  added to them, the invariant that ties a daemon state to it, and the proof that every request
  the dispatcher serves is a step of the specification, whatever fails on the way.
\<close>

section \<open>Specification\<close>

type_synonym filters = "string \<Rightarrow> byte list set option"

text \<open>The digests of the first items of a batch, up to a malformed one.\<close>

fun payload_digests :: "nat \<Rightarrow> byte list \<Rightarrow> byte list list" where
  "payload_digests 0 its = []"
| "payload_digests (Suc k) its =
    (case bloomd_protocol_read_payload its of
       Inl e \<Rightarrow> []
     | Inr (p, consumed) \<Rightarrow> bloomd_digest_payload p # payload_digests k (drop consumed its))"

definition create_name :: "bloomd_request_view \<Rightarrow> string option" where
  "create_name req =
    (case bloomd_parse_name_copy (drop 24 (rq_body req))
        (unat (cr_name_len (create_request_of (rq_body req)))) of
       Inl _ \<Rightarrow> None | Inr name \<Rightarrow> Some name)"

abbreviation rq_op :: "bloomd_request_view \<Rightarrow> bloomd_opcode option" where
  "rq_op req \<equiv> opcode_of (opcode (rq_header req))"

text \<open>
  \<open>filter_step req A ok A'\<close>: serving \<open>req\<close> in state \<open>A\<close> may lead to \<open>A'\<close> with a success (\<open>ok\<close>) or
  an error response. An ADD that is answered with an error has added its digest or has done
  nothing; a MADD that is answered with an error has added the digests of a prefix of its items.
\<close>

inductive filter_step :: "bloomd_request_view \<Rightarrow> filters \<Rightarrow> bool \<Rightarrow> filters \<Rightarrow> bool" where
  refused: "filter_step req A False A"
| query: "rq_op req \<in> Some ` {OP_PING, OP_CHECK, OP_MCHECK, OP_INFO, OP_LIST, OP_STATS} \<Longrightarrow>
    filter_step req A True A"
| create: "rq_op req = Some OP_CREATE \<Longrightarrow> create_name req = Some name \<Longrightarrow> A name = None \<Longrightarrow>
    filter_step req A True (A(name \<mapsto> {}))"
| add: "rq_op req = Some OP_ADD \<Longrightarrow> bloomd_parse_name_payload req = Inr (name, p) \<Longrightarrow>
    A name = Some D \<Longrightarrow> filter_step req A ok (A(name \<mapsto> insert (bloomd_digest_payload p) D))"
| madd: "rq_op req = Some OP_MADD \<Longrightarrow> bloomd_parse_batch req = Inr (name, count, its) \<Longrightarrow>
    A name = Some D \<Longrightarrow> ds = payload_digests (unat count) its \<Longrightarrow>
    k \<le> length ds \<Longrightarrow> (ok \<longrightarrow> k = length ds \<and> length ds = unat count) \<Longrightarrow>
    filter_step req A ok (A(name \<mapsto> set (take k ds) \<union> D))"
| drop: "rq_op req = Some OP_DROP \<Longrightarrow> parse_name_request ''DROP'' req = Inr name \<Longrightarrow>
    A name \<noteq> None \<Longrightarrow> filter_step req A True (A(name := None))"

section \<open>Invariant and abstraction\<close>

text \<open>
  The observers of the kernel (\<open>kinv\<close>, \<open>obj\<close>, \<open>held\<close>) are those of the locale \<open>bpf_kernel\<close>. In a
  good state every filter has an open map of its own, a filter without data has an empty map, and
  the map in the pool is empty and belongs to no filter.
\<close>

definition flt_map :: "('k \<Rightarrow> int \<Rightarrow> nat option) \<Rightarrow> 'k world \<Rightarrow> bloomd_filter \<Rightarrow> nat option" where
  "flt_map obj w f = (if map_fd f < 0 then None else obj (kern w) (map_fd f))"

definition pool_map :: "('k \<Rightarrow> int \<Rightarrow> nat option) \<Rightarrow> 'k daemon \<Rightarrow> nat option" where
  "pool_map obj d = (if pool_fd (d_pool d) < 0 then None else obj (kern (d_world d)) (pool_fd (d_pool d)))"

definition daemon_inv ::
  "('k \<Rightarrow> bool) \<Rightarrow> ('k \<Rightarrow> int \<Rightarrow> nat option) \<Rightarrow> ('k \<Rightarrow> nat \<Rightarrow> byte list set) \<Rightarrow> 'k daemon \<Rightarrow> bool" where
  "daemon_inv kinv obj held d \<longleftrightarrow>
     kinv (kern (d_world d)) \<and> world_ok (d_world d) \<and> set_ok (d_set d) \<and>
     (\<forall>n f. lookup (d_set d) n = Some f \<longrightarrow>
        (\<exists>m. flt_map obj (d_world d) f = Some m \<and>
          (\<not> fm_has_data (f_meta f) \<longrightarrow> held (kern (d_world d)) m = {}))) \<and>
     (\<forall>n n' f f'. lookup (d_set d) n = Some f \<longrightarrow> lookup (d_set d) n' = Some f' \<longrightarrow> n \<noteq> n' \<longrightarrow>
        flt_map obj (d_world d) f \<noteq> flt_map obj (d_world d) f') \<and>
     (pool_fd (d_pool d) \<ge> 0 \<longrightarrow> (\<exists>m. pool_map obj d = Some m \<and> held (kern (d_world d)) m = {} \<and>
        (\<forall>n f. lookup (d_set d) n = Some f \<longrightarrow> flt_map obj (d_world d) f \<noteq> Some m)))"

lemma daemon_invI:
  assumes "kinv (kern (d_world d))" "world_ok (d_world d)" "set_ok (d_set d)"
    "\<And>n f. lookup (d_set d) n = Some f \<Longrightarrow> \<exists>m. flt_map obj (d_world d) f = Some m \<and>
      (\<not> fm_has_data (f_meta f) \<longrightarrow> held (kern (d_world d)) m = {})"
    "\<And>n n' f f'. lookup (d_set d) n = Some f \<Longrightarrow> lookup (d_set d) n' = Some f' \<Longrightarrow> n \<noteq> n' \<Longrightarrow>
      flt_map obj (d_world d) f \<noteq> flt_map obj (d_world d) f'"
    "pool_fd (d_pool d) \<ge> 0 \<Longrightarrow> \<exists>m. pool_map obj d = Some m \<and> held (kern (d_world d)) m = {} \<and>
      (\<forall>n f. lookup (d_set d) n = Some f \<longrightarrow> flt_map obj (d_world d) f \<noteq> Some m)"
  shows "daemon_inv kinv obj held d"
  unfolding daemon_inv_def using assms by (intro conjI allI impI)

lemma daemon_invD:
  assumes "daemon_inv kinv obj held d"
  shows "kinv (kern (d_world d))" "world_ok (d_world d)" "set_ok (d_set d)"
    "lookup (d_set d) n = Some f \<Longrightarrow> \<exists>m. flt_map obj (d_world d) f = Some m \<and>
      (\<not> fm_has_data (f_meta f) \<longrightarrow> held (kern (d_world d)) m = {})"
    "lookup (d_set d) n = Some f \<Longrightarrow> lookup (d_set d) n' = Some f' \<Longrightarrow> n \<noteq> n' \<Longrightarrow>
      flt_map obj (d_world d) f \<noteq> flt_map obj (d_world d) f'"
    "pool_fd (d_pool d) \<ge> 0 \<Longrightarrow> \<exists>m. pool_map obj d = Some m \<and> held (kern (d_world d)) m = {} \<and>
      (\<forall>n f. lookup (d_set d) n = Some f \<longrightarrow> flt_map obj (d_world d) f \<noteq> Some m)"
proof -
  note i = assms [unfolded daemon_inv_def]
  show "kinv (kern (d_world d))" "world_ok (d_world d)" "set_ok (d_set d)" using i by blast+
  show "lookup (d_set d) n = Some f \<Longrightarrow> \<exists>m. flt_map obj (d_world d) f = Some m \<and>
      (\<not> fm_has_data (f_meta f) \<longrightarrow> held (kern (d_world d)) m = {})" using i by blast
  show "lookup (d_set d) n = Some f \<Longrightarrow> lookup (d_set d) n' = Some f' \<Longrightarrow> n \<noteq> n' \<Longrightarrow>
      flt_map obj (d_world d) f \<noteq> flt_map obj (d_world d) f'" using i by blast
  show "pool_fd (d_pool d) \<ge> 0 \<Longrightarrow> \<exists>m. pool_map obj d = Some m \<and> held (kern (d_world d)) m = {} \<and>
      (\<forall>n f. lookup (d_set d) n = Some f \<longrightarrow> flt_map obj (d_world d) f \<noteq> Some m)" using i by blast
qed

definition abs_filters ::
  "('k \<Rightarrow> int \<Rightarrow> nat option) \<Rightarrow> ('k \<Rightarrow> nat \<Rightarrow> byte list set) \<Rightarrow> 'k daemon \<Rightarrow> filters" where
  "abs_filters obj held d n =
     map_option (\<lambda>f. held (kern (d_world d)) (the (flt_map obj (d_world d) f))) (lookup (d_set d) n)"

definition obs_same ::
  "('k \<Rightarrow> bool) \<Rightarrow> ('k \<Rightarrow> int \<Rightarrow> nat option) \<Rightarrow> ('k \<Rightarrow> nat \<Rightarrow> byte list set) \<Rightarrow> 'k world \<Rightarrow> 'k world \<Rightarrow> bool" where
  "obs_same kinv obj held w w' \<longleftrightarrow> (world_ok w \<and> kinv (kern w) \<longrightarrow>
     world_ok w' \<and> kinv (kern w') \<and> obj (kern w') = obj (kern w) \<and> held (kern w') = held (kern w))"

lemma obs_same_trans [trans]:
  "obs_same kinv obj held w v \<Longrightarrow> obs_same kinv obj held v u \<Longrightarrow> obs_same kinv obj held w u"
  by (simp add: obs_same_def)

lemma quiet_obs: "quiet w w' \<Longrightarrow> obs_same kinv obj held w w'"
  by (simp add: quiet_def obs_same_def)

lemma obs_same_refl [simp, intro]: "obs_same kinv obj held w w"
  by (simp add: obs_same_def)

section \<open>The steps of ADD\<close>

context bpf_kernel
begin

lemma kern_call_obs:
  assumes "w' = w\<lparr>kern := kern w'\<rparr>"
    and "kinv (kern w) \<Longrightarrow> kinv (kern w') \<and> obj (kern w') = obj (kern w) \<and> held (kern w') = held (kern w)"
  shows "obs_same kinv obj held w w'"
proof -
  have "world_ok w' = world_ok w" by (subst assms(1)) simp
  then show ?thesis using assms(2) by (simp add: obs_same_def)
qed

lemma obs_pin: "bloomd_bpf_pin_map E fd p w = (r, w') \<Longrightarrow> obs_same kinv obj held w w'"
  using pin_map_ok [of w fd p w'] pin_map_err [of w fd p _ w']
  by (cases r; intro kern_call_obs) (auto simp: bpf_call_defs split: prod.splits if_splits)

lemma obs_unpin: "obs_same kinv obj held w (snd (bloomd_bpf_unpin E p w))"
  using unpin_obs [of w p]
  by (intro kern_call_obs) (auto simp: bpf_call_defs split: prod.splits)

lemma obs_check: "bloomd_bpf_check_digest E fd dg w = (r, w') \<Longrightarrow> obs_same kinv obj held w w'"
  using check_digest_obs [of w fd dg r w']
  by (intro kern_call_obs) (auto simp: bpf_call_defs split: prod.splits if_splits)

lemma ensure_durable_obs:
  assumes "bloomd_ensure_filter_durable E f w = (r, f', w')"
  shows "obs_same kinv obj held w w'" "same_filter f f'" "r = None \<Longrightarrow> fm_has_data (f_meta f')"
proof -
  have all: "obs_same kinv obj held w w' \<and> same_filter f f' \<and> (r = None \<longrightarrow> fm_has_data (f_meta f'))"
  proof (cases "fm_has_data (f_meta f)")
    case True
    obtain r1 f1 w1 where o: "bloomd_open_filter_log False f w = (r1, f1, w1)"
      using prod_cases3 by blast
    then show ?thesis
      using assms True open_filter_log_frame [OF o]
      by (auto simp: bloomd_ensure_filter_durable_def same_filter_def split: if_splits intro: quiet_obs)
  next
    case False
    let ?pp = "fm_pin_path (f_meta f)"
    obtain r1 w1 where p: "bloomd_bpf_pin_map E (map_fd f) ?pp w = (r1, w1)" by fastforce
    note o1 = obs_pin [OF p]
    obtain r2 f2 w2 where l: "bloomd_open_filter_log True f w1 = (r2, f2, w2)"
      using prod_cases3 by blast
    note fl = open_filter_log_frame [OF l]
    note o2 = obs_same_trans [OF o1 quiet_obs [OF fl(1)]]
    obtain r3 f3 w3 where u: "bloomd_update_filter_meta_state E True True f2 w2 = (r3, f3, w3)"
      using prod_cases3 by blast
    note fu = update_state_frame [OF u]
    note o3 = obs_same_trans [OF o2 quiet_obs [OF fu(1)]]
    let ?w4 = "snd (bloomd_log_delete (fm_log_path (f_meta f2)) (snd (bloomd_log_close (log_fd f2) False w3)))"
    have o4: "obs_same kinv obj held w ?w4"
      by (rule obs_same_trans [OF o3 quiet_obs [OF quiet_trans [OF quiet_log_close quiet_delete(1)]]])
    show ?thesis
      using assms False p l u o1 o3 obs_same_trans [OF o2 obs_unpin] obs_same_trans [OF o4 obs_unpin] fl fu
      by (auto simp: bloomd_ensure_filter_durable_def same_filter_def Let_def
        split: option.splits prod.splits)
  qed
  then show "obs_same kinv obj held w w'" "same_filter f f'" "r = None \<Longrightarrow> fm_has_data (f_meta f')"
    by auto
qed

lemma add_prepare_obs:
  assumes "add_prepare E mode f w = (r, marked, f', w')"
  shows "obs_same kinv obj held w w'" "same_filter f f'" "r = None \<Longrightarrow> fm_has_data (f_meta f')"
proof -
  obtain r1 f1 w1 where e: "bloomd_ensure_filter_durable E f w = (r1, f1, w1)"
    using prod_cases3 by blast
  note fe = ensure_durable_obs [OF e]
  obtain r2 c2 f2 w2 where m: "bloomd_mark_filter_log_dirty E f1 w1 = (r2, c2, f2, w2)"
    using prod_cases4 by blast
  note fm = mark_dirty_frame [OF m]
  show "obs_same kinv obj held w w'" "same_filter f f'" "r = None \<Longrightarrow> fm_has_data (f_meta f')"
    using assms e m fe fm obs_same_trans [OF fe(1) quiet_obs [OF fm(1)]]
      same_filter_trans [OF fe(2) fm(2)]
    by (auto simp: add_prepare_def same_filter_def split: option.splits if_splits)
qed

lemma add_staged_err:
  assumes "add_staged E mode b dg f w = (Some x, f', w')"
  shows "obs_same kinv obj held w w'" "same_filter f f'"
proof -
  obtain r1 st f1 w1 where s: "bloomd_stage_digest_for_add dg mode f w = (r1, st, f1, w1)"
    using prod_cases4 by blast
  note fs = stage_frame [OF s]
  have sf: "same_filter f f1" by (subst fs(2)) (simp add: same_filter_def)
  obtain r2 w2 where a: "bloomd_bpf_add_digest E (map_fd f1) dg w1 = (r2, w2)" by fastforce
  obtain f3 w3 where rb: "bloomd_rollback_staged_digest st mode f1 w2 = (f3, w3)" by fastforce
  note fr = rollback_frame [OF rb]
  obtain f4 w4 where q: "restore_clean_mark E b f1 w1 = (f4, w4)" by fastforce
  obtain f5 w5 where q': "restore_clean_mark E b f3 w3 = (f5, w5)" by fastforce
  note fq = restore_frame [OF q] and fq' = restore_frame [OF q']
  have sf': "same_filter f f5"
    using sf fr(2,3) fq'(2) by (auto simp: same_filter_def)
  show "obs_same kinv obj held w w'" "same_filter f f'"
  proof (atomize (full), cases r1)
    case (Some e)
    then show "obs_same kinv obj held w w' \<and> same_filter f f'"
      using assms s q quiet_obs [OF quiet_trans [OF fs(1) fq(1)]] same_filter_trans [OF sf fq(2)]
      by (simp add: add_staged_def)
  next
    case None
    then obtain y where y: "r2 = Some y" "f' = f5" "w' = w5"
      using assms s a rb q' by (auto simp: add_staged_def split: option.splits prod.splits)
    then have "obs_same kinv obj held w1 w2"
      using add_digest_err [of w1 "map_fd f1" dg y w2] a
      by (intro kern_call_obs) (auto simp: bpf_call_defs split: prod.splits if_splits)
    then have "obs_same kinv obj held w w5"
      using quiet_obs [OF fs(1)] quiet_obs [OF quiet_trans [OF fr(1) fq'(1)]] obs_same_trans by metis
    then show "obs_same kinv obj held w w' \<and> same_filter f f'" using y sf' by simp
  qed
qed

lemma add_err_status:
  "add_staged E mode b dg f w = (Some (st, code, msg), f', w') \<Longrightarrow> st \<noteq> STATUS_OK"
  by (auto simp: add_staged_def split: prod.splits option.splits)

lemma add_staged_ok:
  assumes "add_staged E mode b dg f w = (None, f', w')" "world_ok w" "kinv (kern w)"
  obtains m where "obj (kern w) (map_fd f) = Some m"
    "held (kern w') = (held (kern w))(m := insert dg (held (kern w) m))"
    "obj (kern w') = obj (kern w)" "kinv (kern w')" "world_ok w'" "same_filter f f'"
proof -
  obtain r1 st f1 w1 where s: "bloomd_stage_digest_for_add dg mode f w = (r1, st, f1, w1)"
    using prod_cases4 by blast
  note fs = stage_frame [OF s]
  have sf: "same_filter f f1" by (subst fs(2)) (simp add: same_filter_def)
  obtain r2 w2 where a: "bloomd_bpf_add_digest E (map_fd f1) dg w1 = (r2, w2)" by fastforce
  obtain f3 w3 where c: "bloomd_commit_staged_digest mode f1 w2 = (f3, w3)" by fastforce
  note fc = commit_frame [OF c]
  have r: "r1 = None" "r2 = None" "f' = f3" "w' = w3"
    using assms(1) s a c by (auto simp: add_staged_def split: option.splits prod.splits)
  have k1: "kern w1 = kern w" "world_ok w1" using fs(1) assms(2) by (auto simp: quiet_def)
  note ad = add_digest_ok [OF _ a [unfolded r(2)]]
  have ki: "kinv (kern w1)" using k1 assms(3) by simp
  have "world_ok w2" using ad(5) [OF ki] k1(2) by (metis world_ok_cong(2))
  then have k3: "kern w3 = kern w2" "world_ok w3" using fc(1) by (auto simp: quiet_def)
  obtain m where m: "obj (kern w1) (map_fd f1) = Some m"
    "held (kern w2) = (held (kern w1))(m := insert dg (held (kern w1) m))" using ad(1) [OF ki] by blast
  show ?thesis
  proof (rule that)
    show "obj (kern w) (map_fd f) = Some m" using m(1) k1 sf by (simp add: same_filter_def)
    show "held (kern w') = (held (kern w))(m := insert dg (held (kern w) m))"
      using m(2) k1 k3 r by simp
    show "obj (kern w') = obj (kern w)" "kinv (kern w')" "world_ok w'"
      using ad(2,4) [OF ki] k1 k3 r by simp_all
    show "same_filter f f'" using sf fc(2,3) r by (simp add: same_filter_def)
  qed
qed

end

section \<open>Storing a filter back\<close>

lemma put_filter_frame:
  assumes "daemon_inv kinv obj held d" "bloomd_name_is_valid n" "bloomd_filter_set_find_n (d_set d) n = (Some i, s)"
    "same_filter (items s ! i) f'" "d' = put_filter i f' w' (d\<lparr>d_set := s\<rparr>)"
  shows "lookup (d_set d) n = Some (items s ! i)" "lookup (d_set d') = (lookup (d_set d))(n \<mapsto> f')" "set_ok (d_set d')"
    "map_fd f' = map_fd (items s ! i)" "d_world d' = w'" "d_pool d' = d_pool d"
proof -
  note ok = daemon_invD(3) [OF assms(1)] and sp = find_n_spec [OF daemon_invD(3) [OF assms(1)] assms(2,3)]
  show "lookup (d_set d) n = Some (items s ! i)" using sp(1) sp(3) [of i] by auto
  have "f_name f' = n" using sp(1) sp(3) [of i] assms(4) by (auto simp: same_filter_def)
  from fs.store_law [OF ok assms(2,3) this]
  show "lookup (d_set d') = (lookup (d_set d))(n \<mapsto> f')" "set_ok (d_set d')" by (simp_all add: assms(5) put_filter_def)
qed (use assms(4,5) in \<open>simp_all add: put_filter_def same_filter_def\<close>)

text \<open>
  The common step of the handlers that work on one filter: the lookup found \<open>f\<close> at index \<open>i\<close>, and
  \<open>f'\<close> is stored there after the digests of its map, and of no other, became \<open>X\<close>.
\<close>

lemma put_filter_step:
  assumes inv: "daemon_inv kinv obj held d" and n: "bloomd_name_is_valid n"
    and find: "bloomd_filter_set_find_n (d_set d) n = (Some i, s)"
    and f: "f = items s ! i" and sf: "same_filter f f'"
    and m: "flt_map obj (d_world d) f = Some m"
    and w': "kinv (kern w')" "world_ok w'" "obj (kern w') = obj (kern (d_world d))"
      "held (kern w') = (held (kern (d_world d)))(m := X)"
    and X: "\<not> fm_has_data (f_meta f') \<Longrightarrow> X = {}"
    and d': "d' = put_filter i f' w' (d\<lparr>d_set := s\<rparr>)"
  shows "daemon_inv kinv obj held d'" "abs_filters obj held d' = (abs_filters obj held d)(n \<mapsto> X)"
proof -
  let ?w = "d_world d"
  note fr = put_filter_frame [OF inv n find sf [unfolded f] d'] and iv = daemon_invD [OF inv]
  have fm: "flt_map obj w' g = flt_map obj ?w g" "pool_map obj d' = pool_map obj d" for g
    by (simp_all add: flt_map_def pool_map_def fr(5,6) w'(3))
  have fmf: "flt_map obj ?w f' = Some m" using m fr(4) f by (auto simp: flt_map_def split: if_splits)
  have other: "flt_map obj ?w g \<noteq> Some m" if "lookup (d_set d) a = Some g" "a \<noteq> n" for a g
    using iv(5) [OF that(1) fr(1) that(2)] m f by simp
  show "daemon_inv kinv obj held d'"
  proof (rule daemon_invI, unfold fr(2,5,6) fm)
    fix a g assume "((lookup (d_set d))(n \<mapsto> f')) a = Some g"
    then show "\<exists>m. flt_map obj ?w g = Some m \<and> (\<not> fm_has_data (f_meta g) \<longrightarrow> held (kern w') m = {})"
      using fmf X w'(4) iv(4) [of a g] other [of a g] by (auto split: if_splits)
  next
    fix a b g g'
    assume "((lookup (d_set d))(n \<mapsto> f')) a = Some g" "((lookup (d_set d))(n \<mapsto> f')) b = Some g'" "a \<noteq> b"
    then show "flt_map obj ?w g \<noteq> flt_map obj ?w g'"
      using fmf other [of a g] other [of b g'] iv(5) [of a g b g'] by (auto split: if_splits)
  next
    assume "0 \<le> pool_fd (d_pool d)"
    from iv(6) [OF this] fr(1) m f show "\<exists>q. pool_map obj d = Some q \<and> held (kern w') q = {} \<and>
        (\<forall>na f. ((lookup (d_set d))(n \<mapsto> f')) na = Some f \<longrightarrow> flt_map obj ?w f \<noteq> Some q)"
      using fmf w'(4) by fastforce
  qed (fact w'(1,2) fr(3))+
  show "abs_filters obj held d' = (abs_filters obj held d)(n \<mapsto> X)"
  proof
    fix a
    show "abs_filters obj held d' a = ((abs_filters obj held d)(n \<mapsto> X)) a"
      using iv(4) [of a] other [of a] w'(4) fmf
      by (cases "a = n"; cases "lookup (d_set d) a") (auto simp: abs_filters_def fr(2,5) fm)
  qed
qed

lemma found_filter:
  assumes inv: "daemon_inv kinv obj held d" and n: "bloomd_name_is_valid n"
    and find: "bloomd_filter_set_find_n (d_set d) n = (Some i, s)"
  obtains m where "flt_map obj (d_world d) (items s ! i) = Some m"
    "obj (kern (d_world d)) (map_fd (items s ! i)) = Some m" "map_fd (items s ! i) \<ge> 0"
    "abs_filters obj held d n = Some (held (kern (d_world d)) m)"
    "\<not> fm_has_data (f_meta (items s ! i)) \<Longrightarrow> held (kern (d_world d)) m = {}"
    "lookup (d_set d) n = Some (items s ! i)" "f_name (items s ! i) = n"
proof -
  have ok: "set_ok (d_set d)" using inv by (simp add: daemon_inv_def)
  note sp = find_n_spec [OF ok n find]
  have lf: "lookup (d_set d) n = Some (items s ! i)" "f_name (items s ! i) = n"
    using sp(1) sp(3) [of i] by auto
  then obtain m where m: "flt_map obj (d_world d) (items s ! i) = Some m"
    "\<not> fm_has_data (f_meta (items s ! i)) \<longrightarrow> held (kern (d_world d)) m = {}"
    using inv unfolding daemon_inv_def by blast
  then show ?thesis
    using lf by (intro that [of m]) (auto simp: flt_map_def abs_filters_def split: if_splits)
qed

text \<open>The same when the map kept its digests, and when only the lookup cache moved.\<close>

lemma put_filter_same:
  assumes inv: "daemon_inv kinv obj held d" and n: "bloomd_name_is_valid n"
    and find: "bloomd_filter_set_find_n (d_set d) n = (Some i, s)"
    and sf: "same_filter (items s ! i) f'" and o: "obs_same kinv obj held (d_world d) w'"
    and d': "d' = put_filter i f' w' (d\<lparr>d_set := s\<rparr>)"
  shows "daemon_inv kinv obj held d'" "abs_filters obj held d' = abs_filters obj held d"
proof -
  from found_filter [OF inv n find] obtain m where
    m: "flt_map obj (d_world d) (items s ! i) = Some m"
      "abs_filters obj held d n = Some (held (kern (d_world d)) m)"
      "\<not> fm_has_data (f_meta (items s ! i)) \<Longrightarrow> held (kern (d_world d)) m = {}" by metis
  have w': "kinv (kern w')" "world_ok w'" "obj (kern w') = obj (kern (d_world d))"
      "held (kern w') = (held (kern (d_world d)))(m := held (kern (d_world d)) m)"
    using o inv by (auto simp: obs_same_def daemon_inv_def)
  have X: "\<not> fm_has_data (f_meta f') \<Longrightarrow> held (kern (d_world d)) m = {}"
    using m(3) sf by (auto simp: same_filter_def)
  note step = put_filter_step [OF inv n find refl sf m(1) w' X d']
  show "daemon_inv kinv obj held d'" by (rule step(1))
  show "abs_filters obj held d' = abs_filters obj held d"
    using step(2) m(2) by (simp add: fun_upd_idem)
qed

lemma cache_moved:
  assumes inv: "daemon_inv kinv obj held d" and n: "bloomd_name_is_valid n"
    and find: "bloomd_filter_set_find_n (d_set d) n = (r, s)"
  shows "daemon_inv kinv obj held (d\<lparr>d_set := s\<rparr>)"
    "abs_filters obj held (d\<lparr>d_set := s\<rparr>) = abs_filters obj held d"
proof -
  have ok: "set_ok (d_set d)" using inv by (simp add: daemon_inv_def)
  have l: "set_ok s" "lookup s = lookup (d_set d)" using fs.find_law [OF ok n find] by simp_all
  show "daemon_inv kinv obj held (d\<lparr>d_set := s\<rparr>)"
    using inv l by (simp add: daemon_inv_def pool_map_def)
  show "abs_filters obj held (d\<lparr>d_set := s\<rparr>) = abs_filters obj held d"
    by (simp add: abs_filters_def fun_eq_iff l)
qed

lemma world_moved:
  assumes inv: "daemon_inv kinv obj held d" and o: "obs_same kinv obj held (d_world d) w'"
  shows "daemon_inv kinv obj held (d\<lparr>d_world := w'\<rparr>)"
    "abs_filters obj held (d\<lparr>d_world := w'\<rparr>) = abs_filters obj held d"
proof -
  have w': "kinv (kern w')" "world_ok w'" "obj (kern w') = obj (kern (d_world d))"
      "held (kern w') = held (kern (d_world d))"
    using o inv by (auto simp: obs_same_def daemon_inv_def)
  have fm: "flt_map obj w' = flt_map obj (d_world d)"
    "pool_map obj (d\<lparr>d_world := w'\<rparr>) = pool_map obj d"
    by (simp_all add: fun_eq_iff flt_map_def pool_map_def w'(3))
  then show "daemon_inv kinv obj held (d\<lparr>d_world := w'\<rparr>)"
    using inv w' by (simp add: daemon_inv_def)
  show "abs_filters obj held (d\<lparr>d_world := w'\<rparr>) = abs_filters obj held d"
    by (simp add: abs_filters_def fun_eq_iff fm w')
qed

section \<open>ADD, CHECK, MADD and MCHECK\<close>

lemma send_bool_body:
  assumes "bloomd_send_bool E b resp d = (None, resp', d')"
  shows "buf_data (rbody resp') = buf_data (rbody resp) @ [if b then 1 else 0]"
proof -
  obtain r x where x: "bloomd_buffer_append (mem E) (rbody resp) [if b then 1 else 0] = (r, x)"
    by fastforce
  have r: "r = None" "rbody resp' = x" using assms by (auto simp: bloomd_send_bool_def x)
  from x show ?thesis by (cases rule: buffer_append_cases) (simp_all add: r)
qed

lemma parse_name_payload_valid:
  assumes "request_ok req" "bloomd_parse_name_payload req = Inr (name, p)"
  shows "bloomd_name_is_valid name"
proof -
  let ?n = "unat (pr_name_len (payload_request_of (rq_body req)))"
  have "?n \<le> length (drop 8 (rq_body req))"
    "bloomd_name_view_is_valid (drop 8 (rq_body req)) ?n = None"
    "name = string_of_bytes (take ?n (drop 8 (rq_body req)))"
    using assms by (auto simp: bloomd_parse_name_payload_def request_ok_def Let_def split: if_splits)
  then show ?thesis using name_view_valid_iff by metis
qed

lemma parse_batch_valid:
  assumes "request_ok req" "bloomd_parse_batch req = Inr (name, c, its)"
  shows "bloomd_name_is_valid name"
proof -
  let ?n = "unat (br_name_len (batch_request_of (rq_body req)))"
  have "?n \<le> length (drop 8 (rq_body req))"
    "bloomd_name_view_is_valid (drop 8 (rq_body req)) ?n = None"
    "name = string_of_bytes (take ?n (drop 8 (rq_body req)))"
    using assms by (auto simp: bloomd_parse_batch_def request_ok_def Let_def split: if_splits)
  then show ?thesis using name_view_valid_iff by metis
qed

lemma parse_name_request_valid:
  assumes "request_ok req" "parse_name_request op req = Inr name"
  shows "bloomd_name_is_valid name"
proof -
  let ?n = "unat (nr_name_len (name_request_of (rq_body req)))"
  have "?n \<le> length (drop 8 (rq_body req))"
    "bloomd_name_view_is_valid (drop 8 (rq_body req)) ?n = None"
    "name = string_of_bytes (take ?n (drop 8 (rq_body req)))"
    using assms by (auto simp: parse_name_request_def request_ok_def Let_def split: if_splits)
  then show ?thesis using name_view_valid_iff by metis
qed

context bpf_kernel
begin

text \<open>ADD once its filter is found: the digest enters the filter's set, or nothing changes.\<close>

lemma add_found_refines:
  assumes inv: "daemon_inv kinv obj held d" and rq: "rq_op req = Some OP_ADD" and v: "bloomd_name_is_valid name"
    and parse: "bloomd_parse_name_payload req = Inr (name, p)"
    and find: "bloomd_filter_set_find_n (d_set d) name = (Some i, s)"
    and h: "bloomd_handle_add_check E True mode req resp d = (r, resp', d')"
  shows "daemon_inv kinv obj held d' \<and>
    filter_step req (abs_filters obj held d) (resp_ok resp') (abs_filters obj held d')"
proof -
  from found_filter [OF inv v find] obtain m where m: "flt_map obj (d_world d) (items s ! i) = Some m"
    "obj (kern (d_world d)) (map_fd (items s ! i)) = Some m"
    "abs_filters obj held d name = Some (held (kern (d_world d)) m)" by metis
  obtain r1 marked f1 w1 where prep: "add_prepare E mode (items s ! i) (d_world d) = (r1, marked, f1, w1)"
    using prod_cases4 by blast
  note pr = add_prepare_obs [OF prep]
  let ?dg = "bloomd_digest_payload p"
  obtain r2 f2 w2 where st: "add_staged E mode marked ?dg f1 w1 = (r2, f2, w2)" using prod_cases3 by blast
  note run = bloomd_handle_add_check_def parse find prep st Let_def
  consider (unprepared) x where "r1 = Some x" | (failed) sx cx mx where "r1 = None" "r2 = Some (sx, cx, mx)"
    | (added) "r1 = None" "r2 = None" by (metis not_None_eq prod_cases3)
  then show ?thesis
  proof cases
    case unprepared
    then have "d' = put_filter i f1 w1 (d\<lparr>d_set := s\<rparr>)" "\<not> resp_ok resp'"
      using h by (auto simp: run split: prod.splits dest!: respond_error_frame)
    with put_filter_same [OF inv v find pr(2,1)] show ?thesis by (simp add: filter_step.refused)
  next
    case failed
    note er = add_staged_err [OF st [unfolded failed(2)]]
    have "sx \<noteq> STATUS_OK" using add_err_status st failed(2) by blast
    then have "d' = put_filter i f2 w2 (d\<lparr>d_set := s\<rparr>)" "\<not> resp_ok resp'"
      using h failed by (auto simp: run dest!: respond_error_frame)
    with put_filter_same [OF inv v find same_filter_trans [OF pr(2) er(2)] obs_same_trans [OF pr(1) er(1)]]
    show ?thesis by (simp add: filter_step.refused)
  next
    case added
    have w1: "world_ok w1" "kinv (kern w1)" "obj (kern w1) = obj (kern (d_world d))"
      "held (kern w1) = held (kern (d_world d))" using pr(1) inv by (auto simp: obs_same_def daemon_inv_def)
    from add_staged_ok [OF st [unfolded added(2)] w1(1,2)] obtain m' where
      m': "obj (kern w1) (map_fd f1) = Some m'" "held (kern w2) = (held (kern w1))(m' := insert ?dg (held (kern w1) m'))"
        "obj (kern w2) = obj (kern w1)" "kinv (kern w2)" "world_ok w2" "same_filter f1 f2" by metis
    have mm: "m' = m" using m' m w1 pr(2) by (simp add: same_filter_def)
    let ?f = "f2\<lparr>add_calls := add_calls f2 + 1\<rparr>"
    have sf: "same_filter (items s ! i) ?f" "fm_has_data (f_meta ?f)"
      using pr(2,3) added(1) m'(6) by (auto simp: same_filter_def)
    have d': "d' = put_filter i ?f w2 (d\<lparr>d_set := s\<rparr>)" using h added by (auto simp: run dest!: send_frame)
    have hw: "held (kern w2) = (held (kern (d_world d)))(m := insert ?dg (held (kern (d_world d)) m))"
      "obj (kern w2) = obj (kern (d_world d))" using m' mm w1 by simp_all
    note step = put_filter_step [OF inv v find refl sf(1) m(1) m'(4,5) hw(2,1) _ d']
    show ?thesis using step sf(2) filter_step.add [of req name p "abs_filters obj held d", OF rq parse m(3)] by simp
  qed
qed

lemma handle_add_refines:
  assumes inv: "daemon_inv kinv obj held d" and rq: "request_ok req" "rq_op req = Some OP_ADD"
    and h: "bloomd_handle_add_check E True mode req resp d = (r, resp', d')"
  shows "daemon_inv kinv obj held d' \<and>
    filter_step req (abs_filters obj held d) (resp_ok resp') (abs_filters obj held d')"
proof (cases "bloomd_parse_name_payload req")
  case (Inl e)
  then show ?thesis
    using h inv by (auto simp: bloomd_handle_add_check_def dest!: respond_error_frame intro: filter_step.refused)
next
  case (Inr np)
  obtain name p where np: "np = (name, p)" by fastforce
  note parse = Inr [unfolded np]
  have v: "bloomd_name_is_valid name" by (rule parse_name_payload_valid [OF rq(1) parse])
  obtain ri s where find: "bloomd_filter_set_find_n (d_set d) name = (ri, s)" by fastforce
  show ?thesis
  proof (cases ri)
    case None
    then show ?thesis
      using h cache_moved [OF inv v find]
      by (auto simp: bloomd_handle_add_check_def parse find dest!: respond_error_frame intro: filter_step.refused)
  next
    case (Some i)
    then show ?thesis using add_found_refines [OF inv rq(2) v parse _ h] find by simp
  qed
qed

text \<open>A CHECK changes nothing, and answers 1 for every digest the filter holds.\<close>

lemma check_found_refines:
  assumes inv: "daemon_inv kinv obj held d" and v: "bloomd_name_is_valid nm"
    and parse: "bloomd_parse_name_payload req = Inr (nm, p)"
    and find: "bloomd_filter_set_find_n (d_set d) nm = (Some i, s)"
    and h: "bloomd_handle_add_check E False mode req resp d = (r, resp', d')"
  shows "daemon_inv kinv obj held d'" "abs_filters obj held d' = abs_filters obj held d"
    "r = None \<Longrightarrow> resp_ok resp' \<Longrightarrow> abs_filters obj held d nm = Some D \<Longrightarrow> bloomd_digest_payload p \<in> D \<Longrightarrow>
      buf_data (rbody resp') = buf_data (rbody resp) @ [1]"
proof -
  let ?f = "items s ! i" and ?dg = "bloomd_digest_payload p"
  from found_filter [OF inv v find] obtain m where
    m: "obj (kern (d_world d)) (map_fd ?f) = Some m" "abs_filters obj held d nm = Some (held (kern (d_world d)) m)" by metis
  obtain rc w1 where ck: "bloomd_bpf_check_digest E (map_fd ?f) ?dg (d_world d) = (rc, w1)" by fastforce
  have ki: "kinv (kern (d_world d))" using inv by (simp add: daemon_inv_def)
  have yes: "rc \<noteq> Inr False" if "?dg \<in> held (kern (d_world d)) m"
    using check_digest_held [OF ki m(1) that] ck by simp
  note run = bloomd_handle_add_check_def parse find ck Let_def
  obtain f' where f': "same_filter ?f f'" "d' = put_filter i f' w1 (d\<lparr>d_set := s\<rparr>)"
    "(\<exists>b. rc = Inr b \<and> bloomd_send_bool E b resp d' = (r, resp', d')) \<or> \<not> resp_ok resp'"
  proof (cases rc)
    case (Inl em)
    then show ?thesis
      using h by (intro that [of ?f]) (auto simp: run split: prod.splits dest!: respond_error_frame)
  next
    case (Inr b)
    let ?g = "?f\<lparr>check_calls := check_calls ?f + 1\<rparr>"
    have "bloomd_send_bool E b resp (put_filter i ?g w1 (d\<lparr>d_set := s\<rparr>)) = (r, resp', d')"
      using h Inr by (simp add: run)
    then show ?thesis
      using Inr send_frame(1) [of E b resp] by (intro that [of ?g]) (auto simp: same_filter_def)
  qed
  show "daemon_inv kinv obj held d'" "abs_filters obj held d' = abs_filters obj held d"
    using put_filter_same [OF inv v find f'(1) obs_check [OF ck] f'(2)] by auto
  show "buf_data (rbody resp') = buf_data (rbody resp) @ [1]"
    if "r = None" "resp_ok resp'" "abs_filters obj held d nm = Some D" "?dg \<in> D"
    using that f'(3) yes send_bool_body [of E _ resp d' resp' d'] m(2) by auto
qed

lemma handle_check_refines:
  assumes inv: "daemon_inv kinv obj held d" and rq: "request_ok req" "rq_op req = Some OP_CHECK"
    and h: "bloomd_handle_add_check E False mode req resp d = (r, resp', d')"
  shows "daemon_inv kinv obj held d' \<and> abs_filters obj held d' = abs_filters obj held d \<and>
    filter_step req (abs_filters obj held d) (resp_ok resp') (abs_filters obj held d')"
    "\<lbrakk>r = None; resp_ok resp'; bloomd_parse_name_payload req = Inr (name, p);
      abs_filters obj held d name = Some D; bloomd_digest_payload p \<in> D\<rbrakk> \<Longrightarrow>
      buf_data (rbody resp') = buf_data (rbody resp) @ [1]"
proof -
  have all: "daemon_inv kinv obj held d' \<and> abs_filters obj held d' = abs_filters obj held d \<and>
    (r = None \<longrightarrow> resp_ok resp' \<longrightarrow>
      (\<forall>name p D. bloomd_parse_name_payload req = Inr (name, p) \<longrightarrow>
        abs_filters obj held d name = Some D \<longrightarrow> bloomd_digest_payload p \<in> D \<longrightarrow>
        buf_data (rbody resp') = buf_data (rbody resp) @ [1]))"
  proof (cases "bloomd_parse_name_payload req")
    case (Inl e)
    then show ?thesis using h inv by (auto simp: bloomd_handle_add_check_def dest!: respond_error_frame)
  next
    case (Inr np)
    obtain nm p where np: "np = (nm, p)" by fastforce
    note parse = Inr [unfolded np]
    have v: "bloomd_name_is_valid nm" by (rule parse_name_payload_valid [OF rq(1) parse])
    obtain ri s where find: "bloomd_filter_set_find_n (d_set d) nm = (ri, s)" by fastforce
    show ?thesis
    proof (cases ri)
      case None
      then show ?thesis
        using h cache_moved [OF inv v find]
        by (auto simp: bloomd_handle_add_check_def parse find dest!: respond_error_frame)
    next
      case (Some i)
      then show ?thesis using check_found_refines [OF inv v parse _ h] find parse by auto
    qed
  qed
  then show "daemon_inv kinv obj held d' \<and> abs_filters obj held d' = abs_filters obj held d \<and>
    filter_step req (abs_filters obj held d) (resp_ok resp') (abs_filters obj held d')"
    using filter_step.refused filter_step.query [of req] rq(2) by (cases "resp_ok resp'") auto
  show "\<lbrakk>r = None; resp_ok resp'; bloomd_parse_name_payload req = Inr (name, p);
      abs_filters obj held d name = Some D; bloomd_digest_payload p \<in> D\<rbrakk> \<Longrightarrow>
      buf_data (rbody resp') = buf_data (rbody resp) @ [1]" using all by blast
qed

text \<open>The loop of MADD: the digests of a prefix of the items are added, of all items on success.\<close>

lemma batch_add_loop:
  assumes "batch_loop E True mode marked added k its res f w = (out, f', w')"
    and "world_ok w" "kinv (kern w)" "obj (kern w) (map_fd f) = Some m"
  shows "\<exists>j \<le> length (payload_digests k its).
      held (kern w') = (held (kern w))(m := set (take j (payload_digests k its)) \<union> held (kern w) m) \<and>
      obj (kern w') = obj (kern w) \<and> kinv (kern w') \<and> world_ok w' \<and> same_filter f f' \<and>
      (\<forall>x. out = Inr x \<longrightarrow> j = length (payload_digests k its) \<and> length (payload_digests k its) = k) \<and>
      (\<forall>st y. out = Inl (st, y) \<longrightarrow> st \<noteq> STATUS_OK)"
  using assms
proof (induction k arbitrary: added its res f w)
  case 0
  then show ?case by auto
next
  case (Suc k)
  show ?case
  proof (cases "bloomd_protocol_read_payload its")
    case (Inl e)
    then show ?thesis using Suc.prems by (intro exI [of _ 0]) auto
  next
    case (Inr pc)
    obtain p c where pc: "pc = (p, c)" by fastforce
    let ?dg = "bloomd_digest_payload p" and ?its = "drop c its"
    have ds: "payload_digests (Suc k) its = ?dg # payload_digests k ?its" using Inr pc by simp
    obtain r1 f1 w1 where st: "add_staged E mode (marked \<and> \<not> added) ?dg f w = (r1, f1, w1)"
      using prod_cases3 by blast
    show ?thesis
    proof (cases r1)
      case (Some x)
      note er = add_staged_err [OF st [unfolded Some]]
      have "out = Inl x" "f' = f1" "w' = w1"
        using Suc.prems(1) Inr pc st Some by (simp_all add: Let_def)
      moreover have "\<forall>sx y. x = (sx, y) \<longrightarrow> sx \<noteq> STATUS_OK"
        using add_err_status st Some by (cases x) blast
      ultimately show ?thesis
        using er Suc.prems(2,3) by (intro exI [of _ 0]) (auto simp: obs_same_def)
    next
      case None
      from add_staged_ok [OF st [unfolded None] Suc.prems(2,3)] obtain m' where
        m': "obj (kern w) (map_fd f) = Some m'"
          "held (kern w1) = (held (kern w))(m' := insert ?dg (held (kern w) m'))"
          "obj (kern w1) = obj (kern w)" "kinv (kern w1)" "world_ok w1" "same_filter f f1" by metis
      have mm: "m' = m" using m'(1) Suc.prems(4) by simp
      have "batch_loop E True mode marked True k ?its (res @ [1]) f1 w1 = (out, f', w')"
        using Suc.prems(1) Inr pc st None by (simp add: Let_def)
      moreover have "obj (kern w1) (map_fd f1) = Some m"
        using m' mm by (simp add: same_filter_def)
      ultimately obtain j where j: "j \<le> length (payload_digests k ?its)"
        "held (kern w') = (held (kern w1))(m := set (take j (payload_digests k ?its)) \<union> held (kern w1) m)"
        "obj (kern w') = obj (kern w1)" "kinv (kern w')" "world_ok w'" "same_filter f1 f'"
        "\<forall>x. out = Inr x \<longrightarrow> j = length (payload_digests k ?its) \<and> length (payload_digests k ?its) = k"
        "\<forall>st y. out = Inl (st, y) \<longrightarrow> st \<noteq> STATUS_OK"
        using Suc.IH m'(4,5) by metis
      show ?thesis
        unfolding ds using j m' mm same_filter_trans [OF m'(6) j(6)]
        by (intro exI [of _ "Suc j"]) auto
    qed
  qed
qed

lemma batch_check_loop:
  assumes "batch_loop E False mode marked added k its res f w = (out, f', w')"
  shows "obs_same kinv obj held w w' \<and> f' = f \<and> (\<forall>st y. out = Inl (st, y) \<longrightarrow> st \<noteq> STATUS_OK)"
  using assms
proof (induction k arbitrary: its res w)
  case 0
  then show ?case by auto
next
  case (Suc k)
  show ?case
  proof (cases "bloomd_protocol_read_payload its")
    case (Inl e)
    then show ?thesis using Suc.prems by auto
  next
    case (Inr pc)
    obtain p c where pc: "pc = (p, c)" by fastforce
    obtain rc w1 where ck: "bloomd_bpf_check_digest E (map_fd f) (bloomd_digest_payload p) w = (rc, w1)"
      by fastforce
    note o = obs_check [OF ck]
    show ?thesis
    proof (cases rc)
      case (Inl em)
      then show ?thesis using Suc.prems Inr pc ck o by (auto simp: Let_def split: prod.splits)
    next
      case (Inr b)
      with Suc.prems \<open>bloomd_protocol_read_payload its = Inr pc\<close> pc ck
      have "batch_loop E False mode marked added k (drop c its) (res @ [if b then 1 else 0]) f w1
          = (out, f', w')" by (simp add: Let_def)
      then show ?thesis using Suc.IH obs_same_trans [OF o] by blast
    qed
  qed
qed

end

end
