(* ===== verification/Dispatch.thy ===== *)
theory Dispatch
  imports Refinement
begin

text \<open>
  The remaining handlers against the specification (batches, CREATE with the pool of empty maps,
  DROP, INFO) and the dispatcher as a whole.
\<close>

section \<open>Batches\<close>

context bpf_kernel
begin

lemma batch_add_refines:
  assumes inv: "daemon_inv kinv obj held d" and rq: "rq_op req = Some OP_MADD"
    and parse: "bloomd_parse_batch req = Inr (name, count, its)" and v: "bloomd_name_is_valid name"
    and find: "bloomd_filter_set_find_n (d_set d) name = (Some i, s)"
    and f: "same_filter (items s ! i) f" "fm_has_data (f_meta f)"
    and o: "obs_same kinv obj held (d_world d) w"
    and h: "batch_run E True mode marked count its i f w resp (d\<lparr>d_set := s\<rparr>) = (r, resp', d')"
  shows "daemon_inv kinv obj held d' \<and>
    filter_step req (abs_filters obj held d) (resp_ok resp') (abs_filters obj held d')"
proof -
  from found_filter [OF inv v find] obtain m where m: "flt_map obj (d_world d) (items s ! i) = Some m"
    "obj (kern (d_world d)) (map_fd (items s ! i)) = Some m"
    "abs_filters obj held d name = Some (held (kern (d_world d)) m)" by metis
  have w: "world_ok w" "kinv (kern w)" "obj (kern w) = obj (kern (d_world d))"
    "held (kern w) = held (kern (d_world d))" using o inv by (auto simp: obs_same_def daemon_inv_def)
  let ?ds = "payload_digests (unat count) its"
  obtain out f1 w1 where loop: "batch_loop E True mode marked False (unat count) its [] f w = (out, f1, w1)"
    using prod_cases3 by blast
  have "obj (kern w) (map_fd f) = Some m" using m(2) w(3) f(1) by (simp add: same_filter_def)
  from batch_add_loop [OF loop w(1,2) this] obtain j where j: "j \<le> length ?ds"
    "held (kern w1) = (held (kern w))(m := set (take j ?ds) \<union> held (kern w) m)"
    "obj (kern w1) = obj (kern w)" "kinv (kern w1)" "world_ok w1" "same_filter f f1"
    "\<forall>x. out = Inr x \<longrightarrow> j = length ?ds \<and> length ?ds = unat count"
    "\<forall>st y. out = Inl (st, y) \<longrightarrow> st \<noteq> STATUS_OK" by blast
  let ?X = "set (take j ?ds) \<union> held (kern (d_world d)) m"
  obtain f2 where f2: "same_filter f f2" "d' = put_filter i f2 w1 (d\<lparr>d_set := s\<rparr>)"
    "resp_ok resp' \<Longrightarrow> \<exists>x. out = Inr x"
  proof (cases out)
    case (Inl x)
    then show ?thesis
      using h loop j(6,8) by (cases x) (auto simp: batch_run_def dest!: respond_error_frame intro!: that [of f1])
  next
    case (Inr x)
    let ?g = "f1\<lparr>batch_add_calls := batch_add_calls f1 + 1\<rparr>"
    have "same_filter f ?g" using j(6) by (simp add: same_filter_def)
    then show ?thesis
      using h loop j(6) Inr
      by (cases x; cases "snd x = []") (auto simp: batch_run_def dest!: respond_error_frame send_frame(2)
        intro: that [of f1] that [of ?g])
  qed
  have sf: "same_filter (items s ! i) f2" by (rule same_filter_trans [OF f(1) f2(1)])
  have hw: "obj (kern w1) = obj (kern (d_world d))" "held (kern w1) = (held (kern (d_world d)))(m := ?X)"
    using j w by simp_all
  have X: "\<not> fm_has_data (f_meta f2) \<Longrightarrow> ?X = {}" using f(2) f2(1) by (simp add: same_filter_def)
  note step = put_filter_step [OF inv v find refl sf m(1) j(4,5) hw X f2(2)]
  have "filter_step req (abs_filters obj held d) (resp_ok resp') ((abs_filters obj held d)(name \<mapsto> ?X))"
    using j(1,7) f2(3) by (intro filter_step.madd [where A = "abs_filters obj held d", OF rq parse m(3) refl]) auto
  then show ?thesis using step by simp
qed

lemma handle_madd_refines:
  assumes inv: "daemon_inv kinv obj held d" and rq: "request_ok req" "rq_op req = Some OP_MADD"
    and h: "bloomd_handle_batch E True mode req resp d = (r, resp', d')"
  shows "daemon_inv kinv obj held d' \<and>
    filter_step req (abs_filters obj held d) (resp_ok resp') (abs_filters obj held d')"
proof (cases "bloomd_parse_batch req")
  case (Inl e)
  then show ?thesis
    using h inv by (auto simp: bloomd_handle_batch_def filter_step.refused split: if_splits
      dest!: respond_error_frame)
next
  case (Inr x)
  obtain name count its where parse: "bloomd_parse_batch req = Inr (name, count, its)"
    using Inr by (metis prod_cases3)
  have v: "bloomd_name_is_valid name" by (rule parse_batch_valid [OF rq(1) parse])
  obtain ri s where find: "bloomd_filter_set_find_n (d_set d) name = (ri, s)" by fastforce
  note moved = cache_moved [OF inv v find]
  show ?thesis
  proof (cases ri)
    case None
    then show ?thesis
      using h moved by (auto simp: bloomd_handle_batch_def parse find filter_step.refused
        dest!: respond_error_frame)
  next
    case (Some i)
    note find' = find [unfolded Some]
    obtain r1 marked f1 w1 where prep: "add_prepare E mode (items s ! i) (d_world d) = (r1, marked, f1, w1)"
      using prod_cases4 by blast
    note pr = add_prepare_obs [OF prep]
    consider (run) "r1 = None"
        "batch_run E True mode marked count its i f1 w1 resp (d\<lparr>d_set := s\<rparr>) = (r, resp', d')"
      | (fail) "d' = put_filter i f1 w1 (d\<lparr>d_set := s\<rparr>)" "\<not> resp_ok resp'"
      | (bad) "d' = d\<lparr>d_set := s\<rparr>" "\<not> resp_ok resp'"
      using h by (auto simp: bloomd_handle_batch_def parse find' prep Let_def
        split: sum.splits if_splits option.splits prod.splits dest!: respond_error_frame)
    then show ?thesis
    proof cases
      case run
      then show ?thesis by (intro batch_add_refines [OF inv rq(2) parse v find' pr(2) pr(3) pr(1)])
    next
      case fail
      then show ?thesis
        using put_filter_same [OF inv v find' pr(2,1)] by (simp add: filter_step.refused)
    next
      case bad
      then show ?thesis using moved by (simp add: filter_step.refused)
    qed
  qed
qed

lemma handle_mcheck_refines:
  assumes inv: "daemon_inv kinv obj held d" and rq: "request_ok req" "rq_op req = Some OP_MCHECK"
    and h: "bloomd_handle_batch E False mode req resp d = (r, resp', d')"
  shows "daemon_inv kinv obj held d'" "abs_filters obj held d' = abs_filters obj held d"
proof -
  have "daemon_inv kinv obj held d' \<and> abs_filters obj held d' = abs_filters obj held d"
  proof (cases "bloomd_parse_batch req")
    case (Inl e)
    then show ?thesis
      using h inv by (auto simp: bloomd_handle_batch_def split: if_splits dest!: respond_error_frame)
  next
    case (Inr x)
    obtain name count its where parse: "bloomd_parse_batch req = Inr (name, count, its)"
      using Inr by (metis prod_cases3)
    have v: "bloomd_name_is_valid name" by (rule parse_batch_valid [OF rq(1) parse])
    obtain ri s where find: "bloomd_filter_set_find_n (d_set d) name = (ri, s)" by fastforce
    show ?thesis
    proof (cases ri)
      case None
      then show ?thesis
        using h cache_moved [OF inv v find]
        by (auto simp: bloomd_handle_batch_def parse find dest!: respond_error_frame)
    next
      case (Some i)
      note find' = find [unfolded Some]
      let ?f = "items s ! i"
      obtain out f1 w1 where loop:
        "batch_loop E False mode False False (unat count) its [] ?f (d_world d) = (out, f1, w1)"
        using prod_cases3 by blast
      note bl = batch_check_loop [OF loop]
      let ?g = "?f\<lparr>batch_check_calls := batch_check_calls ?f + 1\<rparr>"
      have "d' = put_filter i ?f w1 (d\<lparr>d_set := s\<rparr>) \<or> d' = put_filter i ?g w1 (d\<lparr>d_set := s\<rparr>)"
        using h bl loop
        by (auto simp: bloomd_handle_batch_def batch_run_def parse find' Let_def
          split: sum.splits if_splits dest!: respond_error_frame send_frame(2))
      moreover have "same_filter ?f ?g" by (simp add: same_filter_def)
      ultimately show ?thesis
        using put_filter_same [OF inv v find' _ conjunct1 [OF bl]] by auto
    qed
  qed
  then show "daemon_inv kinv obj held d'" "abs_filters obj held d' = abs_filters obj held d" by auto
qed

end

section \<open>Maps that come and go\<close>

text \<open>
  From one state to another in which the filters named in \<open>R\<close> are gone and the other filters have
  the maps they had, with the digests they had; the pool is judged anew.
\<close>

lemma inv_transfer:
  assumes inv: "daemon_inv kinv obj held d"
    and s: "set_ok (d_set d')" "lookup (d_set d') = (\<lambda>a. if a \<in> R then None else lookup (d_set d) a)"
    and w: "kinv (kern (d_world d'))" "world_ok (d_world d')"
    and same: "\<And>a f m. a \<notin> R \<Longrightarrow> lookup (d_set d) a = Some f \<Longrightarrow> flt_map obj (d_world d) f = Some m \<Longrightarrow>
      flt_map obj (d_world d') f = Some m \<and> held (kern (d_world d')) m = held (kern (d_world d)) m"
    and pool: "pool_fd (d_pool d') \<ge> 0 \<Longrightarrow> \<exists>q. pool_map obj d' = Some q \<and> held (kern (d_world d')) q = {} \<and>
      (\<forall>a f. a \<notin> R \<longrightarrow> lookup (d_set d) a = Some f \<longrightarrow> flt_map obj (d_world d) f \<noteq> Some q)"
  shows "daemon_inv kinv obj held d'"
    "abs_filters obj held d' = (\<lambda>a. if a \<in> R then None else abs_filters obj held d a)"
proof -
  note iv = daemon_invD [OF inv]
  have eq: "flt_map obj (d_world d') f = flt_map obj (d_world d) f" if "a \<notin> R" "lookup (d_set d) a = Some f" for a f
    using iv(4) [OF that(2)] same [OF that] by auto
  show "daemon_inv kinv obj held d'"
  proof (rule daemon_invI, unfold s(2))
    fix a g assume "(if a \<in> R then None else lookup (d_set d) a) = Some g"
    then show "\<exists>m. flt_map obj (d_world d') g = Some m \<and>
        (\<not> fm_has_data (f_meta g) \<longrightarrow> held (kern (d_world d')) m = {})"
      using iv(4) [of a g] same [of a g] by (auto split: if_splits)
  next
    fix a b g g'
    assume "(if a \<in> R then None else lookup (d_set d) a) = Some g"
      "(if b \<in> R then None else lookup (d_set d) b) = Some g'" "a \<noteq> b"
    then show "flt_map obj (d_world d') g \<noteq> flt_map obj (d_world d') g'"
      using eq [of a g] eq [of b g'] iv(5) [of a g b g'] by (auto split: if_splits)
  next
    assume "0 \<le> pool_fd (d_pool d')"
    from pool [OF this] show "\<exists>q. pool_map obj d' = Some q \<and> held (kern (d_world d')) q = {} \<and>
        (\<forall>a f. (if a \<in> R then None else lookup (d_set d) a) = Some f \<longrightarrow>
          flt_map obj (d_world d') f \<noteq> Some q)"
      using eq by (auto split: if_splits)
  qed (fact w s(1))+
  show "abs_filters obj held d' = (\<lambda>a. if a \<in> R then None else abs_filters obj held d a)"
  proof
    fix a
    show "abs_filters obj held d' a = (if a \<in> R then None else abs_filters obj held d a)"
      using iv(4) [of a] same [of a] by (cases "lookup (d_set d) a") (auto simp: abs_filters_def s(2))
  qed
qed

text \<open>A map that is open, empty and used by nobody: what CREATE works with.\<close>

definition spare ::
  "('k \<Rightarrow> int \<Rightarrow> nat option) \<Rightarrow> ('k \<Rightarrow> nat \<Rightarrow> byte list set) \<Rightarrow> 'k daemon \<Rightarrow> int \<Rightarrow> nat \<Rightarrow> bool" where
  "spare obj held d fd m \<longleftrightarrow> fd \<ge> 0 \<and> obj (kern (d_world d)) fd = Some m \<and>
     held (kern (d_world d)) m = {} \<and> pool_map obj d \<noteq> Some m \<and>
     (\<forall>n f. lookup (d_set d) n = Some f \<longrightarrow> flt_map obj (d_world d) f \<noteq> Some m)"

lemma pool_case:
  assumes "daemon_inv kinv obj held d" "pool_fd (d_pool d) \<ge> 0"
  obtains q where "pool_map obj d = Some q" "held (kern (d_world d)) q = {}"
    "\<forall>n f. lookup (d_set d) n = Some f \<longrightarrow> flt_map obj (d_world d) f \<noteq> Some q"
  using assms unfolding daemon_inv_def by blast

context bpf_kernel
begin

lemma close_spare:
  assumes inv: "daemon_inv kinv obj held d" and sp: "spare obj held d fd m"
  shows "daemon_inv kinv obj held (d\<lparr>d_world := snd (bloomd_bpf_close E fd (d_world d))\<rparr>)"
    "abs_filters obj held (d\<lparr>d_world := snd (bloomd_bpf_close E fd (d_world d))\<rparr>) = abs_filters obj held d"
proof -
  let ?w = "snd (bloomd_bpf_close E fd (d_world d))"
  let ?d = "d\<lparr>d_world := ?w\<rparr>"
  have ki: "kinv (kern (d_world d))" "world_ok (d_world d)" "set_ok (d_set d)"
    using inv by (simp_all add: daemon_inv_def)
  have fd: "fd \<ge> 0" "obj (kern (d_world d)) fd = Some m" using sp by (simp_all add: spare_def)
  note c = close_map_obs [OF ki(1), of fd "fst (bloomd_bpf_close E fd (d_world d))" ?w]
  have c: "obj (kern ?w) = (obj (kern (d_world d)))(fd := None)" "held (kern ?w) = held (kern (d_world d))"
    "kinv (kern ?w)" "world_ok ?w"
    using c fd(1) ki(2) world_ok_cong(2) by (simp_all, metis)
  have ne: "x \<noteq> fd" if "obj (kern (d_world d)) x \<noteq> Some m" for x using that fd by auto
  have pool: "\<exists>q. pool_map obj ?d = Some q \<and> held (kern ?w) q = {} \<and>
      (\<forall>a f. a \<notin> {} \<longrightarrow> lookup (d_set d) a = Some f \<longrightarrow> flt_map obj (d_world d) f \<noteq> Some q)"
    if p: "pool_fd (d_pool ?d) \<ge> 0"
  proof -
    have p': "pool_fd (d_pool d) \<ge> 0" using p by simp
    from pool_case [OF inv p'] obtain q where q: "pool_map obj d = Some q"
      "held (kern (d_world d)) q = {}"
      "\<forall>n f. lookup (d_set d) n = Some f \<longrightarrow> flt_map obj (d_world d) f \<noteq> Some q" by blast
    moreover have "pool_map obj ?d = pool_map obj d"
      using sp p' ne [of "pool_fd (d_pool d)"] by (simp add: pool_map_def c spare_def)
    ultimately show ?thesis using c(2) by auto
  qed
  have same: "flt_map obj (d_world ?d) f = Some m' \<and>
      held (kern (d_world ?d)) m' = held (kern (d_world d)) m'"
    if "lookup (d_set d) a = Some f" "flt_map obj (d_world d) f = Some m'" for a f m'
    using that sp c ne [of "map_fd f"] by (auto simp: spare_def flt_map_def split: if_splits)
  show "daemon_inv kinv obj held ?d" "abs_filters obj held ?d = abs_filters obj held d"
    using inv_transfer [OF inv, where d' = ?d and R = "{}"] ki c pool same by (simp_all add: fun_eq_iff)
qed

lemma create_map_spare:
  assumes inv: "daemon_inv kinv obj held d"
    and c: "bloomd_bpf_create_map E n cap h (d_world d) = (Inr fd, w)"
  obtains m where "spare obj held (d\<lparr>d_world := w\<rparr>) fd m" "daemon_inv kinv obj held (d\<lparr>d_world := w\<rparr>)"
    "abs_filters obj held (d\<lparr>d_world := w\<rparr>) = abs_filters obj held d"
proof -
  let ?d = "d\<lparr>d_world := w\<rparr>"
  have ki: "kinv (kern (d_world d))" "world_ok (d_world d)" "set_ok (d_set d)"
    using inv by (simp_all add: daemon_inv_def)
  note cm = create_map_ok [OF ki(1) c]
  obtain m where m: "\<forall>fd. obj (kern (d_world d)) fd \<noteq> Some m"
    "obj (kern w) = (obj (kern (d_world d)))(fd \<mapsto> m)" "held (kern w) = (held (kern (d_world d)))(m := {})"
    using cm(3) by blast
  have wok: "world_ok w" using cm(5) ki(2) by (metis world_ok_cong(2))
  have fl: "flt_map obj w f = Some m' \<and> held (kern w) m' = held (kern (d_world d)) m'"
    if "flt_map obj (d_world d) f = Some m'" for f m'
    using that cm(2) m by (auto simp: flt_map_def split: if_splits)
  have pm: "pool_map obj ?d = Some q \<and> q \<noteq> m" if "pool_map obj d = Some q" for q
    using that cm(2) m by (auto simp: pool_map_def split: if_splits)
  have pool: "\<exists>q. pool_map obj ?d = Some q \<and> held (kern w) q = {} \<and>
      (\<forall>a f. a \<notin> {} \<longrightarrow> lookup (d_set d) a = Some f \<longrightarrow> flt_map obj (d_world d) f \<noteq> Some q)"
    if p: "pool_fd (d_pool ?d) \<ge> 0"
  proof -
    have "pool_fd (d_pool d) \<ge> 0" using p by simp
    from pool_case [OF inv this] obtain q where "pool_map obj d = Some q"
      "held (kern (d_world d)) q = {}"
      "\<forall>n f. lookup (d_set d) n = Some f \<longrightarrow> flt_map obj (d_world d) f \<noteq> Some q" by blast
    then show ?thesis using pm [of q] m(3) by auto
  qed
  have i: "daemon_inv kinv obj held ?d" "abs_filters obj held ?d = abs_filters obj held d"
    using inv_transfer [OF inv, where d' = ?d and R = "{}"] ki cm(4) wok fl pool
    by (simp_all add: fun_eq_iff)
  have np: "pool_map obj ?d \<noteq> Some m"
  proof (cases "pool_fd (d_pool d) \<ge> 0")
    case True
    from pool_case [OF inv True] pm show ?thesis by (metis option.inject)
  qed (simp add: pool_map_def)
  have nf: "flt_map obj w f \<noteq> Some m" if l: "lookup (d_set d) n = Some f" for n f
  proof -
    obtain m' where "flt_map obj (d_world d) f = Some m'"
      using inv l unfolding daemon_inv_def by blast
    with fl [OF this] m(1) show ?thesis by (auto simp: flt_map_def split: if_splits)
  qed
  have "spare obj held ?d fd m" unfolding spare_def using cm(1) m np nf by simp
  then show ?thesis using i that by blast
qed

lemma spare_moved:
  assumes "daemon_inv kinv obj held d" "spare obj held d fd m" "obs_same kinv obj held (d_world d) w"
  shows "spare obj held (d\<lparr>d_world := w\<rparr>) fd m"
proof -
  have o: "obj (kern w) = obj (kern (d_world d))" "held (kern w) = held (kern (d_world d))"
    using assms(1,3) by (simp_all add: obs_same_def daemon_inv_def)
  have "flt_map obj w = flt_map obj (d_world d)" "pool_map obj (d\<lparr>d_world := w\<rparr>) = pool_map obj d"
    by (simp_all add: fun_eq_iff flt_map_def pool_map_def o)
  then show ?thesis using assms(2) by (simp add: spare_def o)
qed

lemma add_spare:
  assumes inv: "daemon_inv kinv obj held d" and sp: "spare obj held d (map_fd f) m"
    and f: "bloomd_name_is_valid (f_name f)" "lookup (d_set d) (f_name f) = None"
    and a: "bloomd_filter_set_add alloc f (d_set d) = (None, s)"
  shows "daemon_inv kinv obj held (d\<lparr>d_set := s\<rparr>)"
    "abs_filters obj held (d\<lparr>d_set := s\<rparr>) = (abs_filters obj held d)(f_name f \<mapsto> {})"
proof -
  let ?w = "d_world d"
  have ok: "set_ok (d_set d)" using inv by (simp add: daemon_inv_def)
  have l: "set_ok s" "lookup s = (lookup (d_set d))(f_name f \<mapsto> f)"
    using fs.add_law [OF ok f a] by simp_all
  have fm: "flt_map obj ?w f = Some m" "held (kern ?w) m = {}" "pool_map obj d \<noteq> Some m"
    using sp by (auto simp: spare_def flt_map_def)
  have nm: "flt_map obj ?w g \<noteq> Some m" if "lookup (d_set d) a = Some g" for a g
    using sp that by (auto simp: spare_def)
  have pm: "pool_map obj (d\<lparr>d_set := s\<rparr>) = pool_map obj d" by (simp add: pool_map_def)
  show "daemon_inv kinv obj held (d\<lparr>d_set := s\<rparr>)"
    using inv l(1) fm nm unfolding daemon_inv_def pm
    by (auto simp: l(2)) metis+
  show "abs_filters obj held (d\<lparr>d_set := s\<rparr>) = (abs_filters obj held d)(f_name f \<mapsto> {})"
    using fm by (auto simp: abs_filters_def l(2) fun_eq_iff)
qed

lemma inv_stats [simp]:
  "daemon_inv kinv obj held (d\<lparr>d_stats := st\<rparr>) = daemon_inv kinv obj held d"
  "abs_filters obj held (d\<lparr>d_stats := st\<rparr>) = abs_filters obj held d"
  "spare obj held (d\<lparr>d_stats := st\<rparr>) fd m = spare obj held d fd m"
  by (simp_all add: daemon_inv_def abs_filters_def pool_map_def spare_def fun_eq_iff)

lemma create_finish_refines:
  assumes inv: "daemon_inv kinv obj held d" and sp: "spare obj held d (map_fd f) m"
    and f: "bloomd_name_is_valid (f_name f)" "lookup (d_set d) (f_name f) = None"
    and resp: "resp_ok resp" and h: "create_finish E f resp d = (r, resp', d')"
  shows "daemon_inv kinv obj held d'" "resp_ok resp' \<longrightarrow> r = None"
    "abs_filters obj held d' = (if resp_ok resp' then (abs_filters obj held d)(f_name f \<mapsto> {})
      else abs_filters obj held d)"
proof -
  obtain r1 w1 where mw: "bloomd_meta_write_atomic E (f_meta f) (d_world d) = (r1, w1)" by fastforce
  note q1 = quiet_meta_write [OF mw] and o1 = quiet_obs [OF quiet_meta_write [OF mw]]
  note i1 = world_moved [OF inv o1] and s1 = spare_moved [OF inv sp o1]
  obtain r2 s2 where ad: "bloomd_filter_set_add (mem E) f (d_set d) = (r2, s2)" by fastforce
  have "daemon_inv kinv obj held d' \<and> (resp_ok resp' \<longrightarrow> r = None) \<and>
    abs_filters obj held d' = (if resp_ok resp' then (abs_filters obj held d)(f_name f \<mapsto> {})
      else abs_filters obj held d)"
  proof (cases r1)
    case (Some e)
    then have "d' = d\<lparr>d_world := snd (bloomd_bpf_close E (map_fd f) w1)\<rparr>" "\<not> resp_ok resp'"
      using h mw by (auto simp: create_finish_def dest!: respond_error_frame)
    then show ?thesis using close_spare [OF i1(1) s1] i1(2) by simp
  next
    case None
    show ?thesis
    proof (cases r2)
      case (Some e)
      let ?w2 = "snd (bloomd_log_delete (fm_log_path (f_meta f)) (snd (bloomd_log_close (log_fd f) False
          (snd (bloomd_meta_delete (fm_meta_path (f_meta f)) w1)))))"
      let ?w3 = "snd (bloomd_bpf_unpin E (fm_pin_path (f_meta f)) ?w2)"
      have "quiet w1 ?w2"
        by (rule quiet_trans [OF quiet_delete(2) quiet_trans [OF quiet_log_close quiet_delete(1)]])
      then have o3: "obs_same kinv obj held (d_world d) ?w3"
        using obs_same_trans [OF quiet_obs [OF quiet_trans [OF q1]] obs_unpin] by blast
      note i3 = world_moved [OF inv o3] and s3 = spare_moved [OF inv sp o3]
      have "s2 = d_set d" using fs.add_err ad Some by blast
      then have "d' = d\<lparr>d_world := snd (bloomd_bpf_close E (map_fd f) ?w3)\<rparr>" "\<not> resp_ok resp'"
        using h mw None ad Some by (auto simp: create_finish_def Let_def dest!: respond_error_frame)
      then show ?thesis using close_spare [OF i3(1) s3] i3(2) by simp
    next
      case ok: None
      then have d': "d' = (d\<lparr>d_world := w1, d_set := s2\<rparr>)\<lparr>d_stats :=
          (d_stats d)\<lparr>filters_created := filters_created (d_stats d) + 1\<rparr>\<rparr>" "resp' = resp" "r = None"
        using h mw None ad by (auto simp: create_finish_def)
      have sd: "d_set (d\<lparr>d_world := w1\<rparr>) = d_set d" by simp
      note as = add_spare [OF i1(1) s1 f(1), unfolded sd, OF f(2) ad [unfolded ok]]
      show ?thesis using as i1(2) resp by (simp add: d')
    qed
  qed
  then show "daemon_inv kinv obj held d'" "resp_ok resp' \<longrightarrow> r = None"
    "abs_filters obj held d' = (if resp_ok resp' then (abs_filters obj held d)(f_name f \<mapsto> {})
      else abs_filters obj held d)" by auto
qed

lemma take_pool:
  assumes inv: "daemon_inv kinv obj held d"
    and t: "bloomd_take_empty_map c hs vs (d_stats d) (d_pool d) = (fd, st, pool)"
    and d1: "d1 = d\<lparr>d_stats := st, d_pool := pool\<rparr>"
  shows "daemon_inv kinv obj held d1" "abs_filters obj held d1 = abs_filters obj held d"
    "fd \<ge> 0 \<Longrightarrow> \<exists>m. spare obj held d1 fd m"
proof -
  have c: "(pool = d_pool d \<and> fd = - 1) \<or>
    (pool_fd pool = - 1 \<and> fd = pool_fd (d_pool d) \<and> pool_fd (d_pool d) \<ge> 0)"
    using t by (auto simp: bloomd_take_empty_map_def split: if_splits)
  then show "daemon_inv kinv obj held d1"
    using inv by (auto simp: daemon_inv_def d1 pool_map_def)
  show "abs_filters obj held d1 = abs_filters obj held d"
    by (simp add: abs_filters_def fun_eq_iff d1)
  assume "fd \<ge> 0"
  with c have p: "pool_fd pool = - 1" "fd = pool_fd (d_pool d)" "pool_fd (d_pool d) \<ge> 0" by auto
  from pool_case [OF inv p(3)] obtain q where "pool_map obj d = Some q"
    "held (kern (d_world d)) q = {}"
    "\<forall>n f. lookup (d_set d) n = Some f \<longrightarrow> flt_map obj (d_world d) f \<noteq> Some q" by blast
  then show "\<exists>m. spare obj held d1 fd m"
    using p by (intro exI [of _ q]) (auto simp: spare_def pool_map_def d1 split: if_splits)
qed

lemma create_name_valid:
  assumes "request_ok req" "create_name req = Some name" "24 + unat (cr_name_len (create_request_of (rq_body req))) = rq_len req"
  shows "bloomd_name_is_valid name"
  using assms name_view_valid_iff [of "unat (cr_name_len (create_request_of (rq_body req)))" "drop 24 (rq_body req)"]
  by (auto simp: create_name_def bloomd_parse_name_copy_def request_ok_def split: if_splits)

lemma create_with_map_refines:
  assumes inv: "daemon_inv kinv obj held d" and v: "bloomd_name_is_valid (fm_name meta)"
    and free: "lookup (d_set d) (fm_name meta) = None" and resp: "resp_ok resp"
    and h: "create_with_map E meta resp d = (r, resp', d')"
  shows "daemon_inv kinv obj held d' \<and> (resp_ok resp' \<longrightarrow> r = None) \<and>
    abs_filters obj held d' = (if resp_ok resp' then (abs_filters obj held d)(fm_name meta \<mapsto> {})
      else abs_filters obj held d)"
proof -
  obtain fd st pool where tk: "bloomd_take_empty_map (fm_capacity meta) (fm_hashes meta)
      (fm_value_size meta) (d_stats d) (d_pool d) = (fd, st, pool)" using prod_cases3 by blast
  define d1 where "d1 = d\<lparr>d_stats := st, d_pool := pool\<rparr>"
  note i1 = take_pool [OF inv tk d1_def]
  note h1 = h [unfolded create_with_map_def tk Let_def prod.case, folded d1_def]
  have f: "f_name (new_filter meta x) = fm_name meta" "map_fd (new_filter meta x) = x" for x
    by (simp_all add: new_filter_def)
  have free1: "lookup (d_set d1) (fm_name meta) = None" using free d1_def by simp
  have fin: ?thesis if i: "daemon_inv kinv obj held d2" "abs_filters obj held d2 = abs_filters obj held d"
      and l: "d_set d2 = d_set d1" and sp: "spare obj held d2 x m"
      and c: "create_finish E (new_filter meta x) resp d2 = (r, resp', d')" for d2 x m
  proof -
    have "spare obj held d2 (map_fd (new_filter meta x)) m" using sp by (simp add: f)
    from create_finish_refines [OF i(1) this _ _ resp c] show ?thesis
      using v free1 l i(2) by (simp add: f)
  qed
  show ?thesis
  proof (cases "fd \<ge> 0")
    case True
    with i1(3) obtain m where "spare obj held d1 fd m" by blast
    then show ?thesis using fin [OF i1(1,2) refl] h1 True by simp
  next
    case False
    obtain rc w where c: "bloomd_bpf_create_map E (fm_name meta) (fm_capacity meta) (fm_hashes meta) (d_world d1) = (rc, w)"
      by fastforce
    show ?thesis
    proof (cases rc)
      case (Inl em)
      have "obs_same kinv obj held (d_world d1) w"
        using create_map_err [OF _ c [unfolded Inl]] c
        by (intro kern_call_obs) (auto simp: bloomd_bpf_create_map_def bloomd_sys_bpf_def
          split: if_splits prod.splits)
      then show ?thesis
        using world_moved [OF i1(1)] i1(2) h1 False c Inl
        by (cases em) (auto split: if_splits dest!: respond_error_frame)
    next
      case (Inr x)
      from create_map_spare [OF i1(1) c [unfolded Inr]] obtain m where
        "spare obj held (d1\<lparr>d_world := w\<rparr>) x m" "daemon_inv kinv obj held (d1\<lparr>d_world := w\<rparr>)"
        "abs_filters obj held (d1\<lparr>d_world := w\<rparr>) = abs_filters obj held d1" by blast
      then show ?thesis using fin [of "d1\<lparr>d_world := w\<rparr>" x m] i1(2) h1 False c Inr by simp
    qed
  qed
qed

lemma handle_create_refines:
  assumes inv: "daemon_inv kinv obj held d" and rq: "request_ok req" "rq_op req = Some OP_CREATE"
    and resp: "resp_ok resp" and h: "bloomd_handle_create E cfg req resp d = (r, resp', d')"
  shows "daemon_inv kinv obj held d' \<and> (resp_ok resp' \<longrightarrow> r = None) \<and>
    filter_step req (abs_filters obj held d) (resp_ok resp') (abs_filters obj held d')"
proof -
  let ?hdr = "create_request_of (rq_body req)"
  consider (bad) "d' = d" "\<not> resp_ok resp'"
    | (name) name where "create_name req = Some name" "24 + unat (cr_name_len ?hdr) = rq_len req"
      "create_named E cfg name ?hdr resp d = (r, resp', d')"
    using h unfolding bloomd_handle_create_def Let_def create_name_def
    by (auto split: if_splits sum.splits dest!: respond_error_frame)
  then show ?thesis
  proof cases
    case bad
    then show ?thesis using inv by (simp add: filter_step.refused)
  next
    case (name name)
    have v: "bloomd_name_is_valid name" by (rule create_name_valid [OF rq(1) name(1,2)])
    obtain ri s where find: "bloomd_filter_set_find_n (d_set d) name = (ri, s)" by fastforce
    note moved = cache_moved [OF inv v find]
    have ok: "set_ok (d_set d)" using inv by (simp add: daemon_inv_def)
    show ?thesis
    proof (cases "ri = None \<and> (\<exists>meta. bloomd_assign_filter_paths cfg (new_filter_meta E name ?hdr) = Inr meta)")
      case False
      then have "d' = d\<lparr>d_set := s\<rparr>" "\<not> resp_ok resp'"
        using name(3) find by (auto simp: create_named_def bloomd_filter_set_find_def
          split: option.splits sum.splits dest!: respond_error_frame)
      then show ?thesis using moved by (simp add: filter_step.refused)
    next
      case True
      then obtain meta where meta: "bloomd_assign_filter_paths cfg (new_filter_meta E name ?hdr) = Inr meta"
        and rn: "ri = None" by blast
      let ?d = "d\<lparr>d_set := s\<rparr>"
      have nm: "fm_name meta = name"
        using meta by (auto simp: bloomd_assign_filter_paths_def new_filter_meta_def split: sum.splits)
      have lk: "lookup (d_set ?d) name = None" "abs_filters obj held d name = None"
        using find_n_spec [OF ok v find] rn fs.find_law [OF ok v find] by (simp_all add: abs_filters_def)
      have "create_with_map E meta resp ?d = (r, resp', d')"
        using name(3) by (simp add: create_named_def bloomd_filter_set_find_def find rn meta)
      from create_with_map_refines [OF moved(1) _ _ resp this, unfolded nm, OF v lk(1)]
      show ?thesis
        using moved(2) filter_step.create [of req name "abs_filters obj held d"] rq(2) name(1) lk(2)
          filter_step.refused
        by auto
    qed
  qed
qed

text \<open>Releasing a filter closes its map descriptor and changes nothing else the kernel shows.\<close>

lemma close_obs_all:
  assumes "kinv (kern w)" "world_ok w"
  shows "kinv (kern (snd (bloomd_bpf_close E fd w)))" "world_ok (snd (bloomd_bpf_close E fd w))"
    "held (kern (snd (bloomd_bpf_close E fd w))) = held (kern w)"
    "obj (kern (snd (bloomd_bpf_close E fd w))) =
      (if fd \<ge> 0 then (obj (kern w))(fd := None) else obj (kern w))"
  using close_map_obs [OF assms(1), of fd _ "snd (bloomd_bpf_close E fd w)"] assms(2)
  by (metis prod.collapse world_ok_cong(2))+

lemma release_obs:
  assumes "kinv (kern w)" "world_ok w"
  shows "kinv (kern (release_filter E b f w))" "world_ok (release_filter E b f w)"
    "held (kern (release_filter E b f w)) = held (kern w)"
    "obj (kern (release_filter E b f w)) =
      (if map_fd f \<ge> 0 then (obj (kern w))(map_fd f := None) else obj (kern w))"
proof -
  obtain r buf w1 where fl: "bloomd_log_buffer_flush (log_fd f) (log_buf f) b w = (r, buf, w1)"
    using prod_cases3 by blast
  define w2 where "w2 = snd (bloomd_log_close (log_fd f) False w1)"
  have "quiet w w2"
    using quiet_trans [OF quiet_buffer_flush [OF fl] quiet_log_close] by (simp add: w2_def)
  then have w2: "kern w2 = kern w" "world_ok w2" using assms(2) by (auto simp: quiet_def)
  have "release_filter E b f w = snd (bloomd_bpf_close E (map_fd f) w2)"
    by (simp add: release_filter_def fl w2_def)
  then show "kinv (kern (release_filter E b f w))" "world_ok (release_filter E b f w)"
    "held (kern (release_filter E b f w)) = held (kern w)"
    "obj (kern (release_filter E b f w)) =
      (if map_fd f \<ge> 0 then (obj (kern w))(map_fd f := None) else obj (kern w))"
    using close_obs_all [of w2 "map_fd f"] w2 assms(1) by simp_all
qed

text \<open>The set and the world after the filter was taken out.\<close>

lemma drop_removed:
  assumes ok: "set_ok s" and v: "bloomd_name_is_valid n" and i: "i < length (items s)" "f_name (items s ! i) = n"
    and f: "f_name f = n"
    and r: "bloomd_filter_set_remove_n E n (set_item i f s) w = (r, s', w')"
  shows "set_ok s'" "lookup s' = (\<lambda>a. if a \<in> {n} then None else lookup s a)"
    "w' = release_filter E False f w"
proof -
  note st = set_item_law [OF ok i(1), of f]
  have st: "set_ok (set_item i f s)" "lookup (set_item i f s) = (lookup s)(n \<mapsto> f)"
    using st i(2) f by simp_all
  note rm = filter_set_remove_law [OF st(1) v r]
  have "r = None" using rm(3) st(2) by simp
  then show "set_ok s'" "lookup s' = (\<lambda>a. if a \<in> {n} then None else lookup s a)"
    "w' = release_filter E False f w"
    using rm(1,2,4) st(2) by (auto simp: fun_eq_iff)
qed

text \<open>The filter a DROP works on: its map, and that no other filter shares its map or its descriptor.\<close>

lemma dropped_filter:
  assumes inv: "daemon_inv kinv obj held d" and f: "lookup (d_set d) n = Some f"
  obtains m where "flt_map obj (d_world d) f = Some m" "\<not> fm_has_data (f_meta f) \<longrightarrow> held (kern (d_world d)) m = {}"
    "map_fd f \<ge> 0" "obj (kern (d_world d)) (map_fd f) = Some m"
    "\<And>a g. lookup (d_set d) a = Some g \<Longrightarrow> a \<noteq> n \<Longrightarrow> flt_map obj (d_world d) g \<noteq> Some m \<and> map_fd g \<noteq> map_fd f"
proof -
  obtain m where m: "flt_map obj (d_world d) f = Some m" "\<not> fm_has_data (f_meta f) \<longrightarrow> held (kern (d_world d)) m = {}"
    using inv f unfolding daemon_inv_def by blast
  have fd: "map_fd f \<ge> 0" "obj (kern (d_world d)) (map_fd f) = Some m"
    using m(1) by (auto simp: flt_map_def split: if_splits)
  have "flt_map obj (d_world d) g \<noteq> Some m" if "lookup (d_set d) a = Some g" "a \<noteq> n" for a g
    using inv that f m(1) unfolding daemon_inv_def by metis
  then have "flt_map obj (d_world d) g \<noteq> Some m \<and> map_fd g \<noteq> map_fd f" if "lookup (d_set d) a = Some g" "a \<noteq> n" for a g
    using that fd by (fastforce simp: flt_map_def)
  then show ?thesis by (rule that [OF m fd])
qed

text \<open>The pooled map belongs to no filter.\<close>

lemma pool_fd_other:
  assumes inv: "daemon_inv kinv obj held d" and p: "pool_fd (d_pool d) \<ge> 0" and l: "lookup (d_set d) a = Some g"
  shows "pool_fd (d_pool d) \<noteq> map_fd g"
proof -
  from pool_case [OF inv p] obtain q where q: "pool_map obj d = Some q" "held (kern (d_world d)) q = {}"
    "\<forall>n f. lookup (d_set d) n = Some f \<longrightarrow> flt_map obj (d_world d) f \<noteq> Some q" by blast
  then have "flt_map obj (d_world d) g \<noteq> Some q" using l by blast
  then show ?thesis using q(1) p by (auto simp: pool_map_def flt_map_def)
qed

lemma drop_durable_refines:
  assumes inv: "daemon_inv kinv obj held d" and v: "bloomd_name_is_valid n"
    and i: "i < length (items (d_set d))" "f_name (items (d_set d) ! i) = n"
    and o: "obs_same kinv obj held (d_world d) w" and data: "fm_has_data (f_meta (items (d_set d) ! i))"
    and d': "d' = drop_finish E n i (items (d_set d) ! i) w d"
  shows "daemon_inv kinv obj held d' \<and> abs_filters obj held d' = (abs_filters obj held d)(n := None)"
proof -
  let ?f = "items (d_set d) ! i" and ?W = "d_world d"
  let ?w1 = "snd (bloomd_log_delete (fm_log_path (f_meta ?f)) w)"
  have ok: "set_ok (d_set d)" using inv by (simp add: daemon_inv_def)
  have w: "kinv (kern w)" "world_ok w" "obj (kern w) = obj (kern ?W)" "held (kern w) = held (kern ?W)"
    using o inv by (auto simp: obs_same_def daemon_inv_def)
  have lf: "lookup (d_set d) n = Some ?f" using lookup_nth [OF ok i(1)] i(2) by simp
  obtain m where m: "map_fd ?f \<ge> 0" "obj (kern ?W) (map_fd ?f) = Some m"
    "\<And>a g. lookup (d_set d) a = Some g \<Longrightarrow> a \<noteq> n \<Longrightarrow> flt_map obj ?W g \<noteq> Some m \<and> map_fd g \<noteq> map_fd ?f"
    using dropped_filter [OF inv lf] by metis
  have w1: "kinv (kern ?w1)" "world_ok ?w1" "kern ?w1 = kern w"
    using quiet_delete(1) [of w "fm_log_path (f_meta ?f)"] w by (simp_all add: quiet_def)
  obtain r s' w' where rm: "bloomd_filter_set_remove_n E n (set_item i ?f (d_set d)) ?w1 = (r, s', w')"
    using prod_cases3 by blast
  note dr = drop_removed [OF ok v i i(2) rm] and ro = release_obs [OF w1(1,2), of False ?f]
  have d1: "d_set d' = s'" "d_world d' = w'" "d_pool d' = d_pool d"
    unfolding d' by (simp_all add: drop_finish_def Let_def data rm)
  have w': "kinv (kern w')" "world_ok w'" "held (kern w') = held (kern ?W)"
    "obj (kern w') = (obj (kern ?W))(map_fd ?f := None)" using ro w1 w m(1) by (simp_all add: dr(3))
  have pool: "\<exists>q. pool_map obj d' = Some q \<and> held (kern w') q = {} \<and>
    (\<forall>a f. a \<notin> {n} \<longrightarrow> lookup (d_set d) a = Some f \<longrightarrow> flt_map obj ?W f \<noteq> Some q)" if p: "pool_fd (d_pool d) \<ge> 0"
  proof -
    from pool_case [OF inv p] obtain q where q: "pool_map obj d = Some q" "held (kern ?W) q = {}"
      "\<forall>n f. lookup (d_set d) n = Some f \<longrightarrow> flt_map obj ?W f \<noteq> Some q" by blast
    then show ?thesis using pool_fd_other [OF inv p lf] p w'(3,4) by (auto simp: pool_map_def d1)
  qed
  have same: "flt_map obj w' g = Some k \<and> held (kern w') k = held (kern ?W) k"
    if "a \<notin> {n}" "lookup (d_set d) a = Some g" "flt_map obj ?W g = Some k" for a g k
    using that m(3) [of a g] w' by (auto simp: flt_map_def split: if_splits)
  show ?thesis
    using inv_transfer [OF inv, where d' = d' and R = "{n}", unfolded d1, OF dr(1,2) w'(1,2) same pool] by (simp add: fun_upd_def)
qed

lemma drop_empty_refines:
  assumes inv: "daemon_inv kinv obj held d" and v: "bloomd_name_is_valid n"
    and i: "i < length (items (d_set d))" "f_name (items (d_set d) ! i) = n"
    and o: "obs_same kinv obj held (d_world d) w" and data: "\<not> fm_has_data (f_meta (items (d_set d) ! i))"
    and d': "d' = drop_finish E n i (items (d_set d) ! i) w d"
  shows "daemon_inv kinv obj held d' \<and> abs_filters obj held d' = (abs_filters obj held d)(n := None)"
proof -
  let ?f = "items (d_set d) ! i" and ?W = "d_world d" and ?p = "pool_fd (d_pool d)"
  let ?g = "?f\<lparr>map_fd := - 1\<rparr>"
  have ok: "set_ok (d_set d)" using inv by (simp add: daemon_inv_def)
  have w: "kinv (kern w)" "world_ok w" "obj (kern w) = obj (kern ?W)" "held (kern w) = held (kern ?W)"
    using o inv by (auto simp: obs_same_def daemon_inv_def)
  have lf: "lookup (d_set d) n = Some ?f" using lookup_nth [OF ok i(1)] i(2) by simp
  obtain m where m: "held (kern ?W) m = {}" "map_fd ?f \<ge> 0" "obj (kern ?W) (map_fd ?f) = Some m"
    "\<And>a g. lookup (d_set d) a = Some g \<Longrightarrow> a \<noteq> n \<Longrightarrow> flt_map obj ?W g \<noteq> Some m \<and> map_fd g \<noteq> map_fd ?f"
    using dropped_filter [OF inv lf] data by metis
  obtain r s' w' where rm: "bloomd_filter_set_remove_n E n (set_item i ?g (d_set d)) w = (r, s', w')"
    using prod_cases3 by blast
  have gn: "f_name ?g = n" using i(2) by simp
  note dr = drop_removed [OF ok v i gn rm] and ro = release_obs [OF w(1,2), of False ?g]
  define w2 where "w2 = (if ?p \<ge> 0 then snd (bloomd_bpf_close E ?p w') else w')"
  have w': "kinv (kern w')" "world_ok w'" "obj (kern w') = obj (kern ?W)" "held (kern w') = held (kern ?W)"
    using ro w by (simp_all add: dr(3))
  have w2: "kinv (kern w2)" "world_ok w2" "held (kern w2) = held (kern ?W)"
    "obj (kern w2) = (if ?p \<ge> 0 then (obj (kern ?W))(?p := None) else obj (kern ?W))"
    using close_obs_all [OF w'(1,2), of ?p] w' by (simp_all add: w2_def)
  have d1: "d_set d' = s'" "d_world d' = w2" "pool_fd (d_pool d') = map_fd ?f"
    unfolding d' using m(2) by (simp_all add: drop_finish_def Let_def data rm bloomd_store_empty_map_def w2_def)
  have "pool_map obj d' = Some m" using m(2,3) w2(4) pool_fd_other [OF inv _ lf] by (auto simp: pool_map_def d1)
  then have pool: "\<exists>q. pool_map obj d' = Some q \<and> held (kern w2) q = {} \<and>
    (\<forall>a f. a \<notin> {n} \<longrightarrow> lookup (d_set d) a = Some f \<longrightarrow> flt_map obj ?W f \<noteq> Some q)" using m(1,4) w2(3) by auto
  have same: "flt_map obj w2 g = Some k \<and> held (kern w2) k = held (kern ?W) k"
    if "a \<notin> {n}" "lookup (d_set d) a = Some g" "flt_map obj ?W g = Some k" for a g k
    using that pool_fd_other [OF inv, of a g] w2 by (auto simp: flt_map_def split: if_splits)
  show ?thesis
    using inv_transfer [OF inv, where d' = d' and R = "{n}", unfolded d1, OF dr(1,2) w2(1,2) same pool] by (simp add: fun_upd_def)
qed

lemma drop_finish_refines:
  assumes "daemon_inv kinv obj held d" "bloomd_name_is_valid n"
    "i < length (items (d_set d))" "f_name (items (d_set d) ! i) = n" "obs_same kinv obj held (d_world d) w"
    "d' = drop_finish E n i (items (d_set d) ! i) w d"
  shows "daemon_inv kinv obj held d' \<and> abs_filters obj held d' = (abs_filters obj held d)(n := None)"
  using drop_durable_refines [OF assms(1-5) _ assms(6)] drop_empty_refines [OF assms(1-5) _ assms(6)] by blast

text \<open>What a DROP of a filter that is there does: it is removed after its metadata file, or nothing but its pin was touched.\<close>

lemma drop_cases:
  assumes parse: "parse_name_request ''DROP'' req = Inr name" and find: "bloomd_filter_set_find_n (d_set d) name = (Some i, s)"
    and h: "bloomd_handle_drop E req resp d = (r, resp', d')"
  obtains w1 r2 w2 where "\<exists>k. w1 = (d_world d)\<lparr>kern := k\<rparr>" "obs_same kinv obj held (d_world d) w1"
    "bloomd_meta_delete (fm_meta_path (f_meta (items s ! i))) w1 = (r2, w2)"
    "(d' = drop_finish E name i (items s ! i) w2 (d\<lparr>d_set := s\<rparr>) \<and> resp' = resp \<and> r = None) \<or>
     (\<exists>w'. d' = d\<lparr>d_set := s, d_world := w'\<rparr> \<and> \<not> resp_ok resp' \<and>
       (w' = w1 \<or> r2 \<noteq> None \<and> (\<exists>k. w' = w2\<lparr>kern := k\<rparr>) \<and> obs_same kinv obj held w2 w'))"
proof -
  let ?f = "items s ! i"
  let ?meta = "f_meta ?f"
  obtain r1 w1 where un: "(if fm_has_data ?meta then bloomd_bpf_unpin E (fm_pin_path ?meta) (d_world d)
      else (None, d_world d)) = (r1, w1)" by fastforce
  obtain r2 w2 where md: "bloomd_meta_delete (fm_meta_path ?meta) w1 = (r2, w2)" by fastforce
  obtain rp w3 where pin: "bloomd_bpf_pin_map E (map_fd ?f) (fm_pin_path ?meta) w2 = (rp, w3)" by fastforce
  have o: "obs_same kinv obj held (d_world d) w1" "obs_same kinv obj held w2 w3" "obs_same kinv obj held w2 w2"
    using un obs_unpin [of "d_world d" "fm_pin_path ?meta"] obs_pin [OF pin] by (auto simp: obs_same_def split: if_splits)
  have e: "\<exists>k. w1 = (d_world d)\<lparr>kern := k\<rparr>" "\<exists>k. w2 = w2\<lparr>kern := k\<rparr>" "\<exists>k. w3 = w2\<lparr>kern := k\<rparr>"
    using un pin by (auto simp: bpf_call_defs split: if_splits prod.splits intro: exI [of _ "kern (d_world d)"] exI [of _ "kern w2"])
  show thesis
    by (rule that [OF e(1) o(1) md])
      (use h un md pin o e(2,3) in \<open>cases "fm_has_data ?meta"; cases r1; cases r2;
        auto simp: bloomd_handle_drop_def parse find Let_def split: prod.splits dest!: respond_error_frame\<close>)
qed

lemma handle_drop_refines:
  assumes inv: "daemon_inv kinv obj held d" and rq: "request_ok req" "rq_op req = Some OP_DROP"
    and resp: "resp_ok resp" and h: "bloomd_handle_drop E req resp d = (r, resp', d')"
  shows "daemon_inv kinv obj held d' \<and> (resp_ok resp' \<longrightarrow> r = None) \<and>
    filter_step req (abs_filters obj held d) (resp_ok resp') (abs_filters obj held d')"
proof (cases "parse_name_request ''DROP'' req")
  case (Inl x)
  obtain st c msg where x: "x = (st, c, msg)" by (cases x)
  have "st \<noteq> STATUS_OK" using Inl x by (auto simp: parse_name_request_def Let_def split: if_splits)
  then show ?thesis
    using h inv Inl x by (auto simp: bloomd_handle_drop_def filter_step.refused dest!: respond_error_frame)
next
  case (Inr name)
  have v: "bloomd_name_is_valid name" by (rule parse_name_request_valid [OF rq(1) Inr])
  obtain ri s where find: "bloomd_filter_set_find_n (d_set d) name = (ri, s)" by fastforce
  note moved = cache_moved [OF inv v find]
  show ?thesis
  proof (cases ri)
    case None
    then show ?thesis
      using h moved by (auto simp: bloomd_handle_drop_def Inr find filter_step.refused
        dest!: respond_error_frame)
  next
    case (Some i)
    note find' = find [unfolded Some]
    let ?d = "d\<lparr>d_set := s\<rparr>" and ?W = "d_world d"
    from drop_cases [OF Inr find' h] obtain w1 r2 w2 where o1: "obs_same kinv obj held ?W w1"
      and md: "bloomd_meta_delete (fm_meta_path (f_meta (items s ! i))) w1 = (r2, w2)"
      and out: "(d' = drop_finish E name i (items s ! i) w2 ?d \<and> resp' = resp \<and> r = None) \<or>
        (\<exists>w'. d' = d\<lparr>d_set := s, d_world := w'\<rparr> \<and> \<not> resp_ok resp' \<and>
          (w' = w1 \<or> r2 \<noteq> None \<and> (\<exists>k. w' = w2\<lparr>kern := k\<rparr>) \<and> obs_same kinv obj held w2 w'))" by metis
    have o2: "obs_same kinv obj held ?W w2" by (rule obs_same_trans [OF o1 quiet_obs [OF quiet_meta_delete [OF md]]])
    note sp = find_n_spec [OF daemon_invD(3) [OF inv] v find']
    have i: "i < length (items (d_set ?d))" "f_name (items (d_set ?d) ! i) = name" "abs_filters obj held d name \<noteq> None"
      using sp(1) sp(3) [of i] by (auto simp: abs_filters_def)
    from out consider (gone) "d' = drop_finish E name i (items (d_set ?d) ! i) w2 ?d" "resp' = resp" "r = None"
      | (failed) w' where "d' = ?d\<lparr>d_world := w'\<rparr>" "obs_same kinv obj held (d_world ?d) w'" "\<not> resp_ok resp'"
      using o1 obs_same_trans [OF o2] by auto
    then show ?thesis
    proof cases
      case gone
      then show ?thesis
        using drop_finish_refines [OF moved(1) v i(1,2) _ gone(1)] o2 moved(2) resp
          filter_step.drop [of req name "abs_filters obj held d"] rq(2) Inr i(3) by simp
    next
      case (failed w')
      then show ?thesis using world_moved [OF moved(1) failed(2)] moved(2) by (simp add: filter_step.refused)
    qed
  qed
qed

lemma handle_info_refines:
  assumes inv: "daemon_inv kinv obj held d" and rq: "request_ok req"
    and h: "bloomd_handle_info E req resp d = (r, resp', d')"
  shows "daemon_inv kinv obj held d'" "abs_filters obj held d' = abs_filters obj held d"
proof -
  have "daemon_inv kinv obj held d' \<and> abs_filters obj held d' = abs_filters obj held d"
  proof (cases "parse_name_request ''INFO'' req")
    case (Inl x)
    obtain st c msg where x: "x = (st, c, msg)" by (cases x)
    have "st \<noteq> STATUS_OK" using Inl x by (auto simp: parse_name_request_def Let_def split: if_splits)
    then show ?thesis
      using h inv Inl x by (auto simp: bloomd_handle_info_def dest!: respond_error_frame)
  next
    case (Inr name)
    have v: "bloomd_name_is_valid name" by (rule parse_name_request_valid [OF rq Inr])
    obtain ri s where find: "bloomd_filter_set_find_n (d_set d) name = (ri, s)" by fastforce
    have "d' = d\<lparr>d_set := s\<rparr>"
      using h by (auto simp: bloomd_handle_info_def Inr find split: option.splits
        dest!: respond_error_frame send_frame(3))
    then show ?thesis using cache_moved [OF inv v find] by simp
  qed
  then show "daemon_inv kinv obj held d'" "abs_filters obj held d' = abs_filters obj held d" by auto
qed

section \<open>The dispatcher\<close>

lemma dispatch_query:
  assumes inv: "daemon_inv kinv obj held d" and rq: "request_ok req" "rq_op req \<notin> Some ` {OP_CREATE, OP_ADD, OP_MADD, OP_DROP}"
    and h: "dispatch_op E cfg req resp d = (r, resp', d')"
  shows "daemon_inv kinv obj held d'" "abs_filters obj held d' = abs_filters obj held d" "rq_op req = None \<Longrightarrow> \<not> resp_ok resp'"
proof -
  note q = handle_check_refines(1) [OF inv rq(1)] handle_mcheck_refines [OF inv rq(1)] handle_info_refines [OF inv rq(1)]
  have "daemon_inv kinv obj held d' \<and> abs_filters obj held d' = abs_filters obj held d \<and> (rq_op req = None \<longrightarrow> \<not> resp_ok resp')"
  proof (cases "rq_op req")
    case None
    then show ?thesis using h inv by (auto simp: dispatch_op_def dest!: respond_error_frame)
  next
    case (Some op)
    then show ?thesis
      using h inv q rq(2)
      by (cases op) (auto simp: dispatch_op_def Let_def split: if_splits dest!: respond_error_frame send_frame(4-6))
  qed
  then show "daemon_inv kinv obj held d'" "abs_filters obj held d' = abs_filters obj held d" "rq_op req = None \<Longrightarrow> \<not> resp_ok resp'" by auto
qed

lemma dispatch_op_refines:
  assumes inv: "daemon_inv kinv obj held d" and rq: "request_ok req" and resp: "resp_ok resp"
    and h: "dispatch_op E cfg req resp d = (r, resp', d')"
  shows "daemon_inv kinv obj held d' \<and>
    filter_step req (abs_filters obj held d) (resp_ok resp' \<and> r = None) (abs_filters obj held d')"
proof -
  let ?A = "abs_filters obj held d" and ?A' = "abs_filters obj held d'"
  have weak: "filter_step req ?A (resp_ok resp' \<and> r = None) ?A'"
    if "filter_step req ?A (resp_ok resp') ?A'" "rq_op req = Some OP_ADD \<or> rq_op req = Some OP_MADD"
    using that by (cases rule: filter_step.cases) (auto intro: filter_step.refused filter_step.add filter_step.madd)
  consider (create) "rq_op req = Some OP_CREATE" "bloomd_handle_create E cfg req resp d = (r, resp', d')"
    | (drop) "rq_op req = Some OP_DROP" "bloomd_handle_drop E req resp d = (r, resp', d')"
    | (add) "rq_op req = Some OP_ADD" "bloomd_handle_add_check E True (log_sync_mode cfg) req resp d = (r, resp', d')"
    | (madd) "rq_op req = Some OP_MADD" "bloomd_handle_batch E True (log_sync_mode cfg) req resp d = (r, resp', d')"
    | (query) "rq_op req \<notin> Some ` {OP_CREATE, OP_ADD, OP_MADD, OP_DROP}"
    using h by (cases "rq_op req"; cases "the (rq_op req)") (simp_all add: dispatch_op_def)
  then show ?thesis
  proof cases
    case create
    from handle_create_refines [OF inv rq create(1) resp create(2)] show ?thesis by (cases "resp_ok resp'") auto
  next
    case drop
    from handle_drop_refines [OF inv rq drop(1) resp drop(2)] show ?thesis by (cases "resp_ok resp'") auto
  next
    case add
    from handle_add_refines [OF inv rq add] weak add(1) show ?thesis by simp
  next
    case madd
    from handle_madd_refines [OF inv rq madd] weak madd(1) show ?thesis by simp
  next
    case query
    note q = dispatch_query [OF inv rq query h]
    have "rq_op req \<in> Some ` {OP_PING, OP_CHECK, OP_MCHECK, OP_INFO, OP_LIST, OP_STATS}" if "rq_op req = Some op" for op
      using that query by (cases op) auto
    then show ?thesis
      using q filter_step.refused filter_step.query by (cases "resp_ok resp' \<and> r = None"; cases "rq_op req") auto
  qed
qed

lemma dispatch_refines:
  assumes inv: "daemon_inv kinv obj held d" and rq: "request_ok req" and resp: "resp_ok resp"
    and h: "bloomd_dispatch E cfg req resp d = (r, resp', d')"
  shows "daemon_inv kinv obj held d'"
    "filter_step req (abs_filters obj held d) (resp_ok resp') (abs_filters obj held d')"
proof -
  obtain r1 resp1 d1 where op: "dispatch_op E cfg req resp d = (r1, resp1, d1)"
    using prod_cases3 by blast
  note st = dispatch_op_refines [OF inv rq resp op]
  have "d' = d1 \<and> (resp_ok resp' \<longleftrightarrow> resp_ok resp1 \<and> r1 = None)"
    using h op by (auto simp: bloomd_dispatch_def resp_ok_def split: if_splits dest!: respond_error_frame)
  then show "daemon_inv kinv obj held d'"
    "filter_step req (abs_filters obj held d) (resp_ok resp') (abs_filters obj held d')"
    using st by auto
qed

end

end
