(* ===== verification/Service.thy ===== *)
theory Service
  imports Dispatch Samples
begin

text \<open>
  Serving requests: the end of \<open>bloomd_client_drive_read\<close>, where a complete request is counted,
  dispatched and its response prepared, and runs of such requests in any interleaving of
  clients. The theorems here are about whole runs of the daemon over an arbitrary kernel that
  satisfies \<open>bpf_kernel\<close>; their witnesses run on the repository's mock kernel.
\<close>

section \<open>Requests, one after the other\<close>

definition serve_request ::
  "'k env \<Rightarrow> bloomd_config \<Rightarrow> bloomd_response \<Rightarrow> bloomd_request_view \<Rightarrow> 'k daemon
    \<Rightarrow> rc \<times> bloomd_response \<times> 'k daemon" where
  "serve_request E cfg resp req d =
    (let d = d\<lparr>d_stats := (d_stats d)\<lparr>requests := requests (d_stats d) + 1\<rparr>\<rparr>;
         resp = bloomd_response_reset resp (opcode (rq_header req)) (request_id (rq_header req))
     in case bloomd_dispatch E cfg req resp d of
          (Some e, resp, d) \<Rightarrow> (Some e, resp, d)
        | (None, resp, d) \<Rightarrow>
            (None, resp,
             if status (rheader resp) \<noteq> status_byte STATUS_OK
             then d\<lparr>d_stats := (d_stats d)\<lparr>errors := errors (d_stats d) + 1\<rparr>\<rparr> else d))"

text \<open>
  A run: the requests in the order in which the daemon completes reading them, each with the
  response structure of its client.
\<close>

fun serve ::
  "'k env \<Rightarrow> bloomd_config \<Rightarrow> (bloomd_response \<times> bloomd_request_view) list \<Rightarrow> 'k daemon
    \<Rightarrow> bloomd_response list \<times> 'k daemon" where
  "serve E cfg [] d = ([], d)"
| "serve E cfg ((resp, req) # evs) d =
    (case serve_request E cfg resp req d of
       (_, resp, d) \<Rightarrow> (case serve E cfg evs d of (rs, d) \<Rightarrow> (resp # rs, d)))"

definition drops :: "bloomd_request_view \<Rightarrow> string \<Rightarrow> bool" where
  "drops req name \<longleftrightarrow> rq_op req = Some OP_DROP \<and> parse_name_request ''DROP'' req = Inr name"

lemma reset_ok [simp]: "resp_ok (bloomd_response_reset resp op rid)"
  "buf_data (rbody (bloomd_response_reset resp op rid)) = []"
  by (simp_all add: resp_ok_def bloomd_response_reset_def)

section \<open>What one step keeps\<close>

inductive_cases filter_stepE: "filter_step req A ok A'"

lemma filter_step_keeps:
  assumes "filter_step req A ok A'" "A name = Some D" "\<not> drops req name"
  shows "\<exists>D'. A' name = Some D' \<and> D \<subseteq> D'"
  using assms by (elim filter_stepE) (auto simp: drops_def)

lemma filter_step_added:
  assumes "filter_step req A True A'" "rq_op req = Some OP_ADD"
    "bloomd_parse_name_payload req = Inr (name, p)"
  shows "\<exists>D. A' name = Some D \<and> bloomd_digest_payload p \<in> D"
  using assms by (elim filter_stepE) auto

context bpf_kernel
begin

lemma serve_request_refines:
  assumes inv: "daemon_inv kinv obj held d" and rq: "request_ok req"
    and h: "serve_request E cfg resp req d = (r, resp', d')"
  shows "daemon_inv kinv obj held d'"
    "filter_step req (abs_filters obj held d) (resp_ok resp') (abs_filters obj held d')"
proof -
  let ?d = "d\<lparr>d_stats := (d_stats d)\<lparr>requests := requests (d_stats d) + 1\<rparr>\<rparr>"
  let ?resp = "bloomd_response_reset resp (opcode (rq_header req)) (request_id (rq_header req))"
  obtain r1 resp1 d1 where dp: "bloomd_dispatch E cfg req ?resp ?d = (r1, resp1, d1)"
    using prod_cases3 by blast
  have i: "daemon_inv kinv obj held ?d" using inv by simp
  note st = dispatch_refines [OF i rq reset_ok(1) dp]
  have "resp' = resp1" "\<exists>st. d' = d1\<lparr>d_stats := st\<rparr>"
    using h dp by (auto simp: serve_request_def Let_def split: option.splits if_splits
      intro: exI [of _ "d_stats d1"])
  then show "daemon_inv kinv obj held d'"
    "filter_step req (abs_filters obj held d) (resp_ok resp') (abs_filters obj held d')"
    using st by auto
qed

lemma serve_keeps:
  assumes "daemon_inv kinv obj held d" "\<forall>(resp, req)\<in>set evs. request_ok req \<and> \<not> drops req name"
    and "abs_filters obj held d name = Some D" "serve E cfg evs d = (rs, d')"
  shows "daemon_inv kinv obj held d' \<and> (\<exists>D'. abs_filters obj held d' name = Some D' \<and> D \<subseteq> D')"
  using assms
proof (induction evs arbitrary: d D rs)
  case Nil
  then show ?case by auto
next
  case (Cons ev evs)
  obtain resp req where ev: "ev = (resp, req)" by fastforce
  obtain r1 resp1 d1 where s: "serve_request E cfg resp req d = (r1, resp1, d1)"
    using prod_cases3 by blast
  obtain rs2 d2 where t: "serve E cfg evs d1 = (rs2, d2)" by fastforce
  have d2: "d2 = d'" using Cons.prems(4) ev s t by simp
  have rq: "request_ok req" "\<not> drops req name" using Cons.prems(2) ev by auto
  note st = serve_request_refines [OF Cons.prems(1) rq(1) s]
  from filter_step_keeps [OF st(2) Cons.prems(3) rq(2)] obtain D1 where
    D1: "abs_filters obj held d1 name = Some D1" "D \<subseteq> D1" by blast
  have "\<forall>(resp, req)\<in>set evs. request_ok req \<and> \<not> drops req name" using Cons.prems(2) by auto
  from Cons.IH [OF st(1) this D1(1) t [unfolded d2]] show ?case using D1(2) by auto
qed

lemma check_answers:
  assumes inv: "daemon_inv kinv obj held d" and rq: "request_ok req" "rq_op req = Some OP_CHECK"
    and p: "bloomd_parse_name_payload req = Inr (name, p)"
    and D: "abs_filters obj held d name = Some D" "bloomd_digest_payload p \<in> D"
    and h: "serve_request E cfg resp req d = (r, resp', d')" and ok: "resp_ok resp'"
  shows "buf_data (rbody resp') = [1]"
proof -
  let ?d = "d\<lparr>d_stats := (d_stats d)\<lparr>requests := requests (d_stats d) + 1\<rparr>\<rparr>"
  let ?resp = "bloomd_response_reset resp (opcode (rq_header req)) (request_id (rq_header req))"
  obtain r1 resp1 d1 where hc:
    "bloomd_handle_add_check E False (log_sync_mode cfg) req ?resp ?d = (r1, resp1, d1)"
    using prod_cases3 by blast
  then have op: "dispatch_op E cfg req ?resp ?d = (r1, resp1, d1)" using rq(2) by (simp add: dispatch_op_def)
  have "resp' = resp1 \<and> r1 = None"
    using h ok op by (auto simp: serve_request_def bloomd_dispatch_def Let_def resp_ok_def
      split: option.splits if_splits prod.splits dest!: respond_error_frame)
  then show ?thesis
    using handle_check_refines(2) [OF _ rq hc, of name p D] inv p D ok by simp
qed

end

section \<open>No false negatives\<close>

text \<open>
  C1. The contract of the daemon: no false negatives. Take any kernel that behaves as \<open>bpf(2)\<close>
  documents, any good state of the daemon and any pattern of failures of files and kernel. Once an
  ADD of a payload to a filter was answered with success, and after any run of further requests by
  any clients among which none drops that filter, a CHECK of the payload that is answered with
  success is answered with the single byte 1.
\<close>

theorem add_then_check_never_absent:
  assumes kernel: "bpf_kernel E kinv obj held pinned"
    and inv: "daemon_inv kinv obj held d"
    and add: "request_ok add_req" "rq_op add_req = Some OP_ADD"
      "bloomd_parse_name_payload add_req = Inr (name, p)"
      "serve_request E cfg resp1 add_req d = (r1, resp1', d1)" "resp_ok resp1'"
    and run: "\<forall>(resp, req)\<in>set evs. request_ok req \<and> \<not> drops req name"
      "serve E cfg evs d1 = (rs, d2)"
    and check: "request_ok chk_req" "rq_op chk_req = Some OP_CHECK"
      "bloomd_parse_name_payload chk_req = Inr (name, p)"
      "serve_request E cfg resp2 chk_req d2 = (r2, resp2', d3)" "resp_ok resp2'"
  shows "buf_data (rbody resp2') = [1]"
proof -
  note k = bpf_kernel.serve_request_refines [OF kernel]
  note st = k [OF inv add(1,4)]
  from filter_step_added [OF st(2) [unfolded eqTrueI [OF add(5)]] add(2,3)] obtain D where
    D: "abs_filters obj held d1 name = Some D" "bloomd_digest_payload p \<in> D" by blast
  from bpf_kernel.serve_keeps [OF kernel st(1) run(1) D(1) run(2)] obtain D' where
    D': "daemon_inv kinv obj held d2" "abs_filters obj held d2 name = Some D'" "D \<subseteq> D'" by blast
  show ?thesis
    using D(2) D'(3)
    by (intro bpf_kernel.check_answers [OF kernel D'(1) check(1-3) D'(2) _ check(4,5)]) auto
qed

text \<open>
  C4. Refinement: whatever fails on the way, serving one request takes the daemon from a good state
  to a good state, and what it does to the filters is a step of the specification: a request
  answered with an error changed nothing, except that an ADD or a prefix of the items of a MADD may
  have been added; CREATE answered with success created an empty filter under a free name, DROP
  removed exactly the named filter, ADD and MADD added exactly their digests, and the queries
  changed nothing.
\<close>

theorem serve_request_refines_spec:
  assumes "bpf_kernel E kinv obj held pinned" "daemon_inv kinv obj held d" "request_ok req"
    "serve_request E cfg resp req d = (r, resp', d')"
  shows "daemon_inv kinv obj held d' \<and>
    filter_step req (abs_filters obj held d) (resp_ok resp') (abs_filters obj held d')"
  using bpf_kernel.serve_request_refines [OF assms] by simp

section \<open>A run on the mock kernel\<close>

lemma sample_inv: "daemon_inv mock_inv mock_fds mock_held sample_daemon"
  by (auto simp: daemon_inv_def sample_daemon_def sample_kern_def sample_filter_def sample_meta_def
    mock_inv_def mock_held_def world_ok_def set_ok_def names_def lookup_def flt_map_def sample_valid
    bloomd_empty_pool_def)

lemma sample_find:
  assumes "f_name f = ''users''"
  shows "bloomd_filter_set_find_n \<lparr>items = [f], set_cap = c, last_index = k\<rparr> ''users'' =
    (Some 0, \<lparr>items = [f], set_cap = c, last_index = 0\<rparr>)"
proof -
  have "name_matches f ''users''" using name_matches_iff [of f "''users''"] assms sample_valid by simp
  then show ?thesis by (simp add: bloomd_filter_set_find_n_def)
qed

lemmas sample_defs = serve_request_def bloomd_dispatch_def dispatch_op_def bloomd_handle_add_check_def
  add_prepare_def bloomd_ensure_filter_durable_def bloomd_mark_filter_log_dirty_def add_staged_def
  bloomd_stage_digest_for_add_def bloomd_log_buffer_append_def log_consts bpf_call_defs
  mock_map_by_fd_def mock_map_add_def mock_map_has_def bloomd_commit_staged_digest_def
  bloomd_send_bool_def bloomd_buffer_append_def bloomd_buffer_reserve_def protocol_consts
  bloomd_response_reset_def put_filter_def set_item_def bloomd_config_defaults_def

lemmas sample_eval = sample_defs sample_daemon_def sample_filter_def sample_meta_def
  sample_kern_def bloomd_response_init_def bloomd_buffer_init_def Let_def MOCK_MAX_DIGESTS_def
  resp_ok_def

lemma sample_op: "rq_op (sample_request op) = Some op" "request_id (rq_header (sample_request op)) = 7"
  by (simp_all add: sample_request_def)

text \<open>ADD \<open>abc\<close> to \<open>users\<close>, ADD it once more, CHECK it.\<close>

abbreviation sample_serve :: "bloomd_opcode \<Rightarrow> mock daemon \<Rightarrow> rc \<times> bloomd_response \<times> mock daemon" where
  "sample_serve op d \<equiv>
     serve_request mock_env bloomd_config_defaults (bloomd_response_init 0 0) (sample_request op) d"

lemma sample_run_ok:
  "resp_ok (fst (snd (sample_serve OP_ADD sample_daemon)))"
  "resp_ok (fst (snd (sample_serve OP_CHECK
     (snd (serve mock_env bloomd_config_defaults [(bloomd_response_init 0 0, sample_request OP_ADD)]
        (snd (snd (sample_serve OP_ADD sample_daemon))))))))"
  by (simp_all add: sample_eval sample_op sample_parse sample_find)

lemma triple_eq: "x = (fst x, fst (snd x), snd (snd x))"
  by simp

theorem add_then_check_never_absent_witness:
  "buf_data (rbody (fst (snd (sample_serve OP_CHECK
     (snd (serve mock_env bloomd_config_defaults [(bloomd_response_init 0 0, sample_request OP_ADD)]
        (snd (snd (sample_serve OP_ADD sample_daemon))))))))) = [1]"
proof -
  have nd: "\<forall>(resp, req)\<in>set [(bloomd_response_init 0 0, sample_request OP_ADD)].
      request_ok req \<and> \<not> drops req ''users''"
    by (simp add: sample_request_ok drops_def sample_op)
  show ?thesis
    by (rule add_then_check_never_absent [OF mk.bpf_kernel_axioms sample_inv sample_request_ok
        sample_op(1) sample_parse triple_eq sample_run_ok(1) nd prod.collapse [symmetric]
        sample_request_ok sample_op(1) sample_parse triple_eq sample_run_ok(2)])
qed

theorem serve_request_refines_spec_witness:
  "filter_step (sample_request OP_ADD) (abs_filters mock_fds mock_held sample_daemon) True
     (abs_filters mock_fds mock_held (snd (snd (sample_serve OP_ADD sample_daemon))))"
proof -
  show ?thesis
    using serve_request_refines_spec [OF mk.bpf_kernel_axioms sample_inv sample_request_ok triple_eq,
      of bloomd_config_defaults "bloomd_response_init 0 0" OP_ADD] sample_run_ok(1) by simp
qed

section \<open>Batches are checked before anything is done\<close>

text \<open>
  C38. A MADD whose items are malformed, or followed by stray bytes, is refused with no effect at
  all: no file, no kernel object, no filter and no pool entry changes (only the lookup cache may),
  because every item is parsed before the first one is staged.
\<close>

theorem madd_checks_every_item_first:
  assumes "bloomd_parse_batch req = Inr (name, count, its)"
    "scan_payloads (unat count) its \<noteq> Inr []"
    "bloomd_handle_batch E True mode req resp d = (r, resp', d')"
  shows "\<not> resp_ok resp' \<and> d_world d' = d_world d \<and> items (d_set d') = items (d_set d) \<and>
    d_pool d' = d_pool d \<and> d_stats d' = d_stats d"
proof -
  obtain ri s where f: "bloomd_filter_set_find_n (d_set d) name = (ri, s)" by fastforce
  then have "items s = items (d_set d)"
    by (auto simp: bloomd_filter_set_find_n_def split: if_splits option.splits)
  moreover have "\<not> resp_ok resp' \<and> d' = d\<lparr>d_set := s\<rparr>"
    using assms f by (auto simp: bloomd_handle_batch_def Let_def
      split: option.splits sum.splits if_splits dest!: respond_error_frame)
  ultimately show ?thesis by simp
qed

definition stray_batch :: bloomd_request_view where
  "stray_batch = \<lparr>rq_header = \<lparr>magic = BLOOMD_PROTOCOL_MAGIC, version = 1, opcode = 5, flags = 0,
     status = 0, request_id = 9, body_len = 19\<rparr>,
     rq_body = [5, 0, 1, 0, 0, 0, 0, 0, 0x75, 0x73, 0x65, 0x72, 0x73, 1, 0, 0, 0, 0x61, 0xFF]\<rparr>"

lemma stray_parse: "bloomd_parse_batch stray_batch = Inr (''users'', 1, [1, 0, 0, 0, 0x61, 0xFF])"
  "scan_payloads (Suc 0) [1, 0, 0, 0, 0x61, 0xFF] = Inr [0xFF]"
proof -
  have v: "bloomd_name_view_is_valid [0x75, 0x73, 0x65, 0x72, 0x73, 1, 0, 0, 0, 0x61, 0xFF] 5 = None"
    "string_of_bytes [0x75, 0x73, 0x65, 0x72, 0x73] = ''users''" by code_simp+
  show "bloomd_parse_batch stray_batch = Inr (''users'', 1, [1, 0, 0, 0, 0x61, 0xFF])"
    using v by (simp add: bloomd_parse_batch_def stray_batch_def batch_request_of_def
      bloomd_load_u16_def bloomd_load_u32_def protocol_consts Let_def)
  show "scan_payloads (Suc 0) [1, 0, 0, 0, 0x61, 0xFF] = Inr [0xFF]"
    by (simp add: bloomd_protocol_read_payload_def bloomd_load_u32_def protocol_consts Let_def)
qed

theorem madd_checks_every_item_first_witness:
  "\<not> resp_ok (fst (snd (bloomd_handle_batch mock_env True LOG_SYNC_ALWAYS stray_batch
     (bloomd_response_init 5 9) sample_daemon)))"
  using madd_checks_every_item_first [OF stray_parse(1) _ triple_eq, of mock_env LOG_SYNC_ALWAYS
    "bloomd_response_init 5 9" sample_daemon] stray_parse(2) by simp

end
