(* ===== verification/Client.thy ===== *)
theory Client
  imports Service
begin

text \<open>
  One connection of the daemon (\<open>src/src/daemon.c\<close>, \<open>struct bloomd_client\<close> and the functions
  \<open>bloomd_client_*\<close>): the non-blocking state machine that reads a frame in pieces, serves it and
  writes the response in pieces. The socket is a script of what each \<open>read\<close> and \<open>write\<close> meets.
\<close>

section \<open>Sockets\<close>

text \<open>
  What arrives: \<open>Rx bs\<close> is a chunk of bytes (\<open>Rx []\<close> marks a moment with nothing to read, where
  \<open>read\<close> fails with \<open>EAGAIN\<close>, as it does at the end of the script), \<open>Rx_eof\<close> the end of the stream,
  \<open>Rx_fail\<close> an error. A \<open>read\<close> returns at most the rest of the current chunk. On the other side
  \<open>Tx n\<close> takes at most \<open>n\<close> bytes of one \<open>write\<close>; without an entry a \<open>write\<close> takes everything.
  \<open>sent\<close> is what the peer was sent.
\<close>

datatype rx_event = Rx "byte list" | Rx_eof | Rx_fail errno
datatype tx_event = Tx nat | Tx_fail errno

record conn =
  rx :: "rx_event list"
  tx :: "tx_event list"
  sent :: "byte list"

fun sock_read :: "nat \<Rightarrow> conn \<Rightarrow> (errno + byte list) \<times> conn" where
  "sock_read n cn =
    (case rx cn of
       [] \<Rightarrow> (Inl EAGAIN, cn)
     | Rx_fail e # r \<Rightarrow> (Inl e, cn\<lparr>rx := r\<rparr>)
     | Rx_eof # r \<Rightarrow> (Inr [], cn)
     | Rx bs # r \<Rightarrow>
         if bs = [] then (Inl EAGAIN, cn\<lparr>rx := r\<rparr>)
         else (Inr (take n bs), cn\<lparr>rx := (if length bs \<le> n then r else Rx (drop n bs) # r)\<rparr>))"

fun sock_write :: "byte list \<Rightarrow> conn \<Rightarrow> (errno + nat) \<times> conn" where
  "sock_write bs cn =
    (case tx cn of
       [] \<Rightarrow> (Inr (length bs), cn\<lparr>sent := sent cn @ bs\<rparr>)
     | Tx_fail e # t \<Rightarrow> (Inl e, cn\<lparr>tx := t\<rparr>)
     | Tx n # t \<Rightarrow> (Inr (min n (length bs)), cn\<lparr>tx := t, sent := sent cn @ take n bs\<rparr>))"

declare sock_read.simps [simp del] sock_write.simps [simp del]

section \<open>The client\<close>

datatype bloomd_client_state =
  CLIENT_EMPTY | CLIENT_READ_HEADER | CLIENT_READ_BODY | CLIENT_WRITE_RESPONSE

text \<open>
  \<open>req_header\<close> holds the first \<open>req_header_read\<close> bytes of the header being read; \<open>c_conn\<close> is the
  connection behind \<open>c_fd\<close>.
\<close>

record bloomd_client =
  c_fd :: int
  c_state :: bloomd_client_state
  last_activity_ms :: u64
  req_header :: "byte list"
  req_body :: bloomd_buffer
  c_req :: bloomd_request_view
  c_resp :: bloomd_response
  out_header :: bloomd_frame_header
  write_offset :: nat
  c_conn :: conn

definition zero_header :: bloomd_frame_header where
  "zero_header = \<lparr>magic = replicate 4 0, version = 0, opcode = 0, flags = 0, status = 0,
     request_id = 0, body_len = 0\<rparr>"

definition no_conn :: conn where
  "no_conn = \<lparr>rx = [], tx = [], sent = []\<rparr>"

text \<open>All bytes zero, except that no descriptor is \<open>-1\<close>: a slot in state \<open>EMPTY\<close>.\<close>

definition empty_client :: bloomd_client where
  "empty_client = \<lparr>c_fd = - 1, c_state = CLIENT_EMPTY, last_activity_ms = 0, req_header = [],
     req_body = bloomd_buffer_init, c_req = \<lparr>rq_header = zero_header, rq_body = []\<rparr>,
     c_resp = \<lparr>rheader = zero_header, rbody = bloomd_buffer_init\<rparr>, out_header = zero_header,
     write_offset = 0, c_conn = no_conn\<rparr>"

definition bloomd_client_reset_request :: "bloomd_client \<Rightarrow> bloomd_client" where
  "bloomd_client_reset_request client =
    client\<lparr>req_header := [], c_req := \<lparr>rq_header = zero_header, rq_body = []\<rparr>,
      req_body := (req_body client)\<lparr>buf_data := []\<rparr>, write_offset := 0,
      c_state := CLIENT_READ_HEADER\<rparr>"

definition bloomd_client_init :: "int \<Rightarrow> conn \<Rightarrow> 'k world \<Rightarrow> bloomd_client \<times> 'k world" where
  "bloomd_client_init fd cn w =
    (case bloomd_now_ms w of
       (now, w) \<Rightarrow>
         (bloomd_client_reset_request
            (empty_client\<lparr>c_fd := fd, last_activity_ms := now, req_body := bloomd_buffer_init,
               c_resp := bloomd_response_init 0 0, c_conn := cn\<rparr>), w))"

definition bloomd_client_close :: "bloomd_client \<Rightarrow> bloomd_client" where
  "bloomd_client_close client = empty_client"

definition bloomd_client_prepare_write :: "bloomd_client \<Rightarrow> bloomd_client" where
  "bloomd_client_prepare_write client =
    client\<lparr>out_header := (rheader (c_resp client))
        \<lparr>body_len := of_nat (length (buf_data (rbody (c_resp client))))\<rparr>,
      write_offset := 0, c_state := CLIENT_WRITE_RESPONSE\<rparr>"

text \<open>What the functions return: \<open>-errno\<close>, 0 or 1.\<close>

datatype io_rc = Io_err errno | Io_zero | Io_one

text \<open>
  \<open>bloomd_client_read_some\<close> for the buffer \<open>buf\<close> of which \<open>*offset\<close> bytes are filled: the result,
  the filled part, the time of the last activity, the connection and the world.
\<close>

function bloomd_client_read_some ::
  "nat \<Rightarrow> byte list \<Rightarrow> u64 \<Rightarrow> conn \<Rightarrow> 'k world \<Rightarrow> io_rc \<times> byte list \<times> u64 \<times> conn \<times> 'k world" where
  "bloomd_client_read_some want buf act cn w =
    (if length buf < want
     then (case sock_read (want - length buf) cn of
             (Inl e, cn) \<Rightarrow>
               if e = EINTR then bloomd_client_read_some want buf act cn w
               else if e = EAGAIN then (Io_zero, buf, act, cn, w)
               else (Io_err e, buf, act, cn, w)
           | (Inr got, cn) \<Rightarrow>
               if got = [] then (Io_err ECONNRESET, buf, act, cn, w)
               else (case bloomd_now_ms w of
                       (now, w) \<Rightarrow> bloomd_client_read_some want (buf @ got) now cn w))
     else (Io_one, buf, act, cn, w))"
  by pat_completeness auto
termination
proof (relation "measure (\<lambda>(want, buf, act, cn, w). want - length buf + length (rx cn))", goal_cases)
  case 1 show ?case by simp
next
  case 2
  then show ?case by (auto simp: sock_read.simps split: list.splits rx_event.splits if_splits)
next
  case 3
  then show ?case by (auto simp: sock_read.simps split: list.splits rx_event.splits if_splits)
qed

declare bloomd_client_read_some.simps [simp del]

definition dispatch_request ::
  "'k env \<Rightarrow> bloomd_config \<Rightarrow> bloomd_client \<Rightarrow> 'k daemon \<Rightarrow> io_rc \<times> bloomd_client \<times> 'k daemon" where
  "dispatch_request E cfg client d =
    (case serve_request E cfg (c_resp client) (c_req client) d of
       (Some e, resp, d) \<Rightarrow> (Io_err e, client\<lparr>c_resp := resp\<rparr>, d)
     | (None, resp, d) \<Rightarrow> (Io_zero, bloomd_client_prepare_write (client\<lparr>c_resp := resp\<rparr>), d))"

definition read_body ::
  "'k env \<Rightarrow> bloomd_config \<Rightarrow> bloomd_client \<Rightarrow> 'k daemon \<Rightarrow> io_rc \<times> bloomd_client \<times> 'k daemon" where
  "read_body E cfg client d =
    (case bloomd_client_read_some (rq_len (c_req client)) (buf_data (req_body client))
            (last_activity_ms client) (c_conn client) (d_world d) of
       (r, buf, act, cn, w) \<Rightarrow>
         let client = client\<lparr>req_body := (req_body client)\<lparr>buf_data := buf\<rparr>, last_activity_ms := act,
               c_conn := cn\<rparr>;
             d = d\<lparr>d_world := w\<rparr>
         in if r \<noteq> Io_one then (r, client, d)
            else dispatch_request E cfg
              (client\<lparr>c_req := (c_req client)\<lparr>rq_body := take (rq_len (c_req client)) buf\<rparr>\<rparr>) d)"

definition bloomd_client_drive_read ::
  "'k env \<Rightarrow> bloomd_config \<Rightarrow> bloomd_client \<Rightarrow> 'k daemon \<Rightarrow> io_rc \<times> bloomd_client \<times> 'k daemon" where
  "bloomd_client_drive_read E cfg client d =
    (if c_state client = CLIENT_READ_HEADER
     then (case bloomd_client_read_some 16 (req_header client) (last_activity_ms client)
                  (c_conn client) (d_world d) of
             (r, hdr, act, cn, w) \<Rightarrow>
               let client = client\<lparr>req_header := hdr, last_activity_ms := act, c_conn := cn\<rparr>;
                   d = d\<lparr>d_world := w\<rparr>; h = header_of_bytes hdr
               in if r \<noteq> Io_one then (r, client, d)
                  else (case bloomd_header_is_valid h of
                          Some e \<Rightarrow> (Io_err e, client, d)
                        | None \<Rightarrow>
                            let client = client\<lparr>c_req := (c_req client)\<lparr>rq_header := h\<rparr>\<rparr>
                            in if body_len h = 0
                               then dispatch_request E cfg
                                 (client\<lparr>c_req := (c_req client)\<lparr>rq_body := []\<rparr>\<rparr>) d
                               else (case bloomd_buffer_reserve (mem E) (req_body client) (unat (body_len h)) of
                                       (Some e, b) \<Rightarrow> (Io_err e, client\<lparr>req_body := b\<rparr>, d)
                                     | (None, b) \<Rightarrow>
                                         (Io_zero, client\<lparr>req_body := b\<lparr>buf_data := []\<rparr>,
                                            c_state := CLIENT_READ_BODY\<rparr>, d))))
     else if c_state client = CLIENT_READ_BODY then read_body E cfg client d
     else dispatch_request E cfg client d)"

text \<open>The bytes of the response: the outgoing header and the body.\<close>

definition out_bytes :: "bloomd_client \<Rightarrow> byte list" where
  "out_bytes client = header_bytes (out_header client) @ buf_data (rbody (c_resp client))"

text \<open>
  The loop of \<open>bloomd_client_drive_write\<close>: one \<open>write\<close> offers the rest of the header, or the rest of
  the body.
\<close>

function write_loop ::
  "byte list \<Rightarrow> byte list \<Rightarrow> nat \<Rightarrow> u64 \<Rightarrow> conn \<Rightarrow> 'k world \<Rightarrow> io_rc \<times> nat \<times> u64 \<times> conn \<times> 'k world" where
  "write_loop hdr body off act cn w =
    (if off < length hdr + length body
     then (case sock_write (if off < length hdr then drop off hdr else drop (off - length hdr) body) cn of
             (Inl e, cn) \<Rightarrow>
               if e = EINTR then write_loop hdr body off act cn w
               else if e = EAGAIN then (Io_zero, off, act, cn, w)
               else (Io_err e, off, act, cn, w)
           | (Inr wrote, cn) \<Rightarrow>
               if wrote = 0 then (Io_err EPIPE, off, act, cn, w)
               else (case bloomd_now_ms w of (now, w) \<Rightarrow> write_loop hdr body (off + wrote) now cn w))
     else (Io_one, off, act, cn, w))"
  by pat_completeness auto
termination
proof (relation "measure (\<lambda>(hdr, body, off, act, cn, w). length hdr + length body - off + length (tx cn))", goal_cases)
  case 1 show ?case by simp
next
  case 2
  then show ?case by (auto simp: sock_write.simps split: list.splits tx_event.splits)
next
  case 3
  then show ?case by (auto simp: sock_write.simps split: list.splits tx_event.splits if_splits)
qed

declare write_loop.simps [simp del]

definition bloomd_client_drive_write ::
  "bloomd_client \<Rightarrow> 'k daemon \<Rightarrow> io_rc \<times> bloomd_client \<times> 'k daemon" where
  "bloomd_client_drive_write client d =
    (case write_loop (header_bytes (out_header client)) (buf_data (rbody (c_resp client)))
            (write_offset client) (last_activity_ms client) (c_conn client) (d_world d) of
       (r, off, act, cn, w) \<Rightarrow>
         let client = client\<lparr>write_offset := off, last_activity_ms := act, c_conn := cn\<rparr>;
             d = d\<lparr>d_world := w\<rparr>
         in if r \<noteq> Io_one then (r, client, d)
            else (Io_one, bloomd_client_reset_request client,
                  d\<lparr>d_stats := (d_stats d)\<lparr>responses := responses (d_stats d) + 1\<rparr>\<rparr>))"

section \<open>Responses belong to their requests\<close>

text \<open>
  \<open>answers resp x\<close>: the handler result \<open>x\<close> has the header of \<open>resp\<close> but for the flags and the
  status, and a body that respects the limits of a frame.
\<close>

definition answers :: "bloomd_response \<Rightarrow> 'k handled \<Rightarrow> bool" where
  "answers resp x \<longleftrightarrow>
     (\<exists>fl st. rheader (fst (snd x)) = (rheader resp)\<lparr>flags := fl, status := st\<rparr>) \<and>
     (buffer_ok (rbody resp) \<longrightarrow> buffer_ok (rbody (fst (snd x))))"

lemma header_same: "\<exists>fl st. rheader resp = (rheader resp)\<lparr>flags := fl, status := st\<rparr>"
  by (rule exI [of _ "flags (rheader resp)"], rule exI [of _ "status (rheader resp)"]) simp

lemma buffer_ok_empty [simp]: "buffer_ok (b\<lparr>buf_data := []\<rparr>)"
  by (simp add: buffer_ok_def)

lemma buffer_append_keeps: "buffer_ok b \<Longrightarrow> buffer_ok (snd (bloomd_buffer_append alloc b data))"
  by (cases "bloomd_buffer_append alloc b data") (auto elim: buffer_append_cases)

lemma append_all_keeps: "buffer_ok b \<Longrightarrow> buffer_ok (snd (append_all alloc xs r b))"
proof (induction xs arbitrary: r b)
  case (Cons x xs)
  then show ?case using buffer_append_keeps [of b alloc x] by (auto split: prod.splits)
qed simp

lemma list_names_keeps: "buffer_ok b \<Longrightarrow> buffer_ok (snd (list_names alloc fs b))"
proof (induction fs arbitrary: b)
  case (Cons f fs)
  have a: "buffer_ok b'" if "bloomd_buffer_append alloc b x = (r, b')" "buffer_ok b" for b x r b'
    using buffer_append_keeps [of b alloc x] that by simp
  show ?case
    using Cons by (auto simp: Let_def bloomd_buffer_append_u16_def split: prod.splits option.splits
      dest!: a intro!: Cons.IH)
qed simp

lemma answers_error [simp]: "answers resp (respond_error E st code msg resp d)"
proof -
  have a: "buffer_ok b \<Longrightarrow> bloomd_buffer_append alloc b x = (r, b') \<Longrightarrow> buffer_ok b'" for alloc b x r b'
    using buffer_append_keeps [of b alloc x] by simp
  have a0: "bloomd_buffer_append alloc (b\<lparr>buf_data := []\<rparr>) x = (r, b') \<Longrightarrow> buffer_ok b'" for alloc b x r b'
    using a [OF buffer_ok_empty] by blast
  show ?thesis
    by (auto simp: answers_def respond_error_def bloomd_response_error_def bloomd_buffer_append_u32_def Let_def
      split: prod.splits option.splits dest: a0 a)
qed

lemma answers_none [simp]: "answers resp (r, resp, d)"
  by (simp add: answers_def header_same)

lemma answers_send [simp]:
  "answers resp (bloomd_send_bool E v resp d)" "answers resp (bloomd_send_u32_count_bytes E c vs resp d)"
  "answers resp (respond_all E xs resp d)" "answers resp (bloomd_handle_ping E resp d)"
  "answers resp (bloomd_handle_list E resp d)" "answers resp (bloomd_handle_stats E resp d)"
proof -
  have a: "buffer_ok b \<Longrightarrow> bloomd_buffer_append alloc b x = (r, b') \<Longrightarrow> buffer_ok b'" for alloc b x r b'
    using buffer_append_keeps [of b alloc x] by simp
  have l: "buffer_ok b \<Longrightarrow> list_names alloc x b = (r, b') \<Longrightarrow> buffer_ok b'" for alloc b x r b'
    using list_names_keeps [of b alloc x] by simp
  show "answers resp (bloomd_send_bool E v resp d)" "answers resp (bloomd_handle_ping E resp d)"
    "answers resp (bloomd_send_u32_count_bytes E c vs resp d)" "answers resp (bloomd_handle_list E resp d)"
    by (auto simp: answers_def header_same bloomd_send_bool_def bloomd_handle_ping_def bloomd_send_u32_count_bytes_def
      bloomd_handle_list_def bloomd_buffer_append_str_def bloomd_buffer_append_u16_def bloomd_buffer_append_u32_def
      split: prod.splits option.splits dest: a l)
  show r: "answers resp (respond_all E xs resp d)" for xs
    using append_all_keeps [of "rbody resp" "mem E" xs None]
    by (auto simp: answers_def header_same respond_all_def split: prod.splits)
  show "answers resp (bloomd_handle_stats E resp d)"
    by (auto simp: bloomd_handle_stats_def Let_def r split: prod.splits)
qed

lemma answers_finish: "answers resp (create_finish E f resp d)"
  by (auto simp: create_finish_def Let_def split: prod.splits option.splits)

lemma answers_create: "answers resp (bloomd_handle_create E cfg req resp d)"
proof -
  have w: "answers resp (create_with_map E m resp d)" for m d
    by (auto simp: create_with_map_def Let_def answers_finish split: prod.splits sum.splits)
  show ?thesis
    by (auto simp: bloomd_handle_create_def create_named_def Let_def w split: prod.splits option.splits sum.splits)
qed

lemma answers_add_check: "answers resp (bloomd_handle_add_check E a mode req resp d)"
  by (auto simp: bloomd_handle_add_check_def Let_def split: prod.splits option.splits sum.splits)

lemma answers_batch: "answers resp (bloomd_handle_batch E a mode req resp d)"
proof -
  have r: "answers resp (batch_run E a mode m c its i f w resp d)" for a m c its i f w d
    by (auto simp: batch_run_def split: prod.splits sum.splits)
  show ?thesis
    by (auto simp: bloomd_handle_batch_def Let_def r split: prod.splits option.splits sum.splits)
qed

lemma answers_info_drop:
  "answers resp (bloomd_handle_info E req resp d)" "answers resp (bloomd_handle_drop E req resp d)"
  by (auto simp: bloomd_handle_info_def bloomd_handle_drop_def Let_def split: prod.splits option.splits sum.splits)

lemma answers_dispatch: "answers resp (bloomd_dispatch E cfg req resp d)"
proof -
  obtain r resp1 d1 where o: "dispatch_op E cfg req resp d = (r, resp1, d1)" using prod_cases3 by blast
  have a: "answers resp (dispatch_op E cfg req resp d)"
    by (simp add: dispatch_op_def Let_def answers_create answers_add_check answers_batch answers_info_drop
      split: option.splits bloomd_opcode.splits)
  then have a1: "answers resp (r, resp1, d1)" using o by simp
  have "answers resp1 (respond_error E st code msg resp1 d1)" for st code msg by simp
  with a1 have "answers resp (respond_error E st code msg resp1 d1)" for st code msg
    by (auto simp: answers_def)
  then show ?thesis using a1 o by (auto simp: bloomd_dispatch_def answers_def)
qed

lemma serve_answers:
  assumes "serve_request E cfg resp req d = (r, resp', d')"
  shows "opcode (rheader resp') = opcode (rq_header req)" "request_id (rheader resp') = request_id (rq_header req)"
    "magic (rheader resp') = BLOOMD_PROTOCOL_MAGIC" "version (rheader resp') = 1" "buffer_ok (rbody resp')"
proof -
  let ?d = "d\<lparr>d_stats := (d_stats d)\<lparr>requests := requests (d_stats d) + 1\<rparr>\<rparr>"
  let ?resp = "bloomd_response_reset resp (opcode (rq_header req)) (request_id (rq_header req))"
  have "fst (snd (bloomd_dispatch E cfg req ?resp ?d)) = resp'"
    using assms by (auto simp: serve_request_def Let_def split: prod.splits option.splits)
  moreover have "answers ?resp (bloomd_dispatch E cfg req ?resp ?d)" by (rule answers_dispatch)
  ultimately have a: "\<exists>fl st. rheader resp' = (rheader ?resp)\<lparr>flags := fl, status := st\<rparr>" "buffer_ok (rbody resp')"
    by (auto simp: answers_def bloomd_response_reset_def)
  then show "opcode (rheader resp') = opcode (rq_header req)" "request_id (rheader resp') = request_id (rq_header req)"
    "magic (rheader resp') = BLOOMD_PROTOCOL_MAGIC" "version (rheader resp') = 1" "buffer_ok (rbody resp')"
    by (auto simp: bloomd_response_reset_def)
qed

end
