(* ===== verification/Connection.thy ===== *)
theory Connection
  imports Client Samples
begin

text \<open>
  What a connection does over its life: the requests it serves are the frames of the bytes that
  arrive, however they are cut into pieces, and what it sends are the responses in that order.
\<close>

section \<open>What a connection has seen\<close>

text \<open>The bytes still to come on a connection (nothing follows the end of the stream).\<close>

fun rx_bytes :: "rx_event list \<Rightarrow> byte list" where
  "rx_bytes [] = []"
| "rx_bytes (Rx bs # r) = bs @ rx_bytes r"
| "rx_bytes (Rx_eof # r) = []"
| "rx_bytes (Rx_fail e # r) = rx_bytes r"

lemma sock_read_cases:
  assumes "sock_read n cn = (r, cn')"
  shows "tx cn' = tx cn" "sent cn' = sent cn"
    "rx_bytes (rx cn) = (case r of Inl _ \<Rightarrow> [] | Inr got \<Rightarrow> got) @ rx_bytes (rx cn')"
    "r = Inr got \<Longrightarrow> length got \<le> n"
  using assms by (auto simp: sock_read.simps split: list.splits rx_event.splits if_splits)

lemma read_some_spec:
  assumes "bloomd_client_read_some want buf act cn w = (r, buf', act', cn', w')" "length buf \<le> want"
  shows "tx cn' = tx cn \<and> sent cn' = sent cn \<and> quiet w w' \<and> length buf' \<le> want \<and>
    (r = Io_one \<longleftrightarrow> length buf' = want) \<and>
    (\<exists>bs. buf' = buf @ bs \<and> rx_bytes (rx cn) = bs @ rx_bytes (rx cn'))"
  using assms
proof (induction want buf act cn w rule: bloomd_client_read_some.induct)
  case (1 want buf act cn w)
  note unf = bloomd_client_read_some.simps [of want buf act cn w]
  show ?case
  proof (cases "length buf < want")
    case False
    then show ?thesis using "1.prems" unfolding unf by auto
  next
    case less: True
    obtain r1 cn1 where rd: "sock_read (want - length buf) cn = (r1, cn1)" by fastforce
    note s = sock_read_cases [OF rd]
    show ?thesis
    proof (cases r1)
      case (Inl e)
      show ?thesis
      proof (cases "e = EINTR")
        case True
        then have "bloomd_client_read_some want buf act cn1 w = (r, buf', act', cn', w')"
          using "1.prems"(1) less rd Inl unfolding unf by simp
        from "1.IH"(1) [OF less rd [symmetric] Inl True this "1.prems"(2)] show ?thesis using s(1-3) Inl by simp
      next
        case False
        then have "buf' = buf" "cn' = cn1" "w' = w" "r \<noteq> Io_one"
          using "1.prems"(1) less rd Inl unfolding unf by (auto split: if_splits)
        then show ?thesis using s(1-3) Inl less by auto
      qed
    next
      case (Inr got)
      show ?thesis
      proof (cases "got = []")
        case True
        then have "buf' = buf" "cn' = cn1" "w' = w" "r \<noteq> Io_one"
          using "1.prems"(1) less rd Inr unfolding unf by auto
        then show ?thesis using s(1-3) Inr True less by auto
      next
        case False
        obtain now w1 where n: "bloomd_now_ms w = (now, w1)" by fastforce
        have "bloomd_client_read_some want (buf @ got) now cn1 w1 = (r, buf', act', cn', w')"
          using "1.prems"(1) less rd Inr False n unfolding unf by simp
        moreover have "length (buf @ got) \<le> want" using s(4) [OF Inr] less by simp
        ultimately show ?thesis
          using "1.IH"(2) [OF less rd [symmetric] Inr False n [symmetric]] s Inr quiet_trans [OF quiet_sys(7) [OF n]]
          by auto
      qed
    qed
  qed
qed

lemma take_drop_split: "n \<le> k \<Longrightarrow> take k (drop i xs) = take n (drop i xs) @ take (k - n) (drop (i + n) xs)"
  using take_add [of n "k - n" "drop i xs"] by (simp add: add.commute)

lemma sock_write_cases:
  assumes "sock_write bs cn = (r, cn')"
  shows "rx cn' = rx cn" "sent cn' = sent cn @ take (case r of Inl _ \<Rightarrow> 0 | Inr n \<Rightarrow> n) bs"
    "r = Inr n \<Longrightarrow> n \<le> length bs"
  using assms by (auto simp: sock_write.simps min_def split: list.splits tx_event.splits)

text \<open>What a write of \<open>n\<close> bytes and the rest of the loop send together.\<close>

lemma sent_together:
  assumes "take n data = take n (drop off msg)" "off + n \<le> off'" "sent cn1 = sent cn @ take n data"
    "sent cn' = sent cn1 @ take (off' - (off + n)) (drop (off + n) msg)"
  shows "sent cn' = sent cn @ take (off' - off) (drop off msg)"
proof -
  have "n \<le> off' - off" using assms(2) by arith
  from take_drop_split [OF this, of off msg] show ?thesis using assms by (metis append.assoc diff_diff_left)
qed

lemma write_loop_spec:
  assumes "write_loop hdr body off act cn w = (r, off', act', cn', w')" "off \<le> length (hdr @ body)"
  shows "rx cn' = rx cn \<and> quiet w w' \<and> off \<le> off' \<and> off' \<le> length (hdr @ body) \<and>
    (r = Io_one \<longleftrightarrow> off' = length (hdr @ body)) \<and>
    sent cn' = sent cn @ take (off' - off) (drop off (hdr @ body))"
  using assms
proof (induction hdr body off act cn w rule: write_loop.induct)
  case (1 hdr body off act cn w)
  note unf = write_loop.simps [of hdr body off act cn w]
  let ?data = "if off < length hdr then drop off hdr else drop (off - length hdr) body"
  show ?case
  proof (cases "off < length hdr + length body")
    case False
    then show ?thesis using "1.prems" unfolding unf by auto
  next
    case less: True
    obtain r1 cn1 where wr: "sock_write ?data cn = (r1, cn1)" by fastforce
    note s = sock_write_cases [OF wr]
    show ?thesis
    proof (cases r1)
      case (Inl e)
      show ?thesis
      proof (cases "e = EINTR")
        case True
        then have "write_loop hdr body off act cn1 w = (r, off', act', cn', w')"
          using "1.prems"(1) less wr Inl unfolding unf by simp
        from "1.IH"(1) [OF less wr [symmetric] Inl True this "1.prems"(2)] show ?thesis using s(1,2) Inl by simp
      next
        case False
        then have "off' = off" "cn' = cn1" "w' = w" "r \<noteq> Io_one"
          using "1.prems"(1) less wr Inl unfolding unf by (auto split: if_splits)
        then show ?thesis using s(1,2) Inl less by auto
      qed
    next
      case (Inr n)
      show ?thesis
      proof (cases "n = 0")
        case True
        then have "off' = off" "cn' = cn1" "w' = w" "r \<noteq> Io_one"
          using "1.prems"(1) less wr Inr unfolding unf by auto
        then show ?thesis using s(1,2) Inr True less by auto
      next
        case False
        obtain now w1 where nw: "bloomd_now_ms w = (now, w1)" by fastforce
        have n: "n \<le> length ?data" by (rule s(3) [OF Inr])
        have tk: "take n ?data = take n (drop off (hdr @ body))" using n by auto
        have "write_loop hdr body (off + n) now cn1 w1 = (r, off', act', cn', w')"
          using "1.prems"(1) less wr Inr False nw unfolding unf by simp
        moreover have le: "off + n \<le> length (hdr @ body)" using n less by (auto split: if_splits)
        ultimately have ih: "rx cn' = rx cn1 \<and> quiet w1 w' \<and> off + n \<le> off' \<and> off' \<le> length (hdr @ body) \<and>
            (r = Io_one \<longleftrightarrow> off' = length (hdr @ body)) \<and>
            sent cn' = sent cn1 @ take (off' - (off + n)) (drop (off + n) (hdr @ body))"
          by (rule "1.IH"(2) [OF less wr [symmetric] Inr False nw [symmetric]])
        have "sent cn' = sent cn @ take (off' - off) (drop off (hdr @ body))"
          using sent_together [OF tk, of off' cn1 cn cn'] s(2) Inr ih by simp
        moreover have "quiet w w'" using ih quiet_trans [OF quiet_sys(7) [OF nw]] by blast
        ultimately show ?thesis using ih s(1) by (metis add_leD1)
      qed
    qed
  qed
qed


section \<open>Frames of a byte stream\<close>

definition request_bytes :: "bloomd_request_view \<Rightarrow> byte list" where
  "request_bytes req = header_bytes (rq_header req) @ rq_body req"

definition response_bytes :: "bloomd_response \<Rightarrow> byte list" where
  "response_bytes resp =
    header_bytes ((rheader resp)\<lparr>body_len := of_nat (length (buf_data (rbody resp)))\<rparr>) @ buf_data (rbody resp)"

text \<open>
  The complete valid requests at the front of a byte stream, as a receiver would cut them that had
  the whole stream at hand.
\<close>

function frames :: "byte list \<Rightarrow> bloomd_request_view list" where
  "frames s =
    (let h = header_of_bytes (take 16 s); n = unat (body_len h) in
     if length s < 16 \<or> bloomd_header_is_valid h \<noteq> None \<or> length s < 16 + n then []
     else \<lparr>rq_header = h, rq_body = take n (drop 16 s)\<rparr> # frames (drop (16 + n) s))"
  by pat_completeness auto
termination by (relation "measure length") auto

declare frames.simps [simp del]

lemma header_bytes_of:
  assumes "length b = 16"
  shows "header_bytes (header_of_bytes b) = b"
proof -
  have m: "take 4 b @ [b ! 4, b ! 5, b ! 6, b ! 7] @ drop 8 b = b"
  proof -
    have "drop 4 b = b ! 4 # drop 5 b" "drop 5 b = b ! 5 # drop 6 b" "drop 6 b = b ! 6 # drop 7 b"
      "drop 7 b = b ! 7 # drop 8 b"
      using Cons_nth_drop_Suc [of 4 b] Cons_nth_drop_Suc [of 5 b] Cons_nth_drop_Suc [of 6 b]
        Cons_nth_drop_Suc [of 7 b] assms by simp_all
    then show ?thesis using append_take_drop_id [of 4 b] by simp
  qed
  have "bloomd_store_u32 (bloomd_load_u32 (drop 8 b)) = take 4 (drop 8 b)"
    "bloomd_store_u32 (bloomd_load_u32 (drop 12 b)) = take 4 (drop 12 b)"
    using assms by (simp_all add: store_load)
  moreover have "take 4 (drop 8 b) @ take 4 (drop 12 b) = drop 8 b"
    using assms append_take_drop_id [of 4 "drop 8 b"] by simp
  ultimately show ?thesis using m by (simp add: header_bytes_def header_of_bytes_def)
qed

lemma header_of_bytes_header:
  assumes "length (magic h) = 4"
  shows "header_of_bytes (header_bytes h) = h"
proof -
  obtain m0 m1 m2 m3 where m: "magic h = [m0, m1, m2, m3]"
    using assms by (auto simp: numeral_eq_Suc length_Suc_conv)
  then show ?thesis by (cases h) (simp add: header_of_bytes_def header_bytes_def)
qed

lemma valid_magic: "bloomd_header_is_valid h = None \<Longrightarrow> length (magic h) = 4"
  by (auto simp: bloomd_header_is_valid_def BLOOMD_PROTOCOL_MAGIC_def split: if_splits)

lemma frames_request:
  assumes "bloomd_header_is_valid (rq_header req) = None" "request_ok req"
  shows "frames (request_bytes req @ s) = req # frames s"
proof -
  note l = length_header_bytes [OF valid_magic [OF assms(1)]]
  have t: "take 16 (request_bytes req @ s) = header_bytes (rq_header req)"
    "drop 16 (request_bytes req @ s) = rq_body req @ s"
    by (simp_all add: request_bytes_def l)
  have h: "header_of_bytes (header_bytes (rq_header req)) = rq_header req"
    by (rule header_of_bytes_header [OF valid_magic [OF assms(1)]])
  have d: "drop (16 + rq_len req) (request_bytes req @ s) = s"
    using assms(2) l by (simp add: request_bytes_def request_ok_def)
  have len: "16 + rq_len req \<le> length (request_bytes req @ s)"
    using assms(2) l by (simp add: request_bytes_def request_ok_def)
  show ?thesis
    using assms len
    unfolding frames.simps [of "request_bytes req @ s"] Let_def t h d by (simp add: request_ok_def)
qed

lemma frames_requests:
  assumes "\<forall>req\<in>set reqs. bloomd_header_is_valid (rq_header req) = None \<and> request_ok req"
  shows "frames (concat (map request_bytes reqs) @ s) = reqs @ frames s"
  using assms by (induction reqs) (simp_all add: frames_request)


section \<open>The life of a connection\<close>

text \<open>
  \<open>client_run s c hist\<close>: a connection on which the peer sends the bytes \<open>s\<close> reached the state \<open>c\<close>
  after serving the requests of \<open>hist\<close>, each with its response. Between two steps the daemon may
  have done anything, such as serving other connections: its state is arbitrary in every step.
\<close>

inductive client_run ::
  "'k env \<Rightarrow> bloomd_config \<Rightarrow> byte list \<Rightarrow> bloomd_client \<Rightarrow> (bloomd_request_view \<times> bloomd_response) list \<Rightarrow> bool"
  for E cfg where
  accepted: "bloomd_client_init fd cn (w :: 'k world) = (c, w') \<Longrightarrow> sent cn = [] \<Longrightarrow>
    client_run E cfg (rx_bytes (rx cn)) c []"
| read_step: "client_run E cfg s c hist \<Longrightarrow> c_state c \<noteq> CLIENT_WRITE_RESPONSE \<Longrightarrow>
    bloomd_client_drive_read E cfg c d = (Io_zero, c', d') \<Longrightarrow>
    client_run E cfg s c'
      (if c_state c' = CLIENT_WRITE_RESPONSE then hist @ [(c_req c', c_resp c')] else hist)"
| write_step: "client_run E cfg s c hist \<Longrightarrow> c_state c = CLIENT_WRITE_RESPONSE \<Longrightarrow>
    bloomd_client_drive_write c (d :: 'k daemon) = (r, c', d') \<Longrightarrow> r = Io_zero \<or> r = Io_one \<Longrightarrow>
    client_run E cfg s c' hist"

text \<open>The bytes of a frame that is not complete yet.\<close>

definition partial_frame :: "bloomd_client \<Rightarrow> byte list" where
  "partial_frame c =
    (case c_state c of
       CLIENT_READ_HEADER \<Rightarrow> req_header c
     | CLIENT_READ_BODY \<Rightarrow> header_bytes (rq_header (c_req c)) @ buf_data (req_body c)
     | _ \<Rightarrow> [])"

definition answered :: "bloomd_request_view \<times> bloomd_response \<Rightarrow> bool" where
  "answered = (\<lambda>(req, resp). bloomd_header_is_valid (rq_header req) = None \<and> request_ok req \<and>
     bloomd_header_is_valid (rheader resp\<lparr>body_len := of_nat (length (buf_data (rbody resp)))\<rparr>) = None \<and>
     opcode (rheader resp) = opcode (rq_header req) \<and> request_id (rheader resp) = request_id (rq_header req))"

text \<open>The state of a connection between two steps.\<close>

definition client_ok :: "bloomd_client \<Rightarrow> bool" where
  "client_ok c \<longleftrightarrow>
    (case c_state c of
       CLIENT_EMPTY \<Rightarrow> True
     | CLIENT_READ_HEADER \<Rightarrow> length (req_header c) < 16
     | CLIENT_READ_BODY \<Rightarrow> bloomd_header_is_valid (rq_header (c_req c)) = None \<and>
         length (buf_data (req_body c)) < rq_len (c_req c) \<and> rq_len (c_req c) \<le> buf_cap (req_body c)
     | CLIENT_WRITE_RESPONSE \<Rightarrow> answered (c_req c, c_resp c) \<and>
         out_bytes c = response_bytes (c_resp c) \<and> write_offset c < length (out_bytes c))"

lemma serve_answered:
  assumes "serve_request E cfg resp req d = (r, resp', d')" "bloomd_header_is_valid (rq_header req) = None"
    "request_ok req"
  shows "answered (req, resp')"
proof -
  note a = serve_answers [OF assms(1)]
  have "length (buf_data (rbody resp')) \<le> BLOOMD_MAX_FRAME_BODY" using a(5) by (simp add: buffer_ok_def)
  moreover from this have "unat (of_nat (length (buf_data (rbody resp'))) :: u32) = length (buf_data (rbody resp'))"
    by (simp add: unat_of_nat protocol_consts)
  ultimately show ?thesis
    using a assms(2,3) by (simp add: answered_def bloomd_header_is_valid_def)
qed

lemma dispatch_request_ok:
  assumes "dispatch_request E cfg c d = (Io_zero, c', d')"
    "bloomd_header_is_valid (rq_header (c_req c)) = None" "request_ok (c_req c)"
  shows "c_state c' = CLIENT_WRITE_RESPONSE \<and> c_req c' = c_req c \<and> c_conn c' = c_conn c \<and>
    write_offset c' = 0 \<and> client_ok c'"
proof -
  obtain r resp d1 where s: "serve_request E cfg (c_resp c) (c_req c) d = (r, resp, d1)" using prod_cases3 by blast
  then have r: "r = None" "c' = bloomd_client_prepare_write (c\<lparr>c_resp := resp\<rparr>)"
    using assms(1) by (auto simp: dispatch_request_def split: option.splits)
  have "length (header_bytes (rheader resp\<lparr>body_len := x\<rparr>)) = 16" for x
    using serve_answers(3) [OF s] by (simp add: header_bytes_def BLOOMD_PROTOCOL_MAGIC_def)
  then show ?thesis
    using serve_answered [OF s assms(2,3)]
    by (simp add: r(2) bloomd_client_prepare_write_def client_ok_def out_bytes_def response_bytes_def)
qed


definition read_progress :: "bloomd_client \<Rightarrow> bloomd_client \<Rightarrow> bool" where
  "read_progress c c' \<longleftrightarrow> client_ok c' \<and> c_state c' \<noteq> CLIENT_EMPTY \<and> sent (c_conn c') = sent (c_conn c) \<and>
     partial_frame c @ rx_bytes (rx (c_conn c)) =
       (if c_state c' = CLIENT_WRITE_RESPONSE then request_bytes (c_req c') else partial_frame c') @
       rx_bytes (rx (c_conn c')) \<and>
     (c_state c' = CLIENT_WRITE_RESPONSE \<longrightarrow> write_offset c' = 0)"

lemma read_body_step:
  assumes h: "read_body E cfg c d = (Io_zero, c', d')" and ok: "client_ok c"
    and st: "c_state c = CLIENT_READ_BODY"
  shows "read_progress c c'"
proof -
  obtain r buf act cn w where rs: "bloomd_client_read_some (rq_len (c_req c)) (buf_data (req_body c))
      (last_activity_ms c) (c_conn c) (d_world d) = (r, buf, act, cn, w)" using prod_cases5 by blast
  have le: "bloomd_header_is_valid (rq_header (c_req c)) = None" "length (buf_data (req_body c)) < rq_len (c_req c)"
    "rq_len (c_req c) \<le> buf_cap (req_body c)"
    using ok st by (simp_all add: client_ok_def)
  note s = read_some_spec [OF rs less_imp_le [OF le(2)]]
  then obtain bs where bs: "buf = buf_data (req_body c) @ bs" "rx_bytes (rx (c_conn c)) = bs @ rx_bytes (rx cn)"
    by blast
  let ?c = "c\<lparr>req_body := (req_body c)\<lparr>buf_data := buf\<rparr>, last_activity_ms := act, c_conn := cn\<rparr>"
  show ?thesis
  proof (cases "r = Io_one")
    case False
    then have "c' = ?c" using h rs by (simp add: read_body_def Let_def)
    then show ?thesis
      using False s bs st le by (auto simp: read_progress_def client_ok_def partial_frame_def)
  next
    case True
    let ?q = "(c_req c)\<lparr>rq_body := take (rq_len (c_req c)) buf\<rparr>"
    have "dispatch_request E cfg (?c\<lparr>c_req := ?q\<rparr>) (d\<lparr>d_world := w\<rparr>) = (Io_zero, c', d')"
      using h rs True by (simp add: read_body_def Let_def)
    moreover have "request_ok ?q" "rq_body ?q = buf" using True s by (simp_all add: request_ok_def)
    ultimately show ?thesis
      using dispatch_request_ok [of E cfg "?c\<lparr>c_req := ?q\<rparr>" "d\<lparr>d_world := w\<rparr>" c' d'] le(1) s bs st
      by (auto simp: read_progress_def partial_frame_def request_bytes_def)
  qed
qed

lemma drive_read_step:
  assumes h: "bloomd_client_drive_read E cfg c d = (Io_zero, c', d')" and ok: "client_ok c"
    and st: "c_state c = CLIENT_READ_HEADER \<or> c_state c = CLIENT_READ_BODY"
  shows "read_progress c c'"
  using st
proof
  assume "c_state c = CLIENT_READ_BODY"
  then show ?thesis using read_body_step [OF _ ok] h by (simp add: bloomd_client_drive_read_def)
next
  assume st: "c_state c = CLIENT_READ_HEADER"
  obtain r hdr act cn w where rs: "bloomd_client_read_some 16 (req_header c) (last_activity_ms c)
      (c_conn c) (d_world d) = (r, hdr, act, cn, w)" using prod_cases5 by blast
  have le: "length (req_header c) < 16" using ok st by (simp add: client_ok_def)
  note s = read_some_spec [OF rs less_imp_le [OF le]]
  then obtain bs where bs: "hdr = req_header c @ bs" "rx_bytes (rx (c_conn c)) = bs @ rx_bytes (rx cn)"
    by blast
  let ?h = "header_of_bytes hdr"
  let ?c = "c\<lparr>req_header := hdr, last_activity_ms := act, c_conn := cn\<rparr>"
  show ?thesis
  proof (cases "r = Io_one")
    case False
    then have "c' = ?c" using h rs st by (simp add: bloomd_client_drive_read_def Let_def)
    then show ?thesis
      using False s bs st by (auto simp: read_progress_def client_ok_def partial_frame_def)
  next
    case True
    then have l: "length hdr = 16" using s by simp
    have v: "bloomd_header_is_valid ?h = None"
      using h rs st True by (auto simp: bloomd_client_drive_read_def Let_def split: option.splits)
    show ?thesis
    proof (cases "body_len ?h = 0")
      case z: True
      let ?q = "\<lparr>rq_header = ?h, rq_body = []\<rparr>"
      have "dispatch_request E cfg (?c\<lparr>c_req := ?q\<rparr>) (d\<lparr>d_world := w\<rparr>) = (Io_zero, c', d')"
        using h rs st True v z by (simp add: bloomd_client_drive_read_def Let_def) (cases "c_req c", simp)
      from dispatch_request_ok [OF this] v z header_bytes_of [OF l] s bs st show ?thesis
        by (auto simp: read_progress_def partial_frame_def request_bytes_def request_ok_def)
    next
      case nz: False
      obtain r2 b where rv: "bloomd_buffer_reserve (mem E) (req_body c) (unat (body_len ?h)) = (r2, b)" by fastforce
      then have c': "r2 = None" "c' = ?c\<lparr>c_req := (c_req c)\<lparr>rq_header := ?h\<rparr>, req_body := b\<lparr>buf_data := []\<rparr>,
          c_state := CLIENT_READ_BODY\<rparr>"
        using h rs st True v nz by (auto simp: bloomd_client_drive_read_def Let_def split: option.splits)
      have "unat (body_len ?h) \<le> buf_cap b"
        using rv c'(1) by (auto simp: bloomd_buffer_reserve_def split: if_splits)
      then show ?thesis
        using c'(2) v nz header_bytes_of [OF l] s bs st
        by (simp add: read_progress_def client_ok_def partial_frame_def unat_gt_0)
    qed
  qed
qed

definition stream_inv ::
  "byte list \<Rightarrow> bloomd_client \<Rightarrow> (bloomd_request_view \<times> bloomd_response) list \<Rightarrow> bool" where
  "stream_inv s c hist \<longleftrightarrow> client_ok c \<and> c_state c \<noteq> CLIENT_EMPTY \<and> (\<forall>x\<in>set hist. answered x) \<and>
     s = concat (map (\<lambda>(req, _). request_bytes req) hist) @ partial_frame c @ rx_bytes (rx (c_conn c)) \<and>
     (if c_state c = CLIENT_WRITE_RESPONSE
      then \<exists>past. hist = past @ [(c_req c, c_resp c)] \<and>
        sent (c_conn c) = concat (map (\<lambda>(_, resp). response_bytes resp) past) @
          take (write_offset c) (response_bytes (c_resp c))
      else sent (c_conn c) = concat (map (\<lambda>(_, resp). response_bytes resp) hist))"


lemma stream_inv_past:
  assumes "stream_inv s c hist" "c_state c = CLIENT_WRITE_RESPONSE"
  obtains past where "hist = past @ [(c_req c, c_resp c)]"
    "sent (c_conn c) = concat (map (\<lambda>(_, resp). response_bytes resp) past) @
       take (write_offset c) (response_bytes (c_resp c))"
  using assms unfolding stream_inv_def by auto

lemma stream_inv_write:
  assumes inv: "stream_inv s c hist" and st: "c_state c = CLIENT_WRITE_RESPONSE"
    and h: "bloomd_client_drive_write c d = (r, c', d')" "r = Io_zero \<or> r = Io_one"
  shows "stream_inv s c' hist"
proof -
  let ?out = "header_bytes (out_header c) @ buf_data (rbody (c_resp c))"
  have ok: "client_ok c" using inv by (simp add: stream_inv_def)
  then have o': "out_bytes c = response_bytes (c_resp c)" "write_offset c < length (out_bytes c)"
    using st by (auto simp: client_ok_def)
  note o = o' [unfolded out_bytes_def]
  obtain past where past: "hist = past @ [(c_req c, c_resp c)]"
    "sent (c_conn c) = concat (map (\<lambda>(_, resp). response_bytes resp) past) @
       take (write_offset c) (response_bytes (c_resp c))"
    by (rule stream_inv_past [OF inv st])
  obtain r1 off act cn w where wl: "write_loop (header_bytes (out_header c)) (buf_data (rbody (c_resp c)))
      (write_offset c) (last_activity_ms c) (c_conn c) (d_world d) = (r1, off, act, cn, w)"
    using prod_cases5 by blast
  have s: "rx cn = rx (c_conn c)" "write_offset c \<le> off" "off \<le> length ?out" "r1 = Io_one \<longleftrightarrow> off = length ?out"
    "sent cn = sent (c_conn c) @ take (off - write_offset c) (drop (write_offset c) ?out)"
    using write_loop_spec [OF wl less_imp_le [OF o(2)]] by blast+
  have "take off ?out = take (write_offset c) ?out @ take (off - write_offset c) (drop (write_offset c) ?out)"
    using take_drop_split [OF s(2), of 0 ?out] by (metis drop0 add_0)
  then have sent: "sent cn = concat (map (\<lambda>(_, resp). response_bytes resp) past) @ take off (response_bytes (c_resp c))"
    using s(5) past(2) o(1) by simp
  let ?c = "c\<lparr>write_offset := off, last_activity_ms := act, c_conn := cn\<rparr>"
  show ?thesis
  proof (cases "r1 = Io_one")
    case False
    then have c': "c' = ?c" using h wl by (simp add: bloomd_client_drive_write_def Let_def)
    have "off < length ?out" using False s(3,4) by linarith
    then show ?thesis
      using inv st past(1) sent s(1) o(1)
      by (simp add: c' stream_inv_def client_ok_def partial_frame_def out_bytes_def)
  next
    case True
    then have c': "c' = bloomd_client_reset_request ?c" using h wl by (simp add: bloomd_client_drive_write_def Let_def)
    have "sent cn = concat (map (\<lambda>(_, resp). response_bytes resp) hist)"
      using sent past(1) True s(4) o(1) by simp
    then show ?thesis
      using inv st s(1)
      by (simp add: c' stream_inv_def client_ok_def partial_frame_def bloomd_client_reset_request_def)
  qed
qed

lemma stream_inv_read:
  assumes inv: "stream_inv s c hist" and st: "c_state c \<noteq> CLIENT_WRITE_RESPONSE"
    and h: "bloomd_client_drive_read E cfg c d = (Io_zero, c', d')"
  shows "stream_inv s c' (if c_state c' = CLIENT_WRITE_RESPONSE then hist @ [(c_req c', c_resp c')] else hist)"
proof -
  have "c_state c = CLIENT_READ_HEADER \<or> c_state c = CLIENT_READ_BODY"
    using inv st by (cases "c_state c") (auto simp: stream_inv_def)
  then have p: "read_progress c c'" using drive_read_step [OF h] inv by (simp add: stream_inv_def)
  then show ?thesis
    using inv st by (auto simp: stream_inv_def read_progress_def client_ok_def partial_frame_def)
qed

lemma client_run_inv: "client_run E cfg s c hist \<Longrightarrow> stream_inv s c hist"
proof (induction rule: client_run.induct)
  case (accepted fd cn w c w')
  then show ?case
    by (auto simp: bloomd_client_init_def stream_inv_def client_ok_def partial_frame_def
      bloomd_client_reset_request_def split: prod.splits)
qed (blast intro: stream_inv_read stream_inv_write)+

lemma partial_frame_none:
  assumes inv: "stream_inv s c hist" and nw: "c_state c \<noteq> CLIENT_WRITE_RESPONSE"
  shows "frames (partial_frame c) = []"
proof -
  consider "c_state c = CLIENT_READ_HEADER" | "c_state c = CLIENT_READ_BODY"
    using inv nw by (cases "c_state c") (auto simp: stream_inv_def)
  then show ?thesis
  proof cases
    case 1
    then show ?thesis using inv by (subst frames.simps) (simp add: stream_inv_def client_ok_def partial_frame_def)
  next
    case 2
    then have v: "bloomd_header_is_valid (rq_header (c_req c)) = None"
      "length (buf_data (req_body c)) < rq_len (c_req c)"
      using inv by (simp_all add: stream_inv_def client_ok_def)
    note l = length_header_bytes [OF valid_magic [OF v(1)]]
    have "take 16 (partial_frame c) = header_bytes (rq_header (c_req c))"
      using 2 l by (simp add: partial_frame_def)
    then show ?thesis
      using 2 v(2) l header_of_bytes_header [OF valid_magic [OF v(1)]]
      by (subst frames.simps) (simp add: partial_frame_def Let_def)
  qed
qed

lemma answered_header:
  assumes a: "answered (req, resp)"
  shows "opcode (rheader resp) = opcode (rq_header req) \<and> request_id (rheader resp) = request_id (rq_header req) \<and>
    bloomd_header_is_valid (header_of_bytes (take 16 (response_bytes resp))) = None"
proof -
  let ?h = "rheader resp\<lparr>body_len := of_nat (length (buf_data (rbody resp)))\<rparr>"
  have v: "bloomd_header_is_valid ?h = None" using a by (simp add: answered_def)
  have "take 16 (response_bytes resp) = header_bytes ?h"
    using length_header_bytes [OF valid_magic [OF v]] by (simp add: response_bytes_def)
  then show ?thesis using a v header_of_bytes_header [OF valid_magic [OF v]] by (simp add: answered_def)
qed

text \<open>
  C17. Framing: however the bytes of a connection are cut into pieces, and whatever other
  connections do in between, the requests served are the frames of the byte stream, in order, and as
  soon as no byte is left to read and no response to write, they are all complete frames of the
  stream. Every response carries the opcode and the identifier of its request and a valid header, and
  the bytes sent are the response frames in the order of the requests, none lost, doubled or mixed,
  the last one possibly still in part.
\<close>

theorem connection_serves_frames:
  assumes "client_run E cfg s c hist"
  shows "(\<exists>rest. frames s = map fst hist @ rest) \<and>
    (c_state c \<noteq> CLIENT_WRITE_RESPONSE \<and> rx_bytes (rx (c_conn c)) = [] \<longrightarrow> frames s = map fst hist) \<and>
    (\<forall>(req, resp)\<in>set hist. opcode (rheader resp) = opcode (rq_header req) \<and>
       request_id (rheader resp) = request_id (rq_header req) \<and>
       bloomd_header_is_valid (header_of_bytes (take 16 (response_bytes resp))) = None) \<and>
    (\<exists>k. sent (c_conn c) = concat (map (response_bytes \<circ> snd) (take k hist)) @
       take (write_offset c) (concat (map (response_bytes \<circ> snd) (drop k hist))) \<and> length hist \<le> k + 1 \<and>
       (c_state c \<noteq> CLIENT_WRITE_RESPONSE \<longrightarrow> k = length hist))"
proof -
  have inv: "stream_inv s c hist" by (rule client_run_inv [OF assms])
  have an: "\<forall>x\<in>set hist. answered x" using inv by (simp add: stream_inv_def)
  have fr: "frames s = map fst hist @ frames (partial_frame c @ rx_bytes (rx (c_conn c)))"
  proof -
    have "\<forall>req\<in>set (map fst hist). bloomd_header_is_valid (rq_header req) = None \<and> request_ok req"
      using an by (auto simp: answered_def)
    from frames_requests [OF this, of "partial_frame c @ rx_bytes (rx (c_conn c))"] inv show ?thesis
      by (simp add: stream_inv_def comp_def case_prod_unfold)
  qed
  note partial_frame_none [OF inv]
  moreover have "\<forall>(req, resp)\<in>set hist. opcode (rheader resp) = opcode (rq_header req) \<and>
       request_id (rheader resp) = request_id (rq_header req) \<and>
       bloomd_header_is_valid (header_of_bytes (take 16 (response_bytes resp))) = None"
    using an answered_header by blast
  moreover have "\<exists>k. sent (c_conn c) = concat (map (response_bytes \<circ> snd) (take k hist)) @
       take (write_offset c) (concat (map (response_bytes \<circ> snd) (drop k hist))) \<and> length hist \<le> k + 1 \<and>
       (c_state c \<noteq> CLIENT_WRITE_RESPONSE \<longrightarrow> k = length hist)"
  proof (cases "c_state c = CLIENT_WRITE_RESPONSE")
    case True
    then obtain past where "hist = past @ [(c_req c, c_resp c)]"
      "sent (c_conn c) = concat (map (\<lambda>(_, resp). response_bytes resp) past) @
         take (write_offset c) (response_bytes (c_resp c))"
      by (rule stream_inv_past [OF inv])
    then show ?thesis using True by (intro exI [of _ "length past"]) (simp add: comp_def case_prod_unfold)
  next
    case False
    then show ?thesis using inv
      by (intro exI [of _ "length hist"]) (simp add: stream_inv_def comp_def case_prod_unfold)
  qed
  ultimately show ?thesis using fr by auto
qed

section \<open>A connection on the mock kernel\<close>

text \<open>A PING of request 7 that arrives in two pieces.\<close>

definition ping_header :: bloomd_frame_header where
  "ping_header = \<lparr>magic = BLOOMD_PROTOCOL_MAGIC, version = 1, opcode = 1, flags = 0, status = 0,
     request_id = 7, body_len = 0\<rparr>"

definition ping_conn :: conn where
  "ping_conn = \<lparr>rx = [Rx [0x42, 0x4C, 0x4D, 0x31, 1], Rx [], Rx [1, 0, 0, 7, 0, 0, 0, 0, 0, 0, 0]], tx = [Tx 3], sent = []\<rparr>"

abbreviation ping_step :: "bloomd_client \<Rightarrow> io_rc \<times> bloomd_client \<times> mock daemon" where
  "ping_step c \<equiv> bloomd_client_drive_read mock_env bloomd_config_defaults c sample_daemon"

definition ping_client :: bloomd_client where
  "ping_client = fst (bloomd_client_init 9 ping_conn (d_world sample_daemon))"

lemma ping_step1:
  "\<exists>d. ping_step ping_client = (Io_zero, ping_client\<lparr>req_header := [0x42, 0x4C, 0x4D, 0x31, 1],
     c_conn := ping_conn\<lparr>rx := [Rx [1, 0, 0, 7, 0, 0, 0, 0, 0, 0, 0]]\<rparr>\<rparr>, d)"
  by (simp add: ping_client_def bloomd_client_init_def bloomd_now_ms_def sample_daemon_def
    bloomd_client_reset_request_def empty_client_def bloomd_client_drive_read_def ping_conn_def
    bloomd_client_read_some.simps sock_read.simps Let_def)

lemma ping_step2:
  "\<exists>c d. ping_step (ping_client\<lparr>req_header := [0x42, 0x4C, 0x4D, 0x31, 1],
     c_conn := ping_conn\<lparr>rx := [Rx [1, 0, 0, 7, 0, 0, 0, 0, 0, 0, 0]]\<rparr>\<rparr>) = (Io_zero, c, d) \<and>
     c_state c = CLIENT_WRITE_RESPONSE \<and> c_req c = \<lparr>rq_header = ping_header, rq_body = []\<rparr> \<and>
     (\<exists>c' d'. bloomd_client_drive_write c d = (Io_one, c', d') \<and> c_state c' = CLIENT_READ_HEADER \<and>
        rx_bytes (rx (c_conn c')) = [])"
proof -
  have h: "header_of_bytes [0x42, 0x4C, 0x4D, 0x31, 1, 1, 0, 0, 7, 0, 0, 0, 0, 0, 0, 0] = ping_header"
    by (simp add: header_of_bytes_def ping_header_def BLOOMD_PROTOCOL_MAGIC_def bloomd_load_u32_def)
  have o: "opcode_of 1 = Some OP_PING" using opcode_of_byte [of OP_PING] by simp
  have v: "bloomd_header_is_valid ping_header = None" "body_len ping_header = 0" "opcode ping_header = 1"
    by (simp_all add: bloomd_header_is_valid_def ping_header_def)
  show ?thesis
    by (simp add: ping_client_def bloomd_client_init_def bloomd_now_ms_def sample_daemon_def
      bloomd_client_reset_request_def empty_client_def bloomd_client_drive_read_def ping_conn_def
      bloomd_client_read_some.simps sock_read.simps Let_def h v dispatch_request_def serve_request_def
      bloomd_dispatch_def dispatch_op_def o bloomd_handle_ping_def bloomd_buffer_append_str_def
      bloomd_buffer_append_def protocol_consts bloomd_response_reset_def bloomd_buffer_reserve_def
      bloomd_response_init_def bloomd_buffer_init_def bloomd_client_prepare_write_def
      bloomd_client_drive_write_def write_loop.simps sock_write.simps header_bytes_def BLOOMD_PROTOCOL_MAGIC_def
      bloomd_store_u32_def bytes_of_string_def)
qed

theorem connection_serves_frames_witness:
  "frames [0x42, 0x4C, 0x4D, 0x31, 1, 1, 0, 0, 7, 0, 0, 0, 0, 0, 0, 0] = [\<lparr>rq_header = ping_header, rq_body = []\<rparr>]"
proof -
  let ?s = "rx_bytes (rx ping_conn)"
  have s: "?s = [0x42, 0x4C, 0x4D, 0x31, 1, 1, 0, 0, 7, 0, 0, 0, 0, 0, 0, 0]" by (simp add: ping_conn_def)
  have "bloomd_client_init 9 ping_conn (d_world sample_daemon) =
      (ping_client, snd (bloomd_client_init 9 ping_conn (d_world sample_daemon)))"
    by (simp add: ping_client_def)
  from client_run.accepted [OF this] have r0: "client_run mock_env bloomd_config_defaults ?s ping_client []"
    by (simp add: ping_conn_def)
  let ?c1 = "ping_client\<lparr>req_header := [0x42, 0x4C, 0x4D, 0x31, 1],
     c_conn := ping_conn\<lparr>rx := [Rx [1, 0, 0, 7, 0, 0, 0, 0, 0, 0, 0]]\<rparr>\<rparr>"
  have st: "c_state ping_client = CLIENT_READ_HEADER" "c_state ?c1 = CLIENT_READ_HEADER"
    by (simp_all add: ping_client_def bloomd_client_init_def bloomd_client_reset_request_def split: prod.splits)
  from ping_step1 obtain d1 where "ping_step ping_client = (Io_zero, ?c1, d1)" by blast
  from client_run.read_step [OF r0 _ this] st
  have r1: "client_run mock_env bloomd_config_defaults ?s ?c1 []" by simp
  from ping_step2 obtain c d c' d' where c: "ping_step ?c1 = (Io_zero, c, d)" "c_state c = CLIENT_WRITE_RESPONSE"
    "c_req c = \<lparr>rq_header = ping_header, rq_body = []\<rparr>"
    and w: "bloomd_client_drive_write c d = (Io_one, c', d')" "c_state c' = CLIENT_READ_HEADER"
      "rx_bytes (rx (c_conn c')) = []" by blast
  from client_run.read_step [OF r1 _ c(1)] st c(2)
  have r2: "client_run mock_env bloomd_config_defaults ?s c [(c_req c, c_resp c)]" by simp
  have r3: "client_run mock_env bloomd_config_defaults ?s c' [(c_req c, c_resp c)]"
    by (rule client_run.write_step [OF r2 c(2) w(1)]) simp
  from connection_serves_frames [OF r3] w(2,3) c(3) show ?thesis unfolding s by simp
qed

end
