(* ===== verification/Recovery.thy ===== *)
theory Recovery
  imports Dispatch Samples
begin

text \<open>
  What the daemon does before it listens, from \<open>src/src/daemon.c\<close> and \<open>src/src/util.c\<close>: the
  directories it needs, reading the metadata directory back into the filter set, opening the
  pinned maps or rebuilding a lost map from its digest log, setting metadata aside that cannot be
  used, and removing pins that belong to no filter. The functions on one directory entry are the
  consecutive parts of the loop body of \<open>bloomd_load_metadata_dir\<close>.
\<close>

section \<open>Directories\<close>

text \<open>
  \<open>bloomd_list_dir\<close>: the loop over the names \<open>readdir\<close> returns, with the growing array of copies
  (8 bytes per pointer).
\<close>

fun list_dir_loop :: "(nat \<Rightarrow> bool) \<Rightarrow> string list \<Rightarrow> string list \<Rightarrow> nat \<Rightarrow> errno + string list" where
  "list_dir_loop alloc [] nms cap = Inr nms"
| "list_dir_loop alloc (ent # ents) nms cap =
    (if ent = ''.'' \<or> ent = ''..'' then list_dir_loop alloc ents nms cap
     else let new_cap = (if cap = 0 then 8 else cap * 2) in
       if length nms = cap \<and> \<not> alloc (new_cap * 8) then Inl ENOMEM
       else if \<not> alloc (length ent + 1) then Inl ENOMEM
       else list_dir_loop alloc ents (nms @ [ent]) (if length nms = cap then new_cap else cap))"

definition bloomd_list_dir :: "'k env \<Rightarrow> string \<Rightarrow> 'k world \<Rightarrow> errno + string list" where
  "bloomd_list_dir E path w =
    (case sys_readdir E path w of
       Inl e \<Rightarrow> Inl e
     | Inr ents \<Rightarrow> list_dir_loop (mem E) ents [] 0)"

text \<open>\<open>bloomd_ensure_dir\<close>: create every parent, ignoring those that exist, then the directory.\<close>

fun mkdir_parents :: "int \<Rightarrow> string \<Rightarrow> string \<Rightarrow> 'k world \<Rightarrow> rc \<times> 'k world" where
  "mkdir_parents mode pre [] w = (None, w)"
| "mkdir_parents mode pre (c # r) w =
    (if c \<noteq> slash then mkdir_parents mode (pre @ [c]) r w
     else case sys_mkdir pre mode w of
       (Some e, w) \<Rightarrow> if e \<noteq> EEXIST then (Some e, w) else mkdir_parents mode (pre @ [c]) r w
     | (None, w) \<Rightarrow> mkdir_parents mode (pre @ [c]) r w)"

definition bloomd_ensure_dir :: "string \<Rightarrow> int \<Rightarrow> bool \<Rightarrow> 'k world \<Rightarrow> rc \<times> 'k world" where
  "bloomd_ensure_dir path mode allow_existing w =
    (if path = [] then (Some EINVAL, w)
     else if length path \<ge> PATH_MAX then (Some ENAMETOOLONG, w)
     else case mkdir_parents mode (take 1 path) (drop 1 path) w of
       (Some e, w) \<Rightarrow> (Some e, w)
     | (None, w) \<Rightarrow>
         (case sys_mkdir path mode w of
            (None, w) \<Rightarrow> (None, w)
          | (Some e, w) \<Rightarrow> if e = EEXIST \<and> allow_existing then (None, w) else (Some e, w)))"

definition BPF_FS_MAGIC :: int where "BPF_FS_MAGIC = 0xCAFE4A11"

definition bloomd_is_bpffs :: "'k env \<Rightarrow> string \<Rightarrow> bool" where
  "bloomd_is_bpffs E path = (case fs_magic E path of None \<Rightarrow> False | Some m \<Rightarrow> m = BPF_FS_MAGIC)"

definition bloomd_prepare_roots :: "'k env \<Rightarrow> bloomd_config \<Rightarrow> 'k world \<Rightarrow> err option \<times> 'k world" where
  "bloomd_prepare_roots E cfg w =
    (case bloomd_socket_parent (socket_path cfg) PATH_MAX of
       Inl e \<Rightarrow> (Some (e, bloomd_errmsg ''invalid socket path''), w)
     | Inr parent \<Rightarrow>
    (case bloomd_ensure_dir parent 493 True w of
       (Some e, w) \<Rightarrow> (Some (e, bloomd_errmsg ''could not create socket directory''), w)
     | (None, w) \<Rightarrow>
    (case bloomd_ensure_dir (meta_root cfg) 493 True w of
       (Some e, w) \<Rightarrow> (Some (e, bloomd_errmsg ''could not create metadata directory''), w)
     | (None, w) \<Rightarrow>
    (case bloomd_ensure_dir (pin_root cfg) 493 True w of
       (Some e, w) \<Rightarrow> (Some (e, bloomd_errmsg ''could not create pin directory''), w)
     | (None, w) \<Rightarrow>
         if \<not> bloomd_is_bpffs E (pin_root cfg)
         then (Some (EINVAL, bloomd_errmsg ''pin root is not on bpffs''), w)
         else (None, w)))))"

section \<open>Rebuilding a map from its log\<close>

text \<open>
  \<open>bloomd_bpf_add_digest\<close> as the replay callback sees it, on the kernel state alone; the context
  is the \<open>rc\<close> field of \<open>struct bloomd_replay_ctx\<close> with the message in its buffer.
\<close>

definition add_digest_kern :: "'k env \<Rightarrow> int \<Rightarrow> byte list \<Rightarrow> 'k \<Rightarrow> err option \<times> 'k" where
  "add_digest_kern E fd digest k =
    (case sys_bpf E (BPF_MAP_UPDATE_ELEM fd digest) k of
       (r, k) \<Rightarrow>
         (if br_ret r \<noteq> 0
          then Some (br_errno r, bloomd_errno_msg ''BPF_MAP_UPDATE_ELEM failed'' (br_errno r))
          else None, k))"

lemma add_digest_kern_eq:
  "bloomd_bpf_add_digest E fd digest w =
    (case add_digest_kern E fd digest (kern w) of (r, k) \<Rightarrow> (r, w\<lparr>kern := k\<rparr>))"
  by (simp add: add_digest_kern_def bpf_call_defs split: prod.splits)

definition bloomd_replay_digest_cb :: "'k env \<Rightarrow> int \<Rightarrow> (err option, 'k) replay_cb" where
  "bloomd_replay_digest_cb E fd digest ctx k =
    (case add_digest_kern E fd digest k of (r, k) \<Rightarrow> (r \<noteq> None, r, k))"

definition bloomd_rebuild_from_log ::
  "'k env \<Rightarrow> bloomd_config \<Rightarrow> bloomd_filter_meta \<Rightarrow> 'k world
    \<Rightarrow> (err + (bloomd_filter_meta \<times> int \<times> nat)) \<times> 'k world" where
  "bloomd_rebuild_from_log E cfg meta w =
    (case bloomd_assign_filter_paths cfg meta of
       Inl e \<Rightarrow> (Inl (e, bloomd_errmsg (''failed to build filter paths for '' @ fm_name meta)), w)
     | Inr meta \<Rightarrow>
    (case bloomd_bpf_create_map E (fm_name meta) (fm_capacity meta) (fm_hashes meta) w of
       (Inl x, w) \<Rightarrow> (Inl x, w)
     | (Inr fd, w) \<Rightarrow>
    (case bloomd_log_replay (fm_log_path meta) (bloomd_replay_digest_cb E fd) None w of
       (Inl e, ctx, w) \<Rightarrow>
         (Inl (case ctx of
                 Some x \<Rightarrow> x
               | None \<Rightarrow> (e, bloomd_errmsg
                   (if e = ENOENT then ''digest log missing for '' @ fm_name meta
                    else if e = EINVAL then ''digest log is malformed for '' @ fm_name meta
                    else ''failed to replay digest log for '' @ fm_name meta @ '': '' @ strerror e))),
          snd (bloomd_bpf_close E fd w))
     | (Inr replayed, ctx, w) \<Rightarrow>
         (case bloomd_bpf_pin_map E fd (fm_pin_path meta) w of
            (Some x, w) \<Rightarrow> (Inl x, snd (bloomd_bpf_close E fd w))
          | (None, w) \<Rightarrow> (Inr (meta, fd, replayed), w)))))"

definition bloomd_validate_open_pinned_map ::
  "'k env \<Rightarrow> bloomd_filter_meta \<Rightarrow> int \<Rightarrow> 'k world \<Rightarrow> err option \<times> 'k world" where
  "bloomd_validate_open_pinned_map E meta fd w =
    (case bloomd_bpf_get_map_info E fd w of
       (Inl x, w) \<Rightarrow> (Some x, w)
     | (Inr info, w) \<Rightarrow>
         if mi_type info \<noteq> BPF_MAP_TYPE_BLOOM_FILTER \<or> mi_key_size info \<noteq> 0 \<or>
            mi_value_size info \<noteq> fm_value_size meta \<or> ucast (mi_max_entries info) \<noteq> fm_capacity meta \<or>
            mi_map_extra info AND 0x0F \<noteq> ucast (fm_hashes meta)
         then (Some (EINVAL, bloomd_errmsg
                 (''pinned map parameters do not match metadata for '' @ fm_name meta)), w)
         else (None, w))"

section \<open>One entry of the metadata directory\<close>

text \<open>Metadata that cannot be used is renamed and counted; a failing rename is ignored.\<close>

definition set_aside :: "'k env \<Rightarrow> string \<Rightarrow> 'k daemon \<Rightarrow> 'k daemon" where
  "set_aside E path d =
    d\<lparr>d_world := snd (bloomd_meta_recover_stale path (time_now E (d_world d)) (d_world d)),
      d_stats := (d_stats d)\<lparr>orphan_meta := orphan_meta (d_stats d) + 1\<rparr>\<rparr>"

text \<open>Up to the metadata the entry holds; \<^term>\<open>None\<close> when the loop goes on to the next entry.\<close>

definition load_read ::
  "'k env \<Rightarrow> bloomd_config \<Rightarrow> string \<Rightarrow> 'k daemon
    \<Rightarrow> (string \<times> bloomd_filter_meta) option \<times> 'k daemon" where
  "load_read E cfg entry d =
    (let path = meta_root cfg @ ''/'' @ entry in
     if \<not> bloomd_has_suffix entry ''.meta'' then (None, d)
     else if length path \<ge> PATH_MAX then (None, d)
     else case bloomd_meta_entry_name entry of
       Inl _ \<Rightarrow> (None, d)
     | Inr entry_name \<Rightarrow>
         (case bloomd_meta_read_file path (d_world d) of
            (Inl _, w) \<Rightarrow> (None, set_aside E path (d\<lparr>d_world := w\<rparr>))
          | (Inr meta, w) \<Rightarrow>
              if fm_name meta \<noteq> entry_name then (None, set_aside E path (d\<lparr>d_world := w\<rparr>))
              else if \<not> bloomd_path_under_root (fm_pin_path meta) (pin_root cfg) \<or>
                      \<not> bloomd_path_has_name (fm_pin_path meta) (fm_name meta)
              then (None, set_aside E path (d\<lparr>d_world := w\<rparr>))
              else (Some (path, meta), d\<lparr>d_world := w\<rparr>)))"

text \<open>
  The map of the filter: pinned, new, or rebuilt from the log; \<open>Map_open\<close> carries the metadata,
  the descriptor and \<open>unpin_on_error\<close>.
\<close>

datatype map_result = Map_open bloomd_filter_meta int bool | Map_stale | Map_error err

definition load_map ::
  "'k env \<Rightarrow> bloomd_config \<Rightarrow> bloomd_filter_meta \<Rightarrow> 'k world \<Rightarrow> map_result \<times> 'k world" where
  "load_map E cfg meta w =
    (case bloomd_bpf_open_pinned E (fm_pin_path meta) w of
       (Inr fd, w) \<Rightarrow> (Map_open meta fd False, w)
     | (Inl e, w) \<Rightarrow>
         if e = ENOENT
         then (if \<not> fm_has_data meta
               then (case bloomd_bpf_create_map E (fm_name meta) (fm_capacity meta) (fm_hashes meta) w of
                       (Inl x, w) \<Rightarrow> (Map_error x, w)
                     | (Inr fd, w) \<Rightarrow> (Map_open meta fd False, w))
               else if \<not> fm_log_clean meta
               then (Map_error (EUCLEAN, bloomd_errmsg (''refusing rebuild for '' @ fm_name meta @
                       '': replay log may be missing unsynced tail'')), w)
               else (case bloomd_rebuild_from_log E cfg meta w of
                       (Inr (meta, fd, replayed), w) \<Rightarrow> (Map_open meta fd True, w)
                     | (Inl (e, msg), w) \<Rightarrow>
                         if e = ENOENT then (Map_stale, w) else (Map_error (e, msg), w)))
         else (Map_error (e, bloomd_errmsg (''failed to open pinned map for '' @ fm_name meta @ '': '' @
                 strerror e)), w))"

text \<open>The code at \<open>cleanup_entry\<close>.\<close>

definition load_cleanup ::
  "'k env \<Rightarrow> bloomd_filter_meta \<Rightarrow> int \<Rightarrow> int \<Rightarrow> bool \<Rightarrow> 'k world \<Rightarrow> 'k world" where
  "load_cleanup E meta fd lfd unpin_on_error w =
    (let w = snd (bloomd_log_close lfd False w);
         w = (if unpin_on_error then snd (bloomd_bpf_unpin E (fm_pin_path meta) w) else w)
     in snd (bloomd_bpf_close E fd w))"

text \<open>From an open map to the entry in the filter set.\<close>

definition load_enter ::
  "'k env \<Rightarrow> string \<Rightarrow> bloomd_filter_meta \<Rightarrow> int \<Rightarrow> bool \<Rightarrow> 'k daemon \<Rightarrow> err option \<times> 'k daemon" where
  "load_enter E path meta fd unpin_on_error d =
    (case bloomd_validate_open_pinned_map E meta fd (d_world d) of
       (Some x, w) \<Rightarrow> (Some x, d\<lparr>d_world := load_cleanup E meta fd (- 1) unpin_on_error w\<rparr>)
     | (None, w) \<Rightarrow>
    (case bloomd_filter_set_find (d_set d) (fm_name meta) of
       (Some _, s) \<Rightarrow>
         let d = set_aside E path (d\<lparr>d_world := w, d_set := s\<rparr>)
         in (None, d\<lparr>d_world := load_cleanup E meta fd (- 1) unpin_on_error (d_world d)\<rparr>)
     | (None, s) \<Rightarrow>
         let flt = (new_filter meta fd)
               \<lparr>log_history_incomplete := fm_has_data meta \<and> \<not> fm_log_clean meta\<rparr> in
    (case (if fm_has_data meta then bloomd_open_filter_log False flt w else (None, flt, w)) of
       (Some x, flt, w) \<Rightarrow>
         (Some x, d\<lparr>d_world := load_cleanup E meta fd (log_fd flt) unpin_on_error w, d_set := s\<rparr>)
     | (None, flt, w) \<Rightarrow>
         (case bloomd_filter_set_add (mem E) flt s of
            (Some e, s) \<Rightarrow>
              (Some (e, bloomd_errmsg ''too many filters loaded''),
               d\<lparr>d_world := load_cleanup E meta fd (log_fd flt) unpin_on_error w, d_set := s\<rparr>)
          | (None, s) \<Rightarrow>
              (None, d\<lparr>d_world := w, d_set := s,
                 d_stats := (d_stats d)\<lparr>filters_loaded := filters_loaded (d_stats d) + 1\<rparr>\<rparr>)))))"

definition load_entry ::
  "'k env \<Rightarrow> bloomd_config \<Rightarrow> string \<Rightarrow> 'k daemon \<Rightarrow> err option \<times> 'k daemon" where
  "load_entry E cfg entry d =
    (case load_read E cfg entry d of
       (None, d) \<Rightarrow> (None, d)
     | (Some (path, meta), d) \<Rightarrow>
         (case bloomd_build_log_path (meta_root cfg) (fm_name meta) PATH_MAX of
            Inl e \<Rightarrow> (Some (e, bloomd_errmsg (''failed to derive digest log path for '' @ fm_name meta)), d)
          | Inr lp \<Rightarrow>
              (case load_map E cfg (meta\<lparr>fm_log_path := lp\<rparr>) (d_world d) of
                 (Map_error x, w) \<Rightarrow> (Some x, d\<lparr>d_world := w\<rparr>)
               | (Map_stale, w) \<Rightarrow> (None, set_aside E path (d\<lparr>d_world := w\<rparr>))
               | (Map_open meta fd unpin_on_error, w) \<Rightarrow>
                   load_enter E path meta fd unpin_on_error (d\<lparr>d_world := w\<rparr>))))"

fun load_entries ::
  "'k env \<Rightarrow> bloomd_config \<Rightarrow> string list \<Rightarrow> 'k daemon \<Rightarrow> err option \<times> 'k daemon" where
  "load_entries E cfg [] d = (None, d)"
| "load_entries E cfg (entry # entries) d =
    (case load_entry E cfg entry d of
       (Some x, d) \<Rightarrow> (Some x, d)
     | (None, d) \<Rightarrow> load_entries E cfg entries d)"

definition bloomd_load_metadata_dir ::
  "'k env \<Rightarrow> bloomd_config \<Rightarrow> 'k daemon \<Rightarrow> err option \<times> 'k daemon" where
  "bloomd_load_metadata_dir E cfg d =
    (case bloomd_list_dir E (meta_root cfg) (d_world d) of
       Inl e \<Rightarrow>
         if e \<noteq> ENOENT then (Some (e, bloomd_errmsg ''failed to list metadata directory''), d)
         else load_entries E cfg [] d
     | Inr entries \<Rightarrow> load_entries E cfg entries d)"

section \<open>Orphan pins\<close>

definition cleanup_pin :: "'k env \<Rightarrow> bloomd_config \<Rightarrow> string \<Rightarrow> 'k daemon \<Rightarrow> 'k daemon" where
  "cleanup_pin E cfg entry d =
    (if \<not> bloomd_name_is_valid entry then d
     else case bloomd_filter_set_find (d_set d) entry of
       (Some _, s) \<Rightarrow> d\<lparr>d_set := s\<rparr>
     | (None, s) \<Rightarrow>
         let d = d\<lparr>d_set := s\<rparr>; path = pin_root cfg @ ''/'' @ entry in
         if length path \<ge> PATH_MAX then d
         else (case unlink_pin E path (kern (d_world d)) of
                 (Some _, k) \<Rightarrow> d\<lparr>d_world := (d_world d)\<lparr>kern := k\<rparr>\<rparr>
               | (None, k) \<Rightarrow> d\<lparr>d_world := (d_world d)\<lparr>kern := k\<rparr>,
                   d_stats := (d_stats d)\<lparr>orphan_pin := orphan_pin (d_stats d) + 1\<rparr>\<rparr>))"

definition bloomd_cleanup_orphan_pins ::
  "'k env \<Rightarrow> bloomd_config \<Rightarrow> 'k daemon \<Rightarrow> rc \<times> 'k daemon" where
  "bloomd_cleanup_orphan_pins E cfg d =
    (case bloomd_list_dir E (pin_root cfg) (d_world d) of
       Inl e \<Rightarrow> if e \<noteq> ENOENT then (Some e, d) else (None, d)
     | Inr entries \<Rightarrow> (None, fold (cleanup_pin E cfg) entries d))"

end
