(* ===== verification/Recovery_Correct.thy ===== *)
theory Recovery_Correct
  imports Recovery
begin

text \<open>
  What loading the metadata directory achieves: every filter whose metadata is in the directory
  comes back with the digests its pinned map holds, or with those its log records when the map is
  gone, and the loaded daemon is in a good state. The proofs follow one directory entry through
  the loop and show that it leaves the files and pins of every other name alone.
\<close>

section \<open>Frames\<close>

text \<open>
  \<open>files_frame P w w'\<close>: only directory entries in \<open>P\<close> and the files they named changed, and open
  descriptors stay open. \<open>kern_frame X k k'\<close>: descriptors stay open, only pins in \<open>X\<close> changed, and
  every map that was in use keeps its digests.
\<close>

definition files_frame :: "string set \<Rightarrow> 'k world \<Rightarrow> 'k world \<Rightarrow> bool" where
  "files_frame P w w' \<longleftrightarrow> world_ok w' \<and> next_ino w \<le> next_ino w' \<and> next_fd w \<le> next_fd w' \<and>
     (\<forall>p. p \<notin> P \<longrightarrow> dirents w' p = dirents w p) \<and>
     (\<forall>p\<in>P. \<forall>i. dirents w' p = Some i \<longrightarrow> i < next_ino w \<longrightarrow> (\<exists>q\<in>P. dirents w q = Some i)) \<and>
     (\<forall>i. i < next_ino w \<longrightarrow> (\<forall>p\<in>P. dirents w p \<noteq> Some i) \<longrightarrow> inodes w' i = inodes w i) \<and>
     (\<forall>fd i. fdtab w fd = Some i \<longrightarrow> fdtab w' fd = Some i)"

definition live :: "('k \<Rightarrow> int \<Rightarrow> nat option) \<Rightarrow> ('k \<Rightarrow> string \<Rightarrow> nat option) \<Rightarrow> 'k \<Rightarrow> nat \<Rightarrow> bool" where
  "live obj pinned k m \<longleftrightarrow> (\<exists>fd. obj k fd = Some m) \<or> (\<exists>p. pinned k p = Some m)"

definition kern_frame ::
  "('k \<Rightarrow> bool) \<Rightarrow> ('k \<Rightarrow> int \<Rightarrow> nat option) \<Rightarrow> ('k \<Rightarrow> nat \<Rightarrow> byte list set) \<Rightarrow>
    ('k \<Rightarrow> string \<Rightarrow> nat option) \<Rightarrow> string set \<Rightarrow> 'k \<Rightarrow> 'k \<Rightarrow> bool" where
  "kern_frame kinv obj held pinned X k k' \<longleftrightarrow> kinv k' \<and>
     (\<forall>fd m. obj k fd = Some m \<longrightarrow> obj k' fd = Some m) \<and>
     (\<forall>p. p \<notin> X \<longrightarrow> pinned k' p = pinned k p) \<and>
     (\<forall>m. live obj pinned k m \<longrightarrow> live obj pinned k' m \<and> held k' m = held k m)"

lemma files_frame_refl: "world_ok w \<Longrightarrow> files_frame P w w"
  by (auto simp: files_frame_def)

lemma files_frame_eq:
  assumes "world_ok w'" "dirents w' = dirents w" "inodes w' = inodes w" "next_ino w' = next_ino w"
    "next_fd w \<le> next_fd w'" "\<And>fd i. fdtab w fd = Some i \<Longrightarrow> fdtab w' fd = Some i"
  shows "files_frame P w w'"
  using assms by (auto simp: files_frame_def)

lemma files_frame_trans:
  assumes "files_frame P w v" "files_frame P v u"
  shows "files_frame P w u"
proof -
  note a = assms(1) [unfolded files_frame_def] and b = assms(2) [unfolded files_frame_def]
  have 1: "\<exists>q\<in>P. dirents w q = Some i" if i: "p \<in> P" "dirents u p = Some i" "i < next_ino w" for p i
  proof -
    have "i < next_ino v" using a i by linarith
    then obtain q where "q \<in> P" "dirents v q = Some i" using b i by blast
    then show ?thesis using a i by blast
  qed
  have 2: "inodes u i = inodes w i" if i: "i < next_ino w" "\<forall>p\<in>P. dirents w p \<noteq> Some i" for i
  proof -
    have "\<forall>p\<in>P. dirents v p \<noteq> Some i" using a i by blast
    moreover have "i < next_ino v" using a i by linarith
    ultimately have "inodes u i = inodes v i" using b by blast
    then show ?thesis using a i by auto
  qed
  show ?thesis
    unfolding files_frame_def using a b 1 2 by auto
qed

lemma files_frame_file:
  assumes "world_ok w" "files_frame P w w'" "q \<notin> P"
  shows "file_data q w' = file_data q w" "file_synced q w' = file_synced q w"
proof -
  have "inodes w' i = inodes w i" if "dirents w q = Some i" for i
    using world_okD(1,2) [OF assms(1)] that assms(2,3) unfolding files_frame_def by blast
  moreover have "dirents w' q = dirents w q" using assms by (simp add: files_frame_def)
  ultimately show "file_data q w' = file_data q w" "file_synced q w' = file_synced q w"
    by (cases "dirents w q"; simp add: file_data_def file_synced_def)+
qed

lemma files_frame_kern:
  "files_frame P w w' \<Longrightarrow> w'' = w'\<lparr>kern := k\<rparr> \<Longrightarrow> files_frame P w w''"
  by (simp add: files_frame_def)

lemma files_frame_kern_step: "world_ok w \<Longrightarrow> w' = w\<lparr>kern := k\<rparr> \<Longrightarrow> files_frame P w w'"
  by (intro files_frame_eq) auto

lemma kern_frame_refl: "kinv k \<Longrightarrow> kern_frame kinv obj held pinned X k k"
  by (simp add: kern_frame_def)

lemma kern_frame_trans:
  "kern_frame kinv obj held pinned X k k' \<Longrightarrow> kern_frame kinv obj held pinned X k' k'' \<Longrightarrow>
    kern_frame kinv obj held pinned X k k''"
  by (simp add: kern_frame_def)

lemma kern_frame_same:
  "kinv k' \<Longrightarrow> obj k' = obj k \<Longrightarrow> held k' = held k \<Longrightarrow> pinned k' = pinned k \<Longrightarrow>
    kern_frame kinv obj held pinned X k k'"
  by (simp add: kern_frame_def live_def)

lemma kern_frame_new:
  assumes "kinv k'" "obj k' = (obj k)(fd := x)" "obj k fd = None"
    "\<And>p. p \<notin> X \<Longrightarrow> pinned k' p = pinned k p" "\<And>p m. pinned k p = Some m \<Longrightarrow> pinned k' p = Some m"
    "\<And>m. live obj pinned k m \<Longrightarrow> held k' m = held k m"
  shows "kern_frame kinv obj held pinned X k k'"
proof -
  have o: "obj k' f = Some m" if "obj k f = Some m" for f m using that assms(2,3) by auto
  then have "live obj pinned k' m" if "live obj pinned k m" for m
    using that assms(5) unfolding live_def by blast
  then show ?thesis using o assms(1,4,6) by (simp add: kern_frame_def)
qed

section \<open>Reading the log\<close>

text \<open>
  Whatever the replay loop returns, it closes its descriptor, changes at most the file under its
  path, and any property of the kernel state that the callback keeps is kept.
\<close>

lemma sys_truncate_frame:
  assumes "sys_truncate path n w = (r, w')"
  shows "dirents w' = dirents w" "fdtab w' = fdtab w" "next_ino w' = next_ino w"
    "next_fd w' = next_fd w" "kern w' = kern w"
    "dirents w path \<noteq> Some i \<Longrightarrow> inodes w' i = inodes w i"
  using assms
  by (auto simp: sys_truncate_def next_outcome_def Let_def
    split: list.splits outcome.splits option.splits if_splits)

definition replay_keeps :: "('k \<Rightarrow> bool) \<Rightarrow> string \<Rightarrow> int \<Rightarrow> 'k world \<Rightarrow> 'k world \<Rightarrow> bool" where
  "replay_keeps P path fd w w' \<longleftrightarrow> P (kern w') \<and> dirents w' = dirents w \<and> fdtab w' = (fdtab w)(fd := None) \<and>
     next_ino w' = next_ino w \<and> next_fd w' = next_fd w \<and>
     (\<forall>i. dirents w path \<noteq> Some i \<longrightarrow> inodes w' i = inodes w i)"

lemma replay_keeps_close: "P (kern w) \<Longrightarrow> replay_keeps P path fd w (sys_close fd w)"
  by (simp add: replay_keeps_def sys_close_def)

lemma replay_keeps_truncate:
  assumes "P (kern w)" "sys_truncate path n (sys_close fd w) = (r, w')"
  shows "replay_keeps P path fd w w'"
  using assms(1) sys_truncate_frame [OF assms(2)] by (simp add: replay_keeps_def sys_close_def)

lemma replay_keeps_from:
  "replay_keeps P path fd w1 w' \<Longrightarrow> w1 = w\<lparr>script := s, kern := k\<rparr> \<Longrightarrow> replay_keeps P path fd w w'"
  by (simp add: replay_keeps_def)

lemma replay_loop_keeps:
  assumes "replay_loop cb path trunc fd off part ctx count w = (r, ctx', w')"
    and "\<And>d c k. P k \<Longrightarrow> P (snd (snd (cb d c k)))" and "P (kern w)"
  shows "replay_keeps P path fd w w'"
  using assms
proof (induction cb path trunc fd off part ctx count w rule: replay_loop.induct)
  case (1 cb path trunc fd off part ctx count w)
  note prems = "1.prems" and ih = "1.IH" and unf = replay_loop.simps [of cb path trunc fd off part ctx count w]
  obtain r1 w1 where rd: "sys_read_at fd off (BLOOMD_DIGEST_SIZE - length part) w = (r1, w1)" by fastforce
  obtain s where w1: "w1 = w\<lparr>script := s, kern := kern w\<rparr>" using sys_read_at_frame(1) [OF rd] by (metis world.surjective world.update_convs(1,7))
  have k: "P (kern w1)" using w1 prems(3) by simp
  have "replay_keeps P path fd w1 w'"
  proof (cases r1)
    case (Inl e)
    then show ?thesis
      using prems(1,2) rd ih(1) [OF rd [symmetric] Inl] k by (auto simp: unf replay_keeps_close split: if_splits)
  next
    case (Inr bs)
    consider (eof) "bs = []" | (more) "bs \<noteq> []" "length (part @ bs) < BLOOMD_DIGEST_SIZE"
      | (full) "bs \<noteq> []" "\<not> length (part @ bs) < BLOOMD_DIGEST_SIZE" by blast
    then show ?thesis
    proof cases
      case eof
      then show ?thesis
        using prems(1) rd Inr replay_keeps_close [of P w1] replay_keeps_truncate [of P w1] k
        by (auto simp: unf Let_def split: if_splits option.splits prod.splits)
    next
      case more
      then show ?thesis using prems(1,2) rd Inr ih(2) [OF rd [symmetric] Inr] k by (auto simp: unf)
    next
      case full
      obtain fail c1 k1 where cb: "cb (part @ bs) ctx (kern w1) = (fail, c1, k1)" by (metis prod_cases3)
      let ?v = "w1\<lparr>kern := k1\<rparr>"
      have k1: "P (kern ?v)" using prems(2) [of "kern w1" "part @ bs" ctx] k cb by simp
      have "replay_keeps P path fd ?v w'"
        using prems(1,2) rd Inr full cb k1 ih(3) [OF rd [symmetric] Inr full cb [symmetric] refl] replay_keeps_close [of P ?v]
        by (auto simp: unf split: if_splits)
      then show ?thesis by (simp add: replay_keeps_def)
    qed
  qed
  then show ?case by (rule replay_keeps_from) (rule w1)
qed


lemmas replay_loop_frame = replay_loop_keeps [unfolded replay_keeps_def]

lemma log_replay_frame:
  assumes "bloomd_log_replay path cb ctx w = (r, ctx', w')" "world_ok w"
    and "\<And>d c k. P k \<Longrightarrow> P (snd (snd (cb d c k)))" "P (kern w)"
  shows "P (kern w')" "files_frame {path} w w'"
proof -
  obtain r1 w1 where op: "sys_open_rd path w = (r1, w1)" by fastforce
  have all: "P (kern w') \<and> files_frame {path} w w'"
  proof (cases r1)
    case (Inl e)
    then have "w' = w1" using assms(1) op by (simp add: bloomd_log_replay_def log_replay_impl_def)
    moreover have "\<exists>s. w1 = w\<lparr>script := s\<rparr>"
      using op Inl next_outcome_script [of w]
      by (auto simp: sys_open_rd_def split: prod.splits outcome.splits option.splits)
    ultimately show ?thesis using assms(2,4) by (auto intro!: files_frame_eq)
  next
    case (Inr fd)
    have w1: "fd = next_fd w" "dirents w1 = dirents w" "inodes w1 = inodes w" "kern w1 = kern w"
      "next_ino w1 = next_ino w" "next_fd w1 = next_fd w + 1" "\<exists>i. fdtab w1 = (fdtab w)(fd \<mapsto> i)"
      using op Inr by (auto simp: sys_open_rd_def next_outcome_def
        split: list.splits outcome.splits option.splits)
    have "replay_loop cb path True fd 0 [] ctx 0 w1 = (r, ctx', w')"
      using assms(1) op Inr by (simp add: bloomd_log_replay_def log_replay_impl_def)
    from replay_loop_frame [of cb path True fd 0 "[]" ctx 0 w1 r ctx' w' P, OF this assms(3)]
    have lf: "P (kern w')" "dirents w' = dirents w" "fdtab w' = (fdtab w1)(fd := None)"
      "next_ino w' = next_ino w" "next_fd w' = next_fd w + 1"
      "\<forall>i. dirents w path \<noteq> Some i \<longrightarrow> inodes w' i = inodes w i"
      using w1(2-6) assms(4) by simp_all
    have ft: "fdtab w' = fdtab w"
      using lf(3) w1(1,7) world_okD(5) [OF assms(2)] by (auto simp: fun_upd_idem)
    have "world_ok w'"
      using assms(2) unfolding world_ok_def lf(2,4,5) ft by fastforce
    then show ?thesis
      using lf ft by (auto simp: files_frame_def)
  qed
  then show "P (kern w')" "files_frame {path} w w'" by auto
qed

lemma log_replay_Inr:
  assumes "bloomd_log_replay path cb ctx w = (Inr n, c, w')"
  obtains data where "file_data path w = Some data" "n = length (log_records data)"
    "run_cb cb (log_records data) ctx (kern w) = (False, c, kern w')"
proof -
  obtain r1 w1 where op: "sys_open_rd path w = (r1, w1)" by fastforce
  with assms obtain fd where fd: "r1 = Inr fd"
    "replay_loop cb path True fd 0 [] ctx 0 w1 = (Inr n, c, w')"
    by (cases r1) (auto simp: bloomd_log_replay_def log_replay_impl_def)
  obtain ino where ino: "dirents w path = Some ino" "fdtab w1 fd = Some ino" "inodes w1 = inodes w"
    "kern w1 = kern w"
    using op fd(1) by (auto simp: sys_open_rd_def next_outcome_def
      split: list.splits outcome.splits option.splits)
  then show ?thesis
    using replay_loop_ok [OF ino(2) refl _ _ _ _ fd(2)] that [of "idata (inodes w ino)"]
    by (simp add: file_data_def)
qed

section \<open>Rebuilding\<close>

lemma replay_cb_cases:
  assumes "bloomd_replay_digest_cb E fd d c k = (fail, c', k')"
  obtains r where "sys_bpf E (BPF_MAP_UPDATE_ELEM fd d) k = (r, k')" "fail \<longleftrightarrow> br_ret r \<noteq> 0"
    "fail \<longleftrightarrow> c' \<noteq> None"
  using assms by (auto simp: bloomd_replay_digest_cb_def add_digest_kern_def split: prod.splits if_splits)

context bpf_kernel
begin

lemma run_cb_digests:
  assumes "kinv k" "obj k fd = Some m"
    "run_cb (bloomd_replay_digest_cb E fd) ds c k = (False, c', k')"
  shows "kinv k' \<and> obj k' = obj k \<and> pinned k' = pinned k \<and> held k' = (held k)(m := set ds \<union> held k m)"
  using assms
proof (induction ds arbitrary: c k)
  case (Cons d ds)
  obtain fail c1 k1 where cb: "bloomd_replay_digest_cb E fd d c k = (fail, c1, k1)"
    by (metis prod_cases3)
  then have nf: "\<not> fail" and run: "run_cb (bloomd_replay_digest_cb E fd) ds c1 k1 = (False, c', k')"
    using Cons.prems(3) by (auto split: if_splits)
  from cb obtain r where r: "sys_bpf E (BPF_MAP_UPDATE_ELEM fd d) k = (r, k1)" "br_ret r = 0"
    using nf replay_cb_cases by metis
  have k1: "kinv k1" using inv_bpf [OF Cons.prems(1), of "BPF_MAP_UPDATE_ELEM fd d"] r by simp
  note u = update_ok [OF Cons.prems(1) r]
  then have "obj k1 fd = Some m" "held k1 = (held k)(m := insert d (held k m))"
    using Cons.prems(2) by auto
  then show ?case using Cons.IH [OF k1 _ run] u by (auto simp: fun_eq_iff)
qed simp

text \<open>What a callback keeps while it fills the new map \<open>m\<close> behind \<open>fd\<close>, failed updates included.\<close>

definition filling :: "nat \<Rightarrow> 'k \<Rightarrow> 'k \<Rightarrow> bool" where
  "filling m k0 k \<longleftrightarrow> kinv k \<and> obj k = obj k0 \<and> pinned k = pinned k0 \<and>
     (\<forall>m'. m' \<noteq> m \<longrightarrow> held k m' = held k0 m')"

lemma filling_cb:
  assumes "obj k0 fd = Some m" "filling m k0 k"
  shows "filling m k0 (snd (snd (bloomd_replay_digest_cb E fd d c k)))"
proof -
  obtain fail c1 k1 where cb: "bloomd_replay_digest_cb E fd d c k = (fail, c1, k1)"
    by (metis prod_cases3)
  then obtain r where r: "sys_bpf E (BPF_MAP_UPDATE_ELEM fd d) k = (r, k1)" by (metis replay_cb_cases)
  have k: "kinv k" using assms(2) by (simp add: filling_def)
  have "kinv k1" using inv_bpf [OF k, of "BPF_MAP_UPDATE_ELEM fd d"] r by simp
  then show ?thesis
    using update_ok [OF k r] update_err [OF k r] assms cb
    by (cases "br_ret r = 0") (auto simp: filling_def)
qed

lemma rebuild_Inr:
  assumes k: "kinv (kern w)" and ok: "world_ok w"
    and h: "bloomd_rebuild_from_log E cfg meta w = (Inr (meta', fd, n), w')"
  obtains m data where "bloomd_assign_filter_paths cfg meta = Inr meta'" "fd \<ge> 0"
    "obj (kern w) fd = None" "\<not> live obj pinned (kern w) m"
    "file_data (fm_log_path meta') w = Some data"
    "obj (kern w') = (obj (kern w))(fd \<mapsto> m)"
    "held (kern w') = (held (kern w))(m := set (log_records data))"
    "pinned (kern w) (fm_pin_path meta') = None"
    "pinned (kern w') = (pinned (kern w))(fm_pin_path meta' \<mapsto> m)"
    "kinv (kern w')" "files_frame {fm_log_path meta'} w w'" "n = length (log_records data)"
proof -
  obtain w1 w2 c where ap: "bloomd_assign_filter_paths cfg meta = Inr meta'"
    and cr: "bloomd_bpf_create_map E (fm_name meta') (fm_capacity meta') (fm_hashes meta') w = (Inr fd, w1)"
    and rp: "bloomd_log_replay (fm_log_path meta') (bloomd_replay_digest_cb E fd) None w1 = (Inr n, c, w2)"
    and pn: "bloomd_bpf_pin_map E fd (fm_pin_path meta') w2 = (None, w')"
    using h by (auto simp: bloomd_rebuild_from_log_def split: sum.splits prod.splits option.splits)
  note c = create_map_ok [OF k cr]
  from c(3) obtain m where m: "\<forall>fd. obj (kern w) fd \<noteq> Some m" "\<forall>p. pinned (kern w) p \<noteq> Some m"
    "obj (kern w1) = (obj (kern w))(fd \<mapsto> m)" "held (kern w1) = (held (kern w))(m := {})"
    "pinned (kern w1) = pinned (kern w)" by blast
  from log_replay_Inr [OF rp] obtain data where data: "file_data (fm_log_path meta') w1 = Some data"
    and n: "n = length (log_records data)" and run: "run_cb (bloomd_replay_digest_cb E fd) (log_records data) None (kern w1) = (False, c, kern w2)"
    by blast
  have w1: "world_ok w1" "file_data p w1 = file_data p w" for p
    by (subst c(5), simp add: ok file_data_def)+
  have "obj (kern w1) fd = Some m" using m by simp
  note rc = run_cb_digests [OF c(4) this run]
  note p = pin_map_ok [OF _ pn]
  have ff: "files_frame {fm_log_path meta'} w1 w2"
    by (rule log_replay_frame(2) [OF rp w1(1), where P = "\<lambda>_. True"]) auto
  have k2: "kinv (kern w2)" using rc by simp
  have ff': "files_frame {fm_log_path meta'} w w'"
    by (rule files_frame_kern [OF files_frame_trans [OF files_frame_kern_step [OF ok c(5)] ff] p(7) [OF k2]])
  show ?thesis
  proof (rule that [OF ap c(1,2) _ _ _ _ _ _ _ ff' n])
    show "\<not> live obj pinned (kern w) m" using m(1,2) by (simp add: live_def)
    show "file_data (fm_log_path meta') w = Some data" using data w1(2) by simp
    show "obj (kern w') = (obj (kern w))(fd \<mapsto> m)" using p(3) [OF k2] rc m(3) by simp
    show "held (kern w') = (held (kern w))(m := set (log_records data))"
      using p(4) [OF k2] rc m(4) by (auto simp: fun_eq_iff)
    show "pinned (kern w) (fm_pin_path meta') = None" using p(1) [OF k2] rc m(5) by simp
    show "pinned (kern w') = (pinned (kern w))(fm_pin_path meta' \<mapsto> m)"
      using p(5) [OF k2] rc m(3,5) by simp
    show "kinv (kern w')" by (rule p(6) [OF k2])
  qed
qed

text \<open>Giving up on a rebuild after the map was created: only the new map has changed, and it is closed.\<close>

lemma rebuild_undone:
  assumes k: "kinv (kern w)" and ok: "world_ok w"
    and cr: "bloomd_bpf_create_map E n c h w = (Inr fd, w1)"
    and m: "\<forall>fd. obj (kern w) fd \<noteq> Some m" "\<forall>p. pinned (kern w) p \<noteq> Some m"
      "obj (kern w1) = (obj (kern w))(fd \<mapsto> m)" "held (kern w1) = (held (kern w))(m := {})" "pinned (kern w1) = pinned (kern w)"
    and v: "filling m (kern w1) (kern v)" "files_frame {lp} w v"
    and w': "w' = snd (bloomd_bpf_close E fd v)"
  shows "kern_frame kinv obj held pinned X (kern w) (kern w')" "pinned (kern w') = pinned (kern w)"
    "files_frame {lp} w w'" "obj (kern w') = obj (kern w)"
proof -
  note c = create_map_ok [OF k cr]
  have kv: "kinv (kern v)" using v(1) by (simp add: filling_def)
  obtain fd' w4 where cl: "bloomd_bpf_close E fd v = (fd', w4)" by fastforce
  note cl' = close_map_obs [OF kv cl]
  show ob: "obj (kern w') = obj (kern w)" using cl' v(1) w' c(1,2) m(3) cl by (simp add: filling_def fun_upd_idem)
  show pi: "pinned (kern w') = pinned (kern w)" using cl' v(1) w' m(5) cl by (simp add: filling_def)
  have he: "held (kern w') m' = held (kern w) m'" if "live obj pinned (kern w) m'" for m'
  proof -
    have "m' \<noteq> m" using that m(1,2) by (auto simp: live_def)
    then show ?thesis using cl' v(1) w' m(4) cl by (simp add: filling_def)
  qed
  show "files_frame {lp} w w'" using files_frame_kern [OF v(2) cl'(5)] w' cl by simp
  show "kern_frame kinv obj held pinned X (kern w) (kern w')"
    using ob pi he cl'(4) w' cl by (simp add: kern_frame_def live_def)
qed

lemma rebuild_Inl:
  assumes k: "kinv (kern w)" and ok: "world_ok w"
    and h: "bloomd_rebuild_from_log E cfg meta w = (Inl x, w')"
  shows "kern_frame kinv obj held pinned X (kern w) (kern w')"
    "pinned (kern w') = pinned (kern w)"
    "files_frame {meta_root cfg @ ''/'' @ fm_name meta @ ''.digests''} w w'"
    "obj (kern w') = obj (kern w)"
proof -
  let ?lp = "meta_root cfg @ ''/'' @ fm_name meta @ ''.digests''"
  have "kern_frame kinv obj held pinned X (kern w) (kern w') \<and> pinned (kern w') = pinned (kern w) \<and>
    files_frame {?lp} w w' \<and> obj (kern w') = obj (kern w)"
  proof (cases "bloomd_assign_filter_paths cfg meta")
    case (Inl e)
    then show ?thesis using h k ok by (simp add: bloomd_rebuild_from_log_def kern_frame_refl files_frame_refl)
  next
    case (Inr meta')
    then have lp: "fm_log_path meta' = ?lp" using assign_paths_Inr by blast
    obtain r1 w1 where cr: "bloomd_bpf_create_map E (fm_name meta') (fm_capacity meta') (fm_hashes meta') w = (r1, w1)" by fastforce
    show ?thesis
    proof (cases r1)
      case e: (Inl y)
      then have "w' = w1" using h Inr cr by (simp add: bloomd_rebuild_from_log_def)
      then show ?thesis
        using create_map_err [OF k cr [unfolded e]] files_frame_kern_step [OF ok create_map_err(5) [OF k cr [unfolded e]]]
        by (simp add: kern_frame_same)
    next
      case fd: (Inr fd)
      note c = create_map_ok [OF k cr [unfolded fd]]
      from c(3) obtain m where m: "\<forall>fd. obj (kern w) fd \<noteq> Some m" "\<forall>p. pinned (kern w) p \<noteq> Some m"
        "obj (kern w1) = (obj (kern w))(fd \<mapsto> m)" "held (kern w1) = (held (kern w))(m := {})"
        "pinned (kern w1) = pinned (kern w)" by blast
      obtain r2 cx w2 where rp: "bloomd_log_replay (fm_log_path meta') (bloomd_replay_digest_cb E fd) None w1 = (r2, cx, w2)"
        using prod_cases3 by blast
      have w1: "world_ok w1" by (subst c(5)) (simp add: ok)
      have o1: "obj (kern w1) fd = Some m" using m by simp
      have "filling m (kern w1) (kern w1)" using c(4) by (simp add: filling_def)
      note lf = log_replay_frame [OF rp w1 filling_cb [OF o1] this]
      have ff2: "files_frame {?lp} w w2" using files_frame_trans [OF files_frame_kern_step [OF ok c(5)]] lf(2) lp by simp
      obtain r3 w3 where pn: "bloomd_bpf_pin_map E fd (fm_pin_path meta') w2 = (r3, w3)" by fastforce
      have w': "w' = snd (bloomd_bpf_close E fd w2) \<or> (\<exists>y. r3 = Some y) \<and> w' = snd (bloomd_bpf_close E fd w3)"
        using h Inr cr fd rp pn by (auto simp: bloomd_rebuild_from_log_def split: sum.splits option.splits)
      have k3: "filling m (kern w1) (kern w3)" "files_frame {?lp} w w3" if "r3 = Some y" for y
        using pin_map_err [OF _ pn [unfolded that]] lf(1) files_frame_kern [OF ff2 pin_map_err(5) [OF _ pn [unfolded that]]]
        by (simp_all add: filling_def)
      note undo = rebuild_undone [OF k ok cr [unfolded fd] m]
      from w' show ?thesis
      proof (elim disjE exE conjE)
        assume "w' = snd (bloomd_bpf_close E fd w2)"
        from undo [OF lf(1) ff2 this] show ?thesis by simp
      next
        fix y assume "r3 = Some y" "w' = snd (bloomd_bpf_close E fd w3)"
        from undo [OF k3 [OF this(1)] this(2)] show ?thesis by simp
      qed
    qed
  qed
  then show "kern_frame kinv obj held pinned X (kern w) (kern w')"
    "pinned (kern w') = pinned (kern w)" "files_frame {?lp} w w'" "obj (kern w') = obj (kern w)" by auto
qed

end

section \<open>One entry\<close>

text \<open>The files and the pins that belong to a name.\<close>

definition own_files :: "bloomd_config \<Rightarrow> string \<Rightarrow> string set" where
  "own_files cfg n = insert (meta_root cfg @ ''/'' @ n @ ''.digests'')
     {p. \<exists>t. p = meta_root cfg @ ''/'' @ n @ ''.meta'' @ t}"

definition own_pins :: "string \<Rightarrow> string set" where
  "own_pins n = {p. bloomd_path_has_name p n}"

text \<open>
  The digests a filter comes back with: those of the pinned map when there is one, those of the
  log when the filter has data, none otherwise.
\<close>

definition recovered_digests ::
  "('k \<Rightarrow> nat \<Rightarrow> byte list set) \<Rightarrow> ('k \<Rightarrow> string \<Rightarrow> nat option) \<Rightarrow> string \<Rightarrow> bloomd_filter_meta \<Rightarrow>
    'k world \<Rightarrow> byte list set" where
  "recovered_digests held pinned lp meta w =
    (case pinned (kern w) (fm_pin_path meta) of
       Some m \<Rightarrow> held (kern w) m
     | None \<Rightarrow> if fm_has_data meta
               then (case file_data lp w of None \<Rightarrow> {} | Some data \<Rightarrow> set (log_records data)) else {})"

text \<open>
  What the daemon leaves behind for a filter without data: if there is a pin of its name it is
  the pin of an empty map, since the pin is made before and digests are pushed only after the
  metadata says \<open>has_data\<close>.
\<close>

definition pins_empty ::
  "('k \<Rightarrow> nat \<Rightarrow> byte list set) \<Rightarrow> ('k \<Rightarrow> string \<Rightarrow> nat option) \<Rightarrow> bloomd_config \<Rightarrow> string \<Rightarrow> 'k world \<Rightarrow> bool" where
  "pins_empty held pinned cfg n w \<longleftrightarrow>
     (let path = meta_root cfg @ ''/'' @ n @ ''.meta'' in
      \<forall>bs m mp. file_data path w = Some bs \<longrightarrow> meta_parse_text path (string_of_bytes bs) = Inr m \<longrightarrow>
        \<not> fm_has_data m \<longrightarrow> fm_pin_path m \<in> own_pins n \<longrightarrow> pinned (kern w) (fm_pin_path m) = Some mp \<longrightarrow>
        held (kern w) mp = {})"

definition pins_inj :: "('k \<Rightarrow> string \<Rightarrow> nat option) \<Rightarrow> 'k \<Rightarrow> bool" where
  "pins_inj pinned k \<longleftrightarrow> (\<forall>p q m. pinned k p = Some m \<longrightarrow> pinned k q = Some m \<longrightarrow> p = q)"

lemma own_pins_disjoint: "p \<in> own_pins n \<Longrightarrow> p \<in> own_pins n' \<Longrightarrow> n = n'"
  by (auto simp: own_pins_def bloomd_path_has_name_def split: option.splits)

lemma own_files_disjoint:
  assumes "bloomd_name_is_valid n" "bloomd_name_is_valid n'" "n \<noteq> n'"
  shows "meta_root cfg @ ''/'' @ n @ ''.meta'' \<notin> own_files cfg n'"
    "meta_root cfg @ ''/'' @ n @ ''.digests'' \<notin> own_files cfg n'"
  using assms dot_split [of n n'] name_valid_chars(7) by (auto simp: own_files_def)

lemma built_pin_own: "bloomd_name_is_valid n \<Longrightarrow> root @ ''/'' @ n \<in> own_pins n"
  using name_valid_chars(4) [of n]
  by (simp add: own_pins_def bloomd_path_has_name_def strrchr_slash_append)

lemma meta_read_frame:
  assumes "bloomd_meta_read_file path w = (r, w')"
  shows "\<exists>s. w' = w\<lparr>script := s\<rparr>"
    "r = Inr m \<Longrightarrow> \<exists>bs. file_data path w = Some bs \<and> meta_parse_text path (string_of_bytes bs) = Inr m"
proof -
  obtain oc w1 where o: "next_outcome w = (oc, w1)" by fastforce
  then obtain s where s: "w1 = w\<lparr>script := s\<rparr>" using next_outcome_script by blast
  have "file_data path w1 = file_data path w" using s by (simp add: file_data_def)
  then show "\<exists>s. w' = w\<lparr>script := s\<rparr>"
    "r = Inr m \<Longrightarrow> \<exists>bs. file_data path w = Some bs \<and> meta_parse_text path (string_of_bytes bs) = Inr m"
    using assms o s
    by (cases oc; cases "file_data path w"; auto simp: bloomd_meta_read_file_def)+
qed

lemma files_frame_script: "world_ok w \<Longrightarrow> files_frame P w (w\<lparr>script := s\<rparr>)"
  by (intro files_frame_eq) auto

lemma files_frame_mono: "files_frame P w w' \<Longrightarrow> P \<subseteq> Q \<Longrightarrow> files_frame Q w w'"
proof -
  assume f: "files_frame P w w'" and s: "P \<subseteq> Q"
  have "\<exists>q\<in>Q. dirents w q = Some i" if "p \<in> Q" "dirents w' p = Some i" "i < next_ino w" for p i
  proof (cases "p \<in> P")
    case True
    then show ?thesis using f s that unfolding files_frame_def by blast
  next
    case False
    then show ?thesis using f that unfolding files_frame_def by auto
  qed
  moreover have "\<forall>p. p \<notin> Q \<longrightarrow> dirents w' p = dirents w p" using f s unfolding files_frame_def by blast
  moreover have "\<forall>i. i < next_ino w \<longrightarrow> (\<forall>p\<in>Q. dirents w p \<noteq> Some i) \<longrightarrow> inodes w' i = inodes w i"
    using f s unfolding files_frame_def by blast
  ultimately show ?thesis using f unfolding files_frame_def by blast
qed

lemma sys_rename_frame:
  assumes "world_ok w" "sys_rename p q w = (r, w')" "p \<in> P" "q \<in> P"
  shows "files_frame P w w'" "kern w' = kern w"
proof -
  have ok: "world_ok w'" using world_ok_rename [OF assms(1), of p q] assms(2) by simp
  from assms(2) show "files_frame P w w'"
    by (cases rule: sys_rename_cases) (use ok assms(3,4) in \<open>auto simp: files_frame_def split: if_splits\<close>)
  from assms(2) show "kern w' = kern w" by (cases rule: sys_rename_cases) auto
qed

lemma set_aside_frame:
  assumes "world_ok (d_world d)" "path = meta_root cfg @ ''/'' @ n @ ''.meta''"
  shows "files_frame (own_files cfg n) (d_world d) (d_world (set_aside E path d))"
    "kern (d_world (set_aside E path d)) = kern (d_world d)"
    "d_set (set_aside E path d) = d_set d" "d_pool (set_aside E path d) = d_pool d"
    "orphan_meta (d_stats (set_aside E path d)) = orphan_meta (d_stats d) + 1"
proof -
  let ?w = "d_world d" and ?rec = "path @ ''.stale.'' @ dec_digits (time_now E (d_world d))"
  obtain r w' where rn: "sys_rename path ?rec ?w = (r, w')" by fastforce
  have "path = meta_root cfg @ ''/'' @ n @ ''.meta'' @ []" using assms(2) by simp
  then have "path \<in> own_files cfg n" unfolding own_files_def by blast
  moreover have "?rec \<in> own_files cfg n" using assms(2) by (simp add: own_files_def)
  ultimately have f: "files_frame (own_files cfg n) ?w w'" "kern w' = kern ?w"
    using sys_rename_frame [OF assms(1) rn] by auto
  show "files_frame (own_files cfg n) (d_world d) (d_world (set_aside E path d))"
    "kern (d_world (set_aside E path d)) = kern (d_world d)"
    "d_set (set_aside E path d) = d_set d" "d_pool (set_aside E path d) = d_pool d"
    "orphan_meta (d_stats (set_aside E path d)) = orphan_meta (d_stats d) + 1"
    using f files_frame_refl [OF assms(1)] rn
    by (auto simp: set_aside_def bloomd_meta_recover_stale_def Let_def)
qed

lemma open_log_frame:
  assumes "world_ok w" "bloomd_open_filter_log False f w = (None, f', w')" "fm_log_path (f_meta f) = lp"
  shows "files_frame {lp} w w'" "kern w' = kern w" "f_meta f' = f_meta f" "map_fd f' = map_fd f"
proof -
  obtain r1 w1 where o: "sys_open lp False w = (r1, w1)" by fastforce
  obtain now w2 where n: "bloomd_now_ms w1 = (now, w2)" by fastforce
  from assms(2,3) o n obtain fd where fd: "r1 = Inr fd" "w' = w2"
    by (cases r1) (auto simp: bloomd_open_filter_log_def bloomd_log_open_append_def)
  have w2: "\<exists>t c. w2 = w1\<lparr>ticks := t, clock := c\<rparr>"
  proof (cases "ticks w1")
    case Nil
    then have "w2 = w1\<lparr>ticks := ticks w1, clock := clock w1\<rparr>" using n by (simp add: bloomd_now_ms_def)
    then show ?thesis by blast
  next
    case (Cons a list)
    then show ?thesis using n by (auto simp: bloomd_now_ms_def)
  qed
  have ok1: "world_ok w1" by (rule world_ok_open [OF assms(1) o])
  from o [unfolded fd(1)] have "files_frame {lp} w w1"
  proof (cases rule: sys_open_Inr)
    case (1 ino x)
    have "fdtab w (next_fd w) = None" by (rule world_okD(5) [OF assms(1)])
    then show ?thesis
      using 1 ok1 by (auto simp: files_frame_def)
  qed
  moreover have "kern w1 = kern w" using o [unfolded fd(1)] by (cases rule: sys_open_Inr) simp
  ultimately show "files_frame {lp} w w'" "kern w' = kern w"
    using w2 fd(2) by (auto simp: files_frame_def world_ok_def)
  show "f_meta f' = f_meta f" "map_fd f' = map_fd f"
    using open_filter_log_frame [OF assms(2)] by auto
qed

text \<open>
  The state between two entries: every loaded filter has a map of its own that is pinned, if at
  all, under a path of its name; a filter without data has an empty map.
\<close>

definition load_inv ::
  "('k \<Rightarrow> bool) \<Rightarrow> ('k \<Rightarrow> int \<Rightarrow> nat option) \<Rightarrow> ('k \<Rightarrow> nat \<Rightarrow> byte list set) \<Rightarrow>
    ('k \<Rightarrow> string \<Rightarrow> nat option) \<Rightarrow> 'k daemon \<Rightarrow> bool" where
  "load_inv kinv obj held pinned d \<longleftrightarrow>
     kinv (kern (d_world d)) \<and> world_ok (d_world d) \<and> set_ok (d_set d) \<and> pool_fd (d_pool d) < 0 \<and>
     pins_inj pinned (kern (d_world d)) \<and>
     (\<forall>n f. lookup (d_set d) n = Some f \<longrightarrow>
        (\<exists>m. flt_map obj (d_world d) f = Some m \<and>
          (\<forall>p. pinned (kern (d_world d)) p = Some m \<longrightarrow> p \<in> own_pins n) \<and>
          (\<not> fm_has_data (f_meta f) \<longrightarrow> held (kern (d_world d)) m = {}))) \<and>
     (\<forall>n n' f f'. lookup (d_set d) n = Some f \<longrightarrow> lookup (d_set d) n' = Some f' \<longrightarrow> n \<noteq> n' \<longrightarrow>
        flt_map obj (d_world d) f \<noteq> flt_map obj (d_world d) f')"

lemma load_inv_daemon: "load_inv kinv obj held pinned d \<Longrightarrow> daemon_inv kinv obj held d"
  unfolding load_inv_def daemon_inv_def by (intro conjI) (blast | simp)+

text \<open>
  \<open>map_found w w' n meta fd D\<close>: between \<open>w\<close> and \<open>w'\<close> the new descriptor \<open>fd\<close> was opened on a map
  that holds the digests \<open>D\<close>, that no open descriptor referred to unless it is the pinned map of
  the metadata, and whose pins carry the name \<open>n\<close>.
\<close>

definition map_found ::
  "('k \<Rightarrow> int \<Rightarrow> nat option) \<Rightarrow> ('k \<Rightarrow> nat \<Rightarrow> byte list set) \<Rightarrow> ('k \<Rightarrow> string \<Rightarrow> nat option) \<Rightarrow>
    'k \<Rightarrow> 'k \<Rightarrow> string \<Rightarrow> string \<Rightarrow> int \<Rightarrow> byte list set \<Rightarrow> bool" where
  "map_found obj held pinned k k' n pp fd D \<longleftrightarrow> fd \<ge> 0 \<and> obj k fd = None \<and> pins_inj pinned k' \<and>
     (\<exists>m. obj k' fd = Some m \<and> held k' m = D \<and>
        (\<forall>fd'. obj k fd' = Some m \<longrightarrow> pinned k pp = Some m) \<and>
        (\<forall>p. pinned k' p = Some m \<longrightarrow> p \<in> own_pins n) \<and>
        (\<forall>p. pinned k' p = pinned k p \<or> pinned k' p = Some m))"

text \<open>The state is kept when an entry is set aside, and when its filter is entered.\<close>

lemma load_inv_skip:
  assumes inv: "load_inv kinv obj held pinned d"
    and kf: "kern_frame kinv obj held pinned X (kern (d_world d)) (kern (d_world d'))"
    and pn: "pinned (kern (d_world d')) = pinned (kern (d_world d))"
    and st: "lookup (d_set d') = lookup (d_set d)" "set_ok (d_set d')" "d_pool d' = d_pool d"
      "world_ok (d_world d')"
  shows "load_inv kinv obj held pinned d'"
proof -
  note i = inv [unfolded load_inv_def] and k = kf [unfolded kern_frame_def]
  have fm: "flt_map obj (d_world d') f = flt_map obj (d_world d) f" if "lookup (d_set d) n = Some f" for n f
    using i k that unfolding flt_map_def by (metis option.distinct(1))
  have he: "held (kern (d_world d')) m = held (kern (d_world d)) m"
    if "flt_map obj (d_world d) f = Some m" for m f
    using k that by (auto simp: flt_map_def live_def split: if_splits)
  show ?thesis
    unfolding load_inv_def st(1,3) pn
  proof (intro conjI)
    show "pins_inj pinned (kern (d_world d'))" using i pn by (simp add: pins_inj_def)
    show "\<forall>n f. lookup (d_set d) n = Some f \<longrightarrow> (\<exists>m. flt_map obj (d_world d') f = Some m \<and>
        (\<forall>p. pinned (kern (d_world d)) p = Some m \<longrightarrow> p \<in> own_pins n) \<and>
        (\<not> fm_has_data (f_meta f) \<longrightarrow> held (kern (d_world d')) m = {}))"
      using i fm he by metis
  qed (use i k st fm in auto)
qed

text \<open>The filters already loaded keep their maps and digests, and none of them has the new map.\<close>

lemma load_inv_old:
  assumes inv: "load_inv kinv obj held pinned d"
    and kf: "kern_frame kinv obj held pinned (own_pins n) (kern (d_world d)) (kern (d_world d'))"
    and m: "\<forall>fd'. obj (kern (d_world d)) fd' = Some m \<longrightarrow> pinned (kern (d_world d)) pp = Some m" "pp \<in> own_pins n"
      "\<forall>p. pinned (kern (d_world d')) p = pinned (kern (d_world d)) p \<or> pinned (kern (d_world d')) p = Some m"
    and g: "lookup (d_set d) n = None" "lookup (d_set d) x = Some g"
  shows "\<exists>m0. flt_map obj (d_world d) g = Some m0 \<and> flt_map obj (d_world d') g = Some m0 \<and> m0 \<noteq> m \<and>
      held (kern (d_world d')) m0 = held (kern (d_world d)) m0 \<and>
      (\<forall>p. pinned (kern (d_world d')) p = Some m0 \<longrightarrow> p \<in> own_pins x) \<and>
      (\<not> fm_has_data (f_meta g) \<longrightarrow> held (kern (d_world d)) m0 = {})"
proof -
  let ?k = "kern (d_world d)" and ?k' = "kern (d_world d')"
  note i = inv [unfolded load_inv_def] and k = kf [unfolded kern_frame_def]
  obtain m0 where m0: "flt_map obj (d_world d) g = Some m0"
    "\<forall>p. pinned ?k p = Some m0 \<longrightarrow> p \<in> own_pins x" "\<not> fm_has_data (f_meta g) \<longrightarrow> held ?k m0 = {}"
    using i g(2) by blast
  have fd: "map_fd g \<ge> 0" "obj ?k (map_fd g) = Some m0" using m0(1) by (auto simp: flt_map_def split: if_splits)
  have ne: "m0 \<noteq> m"
  proof
    assume "m0 = m"
    then have "pp \<in> own_pins x" using m(1) fd(2) m0(2) by blast
    then have "x = n" using own_pins_disjoint m(2) by blast
    then show False using g by simp
  qed
  have "flt_map obj (d_world d') g = Some m0" using k fd by (auto simp: flt_map_def)
  moreover have "held ?k' m0 = held ?k m0" using k fd(2) unfolding live_def by blast
  moreover have "\<forall>p. pinned ?k' p = Some m0 \<longrightarrow> p \<in> own_pins x"
    using m0(2) m(3) ne by (metis option.inject)
  ultimately show ?thesis using m0 ne by blast
qed

lemma load_inv_extend:
  assumes inv: "load_inv kinv obj held pinned d"
    and kf: "kern_frame kinv obj held pinned (own_pins n) (kern (d_world d)) (kern (d_world d'))"
    and mf: "map_found obj held pinned (kern (d_world d)) (kern (d_world d')) n pp (map_fd f) D"
      "pp \<in> own_pins n" "\<not> fm_has_data (f_meta f) \<Longrightarrow> D = {}"
    and st: "lookup (d_set d) n = None" "lookup (d_set d') = (lookup (d_set d))(n \<mapsto> f)"
      "set_ok (d_set d')" "d_pool d' = d_pool d" "world_ok (d_world d')"
  shows "load_inv kinv obj held pinned d'"
    "\<exists>m. flt_map obj (d_world d') f = Some m \<and> held (kern (d_world d')) m = D"
proof -
  let ?k = "kern (d_world d)" and ?k' = "kern (d_world d')"
  note i = inv [unfolded load_inv_def] and k = kf [unfolded kern_frame_def]
  from mf(1) obtain m where m: "map_fd f \<ge> 0" "obj ?k' (map_fd f) = Some m" "held ?k' m = D"
    "\<forall>fd'. obj ?k fd' = Some m \<longrightarrow> pinned ?k pp = Some m" "\<forall>p. pinned ?k' p = Some m \<longrightarrow> p \<in> own_pins n"
    "\<forall>p. pinned ?k' p = pinned ?k p \<or> pinned ?k' p = Some m"
    unfolding map_found_def by blast
  have fmf: "flt_map obj (d_world d') f = Some m" using m by (simp add: flt_map_def)
  then show "\<exists>m. flt_map obj (d_world d') f = Some m \<and> held ?k' m = D" using m(3) by blast
  note old = load_inv_old [OF inv kf m(4) mf(2) m(6) st(1)]
  have a: "\<exists>m. flt_map obj (d_world d') g = Some m \<and> (\<forall>p. pinned ?k' p = Some m \<longrightarrow> p \<in> own_pins x) \<and>
      (\<not> fm_has_data (f_meta g) \<longrightarrow> held ?k' m = {})" if "((lookup (d_set d))(n \<mapsto> f)) x = Some g" for x g
    using that old [of x g] fmf m(3,5) mf(3) by (cases "x = n") fastforce+
  have b: "flt_map obj (d_world d') g \<noteq> flt_map obj (d_world d') h"
    if g: "((lookup (d_set d))(n \<mapsto> f)) x = Some g" and h: "((lookup (d_set d))(n \<mapsto> f)) y = Some h" and xy: "x \<noteq> y" for x y g h
  proof -
    have "lookup (d_set d) x = Some g \<Longrightarrow> lookup (d_set d) y = Some h \<Longrightarrow>
        flt_map obj (d_world d) g \<noteq> flt_map obj (d_world d) h" using i xy by blast
    then show ?thesis using old [of x g] old [of y h] g h xy fmf by (cases "x = n"; cases "y = n") auto
  qed
  have s: "kinv ?k'" "pool_fd (d_pool d) < 0" "pins_inj pinned ?k'" using i k mf(1) by (auto simp: map_found_def)
  show "load_inv kinv obj held pinned d'"
    unfolding load_inv_def st(2,4) by (intro conjI allI impI) (rule s st(3,5) | erule a | erule (2) b)+
qed

text \<open>
  What a map for an entry means: it was found with the digests the entry left behind, and nothing of other
  names changed.
\<close>

definition map_loaded ::
  "('k \<Rightarrow> bool) \<Rightarrow> ('k \<Rightarrow> int \<Rightarrow> nat option) \<Rightarrow> ('k \<Rightarrow> nat \<Rightarrow> byte list set) \<Rightarrow> ('k \<Rightarrow> string \<Rightarrow> nat option) \<Rightarrow>
    string \<Rightarrow> string \<Rightarrow> bloomd_filter_meta \<Rightarrow> 'k world \<Rightarrow> bloomd_filter_meta \<Rightarrow> int \<Rightarrow> 'k world \<Rightarrow> bool" where
  "map_loaded kinv obj held pinned n lp meta w meta' fd w' \<longleftrightarrow>
     map_found obj held pinned (kern w) (kern w') n (fm_pin_path meta) fd (recovered_digests held pinned lp meta w) \<and>
     kern_frame kinv obj held pinned (own_pins n) (kern w) (kern w') \<and> files_frame {lp} w w' \<and>
     meta' = meta\<lparr>fm_pin_path := fm_pin_path meta', fm_meta_path := fm_meta_path meta'\<rparr>"

lemma map_loadedD:
  assumes "map_loaded kinv obj held pinned n lp meta w meta' fd w'"
  shows "map_found obj held pinned (kern w) (kern w') n (fm_pin_path meta) fd (recovered_digests held pinned lp meta w)"
    "kern_frame kinv obj held pinned (own_pins n) (kern w) (kern w')" "files_frame {lp} w w'"
    "meta' = meta\<lparr>fm_pin_path := fm_pin_path meta', fm_meta_path := fm_meta_path meta'\<rparr>"
  using assms unfolding map_loaded_def by blast+

context bpf_kernel
begin

lemma open_pinned_loaded:
  assumes k: "kinv (kern w)" and ok: "world_ok w" and inj: "pins_inj pinned (kern w)"
    and pp: "fm_pin_path meta \<in> own_pins n" and op: "bloomd_bpf_open_pinned E (fm_pin_path meta) w = (Inr fd, w')"
  shows "map_loaded kinv obj held pinned n lp meta w meta fd w'"
proof -
  note o = open_pinned_ok [OF k op]
  obtain m where m: "pinned (kern w) (fm_pin_path meta) = Some m" using o(3) by blast
  have "\<forall>p. pinned (kern w) p = Some m \<longrightarrow> p \<in> own_pins n" using inj m pp by (auto simp: pins_inj_def)
  then have "map_found obj held pinned (kern w) (kern w') n (fm_pin_path meta) fd (recovered_digests held pinned lp meta w)"
    using o m inj by (auto simp: map_found_def recovered_digests_def pins_inj_def)
  moreover have "kern_frame kinv obj held pinned (own_pins n) (kern w) (kern w')"
    using o by (intro kern_frame_new [where fd = fd]) auto
  ultimately show ?thesis using files_frame_kern_step [OF ok o(8)] by (simp add: map_loaded_def)
qed

lemma create_loaded:
  assumes k: "kinv (kern w)" and ok: "world_ok w" and inj: "pins_inj pinned (kern w)"
    and none: "pinned (kern w) (fm_pin_path meta) = None" "\<not> fm_has_data meta"
    and cr: "bloomd_bpf_create_map E (fm_name meta) (fm_capacity meta) (fm_hashes meta) w = (Inr fd, w')"
  shows "map_loaded kinv obj held pinned n lp meta w meta fd w'"
proof -
  note c = create_map_ok [OF k cr]
  from c(3) obtain m where m: "\<forall>fd. obj (kern w) fd \<noteq> Some m" "\<forall>p. pinned (kern w) p \<noteq> Some m"
    "obj (kern w') = (obj (kern w))(fd \<mapsto> m)" "held (kern w') = (held (kern w))(m := {})"
    "pinned (kern w') = pinned (kern w)" by auto
  have "map_found obj held pinned (kern w) (kern w') n (fm_pin_path meta) fd (recovered_digests held pinned lp meta w)"
    using c(1,2) m none inj by (auto simp: map_found_def recovered_digests_def pins_inj_def)
  moreover have "kern_frame kinv obj held pinned (own_pins n) (kern w) (kern w')"
    using m c(2,4) by (intro kern_frame_new [where fd = fd]) (auto simp: live_def)
  ultimately show ?thesis using files_frame_kern_step [OF ok c(5)] by (simp add: map_loaded_def)
qed

lemma rebuild_loaded:
  assumes k: "kinv (kern w)" and ok: "world_ok w" and inj: "pins_inj pinned (kern w)"
    and none: "pinned (kern w) (fm_pin_path meta) = None" "fm_has_data meta"
    and n: "fm_name meta = n" "bloomd_name_is_valid n"
    and lp: "fm_log_path meta = lp" "lp = meta_root cfg @ ''/'' @ n @ ''.digests''"
    and rb: "bloomd_rebuild_from_log E cfg meta w = (Inr (meta', fd, rep), w')"
  shows "map_loaded kinv obj held pinned n lp meta w meta' fd w'"
proof -
  from rebuild_Inr [OF k ok rb] obtain m data where
    ap: "bloomd_assign_filter_paths cfg meta = Inr meta'" and fd: "fd \<ge> 0" "obj (kern w) fd = None"
    and m: "\<not> live obj pinned (kern w) m" "file_data (fm_log_path meta') w = Some data"
      "obj (kern w') = (obj (kern w))(fd \<mapsto> m)" "held (kern w') = (held (kern w))(m := set (log_records data))"
      "pinned (kern w) (fm_pin_path meta') = None"
      "pinned (kern w') = (pinned (kern w))(fm_pin_path meta' \<mapsto> m)"
      "kinv (kern w')" and ff: "files_frame {fm_log_path meta'} w w'" by blast
  note as = assign_paths_Inr [OF ap]
  have lp': "fm_log_path meta' = lp" using as lp n(1) by simp
  have pp': "fm_pin_path meta' \<in> own_pins n" using as(3) n built_pin_own by simp
  have "map_found obj held pinned (kern w) (kern w') n (fm_pin_path meta) fd (recovered_digests held pinned lp meta w)"
    using fd m none inj lp' pp' by (auto simp: map_found_def recovered_digests_def pins_inj_def live_def)
  moreover have "kern_frame kinv obj held pinned (own_pins n) (kern w) (kern w')"
    using m fd pp' by (intro kern_frame_new [where fd = fd]) (auto simp: live_def)
  moreover have "meta' = meta\<lparr>fm_pin_path := fm_pin_path meta', fm_meta_path := fm_meta_path meta'\<rparr>"
    using ap lp n(1) by (auto simp: bloomd_assign_filter_paths_def build_path_defs split: sum.splits if_splits)
  ultimately show ?thesis using ff lp' by (simp add: map_loaded_def)
qed

text \<open>A failed attempt to open the pin changes nothing.\<close>

lemma map_loaded_after:
  assumes "map_loaded kinv obj held pinned n lp meta w1 meta' fd w'" "world_ok w" "w1 = w\<lparr>kern := kern w1\<rparr>" "kinv (kern w1)"
    "obj (kern w1) = obj (kern w)" "held (kern w1) = held (kern w)" "pinned (kern w1) = pinned (kern w)"
  shows "map_loaded kinv obj held pinned n lp meta w meta' fd w'"
proof -
  have fd: "file_data p w1 = file_data p w" for p by (subst assms(3)) (simp add: file_data_def)
  have r: "recovered_digests held pinned lp meta w1 = recovered_digests held pinned lp meta w"
    by (simp add: recovered_digests_def assms(6,7) fd split: option.split)
  have kf: "kern_frame kinv obj held pinned (own_pins n) (kern w) (kern w1)"
    by (rule kern_frame_same) (fact assms(4-7))+
  show ?thesis
    using assms(1) r files_frame_trans [OF files_frame_kern_step [OF assms(2,3)]] kern_frame_trans [OF kf]
    by (simp add: map_loaded_def map_found_def assms(5-7))
qed

lemma load_map_Open:
  assumes k: "kinv (kern w)" and ok: "world_ok w" and inj: "pins_inj pinned (kern w)"
    and n: "fm_name meta = n" "bloomd_name_is_valid n" "fm_pin_path meta \<in> own_pins n"
    and lp: "fm_log_path meta = lp" "lp = meta_root cfg @ ''/'' @ n @ ''.digests''"
    and h: "load_map E cfg meta w = (Map_open meta' fd u, w')"
  shows "map_loaded kinv obj held pinned n lp meta w meta' fd w'"
proof -
  obtain r1 w1 where op: "bloomd_bpf_open_pinned E (fm_pin_path meta) w = (r1, w1)" by fastforce
  show ?thesis
  proof (cases r1)
    case (Inr fd1)
    then show ?thesis
      using h op open_pinned_loaded [OF k ok inj n(3) op [unfolded Inr], of lp] by (simp add: load_map_def)
  next
    case (Inl e)
    note o = open_pinned_err [OF k op [unfolded Inl]]
    have enoent: "e = ENOENT" using h op Inl by (auto simp: load_map_def split: if_splits)
    have "world_ok w1" by (subst o(5)) (simp add: ok)
    then have w1: "world_ok w1" "pins_inj pinned (kern w1)" "pinned (kern w1) (fm_pin_path meta) = None"
      using inj o(3,6) enoent by (simp_all add: pins_inj_def)
    have "map_loaded kinv obj held pinned n lp meta w1 meta' fd w'"
    proof (cases "fm_has_data meta")
      case False
      then show ?thesis
        using h op Inl enoent create_loaded [OF o(4) w1 False]
        by (auto simp: load_map_def split: sum.splits prod.splits)
    next
      case True
      then obtain rep where "bloomd_rebuild_from_log E cfg meta w1 = (Inr (meta', fd, rep), w')"
        using h op Inl enoent by (auto simp: load_map_def split: if_splits sum.splits prod.splits)
      then show ?thesis by (rule rebuild_loaded [OF o(4) w1 True n(1,2) lp])
    qed
    then show ?thesis using map_loaded_after [OF _ ok o(5,4,1-3)] by blast
  qed
qed

text \<open>A log stands in for a lost map only when the metadata calls it clean.\<close>

lemma load_map_clean:
  assumes "kinv (kern w)" "load_map E cfg meta w = (Map_open meta' fd u, w')" "fm_has_data meta"
    "pinned (kern w) (fm_pin_path meta) = None"
  shows "fm_log_clean meta"
proof -
  obtain r1 w1 where op: "bloomd_bpf_open_pinned E (fm_pin_path meta) w = (r1, w1)" by fastforce
  show ?thesis
  proof (cases r1)
    case (Inl e)
    then show ?thesis using assms(2,3) op by (cases "e = ENOENT"; cases "fm_log_clean meta") (simp_all add: load_map_def)
  next
    case (Inr x)
    then show ?thesis using open_pinned_ok(3) [OF assms(1) op [unfolded Inr]] assms(4) by simp
  qed
qed

lemma load_map_Stale:
  assumes k: "kinv (kern w)" and ok: "world_ok w"
    and lp: "lp = meta_root cfg @ ''/'' @ fm_name meta @ ''.digests''"
    and h: "load_map E cfg meta w = (Map_stale, w')"
  shows "kern_frame kinv obj held pinned X (kern w) (kern w')" "files_frame {lp} w w'"
    "pinned (kern w') = pinned (kern w)"
proof -
  obtain r1 w1 where op: "bloomd_bpf_open_pinned E (fm_pin_path meta) w = (r1, w1)" by fastforce
  then obtain e where e: "r1 = Inl e" using h by (cases r1) (auto simp: load_map_def)
  note o = open_pinned_err [OF k op [unfolded e]]
  have ok1: "world_ok w1" by (subst o(5)) (simp add: ok)
  obtain x where rb: "bloomd_rebuild_from_log E cfg meta w1 = (Inl x, w')"
    using h op e by (auto simp: load_map_def split: if_splits sum.splits prod.splits)
  note r = rebuild_Inl [OF o(4) ok1 rb]
  show "kern_frame kinv obj held pinned X (kern w) (kern w')"
    using o by (intro kern_frame_trans [OF kern_frame_same r(1)]) auto
  show "files_frame {lp} w w'"
    using files_frame_trans [OF files_frame_kern_step [OF ok o(5)] r(3)] lp by simp
  show "pinned (kern w') = pinned (kern w)" using r(2) o(3) by simp
qed

lemma map_found_cong:
  "obj k2 = obj k' \<Longrightarrow> held k2 = held k' \<Longrightarrow> pinned k2 = pinned k' \<Longrightarrow>
    map_found obj held pinned k k2 n pp fd D = map_found obj held pinned k k' n pp fd D"
  by (simp add: map_found_def pins_inj_def)

lemma validate_obs:
  assumes "kinv (kern w)" "bloomd_validate_open_pinned_map E meta fd w = (r, w')"
  shows "obj (kern w') = obj (kern w)" "held (kern w') = held (kern w)"
    "pinned (kern w') = pinned (kern w)" "kinv (kern w')" "w' = w\<lparr>kern := kern w'\<rparr>"
proof -
  obtain ri w1 where i: "bloomd_bpf_get_map_info E fd w = (ri, w1)" by fastforce
  then have "w' = w1"
    using assms(2) by (auto simp: bloomd_validate_open_pinned_map_def split: sum.splits if_splits)
  then show "obj (kern w') = obj (kern w)" "held (kern w') = held (kern w)"
    "pinned (kern w') = pinned (kern w)" "kinv (kern w')" "w' = w\<lparr>kern := kern w'\<rparr>"
    using map_info_obs [OF assms(1) i] by simp_all
qed

lemma load_enter_ok:
  assumes inv: "load_inv kinv obj held pinned d" and n: "bloomd_name_is_valid n" "lookup (d_set d) n = None"
    and mf: "map_found obj held pinned (kern (d_world d)) (kern w1) n pp fd D" "pp \<in> own_pins n"
    and kf: "kern_frame kinv obj held pinned (own_pins n) (kern (d_world d)) (kern w1)"
    and ff: "files_frame {lp} (d_world d) w1"
    and meta: "fm_name meta = n" "fm_log_path meta = lp" "\<not> fm_has_data meta \<Longrightarrow> D = {}"
    and h: "load_enter E path meta fd u (d\<lparr>d_world := w1\<rparr>) = (None, d')"
  obtains f where "load_inv kinv obj held pinned d'" "files_frame {lp} (d_world d) (d_world d')"
    "kern_frame kinv obj held pinned (own_pins n) (kern (d_world d)) (kern (d_world d'))"
    "lookup (d_set d') = (lookup (d_set d))(n \<mapsto> f)" "f_meta f = meta"
    "abs_filters obj held d' n = Some D" "orphan_meta (d_stats d') = orphan_meta (d_stats d)"
proof -
  have ok: "set_ok (d_set d)" using inv by (simp add: load_inv_def)
  have k1: "kinv (kern w1)" using kf by (simp add: kern_frame_def)
  have ok1: "world_ok w1" using ff by (simp add: files_frame_def)
  obtain r2 w2 where va: "bloomd_validate_open_pinned_map E meta fd w1 = (r2, w2)" by fastforce
  note v = validate_obs [OF k1 va]
  have r2: "r2 = None" using h va by (cases r2) (simp_all add: load_enter_def)
  have ok2: "world_ok w2" by (subst v(5)) (simp add: ok1)
  have ff2: "files_frame {lp} (d_world d) w2" by (rule files_frame_kern [OF ff v(5)])
  obtain ri s where fi: "bloomd_filter_set_find_n (d_set d) n = (ri, s)" by fastforce
  note fl = fs.find_law [OF ok n(1) fi]
  have ri: "ri = None" using fl n(2) by (cases ri) auto
  let ?f0 = "(new_filter meta fd)\<lparr>log_history_incomplete := fm_has_data meta \<and> \<not> fm_log_clean meta\<rparr>"
  obtain r3 f w3 where op: "(if fm_has_data meta then bloomd_open_filter_log False ?f0 w2 else (None, ?f0, w2))
      = (r3, f, w3)" using prod_cases3 by blast
  obtain r4 s' where ad: "bloomd_filter_set_add (mem E) f s = (r4, s')" by fastforce
  have r34: "r3 = None" "r4 = None" and d': "d_world d' = w3" "d_set d' = s'" "d_pool d' = d_pool d"
    "orphan_meta (d_stats d') = orphan_meta (d_stats d)"
    using h va r2 fi ri op ad meta(1)
    by (auto simp: load_enter_def bloomd_filter_set_find_def Let_def split: option.splits)
  have lf: "files_frame {lp} w2 w3 \<and> kern w3 = kern w2 \<and> f_meta f = meta \<and> map_fd f = fd"
    using op r34(1) open_log_frame [OF ok2, of ?f0 f w3 lp] meta(2) files_frame_refl [OF ok2]
    by (auto simp: new_filter_def split: if_splits)
  have nm: "f_name f = n" using lf meta(1) by simp
  note al = fs.add_law [of s f "mem E" s', OF _ _ _ ad [unfolded r34(2)]]
  have al': "set_ok s'" "lookup s' = (lookup (d_set d))(n \<mapsto> f)" using al fl n nm by auto
  have ff3: "files_frame {lp} (d_world d) w3" using files_frame_trans [OF ff2] lf by blast
  have kf3: "kern_frame kinv obj held pinned (own_pins n) (kern (d_world d)) (kern w3)"
    using kern_frame_trans [OF kf kern_frame_same] v lf by auto
  have mf3: "map_found obj held pinned (kern (d_world d)) (kern w3) n pp (map_fd f) D"
    using mf(1) map_found_cong [of "kern w3" "kern w1"] v lf by simp
  have st: "lookup (d_set d') = (lookup (d_set d))(n \<mapsto> f)" "set_ok (d_set d')"
    "world_ok (d_world d')" using al' d' ff3 by (simp_all add: files_frame_def)
  note ex = load_inv_extend [OF inv _ _ mf(2) _ n(2) st(1,2) d'(3) st(3), of D]
  have inv': "load_inv kinv obj held pinned d'" using ex(1) kf3 mf3 d'(1) lf meta(3) by simp
  obtain m where "flt_map obj (d_world d') f = Some m" "held (kern (d_world d')) m = D"
    using ex(2) kf3 mf3 d'(1) lf meta(3) by auto
  then have "abs_filters obj held d' n = Some D" using st(1) by (simp add: abs_filters_def)
  then show ?thesis
    using that [OF inv' _ _ st(1)] ff3 kf3 d'(1,4) lf by simp
qed

lemma load_read_eq:
  assumes "bloomd_name_is_valid n" "path = meta_root cfg @ ''/'' @ n @ ''.meta''"
    "bloomd_meta_read_file path (d_world d) = (rr, w1)"
  shows "load_read E cfg (n @ ''.meta'') d =
    (if length path \<ge> PATH_MAX then (None, d)
     else case rr of
       Inl _ \<Rightarrow> (None, set_aside E path (d\<lparr>d_world := w1\<rparr>))
     | Inr m \<Rightarrow>
         if fm_name m \<noteq> n \<or> \<not> bloomd_path_under_root (fm_pin_path m) (pin_root cfg) \<or>
            \<not> bloomd_path_has_name (fm_pin_path m) (fm_name m)
         then (None, set_aside E path (d\<lparr>d_world := w1\<rparr>)) else (Some (path, m), d\<lparr>d_world := w1\<rparr>))"
proof -
  have sfx: "bloomd_has_suffix (n @ ''.meta'') ''.meta''" by (simp add: bloomd_has_suffix_def)
  show ?thesis
    unfolding load_read_def Let_def assms(2) [symmetric]
    using sfx meta_entry_name_roundtrip [OF assms(1)] assms(3) by (auto split: sum.splits)
qed

text \<open>Setting the metadata of \<open>n\<close> aside, after steps that kept the pins, changes nothing of other names.\<close>

lemma set_aside_step:
  assumes inv: "load_inv kinv obj held pinned d" and path: "path = meta_root cfg @ ''/'' @ n @ ''.meta''"
    and d': "d' = set_aside E path (d\<lparr>d_world := w\<rparr>)"
    and w: "files_frame (own_files cfg n) (d_world d) w" "pinned (kern w) = pinned (kern (d_world d))"
      "kern_frame kinv obj held pinned (own_pins n) (kern (d_world d)) (kern w)"
  shows "orphan_meta (d_stats d') = orphan_meta (d_stats d) + 1" "lookup (d_set d') = lookup (d_set d)"
    "load_inv kinv obj held pinned d'" "files_frame (own_files cfg n) (d_world d) (d_world d')"
    "kern_frame kinv obj held pinned (own_pins n) (kern (d_world d)) (kern (d_world d'))"
proof -
  have ok: "world_ok w" using w(1) by (simp add: files_frame_def)
  note sa = set_aside_frame [of "d\<lparr>d_world := w\<rparr>" path cfg n E, OF _ path]
  show "orphan_meta (d_stats d') = orphan_meta (d_stats d) + 1" "lookup (d_set d') = lookup (d_set d)"
    using sa(3,5) ok d' by simp_all
  show f: "files_frame (own_files cfg n) (d_world d) (d_world d')"
    using files_frame_trans [OF w(1)] sa(1) ok d' by simp
  show kf: "kern_frame kinv obj held pinned (own_pins n) (kern (d_world d)) (kern (d_world d'))"
    using w(3) sa(2) ok d' by simp
  show "load_inv kinv obj held pinned d'"
    by (rule load_inv_skip [OF inv kf]) (use d' sa ok w f inv in \<open>auto simp: load_inv_def files_frame_def\<close>)
qed

text \<open>The branches of one entry: a path too long, metadata set aside at once, or the outcome of the map.\<close>

lemma load_entry_split:
  assumes n: "bloomd_name_is_valid n" and path: "path = meta_root cfg @ ''/'' @ n @ ''.meta''"
    and lp: "lp = meta_root cfg @ ''/'' @ n @ ''.digests''" and ok: "world_ok (d_world d)"
    and h: "load_entry E cfg (n @ ''.meta'') d = (None, d')"
  obtains (long) "length path \<ge> PATH_MAX" "d' = d"
  | (bad) sc where "d' = set_aside E path (d\<lparr>d_world := (d_world d)\<lparr>script := sc\<rparr>\<rparr>)"
  | (stale) bs m sc w where "file_data path (d_world d) = Some bs" "meta_parse_text path (string_of_bytes bs) = Inr m"
      "fm_name m = n" "load_map E cfg (m\<lparr>fm_log_path := lp\<rparr>) ((d_world d)\<lparr>script := sc\<rparr>) = (Map_stale, w)"
      "d' = set_aside E path (d\<lparr>d_world := w\<rparr>)"
  | (opened) bs m sc w meta fd u where "file_data path (d_world d) = Some bs" "meta_parse_text path (string_of_bytes bs) = Inr m"
      "fm_name m = n" "fm_pin_path m \<in> own_pins n"
      "load_map E cfg (m\<lparr>fm_log_path := lp\<rparr>) ((d_world d)\<lparr>script := sc\<rparr>) = (Map_open meta fd u, w)"
      "load_enter E path meta fd u (d\<lparr>d_world := w\<rparr>) = (None, d')"
proof -
  let ?w = "d_world d"
  obtain rr w1 where rd: "bloomd_meta_read_file path ?w = (rr, w1)" by fastforce
  then obtain sc where w1: "w1 = ?w\<lparr>script := sc\<rparr>" using meta_read_frame(1) by blast
  note lr = load_read_eq [OF n path rd]
  let ?good = "\<lambda>m. fm_name m = n \<and> bloomd_path_under_root (fm_pin_path m) (pin_root cfg) \<and>
    bloomd_path_has_name (fm_pin_path m) (fm_name m)"
  consider "length path \<ge> PATH_MAX" | "length path < PATH_MAX" "\<forall>m. rr = Inr m \<longrightarrow> \<not> ?good m"
    | m where "length path < PATH_MAX" "rr = Inr m" "?good m" using leI by blast
  then show thesis
  proof cases
    case 1
    then show thesis using long h lr by (simp add: load_entry_def)
  next
    case 2
    then show thesis using bad h lr w1 by (auto simp: load_entry_def split: sum.splits)
  next
    case (3 m)
    from meta_read_frame(2) [OF rd 3(2)] obtain bs where bs: "file_data path ?w = Some bs"
      "meta_parse_text path (string_of_bytes bs) = Inr m" by blast
    obtain rm w2 where lm: "load_map E cfg (m\<lparr>fm_log_path := lp\<rparr>) w1 = (rm, w2)" by fastforce
    have "(case rm of Map_error x \<Rightarrow> (Some x, d\<lparr>d_world := w2\<rparr>)
        | Map_stale \<Rightarrow> (None, set_aside E path (d\<lparr>d_world := w2\<rparr>))
        | Map_open meta fd u \<Rightarrow> load_enter E path meta fd u (d\<lparr>d_world := w2\<rparr>)) = (None, d')"
      using h lr 3 lm lp by (cases rm) (auto simp: load_entry_def build_path_defs split: if_splits)
    moreover have "fm_name m = n" "fm_pin_path m \<in> own_pins n" using 3(3) by (auto simp: own_pins_def)
    ultimately show thesis
      using stale [OF bs] opened [OF bs] lm w1 by (cases rm) auto
  qed
qed

text \<open>An entry whose map was found is entered with the digests it had.\<close>

lemma load_open_step:
  assumes inv: "load_inv kinv obj held pinned d" and n: "bloomd_name_is_valid n" "lookup (d_set d) n = None"
    and path: "path = meta_root cfg @ ''/'' @ n @ ''.meta''" and lp: "lp = meta_root cfg @ ''/'' @ n @ ''.digests''"
    and empty: "pins_empty held pinned cfg n (d_world d)"
    and m: "file_data path (d_world d) = Some bs" "meta_parse_text path (string_of_bytes bs) = Inr m"
      "fm_name m = n" "fm_pin_path m \<in> own_pins n"
    and lm: "load_map E cfg (m\<lparr>fm_log_path := lp\<rparr>) ((d_world d)\<lparr>script := sc\<rparr>) = (Map_open meta fd u, w)"
    and le: "load_enter E path meta fd u (d\<lparr>d_world := w\<rparr>) = (None, d')"
  obtains f where "orphan_meta (d_stats d') = orphan_meta (d_stats d)" "lookup (d_set d') = (lookup (d_set d))(n \<mapsto> f)"
    "f_meta f = m\<lparr>fm_log_path := lp, fm_pin_path := fm_pin_path (f_meta f), fm_meta_path := fm_meta_path (f_meta f)\<rparr>"
    "abs_filters obj held d' n = Some (recovered_digests held pinned lp m (d_world d))"
    "load_inv kinv obj held pinned d'" "files_frame (own_files cfg n) (d_world d) (d_world d')"
    "kern_frame kinv obj held pinned (own_pins n) (kern (d_world d)) (kern (d_world d'))"
proof -
  let ?w = "d_world d" let ?w1 = "(d_world d)\<lparr>script := sc\<rparr>" let ?m = "m\<lparr>fm_log_path := lp\<rparr>"
  let ?D = "recovered_digests held pinned lp m ?w"
  have k: "kinv (kern ?w1)" "world_ok ?w1" "pins_inj pinned (kern ?w1)" and ok: "world_ok ?w"
    using inv by (auto simp: load_inv_def)
  have nm: "fm_name ?m = n" "fm_pin_path ?m \<in> own_pins n" using m by simp_all
  have lpm: "fm_log_path ?m = lp" by simp
  note om = map_loadedD [OF load_map_Open [OF k nm(1) n(1) nm(2) lpm lp lm]]
  have D: "recovered_digests held pinned lp ?m ?w1 = ?D"
    by (simp add: recovered_digests_def file_data_def split: option.split)
  have me: "meta = m\<lparr>fm_log_path := lp, fm_pin_path := fm_pin_path meta, fm_meta_path := fm_meta_path meta\<rparr>"
    by (rule om(4))
  have mt: "fm_name meta = n" "fm_log_path meta = lp" "fm_has_data meta = fm_has_data m"
    by (subst me, use m in simp)+
  have em: "?D = {}" if "\<not> fm_has_data meta"
    using that mt(3) empty m(1,2,4) path by (auto simp: recovered_digests_def pins_empty_def split: option.splits)
  have mf: "map_found obj held pinned (kern ?w) (kern w) n (fm_pin_path ?m) fd ?D"
    and kf: "kern_frame kinv obj held pinned (own_pins n) (kern ?w) (kern w)" using om(1,2) D by simp_all
  have ff: "files_frame {lp} ?w w" using files_frame_trans [OF files_frame_script [OF ok]] om(3) by simp
  have lpo: "{lp} \<subseteq> own_files cfg n" using lp by (simp add: own_files_def)
  from load_enter_ok [OF inv n mf nm(2) kf ff mt(1,2) em le] obtain f where
    f: "load_inv kinv obj held pinned d'" "files_frame {lp} ?w (d_world d')"
      "kern_frame kinv obj held pinned (own_pins n) (kern ?w) (kern (d_world d'))"
      "lookup (d_set d') = (lookup (d_set d))(n \<mapsto> f)" "f_meta f = meta"
      "abs_filters obj held d' n = Some ?D" "orphan_meta (d_stats d') = orphan_meta (d_stats d)" by metis
  show thesis using that [OF f(7,4) _ f(6,1) files_frame_mono [OF f(2) lpo] f(3)] f(5) me by simp
qed

text \<open>
  One entry of the directory whose name is a filter name: it was skipped because its path is too
  long, it was set aside and counted, or its filter was loaded with the digests it had.
\<close>

lemma load_entry_cases:
  assumes inv: "load_inv kinv obj held pinned d" and n: "bloomd_name_is_valid n" "lookup (d_set d) n = None"
    and path: "path = meta_root cfg @ ''/'' @ n @ ''.meta''" and lp: "lp = meta_root cfg @ ''/'' @ n @ ''.digests''"
    and empty: "pins_empty held pinned cfg n (d_world d)"
    and h: "load_entry E cfg (n @ ''.meta'') d = (None, d')"
  obtains (long) "length path \<ge> PATH_MAX" "d' = d"
  | (aside) "orphan_meta (d_stats d') = orphan_meta (d_stats d) + 1" "lookup (d_set d') = lookup (d_set d)"
      "load_inv kinv obj held pinned d'" "files_frame (own_files cfg n) (d_world d) (d_world d')"
      "kern_frame kinv obj held pinned (own_pins n) (kern (d_world d)) (kern (d_world d'))"
  | (loaded) bs m f where "file_data path (d_world d) = Some bs" "meta_parse_text path (string_of_bytes bs) = Inr m"
      "fm_name m = n" "fm_pin_path m \<in> own_pins n" "orphan_meta (d_stats d') = orphan_meta (d_stats d)"
      "lookup (d_set d') = (lookup (d_set d))(n \<mapsto> f)"
      "f_meta f = m\<lparr>fm_log_path := lp, fm_pin_path := fm_pin_path (f_meta f), fm_meta_path := fm_meta_path (f_meta f)\<rparr>"
      "abs_filters obj held d' n = Some (recovered_digests held pinned lp m (d_world d))"
      "load_inv kinv obj held pinned d'" "files_frame (own_files cfg n) (d_world d) (d_world d')"
      "kern_frame kinv obj held pinned (own_pins n) (kern (d_world d)) (kern (d_world d'))"
      "fm_has_data m \<longrightarrow> pinned (kern (d_world d)) (fm_pin_path m) = None \<longrightarrow> fm_log_clean m"
proof -
  have k: "kinv (kern (d_world d))" and ok: "world_ok (d_world d)" using inv by (auto simp: load_inv_def)
  note fs = files_frame_script [OF ok] and kr = kern_frame_refl [where kinv = kinv, OF k]
  note step = set_aside_step [OF inv path]
  from n(1) path lp ok h show thesis
  proof (cases rule: load_entry_split)
    case long
    then show thesis using that(1) by blast
  next
    case (bad sc)
    show thesis by (rule aside) (use step [OF bad] fs kr in simp)+
  next
    case (stale bs m sc w)
    have k1: "kinv (kern ((d_world d)\<lparr>script := sc\<rparr>))" "world_ok ((d_world d)\<lparr>script := sc\<rparr>)" using k ok by simp_all
    have lpo: "{lp} \<subseteq> own_files cfg n" using lp by (simp add: own_files_def)
    note sm = load_map_Stale [OF k1 _ stale(4), of lp]
    show thesis
      by (rule aside) (use step [OF stale(5)] sm stale(3) lp files_frame_mono [OF files_frame_trans [OF fs] lpo] in simp)+
  next
    case (opened bs m sc w meta fd u)
    have c: "fm_has_data m \<longrightarrow> pinned (kern (d_world d)) (fm_pin_path m) = None \<longrightarrow> fm_log_clean m"
      using load_map_clean [OF _ opened(5)] k by simp
    show thesis
      by (rule load_open_step [OF inv n path lp empty opened]) (rule loaded [OF opened(1-4) _ _ _ _ _ _ _ c])
  qed
qed

end

section \<open>The whole directory\<close>

text \<open>
  \<open>loaded_from obj held pinned cfg n w d'\<close>: the daemon \<open>d'\<close> has the filter \<open>n\<close> as its metadata file
  in \<open>w\<close> describes it, with the digests it left behind in \<open>w\<close>; a log that stood in for a lost map
  was called clean by the file.
\<close>

definition loaded_from ::
  "('k \<Rightarrow> int \<Rightarrow> nat option) \<Rightarrow> ('k \<Rightarrow> nat \<Rightarrow> byte list set) \<Rightarrow> ('k \<Rightarrow> string \<Rightarrow> nat option) \<Rightarrow>
    bloomd_config \<Rightarrow> string \<Rightarrow> 'k world \<Rightarrow> 'k daemon \<Rightarrow> bool" where
  "loaded_from obj held pinned cfg n w d' \<longleftrightarrow>
     (let path = meta_root cfg @ ''/'' @ n @ ''.meta''; lp = meta_root cfg @ ''/'' @ n @ ''.digests'' in
      \<exists>bs m f. file_data path w = Some bs \<and> meta_parse_text path (string_of_bytes bs) = Inr m \<and>
        fm_name m = n \<and> fm_pin_path m \<in> own_pins n \<and> lookup (d_set d') n = Some f \<and>
        f_meta f = m\<lparr>fm_log_path := lp, fm_pin_path := fm_pin_path (f_meta f),
          fm_meta_path := fm_meta_path (f_meta f)\<rparr> \<and>
        abs_filters obj held d' n = Some (recovered_digests held pinned lp m w) \<and>
        (fm_has_data m \<longrightarrow> pinned (kern w) (fm_pin_path m) = None \<longrightarrow> fm_log_clean m))"

text \<open>What the entry of one name leaves alone is all that matters for another name.\<close>

lemma frames_other:
  assumes ok: "world_ok w" and n: "bloomd_name_is_valid n" "bloomd_name_is_valid n'" "n \<noteq> n'"
    and ff: "files_frame (own_files cfg n') w w'"
    and kf: "kern_frame kinv obj held pinned (own_pins n') (kern w) (kern w')"
    and path: "path = meta_root cfg @ ''/'' @ n @ ''.meta''" "lp = meta_root cfg @ ''/'' @ n @ ''.digests''"
  shows "file_data path w' = file_data path w" "file_data lp w' = file_data lp w"
    "p \<in> own_pins n \<Longrightarrow> pinned (kern w') p = pinned (kern w) p"
    "p \<in> own_pins n \<Longrightarrow> pinned (kern w) p = Some m \<Longrightarrow> held (kern w') m = held (kern w) m"
proof -
  show "file_data path w' = file_data path w" "file_data lp w' = file_data lp w"
    using files_frame_file [OF ok ff] own_files_disjoint [OF n] path by auto
  show "pinned (kern w') p = pinned (kern w) p" if "p \<in> own_pins n"
    using kf own_pins_disjoint [OF that] n(3) unfolding kern_frame_def by blast
  show "held (kern w') m = held (kern w) m" if "p \<in> own_pins n" "pinned (kern w) p = Some m"
    using kf that(2) unfolding kern_frame_def live_def by blast
qed

lemma pins_empty_other:
  assumes "world_ok w" "bloomd_name_is_valid n" "bloomd_name_is_valid n'" "n \<noteq> n'"
    "files_frame (own_files cfg n') w w'"
    "kern_frame kinv obj held pinned (own_pins n') (kern w) (kern w')" "pins_empty held pinned cfg n w"
  shows "pins_empty held pinned cfg n w'"
  using assms(7) frames_other [OF assms(1-6) refl refl] by (auto simp: pins_empty_def Let_def)

lemma loaded_from_other:
  assumes "world_ok w" "bloomd_name_is_valid n" "bloomd_name_is_valid n'" "n \<noteq> n'"
    "files_frame (own_files cfg n') w w'"
    "kern_frame kinv obj held pinned (own_pins n') (kern w) (kern w')"
    "loaded_from obj held pinned cfg n w' d"
  shows "loaded_from obj held pinned cfg n w d"
proof -
  note fr = frames_other [OF assms(1-6) refl refl]
  have "recovered_digests held pinned (meta_root cfg @ ''/'' @ n @ ''.digests'') m w' =
      recovered_digests held pinned (meta_root cfg @ ''/'' @ n @ ''.digests'') m w"
    if "fm_pin_path m \<in> own_pins n" for m
    using fr(2) fr(3,4) [OF that] by (auto simp: recovered_digests_def split: option.split)
  then show ?thesis using assms(7) fr(1,3) unfolding loaded_from_def Let_def by metis
qed

lemma abs_filters_frame:
  assumes "load_inv kinv obj held pinned d" "lookup (d_set d') n = lookup (d_set d) n"
    "kern_frame kinv obj held pinned X (kern (d_world d)) (kern (d_world d'))"
  shows "abs_filters obj held d' n = abs_filters obj held d n"
proof (cases "lookup (d_set d) n")
  case (Some f)
  then obtain m where m: "flt_map obj (d_world d) f = Some m"
    using assms(1) unfolding load_inv_def by blast
  then have "obj (kern (d_world d)) (map_fd f) = Some m" by (simp add: flt_map_def split: if_splits)
  then have "flt_map obj (d_world d') f = Some m" "held (kern (d_world d')) m = held (kern (d_world d)) m"
    using m assms(3) unfolding kern_frame_def live_def flt_map_def by (auto split: if_splits)
  then show ?thesis using Some assms(2) m by (simp add: abs_filters_def)
qed (simp add: abs_filters_def assms(2))

lemma loaded_from_later:
  assumes "loaded_from obj held pinned cfg n w d" "lookup (d_set d') n = lookup (d_set d) n"
    "abs_filters obj held d' n = abs_filters obj held d n"
  shows "loaded_from obj held pinned cfg n w d'"
  using assms by (simp add: loaded_from_def)

text \<open>
  One entry, as the loop sees it: \<open>c\<close> is 1 when the entry was set aside. Every other name keeps its
  filter, its digests and what it left behind.
\<close>

definition entry_step ::
  "('k \<Rightarrow> bool) \<Rightarrow> ('k \<Rightarrow> int \<Rightarrow> nat option) \<Rightarrow> ('k \<Rightarrow> nat \<Rightarrow> byte list set) \<Rightarrow>
    ('k \<Rightarrow> string \<Rightarrow> nat option) \<Rightarrow> bloomd_config \<Rightarrow> string \<Rightarrow> nat \<Rightarrow> 'k daemon \<Rightarrow> 'k daemon \<Rightarrow> bool" where
  "entry_step kinv obj held pinned cfg e c d d1 \<longleftrightarrow>
     load_inv kinv obj held pinned d1 \<and> c \<le> 1 \<and>
     orphan_meta (d_stats d1) = orphan_meta (d_stats d) + of_nat c \<and>
     (\<forall>n. bloomd_name_is_valid n \<longrightarrow> n @ ''.meta'' \<noteq> e \<longrightarrow>
        lookup (d_set d1) n = lookup (d_set d) n \<and> abs_filters obj held d1 n = abs_filters obj held d n \<and>
        (pins_empty held pinned cfg n (d_world d) \<longrightarrow> pins_empty held pinned cfg n (d_world d1)) \<and>
        (\<forall>d'. loaded_from obj held pinned cfg n (d_world d1) d' \<longrightarrow>
          loaded_from obj held pinned cfg n (d_world d) d')) \<and>
     (\<forall>n. bloomd_name_is_valid n \<longrightarrow> n @ ''.meta'' = e \<longrightarrow> c = 0 \<longrightarrow>
        length (meta_root cfg @ ''/'' @ e) < PATH_MAX \<longrightarrow>
        loaded_from obj held pinned cfg n (d_world d) d1)"

text \<open>What loading the entries \<open>es\<close> does: \<open>c\<close> of them were set aside.\<close>

definition entries_step ::
  "('k \<Rightarrow> bool) \<Rightarrow> ('k \<Rightarrow> int \<Rightarrow> nat option) \<Rightarrow> ('k \<Rightarrow> nat \<Rightarrow> byte list set) \<Rightarrow>
    ('k \<Rightarrow> string \<Rightarrow> nat option) \<Rightarrow> bloomd_config \<Rightarrow> string list \<Rightarrow> nat \<Rightarrow> 'k daemon \<Rightarrow> 'k daemon \<Rightarrow> bool" where
  "entries_step kinv obj held pinned cfg es c d d' \<longleftrightarrow> load_inv kinv obj held pinned d' \<and>
    (\<forall>n. bloomd_name_is_valid n \<longrightarrow> n @ ''.meta'' \<notin> set es \<longrightarrow> lookup (d_set d') n = lookup (d_set d) n \<and>
       abs_filters obj held d' n = abs_filters obj held d n) \<and>
    c \<le> length es \<and> orphan_meta (d_stats d') = orphan_meta (d_stats d) + of_nat c \<and>
    (c = 0 \<longrightarrow> (\<forall>n. bloomd_name_is_valid n \<longrightarrow> n @ ''.meta'' \<in> set es \<longrightarrow>
       length (meta_root cfg @ ''/'' @ n @ ''.meta'') < PATH_MAX \<longrightarrow>
       loaded_from obj held pinned cfg n (d_world d) d'))"

lemma entry_step_keeps:
  assumes "entry_step kinv obj held pinned cfg e c d d1" "bloomd_name_is_valid n" "n @ ''.meta'' \<noteq> e"
  shows "lookup (d_set d1) n = lookup (d_set d) n" "abs_filters obj held d1 n = abs_filters obj held d n"
    "pins_empty held pinned cfg n (d_world d) \<Longrightarrow> pins_empty held pinned cfg n (d_world d1)"
    "loaded_from obj held pinned cfg n (d_world d1) d' \<Longrightarrow> loaded_from obj held pinned cfg n (d_world d) d'"
  using assms unfolding entry_step_def by blast+

lemma entries_step_Cons:
  assumes s1: "entry_step kinv obj held pinned cfg e c1 d d1" and s2: "entries_step kinv obj held pinned cfg es c2 d1 d'"
    and e: "e \<notin> set es"
  shows "entries_step kinv obj held pinned cfg (e # es) (c1 + c2) d d'"
proof -
  note st = s1 [unfolded entry_step_def] and ih = s2 [unfolded entries_step_def]
  have other: "n @ ''.meta'' \<noteq> e" "n @ ''.meta'' \<notin> set es" if "n @ ''.meta'' \<notin> set (e # es)" for n
    using that by (metis list.set_intros)+
  have "loaded_from obj held pinned cfg n (d_world d) d'"
    if c: "c1 + c2 = 0" and n: "bloomd_name_is_valid n" "n @ ''.meta'' \<in> set (e # es)"
      "length (meta_root cfg @ ''/'' @ n @ ''.meta'') < PATH_MAX" for n
  proof (cases "n @ ''.meta'' = e")
    case True
    then have "loaded_from obj held pinned cfg n (d_world d) d1" using st c n by auto
    then show ?thesis using loaded_from_later ih n(1) True e by blast
  next
    case False
    then have "loaded_from obj held pinned cfg n (d_world d1) d'" using ih c n by auto
    then show ?thesis using entry_step_keeps(4) [OF s1 n(1) False] by blast
  qed
  moreover have "lookup (d_set d') n = lookup (d_set d) n \<and> abs_filters obj held d' n = abs_filters obj held d n"
    if "bloomd_name_is_valid n" "n @ ''.meta'' \<notin> set (e # es)" for n
    using entry_step_keeps(1,2) [OF s1 that(1) other(1) [OF that(2)]] ih that(1) other(2) [OF that(2)] by simp
  ultimately show ?thesis using st ih unfolding entries_step_def by (intro conjI allI impI) (blast | simp)+
qed

lemma load_entry_other:
  assumes "\<nexists>n. bloomd_name_is_valid n \<and> entry = n @ ''.meta''"
  shows "load_entry E cfg entry d = (None, d)"
proof -
  have "\<nexists>n. bloomd_meta_entry_name entry = Inr n" using assms meta_entry_name_Inr by blast
  then show ?thesis
    by (cases "bloomd_meta_entry_name entry") (auto simp: load_entry_def load_read_def Let_def)
qed

context bpf_kernel
begin

lemma load_entry_step:
  assumes inv: "load_inv kinv obj held pinned d" and h: "load_entry E cfg e d = (None, d1)"
    and new: "\<And>n f. lookup (d_set d) n = Some f \<Longrightarrow> n @ ''.meta'' \<noteq> e"
    and pe: "\<And>n. bloomd_name_is_valid n \<Longrightarrow> n @ ''.meta'' = e \<Longrightarrow> pins_empty held pinned cfg n (d_world d)"
  shows "\<exists>c. entry_step kinv obj held pinned cfg e c d d1"
proof (cases "\<exists>n. bloomd_name_is_valid n \<and> e = n @ ''.meta''")
  case False
  then have "d1 = d" using load_entry_other [OF False, of E cfg d] h by simp
  then show ?thesis using False inv by (intro exI [of _ 0]) (auto simp: entry_step_def)
next
  case True
  then obtain n where n: "bloomd_name_is_valid n" "e = n @ ''.meta''" by blast
  have none: "lookup (d_set d) n = None" using new [of n] n(2) by (cases "lookup (d_set d) n") auto
  have ok: "world_ok (d_world d)" using inv by (simp add: load_inv_def)
  have other: "lookup (d_set d1) x = lookup (d_set d) x \<and> abs_filters obj held d1 x = abs_filters obj held d x \<and>
      (pins_empty held pinned cfg x (d_world d) \<longrightarrow> pins_empty held pinned cfg x (d_world d1)) \<and>
      (\<forall>d'. loaded_from obj held pinned cfg x (d_world d1) d' \<longrightarrow> loaded_from obj held pinned cfg x (d_world d) d')"
    if "lookup (d_set d1) x = lookup (d_set d) x" "bloomd_name_is_valid x" "x \<noteq> n"
      "files_frame (own_files cfg n) (d_world d) (d_world d1)"
      "kern_frame kinv obj held pinned (own_pins n) (kern (d_world d)) (kern (d_world d1))" for x
    using that abs_filters_frame [OF inv that(1,5)] pins_empty_other [OF ok that(2) n(1) that(3-5)]
      loaded_from_other [OF ok that(2) n(1) that(3-5)] by blast
  show ?thesis
  proof (rule load_entry_cases [OF inv n(1) none refl refl pe [OF n(1) n(2) [symmetric]] h [unfolded n(2)]],
      goal_cases)
    case 1
    then show ?case using inv n by (intro exI [of _ 0]) (auto simp: entry_step_def)
  next
    case 2
    then have "entry_step kinv obj held pinned cfg e 1 d d1"
      unfolding entry_step_def using n(2) other by auto
    then show ?case ..
  next
    case (3 bs m f)
    have "loaded_from obj held pinned cfg n (d_world d) d1"
      unfolding loaded_from_def Let_def using 3 by auto
    then have "entry_step kinv obj held pinned cfg e 0 d d1"
      unfolding entry_step_def using 3 n(2) other by auto
    then show ?case ..
  qed
qed

lemma load_entries_recover:
  assumes "load_inv kinv obj held pinned d" "distinct es" "load_entries E cfg es d = (None, d')"
    and "\<And>n. lookup (d_set d) n \<noteq> None \<Longrightarrow> n @ ''.meta'' \<notin> set es"
    and "\<And>n. bloomd_name_is_valid n \<Longrightarrow> n @ ''.meta'' \<in> set es \<Longrightarrow> pins_empty held pinned cfg n (d_world d)"
  shows "\<exists>c. entries_step kinv obj held pinned cfg es c d d'"
  using assms
proof (induction es arbitrary: d)
  case Nil
  then show ?case by (auto simp: entries_step_def)
next
  case (Cons e es)
  obtain d1 where e1: "load_entry E cfg e d = (None, d1)" and rest: "load_entries E cfg es d1 = (None, d')"
    using Cons.prems(3) by (auto split: prod.splits option.splits)
  have "\<exists>c. entry_step kinv obj held pinned cfg e c d d1"
    by (rule load_entry_step [OF Cons.prems(1) e1]) (use Cons.prems(4,5) in fastforce)+
  then obtain c1 where st: "entry_step kinv obj held pinned cfg e c1 d d1" by blast
  note keep = entry_step_keeps [OF st]
  have es: "distinct es" "e \<notin> set es" using Cons.prems(2) by auto
  have li1: "load_inv kinv obj held pinned d1" using st by (simp add: entry_step_def)
  then have ok1: "set_ok (d_set d1)" by (simp add: load_inv_def)
  have "n @ ''.meta'' \<notin> set es" if nn: "lookup (d_set d1) n \<noteq> None" for n
  proof
    assume i: "n @ ''.meta'' \<in> set es"
    obtain f where l: "lookup (d_set d1) n = Some f" using nn by blast
    have v: "bloomd_name_is_valid n" using l lookup_Some [OF ok1, of n f] set_ok_valid [OF ok1, of f] by simp
    have "n @ ''.meta'' \<noteq> e" using i es(2) by metis
    then have "lookup (d_set d) n \<noteq> None" using keep(1) [OF v] nn by simp
    from Cons.prems(4) [OF this] i show False by simp
  qed
  moreover have "pins_empty held pinned cfg n (d_world d1)" if "bloomd_name_is_valid n" "n @ ''.meta'' \<in> set es" for n
  proof -
    have "n @ ''.meta'' \<noteq> e" using that(2) es(2) by metis
    then show ?thesis using keep(3) [OF that(1)] Cons.prems(5) [OF that(1)] that(2) by simp
  qed
  ultimately obtain c2 where "entries_step kinv obj held pinned cfg es c2 d1 d'"
    using Cons.IH [OF li1 es(1) rest] by blast
  then show ?case using entries_step_Cons [OF st _ es(2)] by blast
qed

end

end
