(* ===== verification/Restart.thy ===== *)
theory Restart
  imports Recovery_Correct Service
begin

text \<open>
  What a restart gives back: the state \<open>main\<close> begins with, the theorems on
  \<open>bloomd_load_metadata_dir\<close> for a whole directory, on rebuilding a map from its log, on refusing
  a log that may have lost its tail, and on the removal of orphan pins.
\<close>

section \<open>The state before loading\<close>

definition daemon_init :: "'k world \<Rightarrow> 'k daemon" where
  "daemon_init w = \<lparr>d_world = w, d_set = bloomd_filter_set_init, d_stats = zero_stats,
     d_pool = bloomd_empty_pool\<rparr>"

lemma lookup_init [simp]: "lookup bloomd_filter_set_init n = None"
  by (simp add: bloomd_filter_set_init_def lookup_def)

lemma load_inv_init:
  assumes "kinv (kern w)" "world_ok w" "pins_inj pinned (kern w)"
  shows "load_inv kinv obj held pinned (daemon_init w)"
  using assms
  by (simp add: load_inv_def daemon_init_def bloomd_empty_pool_def set_ok_def names_def
    bloomd_filter_set_init_def lookup_def)

section \<open>A whole directory\<close>

lemma load_dir_recovers:
  assumes kernel: "bpf_kernel E kinv obj held pinned"
    and start: "kinv (kern w)" "world_ok w" "pins_inj pinned (kern w)"
    and dir: "bloomd_list_dir E (meta_root cfg) w = Inr es" "distinct es" "length es < 2 ^ 64"
    and pins: "\<And>n. bloomd_name_is_valid n \<Longrightarrow> n @ ''.meta'' \<in> set es \<Longrightarrow> pins_empty held pinned cfg n w"
    and load: "bloomd_load_metadata_dir E cfg (daemon_init w) = (None, d')" "orphan_meta (d_stats d') = 0"
  shows "daemon_inv kinv obj held d' \<and>
    (\<forall>n. bloomd_name_is_valid n \<longrightarrow>
       (if n @ ''.meta'' \<in> set es
        then length (meta_root cfg @ ''/'' @ n @ ''.meta'') < PATH_MAX \<longrightarrow>
          loaded_from obj held pinned cfg n w d'
        else lookup (d_set d') n = None))"
proof -
  let ?d = "daemon_init w"
  have le: "load_entries E cfg es ?d = (None, d')"
    using load(1) dir(1) by (simp add: bloomd_load_metadata_dir_def daemon_init_def)
  have no: "n @ ''.meta'' \<notin> set es" if "lookup (d_set ?d) n \<noteq> None" for n
    using that by (simp add: daemon_init_def)
  have pe: "pins_empty held pinned cfg n (d_world ?d)"
    if "bloomd_name_is_valid n" "n @ ''.meta'' \<in> set es" for n
    using pins [OF that] by (simp add: daemon_init_def)
  obtain c where "entries_step kinv obj held pinned cfg es c ?d d'"
    using bpf_kernel.load_entries_recover [OF kernel load_inv_init [where kinv = kinv, OF start] dir(2) le no pe] by blast
  note r = this [unfolded entries_step_def]
  then have c: "c \<le> length es" "orphan_meta (d_stats d') = orphan_meta (d_stats ?d) + of_nat c"
    "c = 0 \<longrightarrow> (\<forall>n. bloomd_name_is_valid n \<longrightarrow> n @ ''.meta'' \<in> set es \<longrightarrow>
       length (meta_root cfg @ ''/'' @ n @ ''.meta'') < PATH_MAX \<longrightarrow>
       loaded_from obj held pinned cfg n (d_world ?d) d')" by blast+
  have "(of_nat c :: u64) = 0" using c(2) load(2) by (simp add: daemon_init_def zero_stats_def)
  then have "2 ^ 64 dvd c" by (simp add: word_of_nat_eq_0_iff)
  then have "c = 0" using c(1) dir(3) by (auto dest: dvd_imp_le)
  then have a: "\<forall>n. bloomd_name_is_valid n \<longrightarrow> n @ ''.meta'' \<in> set es \<longrightarrow>
       length (meta_root cfg @ ''/'' @ n @ ''.meta'') < PATH_MAX \<longrightarrow> loaded_from obj held pinned cfg n w d'"
    using c(3) by (simp add: daemon_init_def)
  have b: "lookup (d_set d') n = None" if "bloomd_name_is_valid n" "n @ ''.meta'' \<notin> set es" for n
    using r that by (simp add: daemon_init_def)
  have "daemon_inv kinv obj held d'" using r load_inv_daemon by blast
  then show ?thesis using a b by auto
qed

text \<open>
  C2. Recovery: when the daemon starts on a directory and no metadata had to be set aside, every
  metadata file of the directory is back as a filter, with the parameters the file records and
  exactly the digests the pinned map held, or, when the pin is gone, exactly the records of its log,
  which the file then calls clean; nothing else is in the set, and the daemon is in a good state. The
  kernel's pins are assumed to name different maps, and a pin of a filter whose file says it has no
  data to be empty.
\<close>

theorem load_recovers_every_filter:
  assumes kernel: "bpf_kernel E kinv obj held pinned"
    and start: "kinv (kern w)" "world_ok w" "pins_inj pinned (kern w)"
    and dir: "bloomd_list_dir E (meta_root cfg) w = Inr es" "distinct es" "length es < 2 ^ 64"
    and pins: "\<And>n. bloomd_name_is_valid n \<Longrightarrow> n @ ''.meta'' \<in> set es \<Longrightarrow> pins_empty held pinned cfg n w"
    and load: "bloomd_load_metadata_dir E cfg (daemon_init w) = (None, d')" "orphan_meta (d_stats d') = 0"
  shows "daemon_inv kinv obj held d' \<and>
    (\<forall>n. bloomd_name_is_valid n \<longrightarrow>
       (if n @ ''.meta'' \<in> set es
        then length (meta_root cfg @ ''/'' @ n @ ''.meta'') < PATH_MAX \<longrightarrow>
          loaded_from obj held pinned cfg n w d'
        else lookup (d_set d') n = None))"
  using load_dir_recovers [OF assms] .

section \<open>Rebuilding a map\<close>

text \<open>
  C9. Rebuilding a lost map from its log is all or nothing: on success a new map, pinned under the
  filter's path, holds exactly the complete records of the log and the count returned is their
  number; on failure no descriptor and no pin is left behind. Either way every other map and pin is
  as it was, and no file but the log (whose torn tail is cut) is touched.
\<close>

theorem rebuild_all_or_nothing:
  assumes kernel: "bpf_kernel E kinv obj held pinned" and w: "kinv (kern w)" "world_ok w"
    and h: "bloomd_rebuild_from_log E cfg meta w = (r, w')"
  shows "kinv (kern w') \<and> files_frame {meta_root cfg @ ''/'' @ fm_name meta @ ''.digests''} w w' \<and>
    (case r of
       Inl x \<Rightarrow> obj (kern w') = obj (kern w) \<and> pinned (kern w') = pinned (kern w) \<and>
         (\<forall>m. live obj pinned (kern w) m \<longrightarrow> held (kern w') m = held (kern w) m)
     | Inr (meta', fd, n) \<Rightarrow>
         \<exists>m data. file_data (fm_log_path meta') w = Some data \<and> n = length (log_records data) \<and>
           obj (kern w) fd = None \<and> obj (kern w') = (obj (kern w))(fd \<mapsto> m) \<and>
           pinned (kern w') = (pinned (kern w))(fm_pin_path meta' \<mapsto> m) \<and>
           held (kern w') = (held (kern w))(m := set (log_records data)) \<and>
           \<not> live obj pinned (kern w) m)"
proof (cases r)
  case (Inl x)
  have kf: "kern_frame kinv obj held pinned {} (kern w) (kern w')"
    and "pinned (kern w') = pinned (kern w)"
    and "files_frame {meta_root cfg @ ''/'' @ fm_name meta @ ''.digests''} w w'"
    and "obj (kern w') = obj (kern w)"
    using bpf_kernel.rebuild_Inl [OF kernel w h [unfolded Inl]] by blast+
  then show ?thesis using Inl by (auto simp: kern_frame_def)
next
  case (Inr a)
  obtain meta' fd n where a: "a = (meta', fd, n)" by (cases a)
  from bpf_kernel.rebuild_Inr [OF kernel w h [unfolded Inr a]] obtain m data where
    r: "bloomd_assign_filter_paths cfg meta = Inr meta'" "obj (kern w) fd = None"
      "\<not> live obj pinned (kern w) m" "file_data (fm_log_path meta') w = Some data"
      "obj (kern w') = (obj (kern w))(fd \<mapsto> m)"
      "held (kern w') = (held (kern w))(m := set (log_records data))"
      "pinned (kern w') = (pinned (kern w))(fm_pin_path meta' \<mapsto> m)" "kinv (kern w')"
      "files_frame {fm_log_path meta'} w w'" "n = length (log_records data)" by metis
  have "fm_log_path meta' = meta_root cfg @ ''/'' @ fm_name meta @ ''.digests''"
    by (rule assign_paths_Inr(2) [OF r(1)])
  then show ?thesis using r Inr a by auto
qed

section \<open>A log that may have lost its tail\<close>

text \<open>
  C12. The daemon refuses to guess: when a filter's metadata says that it has data and that its
  log may lack digests that were acknowledged, and its pinned map is gone, loading the entry stops
  the start with an error (\<open>EUCLEAN\<close> when the pin is reported missing), no filter is entered, and
  neither the metadata, the log nor any other file changes.
\<close>

theorem dirty_log_without_pin_refused:
  assumes kernel: "bpf_kernel E kinv obj held pinned" and w: "kinv (kern (d_world d))" "world_ok (d_world d)"
    and n: "bloomd_name_is_valid n" "path = meta_root cfg @ ''/'' @ n @ ''.meta''"
      "length (meta_root cfg @ ''/'' @ n @ ''.digests'') < PATH_MAX"
    and rd: "bloomd_meta_read_file path (d_world d) = (Inr m, w1)" "fm_name m = n"
      "bloomd_path_under_root (fm_pin_path m) (pin_root cfg)" "bloomd_path_has_name (fm_pin_path m) n"
    and st: "fm_has_data m" "\<not> fm_log_clean m" "pinned (kern (d_world d)) (fm_pin_path m) = None"
    and h: "load_entry E cfg (n @ ''.meta'') d = (r, d')"
  shows "\<exists>e msg. r = Some (e, msg) \<and> files_frame {} (d_world d) (d_world d') \<and>
     d_set d' = d_set d \<and> d_stats d' = d_stats d \<and>
     (fst (bloomd_bpf_open_pinned E (fm_pin_path m) w1) = Inl ENOENT \<longrightarrow> e = EUCLEAN)"
proof -
  obtain s where w1: "w1 = (d_world d)\<lparr>script := s\<rparr>" using meta_read_frame(1) [OF rd(1)] by blast
  have len: "\<not> length path \<ge> PATH_MAX" using n(2,3) by simp
  have lr: "load_read E cfg (n @ ''.meta'') d = (Some (path, m), d\<lparr>d_world := w1\<rparr>)"
    using bpf_kernel.load_read_eq [OF kernel n(1,2) rd(1)] len rd(2-4) by simp
  have lp: "bloomd_build_log_path (meta_root cfg) n PATH_MAX = Inr (meta_root cfg @ ''/'' @ n @ ''.digests'')"
    using n(3) by (simp add: build_path_defs bloomd_join_path_def Let_def)
  obtain ro w2 where op: "bloomd_bpf_open_pinned E (fm_pin_path m) w1 = (ro, w2)" by fastforce
  have k1: "kinv (kern w1)" "world_ok w1" "pinned (kern w1) (fm_pin_path m) = None" using w st(3) w1 by simp_all
  obtain e where e: "ro = Inl e"
    using bpf_kernel.open_pinned_ok(3) [OF kernel k1(1), of "fm_pin_path m" _ w2] op k1(3) by (cases ro) auto
  have w2: "w2 = w1\<lparr>kern := kern w2\<rparr>"
    by (rule bpf_kernel.open_pinned_err(5) [OF kernel k1(1) op [unfolded e]])
  have "files_frame {} (d_world d) w2"
    by (rule files_frame_kern [OF files_frame_script [OF w(2), of "{}" s] w2 [unfolded w1]])
  moreover have "d' = d\<lparr>d_world := w2\<rparr>" "\<exists>msg. r = Some (if e = ENOENT then EUCLEAN else e, msg)"
    using h lr lp op e st(1,2) rd(2) by (auto simp: load_entry_def load_map_def split: if_splits)
  ultimately show ?thesis using op e by auto
qed

section \<open>Orphan pins\<close>

definition orphan_paths :: "bloomd_config \<Rightarrow> bloomd_filter_set \<Rightarrow> string list \<Rightarrow> string set" where
  "orphan_paths cfg s es =
    (\<lambda>e. pin_root cfg @ ''/'' @ e) ` {e \<in> set es. bloomd_name_is_valid e \<and> lookup s e = None}"

definition pins_removed ::
  "('k \<Rightarrow> bool) \<Rightarrow> ('k \<Rightarrow> int \<Rightarrow> nat option) \<Rightarrow> ('k \<Rightarrow> nat \<Rightarrow> byte list set) \<Rightarrow>
    ('k \<Rightarrow> string \<Rightarrow> nat option) \<Rightarrow> string set \<Rightarrow> 'k daemon \<Rightarrow> 'k daemon \<Rightarrow> bool" where
  "pins_removed kinv obj held pinned P d d' \<longleftrightarrow>
     kinv (kern (d_world d')) \<and> set_ok (d_set d') \<and> lookup (d_set d') = lookup (d_set d) \<and>
     d_pool d' = d_pool d \<and> d_world d' = (d_world d)\<lparr>kern := kern (d_world d')\<rparr> \<and>
     obj (kern (d_world d')) = obj (kern (d_world d)) \<and>
     held (kern (d_world d')) = held (kern (d_world d)) \<and>
     (\<forall>p. pinned (kern (d_world d')) p = pinned (kern (d_world d)) p \<or>
        p \<in> P \<and> pinned (kern (d_world d')) p = None)"

lemma pins_removed_trans:
  assumes "pins_removed kinv obj held pinned P d d1" "pins_removed kinv obj held pinned Q d1 d2"
  shows "pins_removed kinv obj held pinned (P \<union> Q) d d2"
proof -
  have w: "d_world d2 = (d_world d)\<lparr>kern := kern (d_world d2)\<rparr>"
    using assms unfolding pins_removed_def by (metis world.update_convs(1) world.surjective)
  show ?thesis using assms w unfolding pins_removed_def by (intro conjI) (simp | metis UnCI)+
qed

context bpf_kernel
begin

lemma cleanup_pin_removes:
  assumes k: "kinv (kern (d_world d))" and ok: "set_ok (d_set d)"
  shows "pins_removed kinv obj held pinned (orphan_paths cfg (d_set d) [e]) d (cleanup_pin E cfg e d)"
proof (cases "bloomd_name_is_valid e")
  case False
  then show ?thesis using k ok by (simp add: pins_removed_def cleanup_pin_def)
next
  case v: True
  obtain ri s where f: "bloomd_filter_set_find_n (d_set d) e = (ri, s)" by fastforce
  note sp = find_n_spec [OF ok v f]
  have s: "set_ok s" "lookup s = lookup (d_set d)"
    using ok sp(1,2) by (simp_all add: set_ok_def names_def lookup_def fun_eq_iff)
  obtain ru k' where u: "unlink_pin E (pin_root cfg @ ''/'' @ e) (kern (d_world d)) = (ru, k')" by fastforce
  have ki: "kinv k'" using inv_unlink [OF k, of "pin_root cfg @ ''/'' @ e"] u by simp
  have o: "obj k' = obj (kern (d_world d))" "held k' = held (kern (d_world d))"
    "pinned k' = pinned (kern (d_world d)) \<or> pinned k' = (pinned (kern (d_world d)))(pin_root cfg @ ''/'' @ e := None)"
    using unlink_ok [OF k] unlink_err [OF k] u by (cases ru; simp)+
  have orph: "ri = None \<Longrightarrow> pin_root cfg @ ''/'' @ e \<in> orphan_paths cfg (d_set d) [e]"
    using sp(4) v by (simp add: orphan_paths_def)
  show ?thesis
  proof (cases ri)
    case None
    have c: "cleanup_pin E cfg e d = (if length (pin_root cfg @ ''/'' @ e) \<ge> PATH_MAX then d\<lparr>d_set := s\<rparr>
        else d\<lparr>d_set := s, d_world := (d_world d)\<lparr>kern := k'\<rparr>,
          d_stats := d_stats (cleanup_pin E cfg e d)\<rparr>)"
      using v f None u by (cases ru) (auto simp: cleanup_pin_def bloomd_filter_set_find_def Let_def)
    show ?thesis
      by (subst c) (use k ki o s orph [OF None] in \<open>auto simp: pins_removed_def split: if_splits\<close>)
  next
    case (Some i)
    then show ?thesis using v f k s by (simp add: pins_removed_def cleanup_pin_def bloomd_filter_set_find_def)
  qed
qed

lemma cleanup_pins_remove:
  assumes "kinv (kern (d_world d))" "set_ok (d_set d)"
  shows "pins_removed kinv obj held pinned (orphan_paths cfg (d_set d) es) d (fold (cleanup_pin E cfg) es d)"
  using assms
proof (induction es arbitrary: d)
  case Nil
  then show ?case by (simp add: pins_removed_def)
next
  case (Cons e es)
  let ?d = "cleanup_pin E cfg e d"
  have s: "pins_removed kinv obj held pinned (orphan_paths cfg (d_set d) [e]) d ?d"
    by (rule cleanup_pin_removes [OF Cons.prems])
  have "pins_removed kinv obj held pinned (orphan_paths cfg (d_set ?d) es) ?d (fold (cleanup_pin E cfg) es ?d)"
    using s by (intro Cons.IH) (simp_all add: pins_removed_def)
  from pins_removed_trans [OF s this] show ?case
    using s by (simp add: pins_removed_def orphan_paths_def) (auto simp: image_def)
qed

end

lemma pins_removed_inv:
  assumes inv: "daemon_inv kinv obj held d" and pr: "pins_removed kinv obj held pinned P d d'"
  shows "daemon_inv kinv obj held d'" "abs_filters obj held d' = abs_filters obj held d"
proof -
  note p = pr [unfolded pins_removed_def]
  have w: "world_ok (d_world d')" using p inv by (metis daemon_inv_def world_ok_cong)
  have fm: "flt_map obj (d_world d') f = flt_map obj (d_world d) f" for f using p by (simp add: flt_map_def)
  have pm: "pool_map obj d' = pool_map obj d" using p by (simp add: pool_map_def)
  show "daemon_inv kinv obj held d'" using inv p w by (simp add: daemon_inv_def fm pm)
  show "abs_filters obj held d' = abs_filters obj held d" using p fm by (simp add: abs_filters_def fun_eq_iff)
qed

lemma cleanup_orphans_remove:
  assumes kernel: "bpf_kernel E kinv obj held pinned" and inv: "daemon_inv kinv obj held d"
    and h: "bloomd_cleanup_orphan_pins E cfg d = (r, d')"
  shows "\<exists>es. pins_removed kinv obj held pinned (orphan_paths cfg (d_set d) es) d d'"
proof -
  have k: "kinv (kern (d_world d))" "set_ok (d_set d)" using inv by (simp_all add: daemon_inv_def)
  obtain es where d': "d' = d \<or> d' = fold (cleanup_pin E cfg) es d"
    using h by (auto simp: bloomd_cleanup_orphan_pins_def split: sum.splits if_splits)
  have "pins_removed kinv obj held pinned (orphan_paths cfg (d_set d) es) d d'"
    using d' bpf_kernel.cleanup_pins_remove [OF kernel k, of cfg es] k by (auto simp: pins_removed_def)
  then show ?thesis ..
qed

text \<open>
  C13. Removing orphan pins never takes a filter's map away: whatever the pin directory holds, the
  filters, their maps and their digests are as before, and the only pins that may be gone are those
  directly under the pin root whose name is a valid filter name that no filter has; in particular
  the pin of every loaded filter stays.
\<close>

theorem orphan_cleanup_keeps_filters:
  assumes kernel: "bpf_kernel E kinv obj held pinned" and inv: "daemon_inv kinv obj held d"
    and h: "bloomd_cleanup_orphan_pins E cfg d = (r, d')"
  shows "daemon_inv kinv obj held d' \<and> abs_filters obj held d' = abs_filters obj held d \<and>
    (\<forall>p. pinned (kern (d_world d')) p \<noteq> pinned (kern (d_world d)) p \<longrightarrow>
      (\<exists>e. p = pin_root cfg @ ''/'' @ e \<and> bloomd_name_is_valid e \<and> lookup (d_set d) e = None)) \<and>
    (\<forall>n. lookup (d_set d) n \<noteq> None \<longrightarrow>
      pinned (kern (d_world d')) (pin_root cfg @ ''/'' @ n) = pinned (kern (d_world d)) (pin_root cfg @ ''/'' @ n))"
proof -
  obtain es where pr: "pins_removed kinv obj held pinned (orphan_paths cfg (d_set d) es) d d'"
    using cleanup_orphans_remove [OF assms] by blast
  have "\<exists>e. q = pin_root cfg @ ''/'' @ e \<and> bloomd_name_is_valid e \<and> lookup (d_set d) e = None"
    if "pinned (kern (d_world d')) q \<noteq> pinned (kern (d_world d)) q" for q
    using pr that by (auto simp: pins_removed_def orphan_paths_def)
  then show ?thesis using pins_removed_inv [OF inv pr] by (metis same_append_eq)
qed

section \<open>Starting on the mock kernel\<close>

text \<open>
  A directory with the metadata and the log of \<open>users\<close>, with the map pinned (\<open>boot_kern\<close>) or
  lost; the log ends in a torn record.
\<close>

definition boot_config :: bloomd_config where
  "boot_config = bloomd_config_defaults\<lparr>meta_root := ''/m''\<rparr>"

definition boot_env :: "mock env" where
  "boot_env = mock_env\<lparr>sys_readdir := \<lambda>p w. if p = ''/m''
     then Inr [''.'', ''..'', ''users.digests'', ''users.meta''] else sys_readdir mock_env p w\<rparr>"

definition boot_world :: "bool \<Rightarrow> mock \<Rightarrow> mock world" where
  "boot_world clean k = \<lparr>kern = k, dirents = [''/m/users.meta'' \<mapsto> 0, ''/m/users.digests'' \<mapsto> 1],
     inodes = (\<lambda>i. if i = 0
       then \<lparr>idata = bytes_of_string (meta_body (sample_meta\<lparr>fm_has_data := True, fm_log_clean := clean\<rparr>)),
              isynced = []\<rparr>
       else \<lparr>idata = replicate 16 7 @ [1, 2], isynced = []\<rparr>),
     fdtab = (\<lambda>_. None), next_ino = 2, next_fd = 3, script = [], ticks = [], clock = 0\<rparr>"

lemma boot_env_sel [simp]:
  "sys_bpf boot_env = mock_bpf_syscall" "close_map boot_env = mock_close"
  "unlink_pin boot_env = mock_unlink" "mem boot_env = (\<lambda>_. True)"
  by (simp_all add: boot_env_def)

lemma boot_kernel: "bpf_kernel boot_env mock_inv mock_fds mock_held mock_pinned"
  using mk.bpf_kernel_axioms by (simp add: bpf_kernel_def)

lemma boot_read:
  "bloomd_meta_read_file ''/m/users.meta'' (boot_world c k) =
    (Inr (sample_meta\<lparr>fm_has_data := True, fm_log_clean := c\<rparr>\<lparr>fm_meta_path := ''/m/users.meta'', fm_log_path := []\<rparr>),
     boot_world c k)"
  by (simp add: bloomd_meta_read_file_def next_outcome_def boot_world_def file_data_def
    sample_parse_body [simplified] snprintf_to_def PATH_MAX_def)

definition boot_kern :: mock where
  "boot_kern = \<lparr>mock_maps = [\<lparr>mm_ino = 0, mm_max_entries = 1000, mm_value_size = 16,
     mm_map_extra = 7, mm_digests = [replicate 16 7]\<rparr>], mock_pins = [(''/sys/fs/bpf/bloomd/users'', 0)],
     mock_fds = (\<lambda>_. None), mock_next_fd = 3\<rparr>"

lemma boot_load_read:
  "load_read boot_env boot_config ''users.meta'' (daemon_init (boot_world c k)) =
    (Some (''/m/users.meta'', sample_meta\<lparr>fm_has_data := True, fm_log_clean := c\<rparr>\<lparr>fm_meta_path := ''/m/users.meta'', fm_log_path := []\<rparr>),
     daemon_init (boot_world c k))"
proof -
  have v: "bloomd_name_is_valid ''users''" by (rule sample_valid)
  have p: "bloomd_path_under_root ''/sys/fs/bpf/bloomd/users'' ''/sys/fs/bpf/bloomd''"
    "bloomd_path_has_name ''/sys/fs/bpf/bloomd/users'' ''users''" by code_simp+
  show ?thesis
    using bpf_kernel.load_read_eq [OF boot_kernel v, of "''/m/users.meta''" boot_config "daemon_init (boot_world c k)"]
      boot_read [of c k] p
    by (simp add: boot_config_def daemon_init_def bloomd_config_defaults_def PATH_MAX_def sample_meta_def)
qed

lemma boot_list: "bloomd_list_dir boot_env ''/m'' w = Inr [''users.digests'', ''users.meta'']"
  by (simp add: bloomd_list_dir_def boot_env_def)

lemma boot_skip: "load_entry E cfg ''users.digests'' d = (None, d)"
proof -
  have nv: "\<not> bloomd_has_suffix ''users.digests'' ''.meta''" by code_simp
  then show ?thesis by (simp add: load_entry_def load_read_def Let_def)
qed

lemma boot_find: "bloomd_filter_set_find \<lparr>items = [], set_cap = c, last_index = l\<rparr> n =
    (None, \<lparr>items = [], set_cap = c, last_index = l\<rparr>)"
  by (simp add: bloomd_filter_set_find_def bloomd_filter_set_find_n_def)

lemma boot_entry:
  "\<exists>d'. load_entry boot_env boot_config ''users.meta'' (daemon_init (boot_world c boot_kern)) = (None, d') \<and>
     orphan_meta (d_stats d') = 0 \<and> map (\<lambda>f. (f_name f, fm_log_clean (f_meta f))) (items (d_set d')) = [(''users'', c)]"
  unfolding load_entry_def boot_load_read
  by (simp add: sample_meta_def build_path_defs bloomd_join_path_def boot_config_def Let_def PATH_MAX_def
    load_map_def bpf_call_defs mock_pin_find_def boot_kern_def mock_map_handle_def daemon_init_def
    load_enter_def bloomd_validate_open_pinned_map_def bloomd_bpf_get_map_info_def mock_map_by_fd_def
    boot_find boot_world_def bloomd_open_filter_log_def bloomd_log_open_append_def sys_open_def
    next_outcome_def new_filter_def bloomd_now_ms_def bloomd_filter_set_add_def bloomd_filter_set_init_def
    zero_stats_def)

lemma boot_load:
  "\<exists>d'. bloomd_load_metadata_dir boot_env boot_config (daemon_init (boot_world c boot_kern)) = (None, d') \<and>
     orphan_meta (d_stats d') = 0 \<and> map (\<lambda>f. (f_name f, fm_log_clean (f_meta f))) (items (d_set d')) = [(''users'', c)]"
  using boot_entry [of c] by (auto simp: bloomd_load_metadata_dir_def boot_config_def boot_list boot_skip)

lemma boot_inv: "mock_inv boot_kern" "mock_inv mock_reset" "world_ok (boot_world c k)"
  "pins_inj mock_pinned boot_kern"
  by (auto simp: mock_inv_def boot_kern_def mock_reset_def boot_world_def world_ok_def pins_inj_def
    mock_pinned_def mock_pin_find_def split: if_splits)

theorem load_recovers_every_filter_witness:
  "\<exists>d'. bloomd_load_metadata_dir boot_env boot_config (daemon_init (boot_world False boot_kern)) = (None, d') \<and>
     abs_filters mock_fds mock_held d' ''users'' = Some {replicate 16 7}"
proof -
  let ?w = "boot_world False boot_kern"
  obtain d' where d': "bloomd_load_metadata_dir boot_env boot_config (daemon_init ?w) = (None, d')"
    "orphan_meta (d_stats d') = 0" using boot_load by blast
  have k: "kern ?w = boot_kern" by (simp add: boot_world_def)
  have fd: "file_data ''/m/users.meta'' ?w =
      Some (bytes_of_string (meta_body (sample_meta\<lparr>fm_has_data := True, fm_log_clean := False\<rparr>)))"
    by (simp add: file_data_def boot_world_def)
  have pe: "pins_empty mock_held mock_pinned boot_config n ?w"
    if "bloomd_name_is_valid n" "n @ ''.meta'' \<in> set [''users.digests'', ''users.meta'']" for n
  proof -
    have "n = ''users''" using that(2) by (auto simp: append_eq_Cons_conv)
    then show ?thesis using fd
      by (auto simp: pins_empty_def boot_config_def sample_parse_body [simplified] Let_def)
  qed
  have "\<forall>n. bloomd_name_is_valid n \<longrightarrow>
       (if n @ ''.meta'' \<in> set [''users.digests'', ''users.meta'']
        then length (meta_root boot_config @ ''/'' @ n @ ''.meta'') < PATH_MAX \<longrightarrow>
          loaded_from mock_fds mock_held mock_pinned boot_config n ?w d'
        else lookup (d_set d') n = None)"
    by (rule load_recovers_every_filter [OF boot_kernel, THEN conjunct2, of ?w boot_config _ d'])
      (use boot_inv pe d' k in \<open>simp_all add: boot_config_def boot_list\<close>)
  from this [rule_format, of "''users''"] sample_valid
  have "loaded_from mock_fds mock_held mock_pinned boot_config ''users'' ?w d'"
    by (simp add: boot_config_def PATH_MAX_def)
  moreover have "mock_pinned boot_kern (fm_pin_path sample_meta) = Some 0" "mock_held boot_kern 0 = {replicate 16 7}"
    by (simp_all add: boot_kern_def mock_pinned_def mock_pin_find_def sample_meta_def mock_held_def)
  ultimately have "abs_filters mock_fds mock_held d' ''users'' = Some {replicate 16 7}"
    using fd by (auto simp: loaded_from_def boot_config_def Let_def sample_parse_body [simplified]
      recovered_digests_def k)
  then show ?thesis using d'(1) by blast
qed


lemma boot_records: "log_records (replicate 16 7 @ [1, 2]) = [replicate 16 7]"
  by (subst log_records_Cons) simp_all

lemma boot_rebuild:
  "\<exists>meta' fd n w'. bloomd_rebuild_from_log boot_env boot_config sample_meta (boot_world True mock_reset) =
     (Inr (meta', fd, n), w') \<and> fm_log_path meta' = ''/m/users.digests''"
  by (simp add: bloomd_rebuild_from_log_def bloomd_assign_filter_paths_def build_path_defs bloomd_join_path_def
    boot_config_def bloomd_config_defaults_def PATH_MAX_def Let_def sample_meta_def bloomd_bpf_create_map_def
    bpf_call_defs boot_world_def mock_reset_def mock_map_create_def mock_map_handle_def MOCK_MAX_MAPS_def
    bloomd_log_replay_def log_replay_impl_def sys_open_rd_def next_outcome_def replay_loop.simps
    sys_read_at_def BLOOMD_DIGEST_SIZE_def bloomd_replay_digest_cb_def add_digest_kern_def
    mock_map_by_fd_def mock_map_add_def mock_map_has_def MOCK_MAX_DIGESTS_def sys_close_def sys_truncate_def
    mock_pin_add_def mock_pin_find_def MOCK_MAX_PINS_def)

theorem rebuild_all_or_nothing_witness:
  "\<exists>meta' fd w' m. bloomd_rebuild_from_log boot_env boot_config sample_meta (boot_world True mock_reset) =
     (Inr (meta', fd, 1), w') \<and> mock_fds (kern w') fd = Some m \<and> mock_held (kern w') m = {replicate 16 7}"
proof -
  let ?w = "boot_world True mock_reset"
  obtain meta' fd n w' where r: "bloomd_rebuild_from_log boot_env boot_config sample_meta ?w =
     (Inr (meta', fd, n), w')" "fm_log_path meta' = ''/m/users.digests''" using boot_rebuild by blast
  have k: "kern ?w = mock_reset" and fd: "file_data ''/m/users.digests'' ?w = Some (replicate 16 7 @ [1, 2])"
    by (simp_all add: boot_world_def file_data_def)
  have w: "mock_inv (kern ?w)" using boot_inv(2) k by simp
  from rebuild_all_or_nothing [OF boot_kernel w boot_inv(3) r(1)]
  obtain m data where m: "file_data ''/m/users.digests'' ?w = Some data" "n = length (log_records data)"
    "mock_fds (kern w') = (mock_fds (kern ?w))(fd \<mapsto> m)"
    "mock_held (kern w') = (mock_held (kern ?w))(m := set (log_records data))"
    unfolding sum.case prod.case r(2) by blast
  have "data = replicate 16 7 @ [1, 2]" using m(1) fd by simp
  then have "log_records data = [replicate 16 7]" using boot_records by metis
  then show ?thesis using r(1) m(2-4) by (intro exI [of _ meta'] exI [of _ fd] exI [of _ w'] exI [of _ m]) simp
qed

theorem dirty_log_without_pin_refused_witness:
  "\<exists>msg. fst (load_entry boot_env boot_config ''users.meta'' (daemon_init (boot_world False mock_reset))) =
     Some (EUCLEAN, msg)"
proof -
  let ?d = "daemon_init (boot_world False mock_reset)"
  let ?m = "sample_meta\<lparr>fm_has_data := True, fm_log_clean := False\<rparr>\<lparr>fm_meta_path := ''/m/users.meta'', fm_log_path := []\<rparr>"
  have p: "bloomd_path_under_root ''/sys/fs/bpf/bloomd/users'' ''/sys/fs/bpf/bloomd''"
    "bloomd_path_has_name ''/sys/fs/bpf/bloomd/users'' ''users''" by code_simp+
  have o: "fst (bloomd_bpf_open_pinned boot_env (fm_pin_path ?m) (boot_world False mock_reset)) = Inl ENOENT"
    by (simp add: bpf_call_defs mock_pin_find_def mock_reset_def boot_world_def)
  obtain r d' where h: "load_entry boot_env boot_config (''users'' @ ''.meta'') ?d = (r, d')" by fastforce
  have "\<exists>e msg. r = Some (e, msg) \<and> files_frame {} (d_world ?d) (d_world d') \<and>
     d_set d' = d_set ?d \<and> d_stats d' = d_stats ?d \<and>
     (fst (bloomd_bpf_open_pinned boot_env (fm_pin_path ?m) (boot_world False mock_reset)) = Inl ENOENT \<longrightarrow> e = EUCLEAN)"
    by (rule dirty_log_without_pin_refused [OF boot_kernel _ _ sample_valid refl _ _ _ _ _ _ _ _ h])
      (use boot_inv boot_read [of False mock_reset] p in \<open>simp_all add: daemon_init_def boot_config_def sample_meta_def
        bloomd_config_defaults_def PATH_MAX_def mock_pinned_def mock_pin_find_def mock_reset_def boot_world_def\<close>)
  then show ?thesis using o h by auto
qed

theorem orphan_cleanup_keeps_filters_witness:
  "mock_pinned (kern (d_world (snd (bloomd_cleanup_orphan_pins mock_env bloomd_config_defaults sample_daemon))))
     ''/sys/fs/bpf/bloomd/users'' = Some 0"
proof -
  have l: "lookup (d_set sample_daemon) ''users'' \<noteq> None"
    by (simp add: sample_daemon_def lookup_def sample_filter_def sample_meta_def)
  show ?thesis
    using orphan_cleanup_keeps_filters [OF mk.bpf_kernel_axioms sample_inv prod.collapse [symmetric],
      of bloomd_config_defaults] l
    by (simp add: bloomd_config_defaults_def sample_daemon_def sample_kern_def mock_pinned_def mock_pin_find_def)
qed

end
