(* ===== verification/Server.thy ===== *)
theory Server
  imports Connection Restart
begin

text \<open>
  The process around the request handlers (\<open>src/src/daemon.c\<close>): options, startup, the listening
  socket, the table of at most 128 connections, the poll loop with its timeouts and periodic log
  sync, and shutdown. What \<open>poll\<close> and \<open>accept\<close> report is a script; the loop ends when a signal has
  set \<open>bloomd_stop\<close>, which is the end of the poll script. Log lines are not modelled.
\<close>

section \<open>Connections\<close>

definition BLOOMD_MAX_CLIENTS :: nat where "BLOOMD_MAX_CLIENTS = 128"
definition BLOOMD_REQ_TIMEOUT_MS :: u64 where "BLOOMD_REQ_TIMEOUT_MS = 5000"

definition bloomd_find_free_client :: "bloomd_client list \<Rightarrow> nat option" where
  "bloomd_find_free_client clients =
    find (\<lambda>i. c_state (clients ! i) = CLIENT_EMPTY) [0..<length clients]"

text \<open>
  What \<open>accept\<close> meets: a new descriptor with its connection and the result of
  \<open>bloomd_set_nonblocking\<close>, or an error; at the end of the script it would block.
\<close>

datatype accept_event = Accept int conn rc | Accept_fail errno

fun bloomd_accept_ready ::
  "accept_event list \<Rightarrow> bloomd_client list \<Rightarrow> 'k daemon
    \<Rightarrow> accept_event list \<times> bloomd_client list \<times> 'k daemon" where
  "bloomd_accept_ready [] clients d = ([], clients, d)"
| "bloomd_accept_ready (Accept_fail e # evs) clients d =
    (if e = EINTR then bloomd_accept_ready evs clients d else (evs, clients, d))"
| "bloomd_accept_ready (Accept fd cn nonblock # evs) clients d =
    (case bloomd_find_free_client clients of
       None \<Rightarrow> bloomd_accept_ready evs clients d
     | Some slot \<Rightarrow>
         if nonblock \<noteq> None then bloomd_accept_ready evs clients d
         else (case bloomd_client_init fd cn (d_world d) of
                 (client, w) \<Rightarrow>
                   bloomd_accept_ready evs (clients[slot := client])
                     (d\<lparr>d_world := w, d_stats := (d_stats d)
                        \<lparr>accepted_connections := accepted_connections (d_stats d) + 1\<rparr>\<rparr>)))"

definition bloomd_close_timed_out_clients ::
  "bloomd_client list \<Rightarrow> 'k world \<Rightarrow> bloomd_client list \<times> 'k world" where
  "bloomd_close_timed_out_clients clients w =
    (case bloomd_now_ms w of
       (now, w) \<Rightarrow>
         (map (\<lambda>client. if c_state client = CLIENT_EMPTY then client
                         else if now - last_activity_ms client > BLOOMD_REQ_TIMEOUT_MS
                         then bloomd_client_close client else client) clients, w))"

section \<open>The poll loop\<close>

text \<open>\<open>revents\<close> of one descriptor: \<open>POLLERR | POLLHUP | POLLNVAL\<close>, \<open>POLLIN\<close> and \<open>POLLOUT\<close>.\<close>

record revents =
  re_err :: bool
  re_in :: bool
  re_out :: bool

definition client_io ::
  "'k env \<Rightarrow> bloomd_config \<Rightarrow> revents \<Rightarrow> bloomd_client \<Rightarrow> 'k daemon
    \<Rightarrow> io_rc \<times> bloomd_client \<times> 'k daemon" where
  "client_io E cfg re client d =
    (if c_state client = CLIENT_WRITE_RESPONSE \<and> re_out re \<or>
        c_state client \<noteq> CLIENT_WRITE_RESPONSE \<and> re_in re
     then (if c_state client = CLIENT_WRITE_RESPONSE then bloomd_client_drive_write client d
           else case bloomd_client_drive_read E cfg client d of
             (io, client, d) \<Rightarrow>
               if io = Io_one \<and> c_state client = CLIENT_WRITE_RESPONSE
               then bloomd_client_drive_write client d else (io, client, d))
     else (Io_zero, client, d))"

definition drive_client ::
  "'k env \<Rightarrow> bloomd_config \<Rightarrow> (nat \<Rightarrow> revents) \<Rightarrow> nat \<Rightarrow> bloomd_client list \<times> 'k daemon
    \<Rightarrow> bloomd_client list \<times> 'k daemon" where
  "drive_client E cfg re i = (\<lambda>(clients, d).
    let client = clients ! i in
    if c_state client = CLIENT_EMPTY then (clients, d)
    else if re_err (re i) then (clients[i := bloomd_client_close client], d)
    else case client_io E cfg (re i) client d of
      (Io_err e, client, d) \<Rightarrow> (clients[i := bloomd_client_close client], d)
    | (_, client, d) \<Rightarrow> (clients[i := client], d))"

text \<open>
  The result of one \<open>poll\<close>: an error, or whether the listening socket is readable and what is
  reported for each slot that was polled.
\<close>

datatype poll_event = Poll_fail errno | Poll bool "nat \<Rightarrow> revents"

record 'k server =
  srv_daemon :: "'k daemon"
  srv_clients :: "bloomd_client list"
  srv_accepts :: "accept_event list"

definition poll_round ::
  "'k env \<Rightarrow> bloomd_config \<Rightarrow> bool \<Rightarrow> (nat \<Rightarrow> revents) \<Rightarrow> 'k server \<Rightarrow> 'k server" where
  "poll_round E cfg listen_ready re s =
    (let ready = filter (\<lambda>i. c_state (srv_clients s ! i) \<noteq> CLIENT_EMPTY) [0..<length (srv_clients s)] in
     case (if listen_ready then bloomd_accept_ready (srv_accepts s) (srv_clients s) (srv_daemon s)
           else (srv_accepts s, srv_clients s, srv_daemon s)) of
       (acc, clients, d) \<Rightarrow>
     (case fold (drive_client E cfg re) ready (clients, d) of
        (clients, d) \<Rightarrow>
     (case bloomd_close_timed_out_clients clients (d_world d) of
        (clients, w) \<Rightarrow>
     (case bloomd_now_ms w of
        (now, w) \<Rightarrow>
     (case bloomd_sync_dirty_logs E now False (d_set d) w of
        (fs, w) \<Rightarrow>
          \<lparr>srv_daemon = d\<lparr>d_world := w, d_set := fs\<rparr>, srv_clients = clients, srv_accepts = acc\<rparr>)))))"

fun event_loop :: "'k env \<Rightarrow> bloomd_config \<Rightarrow> poll_event list \<Rightarrow> 'k server \<Rightarrow> 'k server" where
  "event_loop E cfg [] s = s"
| "event_loop E cfg (Poll_fail e # ps) s = (if e = EINTR then event_loop E cfg ps s else s)"
| "event_loop E cfg (Poll listen_ready re # ps) s = event_loop E cfg ps (poll_round E cfg listen_ready re s)"

section \<open>Options\<close>

datatype args_result = Args_config bloomd_config | Args_exit | Args_error

fun parse_args_loop :: "string list \<Rightarrow> bloomd_config \<Rightarrow> args_result" where
  "parse_args_loop [] cfg = Args_config cfg"
| "parse_args_loop (a # args) cfg =
    (if a = ''--socket'' \<and> args \<noteq> []
     then parse_args_loop (tl args) (cfg\<lparr>socket_path := snprintf_to PATH_MAX (hd args)\<rparr>)
     else if a = ''--pin-root'' \<and> args \<noteq> []
     then parse_args_loop (tl args) (cfg\<lparr>pin_root := snprintf_to PATH_MAX (hd args)\<rparr>)
     else if a = ''--meta-root'' \<and> args \<noteq> []
     then parse_args_loop (tl args) (cfg\<lparr>meta_root := snprintf_to PATH_MAX (hd args)\<rparr>)
     else if a = ''--socket-mode'' \<and> args \<noteq> []
     then (case bloomd_parse_octal_mode (hd args) of
             Inl _ \<Rightarrow> Args_error
           | Inr mode \<Rightarrow> parse_args_loop (tl args) (cfg\<lparr>socket_mode := mode\<rparr>))
     else if a = ''--log-sync-mode'' \<and> args \<noteq> []
     then (case bloomd_parse_log_sync_mode (hd args) of
             Inl _ \<Rightarrow> Args_error
           | Inr mode \<Rightarrow> parse_args_loop (tl args) (cfg\<lparr>log_sync_mode := mode\<rparr>))
     else if a = ''--foreground'' then parse_args_loop args (cfg\<lparr>foreground := True\<rparr>)
     else if a = ''--help'' then Args_exit
     else if a = ''--version'' then Args_exit
     else Args_error)"

text \<open>The arguments after the program name.\<close>

definition bloomd_parse_args :: "string list \<Rightarrow> args_result" where
  "bloomd_parse_args args = parse_args_loop args bloomd_config_defaults"

section \<open>Startup and shutdown\<close>

text \<open>The results of the calls that set up signals and the listening socket.\<close>

record os_setup =
  os_sigaction :: "string \<Rightarrow> rc"
  os_socket :: "errno + int"
  os_bind :: rc
  os_chmod :: rc
  os_listen :: rc
  os_nonblocking :: rc

definition bloomd_install_signal_handlers :: "os_setup \<Rightarrow> rc" where
  "bloomd_install_signal_handlers S =
    (case os_sigaction S ''SIGINT'' of
       Some e \<Rightarrow> Some e
     | None \<Rightarrow>
         (case os_sigaction S ''SIGTERM'' of
            Some e \<Rightarrow> Some e
          | None \<Rightarrow> os_sigaction S ''SIGPIPE''))"

text \<open>
  \<open>bind\<close> makes a directory entry for the socket under the path that fits \<open>sun_path\<close> (108 bytes); the
  other calls name the configured path.
\<close>

definition sys_bind :: "string \<Rightarrow> 'k world \<Rightarrow> 'k world" where
  "sys_bind path w = w\<lparr>dirents := (dirents w)(path \<mapsto> next_ino w),
     inodes := (inodes w)(next_ino w := empty_inode), next_ino := next_ino w + 1\<rparr>"

definition bloomd_listen_socket :: "os_setup \<Rightarrow> string \<Rightarrow> 'k world \<Rightarrow> (errno + int) \<times> 'k world" where
  "bloomd_listen_socket S path w =
    (case os_socket S of
       Inl e \<Rightarrow> (Inl e, w)
     | Inr fd \<Rightarrow>
         let w = snd (sys_unlink path w) in
         case os_bind S of
           Some e \<Rightarrow> (Inl e, w)
         | None \<Rightarrow>
             let w = sys_bind (snprintf_to 108 path) w in
             case os_chmod S of
               Some e \<Rightarrow> (Inl e, snd (sys_unlink path w))
             | None \<Rightarrow>
                 (case os_listen S of
                    Some e \<Rightarrow> (Inl e, snd (sys_unlink path w))
                  | None \<Rightarrow>
                      (case os_nonblocking S of
                         Some e \<Rightarrow> (Inl e, snd (sys_unlink path w))
                       | None \<Rightarrow> (Inr fd, w))))"

definition release_daemon :: "'k env \<Rightarrow> 'k daemon \<Rightarrow> 'k world" where
  "release_daemon E d =
    (case bloomd_filter_set_free E (d_set d) (d_world d) of
       (_, w) \<Rightarrow> snd (bloomd_close_empty_pool E (d_pool d) w))"

text \<open>Up to the poll loop: the server, or the world the process leaves when it exits with 1.\<close>

definition bloomd_startup ::
  "'k env \<Rightarrow> os_setup \<Rightarrow> accept_event list \<Rightarrow> bloomd_config \<Rightarrow> 'k world \<Rightarrow> 'k world + 'k server" where
  "bloomd_startup E S acc cfg w =
    (case bloomd_prepare_roots E cfg w of
       (Some _, w) \<Rightarrow> Inl w
     | (None, w) \<Rightarrow>
    (case bloomd_bpf_probe_support E w of
       (Some _, w) \<Rightarrow> Inl w
     | (None, w) \<Rightarrow>
    (case bloomd_load_metadata_dir E cfg (daemon_init w) of
       (Some _, d) \<Rightarrow> Inl (release_daemon E d)
     | (None, d) \<Rightarrow>
    (case bloomd_cleanup_orphan_pins E cfg d of
       (Some _, d) \<Rightarrow> Inl (release_daemon E d)
     | (None, d) \<Rightarrow>
         if bloomd_install_signal_handlers S \<noteq> None then Inl (release_daemon E d)
         else (case bloomd_listen_socket S (socket_path cfg) (d_world d) of
                 (Inl _, w) \<Rightarrow> Inl (release_daemon E (d\<lparr>d_world := w\<rparr>))
               | (Inr fd, w) \<Rightarrow>
                   Inr \<lparr>srv_daemon = d\<lparr>d_world := w\<rparr>,
                     srv_clients = replicate BLOOMD_MAX_CLIENTS empty_client, srv_accepts = acc\<rparr>)))))"

definition bloomd_shutdown :: "'k env \<Rightarrow> bloomd_config \<Rightarrow> 'k server \<Rightarrow> 'k world" where
  "bloomd_shutdown E cfg s =
    (let d = srv_daemon s in
     case bloomd_now_ms (d_world d) of
       (now, w) \<Rightarrow>
         (case bloomd_sync_dirty_logs E now True (d_set d) w of
            (fs, w) \<Rightarrow>
              release_daemon E (d\<lparr>d_set := fs, d_world := snd (sys_unlink (socket_path cfg) w)\<rparr>)))"

text \<open>The exit status and the world the process leaves.\<close>

definition bloomd_main ::
  "'k env \<Rightarrow> os_setup \<Rightarrow> string list \<Rightarrow> accept_event list \<Rightarrow> poll_event list \<Rightarrow> 'k world \<Rightarrow> int \<times> 'k world" where
  "bloomd_main E S args acc polls w =
    (case bloomd_parse_args args of
       Args_exit \<Rightarrow> (0, w)
     | Args_error \<Rightarrow> (2, w)
     | Args_config cfg \<Rightarrow>
         (case bloomd_startup E S acc cfg w of
            Inl w \<Rightarrow> (1, w)
          | Inr s \<Rightarrow> (0, bloomd_shutdown E cfg (event_loop E cfg polls s))))"

end
