(* ===== verification/Server_Correct.thy ===== *)
theory Server_Correct
  imports Server
begin

text \<open>
  What the process keeps over its whole life: the daemon invariant, the table of connections, and
  that everything the poll loop does to the filters is a sequence of steps of the specification.
\<close>

section \<open>Syncing the logs\<close>

lemma sync_items_frame:
  "sync_items E now force fs w = (fs', w') \<Longrightarrow> quiet w w' \<and> list_all2 same_filter fs fs'"
proof (induction fs arbitrary: w fs' w')
  case (Cons f fs)
  obtain f1 w1 where f1: "sync_dirty_log E now force f w = (f1, w1)" by fastforce
  obtain fs1 w2 where r: "sync_items E now force fs w1 = (fs1, w2)" by fastforce
  have "fs' = f1 # fs1" "w' = w2" using Cons.prems f1 r by auto
  then show ?case
    using Cons.IH [OF r] sync_frame [OF f1] quiet_trans by auto
qed simp

lemma find_list_all2:
  assumes "list_all2 R xs ys" "\<And>x y. R x y \<Longrightarrow> P x \<longleftrightarrow> P y"
  shows "rel_option R (find P xs) (find P ys)"
  using assms(1) by (induction rule: list_all2_induct) (auto simp: assms(2))

lemma set_ok_same:
  assumes "list_all2 same_filter (items s) fs"
  shows "set_ok (s\<lparr>items := fs\<rparr>) = set_ok s" "rel_option same_filter (lookup s n) (lookup (s\<lparr>items := fs\<rparr>) n)"
proof -
  have "map f_name fs = map f_name (items s)"
    using assms by (induction rule: list_all2_induct) (auto simp: same_filter_def)
  then show "set_ok (s\<lparr>items := fs\<rparr>) = set_ok s"
    using list_all2_lengthD [OF assms] by (simp add: set_ok_def names_def)
  show "rel_option same_filter (lookup s n) (lookup (s\<lparr>items := fs\<rparr>) n)"
    using find_list_all2 [OF assms, of "\<lambda>f. f_name f = n"] by (simp add: lookup_def same_filter_def)
qed

lemma inv_same_filters:
  assumes inv: "daemon_inv kinv obj held d" and same: "list_all2 same_filter (items (d_set d)) fs"
  shows "daemon_inv kinv obj held (d\<lparr>d_set := (d_set d)\<lparr>items := fs\<rparr>\<rparr>)"
    "abs_filters obj held (d\<lparr>d_set := (d_set d)\<lparr>items := fs\<rparr>\<rparr>) = abs_filters obj held d"
proof -
  let ?s = "(d_set d)\<lparr>items := fs\<rparr>"
  note so = set_ok_same [OF same]
  have l: "\<exists>f. lookup (d_set d) n = Some f \<and> same_filter f g" if "lookup ?s n = Some g" for n g
    using so(2) [of n] that by (auto simp: option_rel_Some2)
  have fm: "flt_map obj w g = flt_map obj w f" "fm_has_data (f_meta f) \<longrightarrow> fm_has_data (f_meta g)"
    if "same_filter f g" for f g w
    using that by (auto simp: same_filter_def flt_map_def)
  have c1: "\<exists>m. flt_map obj (d_world d) g = Some m \<and> (\<not> fm_has_data (f_meta g) \<longrightarrow> held (kern (d_world d)) m = {})"
    if g: "lookup ?s x = Some g" for x g
  proof -
    obtain f where f: "lookup (d_set d) x = Some f" "same_filter f g" using l [OF g] by blast
    from daemon_invD(4) [OF inv f(1)] fm [OF f(2)] show ?thesis by (metis (no_types))
  qed
  have c2: "flt_map obj (d_world d) g \<noteq> flt_map obj (d_world d) h"
    if g: "lookup ?s x = Some g" "lookup ?s y = Some h" and ne: "x \<noteq> y" for x y g h
  proof -
    obtain f f' where f: "lookup (d_set d) x = Some f" "same_filter f g" "lookup (d_set d) y = Some f'" "same_filter f' h"
      using l [OF g(1)] l [OF g(2)] by blast
    from daemon_invD(5) [OF inv f(1,3) ne] fm(1) [OF f(2)] fm(1) [OF f(4)] show ?thesis by simp
  qed
  have c3: "\<exists>m. pool_map obj d = Some m \<and> held (kern (d_world d)) m = {} \<and>
      (\<forall>n g. lookup ?s n = Some g \<longrightarrow> flt_map obj (d_world d) g \<noteq> Some m)" if "pool_fd (d_pool d) \<ge> 0"
    using daemon_invD(6) [OF inv that] l fm(1) by metis
  have pm: "pool_map obj (d\<lparr>d_set := ?s\<rparr>) = pool_map obj d" by (simp add: pool_map_def)
  show "daemon_inv kinv obj held (d\<lparr>d_set := ?s\<rparr>)"
    by (rule daemon_invI) (use daemon_invD(1-3) [OF inv] so(1) c1 c2 c3 pm in simp_all)
  show "abs_filters obj held (d\<lparr>d_set := ?s\<rparr>) = abs_filters obj held d"
  proof
    fix x
    show "abs_filters obj held (d\<lparr>d_set := ?s\<rparr>) x = abs_filters obj held d x"
      using so(2) [of x] fm(1)
      by (cases "lookup (d_set d) x") (auto simp: abs_filters_def option_rel_Some1)
  qed
qed

lemma quiet_moved:
  assumes "daemon_inv kinv obj held d" "quiet (d_world d) w"
  shows "daemon_inv kinv obj held (d\<lparr>d_world := w\<rparr>)" "abs_filters obj held (d\<lparr>d_world := w\<rparr>) = abs_filters obj held d"
  using world_moved [OF assms(1) quiet_obs [OF assms(2)]] by auto

lemma sync_logs_keep:
  assumes inv: "daemon_inv kinv obj held d" and s: "bloomd_sync_dirty_logs E now force (d_set d) (d_world d) = (fs, w)"
  shows "daemon_inv kinv obj held (d\<lparr>d_world := w, d_set := fs\<rparr>)"
    "abs_filters obj held (d\<lparr>d_world := w, d_set := fs\<rparr>) = abs_filters obj held d"
proof -
  obtain its where i: "sync_items E now force (items (d_set d)) (d_world d) = (its, w)" "fs = (d_set d)\<lparr>items := its\<rparr>"
    using s by (auto simp: bloomd_sync_dirty_logs_def split: prod.splits)
  note f = sync_items_frame [OF i(1)]
  have q: "daemon_inv kinv obj held (d\<lparr>d_world := w\<rparr>)" "abs_filters obj held (d\<lparr>d_world := w\<rparr>) = abs_filters obj held d"
    using quiet_moved [OF inv] f by auto
  have "list_all2 same_filter (items (d_set (d\<lparr>d_world := w\<rparr>))) its" using f by simp
  from inv_same_filters [OF q(1) this] q(2) i(2)
  show "daemon_inv kinv obj held (d\<lparr>d_world := w, d_set := fs\<rparr>)"
    "abs_filters obj held (d\<lparr>d_world := w, d_set := fs\<rparr>) = abs_filters obj held d" by simp_all
qed

section \<open>Connections\<close>

text \<open>One request served, as the specification sees it.\<close>

definition served :: "filters \<Rightarrow> filters \<Rightarrow> bool" where
  "served A A' \<longleftrightarrow> (\<exists>req ok. request_ok req \<and> filter_step req A ok A')"

text \<open>A step of the process: the daemon stays good, and its filters move by served requests.\<close>

definition daemon_moves ::
  "('k \<Rightarrow> bool) \<Rightarrow> ('k \<Rightarrow> int \<Rightarrow> nat option) \<Rightarrow> ('k \<Rightarrow> nat \<Rightarrow> byte list set) \<Rightarrow> 'k daemon \<Rightarrow> 'k daemon \<Rightarrow> bool" where
  "daemon_moves kinv obj held d d' \<longleftrightarrow> daemon_inv kinv obj held d' \<and>
     served\<^sup>*\<^sup>* (abs_filters obj held d) (abs_filters obj held d')"

lemma daemon_moves_trans:
  "daemon_moves kinv obj held d d1 \<Longrightarrow> daemon_moves kinv obj held d1 d2 \<Longrightarrow> daemon_moves kinv obj held d d2"
  unfolding daemon_moves_def by (meson rtranclp_trans)

lemma moves_quiet:
  assumes "daemon_inv kinv obj held d" "quiet (d_world d) w"
  shows "daemon_moves kinv obj held d (d\<lparr>d_world := w\<rparr>)"
  using quiet_moved [OF assms] by (simp add: daemon_moves_def)

lemma moves_stats [simp]:
  "daemon_moves kinv obj held d (d'\<lparr>d_stats := st\<rparr>) = daemon_moves kinv obj held d d'"
proof -
  have "daemon_inv kinv obj held (d'\<lparr>d_stats := st\<rparr>) = daemon_inv kinv obj held d'"
    "abs_filters obj held (d'\<lparr>d_stats := st\<rparr>) = abs_filters obj held d'"
    by (simp_all add: daemon_inv_def abs_filters_def pool_map_def fun_eq_iff)
  then show ?thesis by (simp add: daemon_moves_def)
qed

lemma drive_write_moves:
  assumes inv: "daemon_inv kinv obj held d" and ok: "client_ok c" "c_state c = CLIENT_WRITE_RESPONSE"
    and h: "bloomd_client_drive_write c d = (r, c', d')"
  shows "daemon_moves kinv obj held d d' \<and> ((\<forall>e. r \<noteq> Io_err e) \<longrightarrow> client_ok c')"
proof -
  let ?out = "header_bytes (out_header c) @ buf_data (rbody (c_resp c))"
  have "write_offset c < length (out_bytes c)" using ok by (auto simp: client_ok_def)
  then have o: "write_offset c < length ?out" by (simp add: out_bytes_def)
  obtain r1 off act cn w where wl: "write_loop (header_bytes (out_header c)) (buf_data (rbody (c_resp c)))
      (write_offset c) (last_activity_ms c) (c_conn c) (d_world d) = (r1, off, act, cn, w)"
    using prod_cases5 by blast
  have s: "quiet (d_world d) w" "off \<le> length ?out" "r1 = Io_one \<longleftrightarrow> off = length ?out"
    using write_loop_spec [OF wl less_imp_le [OF o]] by blast+
  have d': "\<exists>st. d' = d\<lparr>d_world := w, d_stats := st\<rparr>"
    using h wl by (auto simp: bloomd_client_drive_write_def Let_def split: if_splits intro: exI [of _ "d_stats d"])
  have "client_ok c'" if "\<forall>e. r \<noteq> Io_err e"
  proof (cases "r1 = Io_one")
    case True
    then show ?thesis
      using h wl by (auto simp: bloomd_client_drive_write_def Let_def client_ok_def bloomd_client_reset_request_def)
  next
    case False
    then have "off < length (out_bytes c)" using s(2,3) unfolding out_bytes_def by linarith
    moreover have "out_bytes c = response_bytes (c_resp c)" using ok by (auto simp: client_ok_def)
    ultimately have "off < length (response_bytes (c_resp c))" by simp
    then show ?thesis
      using False h wl ok by (auto simp: bloomd_client_drive_write_def Let_def client_ok_def out_bytes_def)
  qed
  then show ?thesis using d' moves_quiet [OF inv s(1)] by auto
qed

context bpf_kernel
begin

lemma dispatch_moves:
  assumes inv: "daemon_inv kinv obj held d" and rq: "request_ok (c_req c)"
    and h: "dispatch_request E cfg c d = (r, c', d')"
  shows "daemon_moves kinv obj held d d'" "r \<noteq> Io_one"
proof -
  obtain r1 resp d1 where s: "serve_request E cfg (c_resp c) (c_req c) d = (r1, resp, d1)" using prod_cases3 by blast
  have "d' = d1" "r \<noteq> Io_one" using h s by (auto simp: dispatch_request_def split: option.splits)
  then show "daemon_moves kinv obj held d d'" "r \<noteq> Io_one"
    using serve_request_refines [OF inv rq s] rq unfolding daemon_moves_def served_def
    by (blast intro: r_into_rtranclp)+
qed

lemma read_body_moves:
  assumes inv: "daemon_inv kinv obj held d" and ok: "client_ok c" and st: "c_state c = CLIENT_READ_BODY"
    and h: "read_body E cfg c d = (r, c', d')"
  shows "daemon_moves kinv obj held d d' \<and> r \<noteq> Io_one"
proof -
  obtain r1 buf act cn w where rs: "bloomd_client_read_some (rq_len (c_req c)) (buf_data (req_body c))
      (last_activity_ms c) (c_conn c) (d_world d) = (r1, buf, act, cn, w)" using prod_cases5 by blast
  have le: "length (buf_data (req_body c)) \<le> rq_len (c_req c)" using ok st by (simp add: client_ok_def)
  note s = read_some_spec [OF rs le]
  have m: "daemon_moves kinv obj held d (d\<lparr>d_world := w\<rparr>)" using moves_quiet [OF inv] s by blast
  let ?c = "c\<lparr>req_body := (req_body c)\<lparr>buf_data := buf\<rparr>, last_activity_ms := act, c_conn := cn\<rparr>"
  let ?c' = "?c\<lparr>c_req := (c_req c)\<lparr>rq_body := take (rq_len (c_req c)) buf\<rparr>\<rparr>"
  show ?thesis
  proof (cases "r1 = Io_one")
    case False
    then show ?thesis using h rs m by (simp add: read_body_def Let_def)
  next
    case True
    then have dp: "dispatch_request E cfg ?c' (d\<lparr>d_world := w\<rparr>) = (r, c', d')"
      using h rs by (simp add: read_body_def Let_def)
    have rq: "request_ok (c_req ?c')" using True s by (simp add: request_ok_def)
    have i: "daemon_inv kinv obj held (d\<lparr>d_world := w\<rparr>)" using m by (simp add: daemon_moves_def)
    from dispatch_moves [OF i rq dp] show ?thesis using daemon_moves_trans [OF m] by blast
  qed
qed

lemma drive_read_moves:
  assumes inv: "daemon_inv kinv obj held d" and ok: "client_ok c"
    and st: "c_state c = CLIENT_READ_HEADER \<or> c_state c = CLIENT_READ_BODY"
    and h: "bloomd_client_drive_read E cfg c d = (r, c', d')"
  shows "daemon_moves kinv obj held d d' \<and> r \<noteq> Io_one"
  using st
proof
  assume "c_state c = CLIENT_READ_BODY"
  then show ?thesis using read_body_moves [OF inv ok] h by (simp add: bloomd_client_drive_read_def)
next
  assume st: "c_state c = CLIENT_READ_HEADER"
  obtain r1 hdr act cn w where rs: "bloomd_client_read_some 16 (req_header c) (last_activity_ms c)
      (c_conn c) (d_world d) = (r1, hdr, act, cn, w)" using prod_cases5 by blast
  have le: "length (req_header c) \<le> 16" using ok st by (simp add: client_ok_def)
  note s = read_some_spec [OF rs le]
  have m: "daemon_moves kinv obj held d (d\<lparr>d_world := w\<rparr>)" using moves_quiet [OF inv] s by blast
  then have i: "daemon_inv kinv obj held (d\<lparr>d_world := w\<rparr>)" by (simp add: daemon_moves_def)
  let ?c = "c\<lparr>req_header := hdr, last_activity_ms := act, c_conn := cn,
      c_req := \<lparr>rq_header = header_of_bytes hdr, rq_body = []\<rparr>\<rparr>"
  have "d' = d\<lparr>d_world := w\<rparr> \<and> r \<noteq> Io_one \<or>
      body_len (header_of_bytes hdr) = 0 \<and> dispatch_request E cfg ?c (d\<lparr>d_world := w\<rparr>) = (r, c', d')"
    using h rs st by (cases "c_req c")
      (auto simp: bloomd_client_drive_read_def Let_def split: if_splits option.splits prod.splits)
  moreover have "request_ok (c_req ?c)" if "body_len (header_of_bytes hdr) = 0" using that by (simp add: request_ok_def)
  ultimately show ?thesis
    using m dispatch_moves [OF i] daemon_moves_trans [OF m] by blast
qed

end

section \<open>The process\<close>

definition clients_ok :: "bloomd_client list \<Rightarrow> bool" where
  "clients_ok cs \<longleftrightarrow> length cs = BLOOMD_MAX_CLIENTS \<and> (\<forall>c\<in>set cs. client_ok c)"

lemma clients_ok_update: "clients_ok cs \<Longrightarrow> client_ok c \<Longrightarrow> clients_ok (cs[i := c])"
  using set_update_subset_insert [of cs i c] by (auto simp: clients_ok_def)

lemma client_ok_empty [simp]: "client_ok empty_client" "client_ok (bloomd_client_close c)"
  by (simp_all add: client_ok_def empty_client_def bloomd_client_close_def)

lemma client_init_ok: "bloomd_client_init fd cn w = (c, w') \<Longrightarrow> client_ok c \<and> quiet w w'"
  using quiet_sys(7) [of w]
  by (auto simp: bloomd_client_init_def client_ok_def bloomd_client_reset_request_def split: prod.splits)

lemma accept_ready_moves:
  "bloomd_accept_ready evs cs d = (evs', cs', d') \<Longrightarrow> daemon_inv kinv obj held d \<Longrightarrow> clients_ok cs \<Longrightarrow>
    daemon_moves kinv obj held d d' \<and> clients_ok cs'"
proof (induction evs cs d rule: bloomd_accept_ready.induct)
  case (3 fd cn nb evs cs d)
  show ?case
  proof (cases "bloomd_find_free_client cs = None \<or> nb \<noteq> None")
    case True
    then show ?thesis using 3 by (auto split: option.splits if_splits)
  next
    case False
    then obtain slot where sl: "bloomd_find_free_client cs = Some slot" "nb = None" by auto
    obtain c w where c: "bloomd_client_init fd cn (d_world d) = (c, w)" by fastforce
    let ?d = "d\<lparr>d_world := w, d_stats := (d_stats d)\<lparr>accepted_connections := accepted_connections (d_stats d) + 1\<rparr>\<rparr>"
    have m: "daemon_moves kinv obj held d ?d" using moves_quiet [OF 3(5)] client_init_ok [OF c] by simp
    have ac: "bloomd_accept_ready evs (cs[slot := c]) ?d = (evs', cs', d')" using 3(4) sl c by simp
    have "daemon_moves kinv obj held ?d d' \<and> clients_ok cs'"
      using 3(3) [OF sl(1) _ c [symmetric] ac] m clients_ok_update [OF 3(6)] client_init_ok [OF c] sl(2)
      by (simp add: daemon_moves_def)
    then show ?thesis using daemon_moves_trans [OF m] by blast
  qed
qed (auto simp: daemon_moves_def split: if_splits)

context bpf_kernel
begin

lemma client_io_moves:
  assumes inv: "daemon_inv kinv obj held d" and ok: "client_ok c" "c_state c \<noteq> CLIENT_EMPTY"
    and h: "client_io E cfg re c d = (r, c', d')"
  shows "daemon_moves kinv obj held d d' \<and> ((\<forall>e. r \<noteq> Io_err e) \<longrightarrow> client_ok c')"
proof -
  consider "c_state c = CLIENT_WRITE_RESPONSE" "re_out re" | "c_state c \<noteq> CLIENT_WRITE_RESPONSE" "re_in re"
    | "(r, c', d') = (Io_zero, c, d)"
    using h by (auto simp: client_io_def split: if_splits)
  then show ?thesis
  proof cases
    case 1
    then show ?thesis using drive_write_moves [OF inv ok(1)] h by (simp add: client_io_def)
  next
    case 2
    then have st: "c_state c = CLIENT_READ_HEADER \<or> c_state c = CLIENT_READ_BODY"
      using ok(2) by (cases "c_state c") auto
    obtain r1 c1 d1 where rd: "bloomd_client_drive_read E cfg c d = (r1, c1, d1)" using prod_cases3 by blast
    note m = drive_read_moves [OF inv ok(1) st rd]
    then have e: "r = r1" "c' = c1" "d' = d1" using h 2 rd by (auto simp: client_io_def)
    have "client_ok c'" if "\<forall>e. r \<noteq> Io_err e"
    proof -
      have "r1 = Io_zero" using that m e(1) by (cases r1) auto
      then show ?thesis using drive_read_step [of E cfg c d c1 d1] rd ok(1) st e(2) by (simp add: read_progress_def)
    qed
    then show ?thesis using m e(3) by blast
  next
    case 3
    then show ?thesis using inv ok by (simp add: daemon_moves_def)
  qed
qed

lemma drive_client_moves:
  assumes inv: "daemon_inv kinv obj held d" and ok: "clients_ok cs" and i: "i < length cs"
    and h: "drive_client E cfg re i (cs, d) = (cs', d')"
  shows "daemon_moves kinv obj held d d' \<and> clients_ok cs'"
proof -
  have c: "client_ok (cs ! i)" using ok i by (simp add: clients_ok_def)
  obtain r c1 d1 where io: "client_io E cfg (re i) (cs ! i) d = (r, c1, d1)" using prod_cases3 by blast
  have refl: "daemon_moves kinv obj held d d" using inv by (simp add: daemon_moves_def)
  show ?thesis
  proof (cases "c_state (cs ! i) = CLIENT_EMPTY \<or> re_err (re i)")
    case True
    then show ?thesis
      using h ok clients_ok_update [OF ok client_ok_empty(2)] refl by (auto simp: drive_client_def Let_def split: if_splits)
  next
    case False
    note m = client_io_moves [OF inv c _ io]
    show ?thesis
    proof (cases r)
      case (Io_err e)
      then show ?thesis
        using h False io m clients_ok_update [OF ok client_ok_empty(2)] by (auto simp: drive_client_def Let_def)
    qed (use h False io m clients_ok_update [OF ok] in \<open>auto simp: drive_client_def Let_def\<close>)
  qed
qed

lemma drive_clients_move:
  assumes "daemon_inv kinv obj held d" "clients_ok cs" "\<forall>i\<in>set is. i < BLOOMD_MAX_CLIENTS"
    "fold (drive_client E cfg re) is (cs, d) = (cs', d')"
  shows "daemon_moves kinv obj held d d' \<and> clients_ok cs'"
  using assms
proof (induction "is" arbitrary: cs d)
  case Nil
  then show ?case by (simp add: daemon_moves_def)
next
  case (Cons i "is")
  obtain cs1 d1 where s: "drive_client E cfg re i (cs, d) = (cs1, d1)" by fastforce
  have m: "daemon_moves kinv obj held d d1 \<and> clients_ok cs1"
    using drive_client_moves [OF Cons.prems(1,2) _ s] Cons.prems(2,3) by (simp add: clients_ok_def)
  then have "daemon_moves kinv obj held d1 d' \<and> clients_ok cs'"
    using Cons.IH [of d1 cs1] Cons.prems(3,4) s by (simp add: daemon_moves_def)
  then show ?case using m daemon_moves_trans by blast
qed

lemma poll_round_moves:
  assumes inv: "daemon_inv kinv obj held (srv_daemon s)" and ok: "clients_ok (srv_clients s)"
  shows "daemon_moves kinv obj held (srv_daemon s) (srv_daemon (poll_round E cfg l re s)) \<and>
    clients_ok (srv_clients (poll_round E cfg l re s))"
proof -
  let ?ready = "List.filter (\<lambda>i. c_state (srv_clients s ! i) \<noteq> CLIENT_EMPTY) [0..<length (srv_clients s)]"
  obtain acc cs d where ac: "(if l then bloomd_accept_ready (srv_accepts s) (srv_clients s) (srv_daemon s)
      else (srv_accepts s, srv_clients s, srv_daemon s)) = (acc, cs, d)" using prod_cases3 by blast
  obtain cs1 d1 where dr: "fold (drive_client E cfg re) ?ready (cs, d) = (cs1, d1)" by fastforce
  obtain cs2 w1 where to: "bloomd_close_timed_out_clients cs1 (d_world d1) = (cs2, w1)" by fastforce
  obtain now w2 where nw: "bloomd_now_ms w1 = (now, w2)" by fastforce
  obtain fs w3 where sy: "bloomd_sync_dirty_logs E now False (d_set d1) w2 = (fs, w3)" by fastforce
  have res: "poll_round E cfg l re s =
      \<lparr>srv_daemon = d1\<lparr>d_world := w3, d_set := fs\<rparr>, srv_clients = cs2, srv_accepts = acc\<rparr>"
    unfolding poll_round_def Let_def ac using dr to nw sy by simp
  have m1: "daemon_moves kinv obj held (srv_daemon s) d \<and> clients_ok cs"
    using ac accept_ready_moves [OF _ inv ok] inv ok by (cases l) (auto simp: daemon_moves_def)
  have m2: "daemon_moves kinv obj held d d1 \<and> clients_ok cs1"
    by (rule drive_clients_move [OF _ _ _ dr]) (use m1 ok in \<open>auto simp: daemon_moves_def clients_ok_def\<close>)
  have "quiet (d_world d1) w1" and c2: "clients_ok cs2"
    using to m2 quiet_sys(7) [of "d_world d1"]
    by (auto simp: bloomd_close_timed_out_clients_def clients_ok_def split: prod.splits)
  then have q: "quiet (d_world d1) w2" using quiet_trans quiet_sys(7) [OF nw] by blast
  have i1: "daemon_inv kinv obj held d1" using m2 by (simp add: daemon_moves_def)
  have m3: "daemon_moves kinv obj held d1 (d1\<lparr>d_world := w2\<rparr>)" by (rule moves_quiet [OF i1 q])
  then have i2: "daemon_inv kinv obj held (d1\<lparr>d_world := w2\<rparr>)" by (simp add: daemon_moves_def)
  have "bloomd_sync_dirty_logs E now False (d_set (d1\<lparr>d_world := w2\<rparr>)) (d_world (d1\<lparr>d_world := w2\<rparr>)) = (fs, w3)"
    using sy by simp
  from sync_logs_keep [OF i2 this]
  have m4: "daemon_moves kinv obj held (d1\<lparr>d_world := w2\<rparr>) (d1\<lparr>d_world := w3, d_set := fs\<rparr>)"
    by (simp add: daemon_moves_def)
  show ?thesis
    unfolding res using m1 m2 m3 m4 c2 daemon_moves_trans by (metis server.select_convs(1,2))
qed

lemma event_loop_moves:
  assumes "daemon_inv kinv obj held (srv_daemon s)" "clients_ok (srv_clients s)"
  shows "daemon_moves kinv obj held (srv_daemon s) (srv_daemon (event_loop E cfg ps s)) \<and>
    clients_ok (srv_clients (event_loop E cfg ps s))"
  using assms
proof (induction ps arbitrary: s)
  case (Cons p ps)
  show ?case
  proof (cases p)
    case (Poll_fail e)
    then show ?thesis using Cons by (simp add: daemon_moves_def)
  next
    case (Poll l re)
    have m: "daemon_moves kinv obj held (srv_daemon s) (srv_daemon (poll_round E cfg l re s)) \<and>
        clients_ok (srv_clients (poll_round E cfg l re s))" by (rule poll_round_moves [OF Cons.prems])
    then show ?thesis
      using Cons.IH [of "poll_round E cfg l re s"] Poll daemon_moves_trans by (auto simp: daemon_moves_def)
  qed
qed (simp add: daemon_moves_def)

end

section \<open>Startup\<close>

lemma mkdir_script: "sys_mkdir p m w = (r, w') \<Longrightarrow> \<exists>s. w' = w\<lparr>script := s\<rparr>"
  using next_outcome_script [of w] by (auto simp: sys_mkdir_def split: prod.splits outcome.splits)

lemma mkdir_parents_script: "mkdir_parents m pre p w = (r, w') \<Longrightarrow> \<exists>s. w' = w\<lparr>script := s\<rparr>"
proof (induction m pre p w arbitrary: r w' rule: mkdir_parents.induct)
  case (1 m pre w)
  then show ?case by (auto intro: exI [of _ "script w"])
next
  case (2 m pre c p w)
  obtain r1 w1 where mk: "sys_mkdir pre m w = (r1, w1)" by fastforce
  from mkdir_script [OF this] obtain s where s: "w1 = w\<lparr>script := s\<rparr>" by blast
  have step: "\<exists>s. w' = w\<lparr>script := s\<rparr>" if "\<exists>s'. w' = w1\<lparr>script := s'\<rparr>" using that s by auto
  show ?case
  proof (cases "c = slash")
    case False
    then show ?thesis using 2 by simp
  next
    case True
    then show ?thesis
      using 2 mk s step by (cases r1) (auto split: if_splits)
  qed
qed

lemma ensure_dir_script: "bloomd_ensure_dir p m a w = (r, w') \<Longrightarrow> \<exists>s. w' = w\<lparr>script := s\<rparr>"
proof -
  assume h: "bloomd_ensure_dir p m a w = (r, w')"
  obtain r1 w1 where mp: "mkdir_parents m (take 1 p) (drop 1 p) w = (r1, w1)" by fastforce
  from mkdir_parents_script [OF mp] obtain s1 where s1: "w1 = w\<lparr>script := s1\<rparr>" by blast
  obtain r2 w2 where mk: "sys_mkdir p m w1 = (r2, w2)" by fastforce
  from mkdir_script [OF mk] obtain s2 where s2: "w2 = w1\<lparr>script := s2\<rparr>" by blast
  have "w' = w \<or> w' = w1 \<or> w' = w2"
    using h mp mk by (auto simp: bloomd_ensure_dir_def split: if_splits option.splits)
  then show ?thesis using s1 s2 by (auto intro: exI [of _ "script w"])
qed

lemma prepare_roots_script: "bloomd_prepare_roots E cfg w = (r, w') \<Longrightarrow> \<exists>s. w' = w\<lparr>script := s\<rparr>"
proof -
  assume h: "bloomd_prepare_roots E cfg w = (r, w')"
  have e: "\<exists>s. snd (bloomd_ensure_dir p m a v) = w\<lparr>script := s\<rparr>" if "\<exists>s. v = w\<lparr>script := s\<rparr>" for p m a v
    using ensure_dir_script [of p m a v "fst (bloomd_ensure_dir p m a v)" "snd (bloomd_ensure_dir p m a v)"] that by auto
  show ?thesis
  proof (cases "bloomd_socket_parent (socket_path cfg) PATH_MAX")
    case (Inl x)
    then show ?thesis using h by (auto simp: bloomd_prepare_roots_def intro: exI [of _ "script w"])
  next
    case (Inr parent)
    obtain r1 w1 where e1: "bloomd_ensure_dir parent 493 True w = (r1, w1)" by fastforce
    obtain r2 w2 where e2: "bloomd_ensure_dir (meta_root cfg) 493 True w1 = (r2, w2)" by fastforce
    obtain r3 w3 where e3: "bloomd_ensure_dir (pin_root cfg) 493 True w2 = (r3, w3)" by fastforce
    have s1: "\<exists>s. w1 = w\<lparr>script := s\<rparr>" by (rule ensure_dir_script [OF e1])
    have s2: "\<exists>s. w2 = w\<lparr>script := s\<rparr>" using e [OF s1, of "meta_root cfg" 493 True] e2 by simp
    have s3: "\<exists>s. w3 = w\<lparr>script := s\<rparr>" using e [OF s2, of "pin_root cfg" 493 True] e3 by simp
    have "w' = w1 \<or> w' = w2 \<or> w' = w3"
      using h Inr e1 e2 e3 by (auto simp: bloomd_prepare_roots_def split: option.splits if_splits)
    then show ?thesis using s1 s2 s3 by blast
  qed
qed

lemma listen_quiet:
  assumes "bloomd_listen_socket S p w = (r, w')"
  shows "quiet w w'"
proof -
  have b: "quiet v (sys_bind q v)" for q and v :: "'a world"
    by (auto simp: quiet_def sys_bind_def world_ok_def less_Suc_eq split: if_splits)
  have u: "quiet v (snd (sys_unlink q v))" for q and v :: "'a world" by (rule quiet_sys(6))
  define w1 where "w1 = snd (sys_unlink p w)"
  define w2 where "w2 = sys_bind (snprintf_to 108 p) w1"
  define w3 where "w3 = snd (sys_unlink p w2)"
  have "quiet w w1" "quiet w1 w2" "quiet w2 w3" using b u by (simp_all add: w1_def w2_def w3_def)
  then have q: "quiet w w1" "quiet w w2" "quiet w w3" using quiet_trans by blast+
  have "w' = w \<or> w' = w1 \<or> w' = w2 \<or> w' = w3"
    using assms by (auto simp: bloomd_listen_socket_def Let_def w1_def [symmetric] w2_def [symmetric]
      w3_def [symmetric] split: sum.splits option.splits)
  then show ?thesis using q by auto
qed

context bpf_kernel
begin

lemma probe_frame:
  assumes k: "kinv (kern w)" and h: "bloomd_bpf_probe_support E w = (None, w')"
  shows "kinv (kern w')" "obj (kern w') = obj (kern w)" "pinned (kern w') = pinned (kern w)"
    "live obj pinned (kern w) m \<Longrightarrow> held (kern w') m = held (kern w) m" "w' = w\<lparr>kern := kern w'\<rparr>"
proof -
  obtain a r k1 where c: "sys_bpf E (BPF_MAP_CREATE a) (kern w) = (r, k1)" "br_ret r \<ge> 0"
    "w' = w\<lparr>kern := close_map E (br_ret r) k1\<rparr>"
    using h by (auto simp: bloomd_bpf_probe_support_def bpf_call_defs Let_def split: prod.splits if_splits)
  have k1: "kinv k1" using inv_bpf [OF k, of "BPF_MAP_CREATE a"] c(1) by simp
  from create_ok [OF k c(1,2)] obtain m' where m': "obj (kern w) (br_ret r) = None"
    "\<forall>fd. obj (kern w) fd \<noteq> Some m'" "\<forall>p. pinned (kern w) p \<noteq> Some m'"
    "obj k1 = (obj (kern w))(br_ret r \<mapsto> m')" "held k1 = (held (kern w))(m' := {})" "pinned k1 = pinned (kern w)"
    by blast
  note cl = close_obs [OF k1, of "br_ret r"]
  show "kinv (kern w')" using inv_close [OF k1] c(3) by simp
  show "obj (kern w') = obj (kern w)" using cl c(3) m' by (simp add: fun_upd_idem)
  show "pinned (kern w') = pinned (kern w)" using cl c(3) m' by simp
  show "w' = w\<lparr>kern := kern w'\<rparr>" using c(3) by simp
  show "held (kern w') m = held (kern w) m" if "live obj pinned (kern w) m"
    using cl c(3) m' that by (auto simp: live_def)
qed

lemma startup_good:
  assumes start: "kinv (kern w)" "world_ok w" "pins_inj pinned (kern w)"
    and dir: "\<And>w es. bloomd_list_dir E (meta_root cfg) w = Inr es \<Longrightarrow> distinct es"
    and pins: "\<And>n. bloomd_name_is_valid n \<Longrightarrow> pins_empty held pinned cfg n w"
    and h: "bloomd_startup E S acc cfg w = Inr s"
  shows "daemon_inv kinv obj held (srv_daemon s)" "clients_ok (srv_clients s)"
proof -
  obtain w1 w2 d d1 fd w3 where pr: "bloomd_prepare_roots E cfg w = (None, w1)"
    and pb: "bloomd_bpf_probe_support E w1 = (None, w2)"
    and ld: "bloomd_load_metadata_dir E cfg (daemon_init w2) = (None, d)"
    and cl: "bloomd_cleanup_orphan_pins E cfg d = (None, d1)"
    and ls: "bloomd_listen_socket S (socket_path cfg) (d_world d1) = (Inr fd, w3)"
    and s: "s = \<lparr>srv_daemon = d1\<lparr>d_world := w3\<rparr>, srv_clients = replicate BLOOMD_MAX_CLIENTS empty_client, srv_accepts = acc\<rparr>"
    using h by (auto simp: bloomd_startup_def split: prod.splits option.splits sum.splits if_splits)
  obtain sc where w1: "w1 = w\<lparr>script := sc\<rparr>" using prepare_roots_script [OF pr] by blast
  have k1: "kinv (kern w1)" using start(1) w1 by simp
  note pf = probe_frame [OF k1 pb]
  have fd: "file_data p w2 = file_data p w" for p by (subst pf(5)) (simp add: w1 file_data_def)
  have st2: "kinv (kern w2)" "world_ok w2" "pins_inj pinned (kern w2)"
    subgoal by (rule pf(1))
    subgoal by (subst pf(5)) (simp add: w1 start(2))
    subgoal using start(3) pf(3) w1 by (simp add: pins_inj_def)
    done
  have pe: "pins_empty held pinned cfg n w2" if "bloomd_name_is_valid n" for n
  proof -
    have "held (kern w2) m = held (kern w) m" if "pinned (kern w) p = Some m" for p m
      using pf(4) [of m] w1 that by (auto simp: live_def)
    then show ?thesis using pins [OF that] pf(3) w1 unfolding pins_empty_def fd Let_def by simp
  qed
  have li: "load_inv kinv obj held pinned d"
  proof (cases "bloomd_list_dir E (meta_root cfg) w2")
    case (Inl e)
    then have "d = daemon_init w2" using ld by (simp add: bloomd_load_metadata_dir_def daemon_init_def split: if_splits)
    then show ?thesis using load_inv_init [where kinv = kinv, OF st2] by simp
  next
    case (Inr es)
    then have le: "load_entries E cfg es (daemon_init w2) = (None, d)"
      using ld by (simp add: bloomd_load_metadata_dir_def daemon_init_def)
    have no: "n @ ''.meta'' \<notin> set es" if "lookup (d_set (daemon_init w2)) n \<noteq> None" for n
      using that by (simp add: daemon_init_def)
    have "pins_empty held pinned cfg n (d_world (daemon_init w2))" if "bloomd_name_is_valid n" for n
      using pe [OF that] by (simp add: daemon_init_def)
    from load_entries_recover [OF load_inv_init [where kinv = kinv, OF st2] dir [OF Inr] le no this]
    show ?thesis unfolding entries_step_def by blast
  qed
  have i: "daemon_inv kinv obj held d" by (rule load_inv_daemon [OF li])
  obtain es where "pins_removed kinv obj held pinned (orphan_paths cfg (d_set d) es) d d1"
    using cleanup_orphans_remove [OF bpf_kernel_axioms i cl] by blast
  note i1 = pins_removed_inv(1) [OF i this]
  show "daemon_inv kinv obj held (srv_daemon s)"
    using quiet_moved(1) [OF i1 listen_quiet [OF ls]] by (simp add: s)
  show "clients_ok (srv_clients s)" by (simp add: s clients_ok_def)
qed

end


section \<open>Accepting, timing out and shutting down\<close>

lemma accept_ready_length: "bloomd_accept_ready evs cs d = (evs', cs', d') \<Longrightarrow> length cs' = length cs"
  by (induction evs cs d rule: bloomd_accept_ready.induct) (auto split: option.splits if_splits prod.splits)

lemma find_free_Some:
  "bloomd_find_free_client cs = Some i \<Longrightarrow> i < length cs \<and> c_state (cs ! i) = CLIENT_EMPTY"
  by (auto simp: bloomd_find_free_client_def find_Some_iff)

text \<open>
  Accepting never disturbs a connection: whatever \<open>accept\<close> reports, every slot in use keeps its
  connection untouched, the table keeps its size, and a slot that was free is either still as it was
  or holds a freshly initialised connection that waits for a header.
\<close>

lemma accept_keeps_connections:
  assumes "bloomd_accept_ready evs cs d = (evs', cs', d')"
  shows "length cs' = length cs \<and> (\<forall>i < length cs. cs' ! i = cs ! i \<or>
    c_state (cs ! i) = CLIENT_EMPTY \<and> c_state (cs' ! i) = CLIENT_READ_HEADER \<and>
    req_header (cs' ! i) = [] \<and> write_offset (cs' ! i) = 0)"
  using assms
proof (induction evs cs d rule: bloomd_accept_ready.induct)
  case (3 fd cn nb evs cs d)
  show ?case
  proof (cases "bloomd_find_free_client cs = None \<or> nb \<noteq> None")
    case True
    then show ?thesis using 3 by (auto split: option.splits if_splits)
  next
    case False
    then obtain slot where sl: "bloomd_find_free_client cs = Some slot" "nb = None" by auto
    obtain c w where c: "bloomd_client_init fd cn (d_world d) = (c, w)" by fastforce
    have new: "c_state c = CLIENT_READ_HEADER" "req_header c = []" "write_offset c = 0"
      using c by (auto simp: bloomd_client_init_def bloomd_client_reset_request_def split: prod.splits)
    let ?d = "d\<lparr>d_world := w, d_stats := (d_stats d)\<lparr>accepted_connections := accepted_connections (d_stats d) + 1\<rparr>\<rparr>"
    have ac: "bloomd_accept_ready evs (cs[slot := c]) ?d = (evs', cs', d')" using 3(4) sl c by simp
    have ih: "length cs' = length cs \<and> (\<forall>i < length cs. cs' ! i = cs[slot := c] ! i \<or>
        c_state (cs[slot := c] ! i) = CLIENT_EMPTY \<and> c_state (cs' ! i) = CLIENT_READ_HEADER \<and>
        req_header (cs' ! i) = [] \<and> write_offset (cs' ! i) = 0)"
      using 3(3) [OF sl(1) _ c [symmetric] ac] sl(2) by simp
    then show ?thesis
      using find_free_Some [OF sl(1)] new by (auto simp: nth_list_update split: if_splits)
  qed
qed (auto split: if_splits)


text \<open>
  Reading never ends with a positive result, so the write that the poll loop would do right
  after a read is never reached: every response waits for one more round of \<open>poll\<close>.
\<close>

lemma read_never_positive:
  assumes "c_state c \<noteq> CLIENT_WRITE_RESPONSE" "re_in re"
  shows "client_io E cfg re c d = bloomd_client_drive_read E cfg c d \<and>
    fst (bloomd_client_drive_read E cfg c d) \<noteq> Io_one"
proof -
  have dp: "fst (dispatch_request E cfg c d) \<noteq> Io_one" for c d
    by (auto simp: dispatch_request_def split: prod.splits option.splits)
  have rb: "fst (read_body E cfg c d) \<noteq> Io_one" for c d
    using dp by (auto simp: read_body_def Let_def split: prod.splits)
  have r: "fst (bloomd_client_drive_read E cfg c d) \<noteq> Io_one"
    using dp rb by (auto simp: bloomd_client_drive_read_def Let_def split: prod.splits option.splits)
  then show ?thesis using assms by (auto simp: client_io_def split: prod.splits)
qed

context bpf_kernel
begin

lemma release_pinned:
  assumes "kinv (kern w)" "world_ok w"
  shows "pinned (kern (release_filter E b f w)) = pinned (kern w)"
proof -
  obtain r buf w1 where fl: "bloomd_log_buffer_flush (log_fd f) (log_buf f) b w = (r, buf, w1)"
    using prod_cases3 by blast
  define w2 where "w2 = snd (bloomd_log_close (log_fd f) False w1)"
  have "quiet w w2"
    using quiet_trans [OF quiet_buffer_flush [OF fl] quiet_log_close] by (simp add: w2_def)
  then have w2: "kern w2 = kern w" using assms(2) by (auto simp: quiet_def)
  have "release_filter E b f w = snd (bloomd_bpf_close E (map_fd f) w2)"
    by (simp add: release_filter_def fl w2_def)
  then show ?thesis using close_map_obs(3) [of w2 "map_fd f"] w2 assms(1) by (metis prod.collapse)
qed

lemma release_all:
  assumes "kinv (kern w)" "world_ok w" "w' = fold (release_filter E b) fs w"
  shows "kinv (kern w') \<and> world_ok w' \<and> held (kern w') = held (kern w) \<and> pinned (kern w') = pinned (kern w) \<and>
    (\<forall>fd. obj (kern w') fd = (if fd \<ge> 0 \<and> fd \<in> map_fd ` set fs then None else obj (kern w) fd))"
  using assms
proof (induction fs arbitrary: w)
  case (Cons f fs)
  note r = release_obs [OF Cons.prems(1,2), of b f] and p = release_pinned [OF Cons.prems(1,2), of b f]
  from Cons.IH [OF r(1,2)] Cons.prems(3) r p show ?case by auto
qed simp

lemma shutdown_obs:
  assumes inv: "daemon_inv kinv obj held (srv_daemon s)"
  shows "kinv (kern (bloomd_shutdown E cfg s)) \<and>
    pinned (kern (bloomd_shutdown E cfg s)) = pinned (kern (d_world (srv_daemon s))) \<and>
    held (kern (bloomd_shutdown E cfg s)) = held (kern (d_world (srv_daemon s))) \<and>
    (\<forall>n f. lookup (d_set (srv_daemon s)) n = Some f \<longrightarrow> obj (kern (bloomd_shutdown E cfg s)) (map_fd f) = None) \<and>
    (pool_fd (d_pool (srv_daemon s)) \<ge> 0 \<longrightarrow> obj (kern (bloomd_shutdown E cfg s)) (pool_fd (d_pool (srv_daemon s))) = None)"
proof -
  define d where "d = srv_daemon s"
  have inv': "daemon_inv kinv obj held d" using inv by (simp add: d_def)
  obtain now w1 where nw: "bloomd_now_ms (d_world d) = (now, w1)" by fastforce
  obtain fs w2 where sy: "sync_items E now True (items (d_set d)) w1 = (fs, w2)" by fastforce
  define w3 where "w3 = snd (sys_unlink (socket_path cfg) w2)"
  define w4 where "w4 = fold (release_filter E True) fs w3"
  obtain p w5 where cp: "(if pool_fd (d_pool d) \<ge> 0 then bloomd_bpf_close E (pool_fd (d_pool d)) w4
      else (pool_fd (d_pool d), w4)) = (p, w5)" by fastforce
  have sd: "bloomd_shutdown E cfg s = w5"
    using nw sy cp by (auto simp: bloomd_shutdown_def d_def [symmetric] Let_def bloomd_sync_dirty_logs_def
      release_daemon_def bloomd_filter_set_free_def bloomd_close_empty_pool_def w3_def w4_def split: prod.splits)
  note sf = sync_items_frame [OF sy]
  have "quiet (d_world d) w3"
    using quiet_trans [OF quiet_trans [OF quiet_sys(7) [OF nw]] quiet_sys(6)] sf by (simp add: w3_def)
  then have w3: "kern w3 = kern (d_world d)" "world_ok w3" "kinv (kern w3)"
    using daemon_invD(1,2) [OF inv'] by (auto simp: quiet_def)
  note r = release_all [OF w3(3,2) w4_def]
  have k4: "kinv (kern w4)" using r by simp
  have w5: "kinv (kern w5)" "held (kern w5) = held (kern w4)" "pinned (kern w5) = pinned (kern w4)"
    "obj (kern w5) = (if pool_fd (d_pool d) \<ge> 0 then (obj (kern w4))(pool_fd (d_pool d) := None) else obj (kern w4))"
    using close_map_obs [OF k4, of "pool_fd (d_pool d)" p w5] cp k4 by (auto split: if_splits)
  have cl: "obj (kern w5) (map_fd f) = None" if l: "lookup (d_set d) n = Some f" for n f
  proof -
    have "f \<in> set (items (d_set d))" using l lookup_Some [OF daemon_invD(3) [OF inv'], of n f] by simp
    then obtain i where i: "i < length (items (d_set d))" "items (d_set d) ! i = f" by (auto simp: in_set_conv_nth)
    have sl: "list_all2 same_filter (items (d_set d)) fs" using sf by blast
    have "same_filter f (fs ! i)" using list_all2_nthD [OF sl i(1)] i(2) by simp
    moreover have "fs ! i \<in> set fs" using i(1) list_all2_lengthD [OF sl] by simp
    ultimately have m: "map_fd f \<in> map_fd ` set fs" by (metis image_eqI same_filter_def)
    obtain m where "flt_map obj (d_world d) f = Some m" using daemon_invD(4) [OF inv' l] by blast
    then have "map_fd f \<ge> 0" by (auto simp: flt_map_def split: if_splits)
    then show ?thesis using r m w5(4) by auto
  qed
  show ?thesis
    unfolding sd d_def [symmetric] using w5 r w3(1) cl by auto
qed

end

text \<open>
  C19. A clean end loses nothing: shutting down closes the map descriptor of every filter and of the
  pool, and leaves every pin and the digests of every map as they were, whatever fails on the way.
\<close>

theorem shutdown_keeps_digests:
  assumes "bpf_kernel E kinv obj held pinned" "daemon_inv kinv obj held (srv_daemon s)"
    "bloomd_shutdown E cfg s = w'"
  shows "pinned (kern w') = pinned (kern (d_world (srv_daemon s))) \<and>
    held (kern w') = held (kern (d_world (srv_daemon s))) \<and>
    (\<forall>n f. lookup (d_set (srv_daemon s)) n = Some f \<longrightarrow> obj (kern w') (map_fd f) = None) \<and>
    (pool_fd (d_pool (srv_daemon s)) \<ge> 0 \<longrightarrow> obj (kern w') (pool_fd (d_pool (srv_daemon s))) = None)"
  using bpf_kernel.shutdown_obs [OF assms(1,2), of cfg] assms(3) by simp

section \<open>A process on the mock kernel\<close>

definition empty_dir_env :: "mock env" where
  "empty_dir_env = mock_env\<lparr>sys_readdir := \<lambda>_ _. Inr []\<rparr>"

lemma empty_dir_env_sel [simp]:
  "sys_bpf empty_dir_env = mock_bpf_syscall" "close_map empty_dir_env = mock_close"
  "unlink_pin empty_dir_env = mock_unlink" "mem empty_dir_env = (\<lambda>_. True)"
  by (simp_all add: empty_dir_env_def)










theorem shutdown_keeps_digests_witness:
  "mock_pinned (kern (bloomd_shutdown mock_env bloomd_config_defaults
     \<lparr>srv_daemon = sample_daemon, srv_clients = [], srv_accepts = []\<rparr>)) ''/sys/fs/bpf/bloomd/users'' = Some 0"
  using shutdown_keeps_digests [OF mk.bpf_kernel_axioms _ refl,
      of "\<lparr>srv_daemon = sample_daemon, srv_clients = [], srv_accepts = []\<rparr>" bloomd_config_defaults] sample_inv
  by (simp add: sample_daemon_def sample_kern_def mock_pinned_def mock_pin_find_def)

end
