(* ===== verification/Wire_Io.thy ===== *)
theory Wire_Io
  imports Connection
begin

text \<open>
  Blocking frame transfer, used by the command line client: \<open>bloomd_read_all\<close> of
  \<open>src/src/util.c\<close>, \<open>bloomd_read_frame\<close> and \<open>bloomd_write_response\<close> of \<open>src/src/protocol.c\<close>. The
  connection is the script of the theory \<open>Client\<close>; on a blocking socket \<open>EAGAIN\<close> is the expiry of
  the socket timeout.
\<close>

section \<open>Reading\<close>

function bloomd_read_all :: "nat \<Rightarrow> byte list \<Rightarrow> conn \<Rightarrow> (errno + byte list) \<times> conn" where
  "bloomd_read_all len buf cn =
    (if len > 0
     then (case sock_read len cn of
             (Inl e, cn) \<Rightarrow>
               if e = EINTR then bloomd_read_all len buf cn
               else if e = EAGAIN then (Inl ETIMEDOUT, cn)
               else (Inl e, cn)
           | (Inr got, cn) \<Rightarrow>
               if got = [] then (Inl ECONNRESET, cn)
               else bloomd_read_all (len - length got) (buf @ got) cn)
     else (Inr buf, cn))"
  by pat_completeness auto
termination
proof (relation "measure (\<lambda>(len, buf, cn). len + length (rx cn))", goal_cases)
  case 1 show ?case by simp
next
  case 2
  then show ?case by (auto simp: sock_read.simps split: list.splits rx_event.splits if_splits)
next
  case 3
  then show ?case by (auto simp: sock_read.simps split: list.splits rx_event.splits if_splits)
qed

declare bloomd_read_all.simps [simp del]

text \<open>
  \<open>bloomd_set_socket_timeouts\<close>: \<open>setopt\<close> answers the two \<open>setsockopt\<close> calls with their \<open>struct
  timeval\<close> (seconds, microseconds). No caller in the repository uses the function.
\<close>

datatype sock_timeout = SO_RCVTIMEO | SO_SNDTIMEO

definition bloomd_set_socket_timeouts :: "(sock_timeout \<Rightarrow> int \<times> int \<Rightarrow> rc) \<Rightarrow> int \<Rightarrow> rc" where
  "bloomd_set_socket_timeouts setopt timeout_ms =
    (if timeout_ms \<le> 0 then Some EINVAL
     else let tv = (timeout_ms div 1000, (timeout_ms mod 1000) * 1000) in
       case setopt SO_RCVTIMEO tv of Some e \<Rightarrow> Some e | None \<Rightarrow> setopt SO_SNDTIMEO tv)"

text \<open>Success means that both directions got a valid \<open>timeval\<close> of exactly the requested length.\<close>

lemma socket_timeouts_set:
  assumes "bloomd_set_socket_timeouts setopt ms = None"
  shows "\<exists>s u. setopt SO_RCVTIMEO (s, u) = None \<and> setopt SO_SNDTIMEO (s, u) = None \<and>
    s * 1000000 + u = ms * 1000 \<and> 0 \<le> u \<and> u < 1000000"
proof -
  have "ms div 1000 * 1000000 + ms mod 1000 * 1000 = ms * 1000" by (simp add: mult.commute) presburger
  then show ?thesis
    using assms
    by (intro exI [of _ "ms div 1000"] exI [of _ "ms mod 1000 * 1000"])
      (auto simp: bloomd_set_socket_timeouts_def Let_def split: if_splits option.splits)
qed

text \<open>The view of the frame, the storage it points into, and the connection.\<close>

definition bloomd_read_frame ::
  "(nat \<Rightarrow> bool) \<Rightarrow> bloomd_buffer \<Rightarrow> conn \<Rightarrow> (errno + bloomd_request_view) \<times> bloomd_buffer \<times> conn" where
  "bloomd_read_frame alloc storage cn =
    (let storage = storage\<lparr>buf_data := []\<rparr> in
     case bloomd_read_all 16 [] cn of
       (Inl e, cn) \<Rightarrow> (Inl e, storage, cn)
     | (Inr hdr, cn) \<Rightarrow>
         let h = header_of_bytes hdr in
         (case bloomd_header_is_valid h of
            Some e \<Rightarrow> (Inl e, storage, cn)
          | None \<Rightarrow>
              if body_len h = 0 then (Inr \<lparr>rq_header = h, rq_body = []\<rparr>, storage, cn)
              else (case bloomd_buffer_reserve alloc storage (unat (body_len h)) of
                      (Some e, storage) \<Rightarrow> (Inl e, storage, cn)
                    | (None, storage) \<Rightarrow>
                        (case bloomd_read_all (unat (body_len h)) [] cn of
                           (Inl e, cn) \<Rightarrow> (Inl e, storage, cn)
                         | (Inr body, cn) \<Rightarrow>
                             (Inr \<lparr>rq_header = h, rq_body = body\<rparr>, storage\<lparr>buf_data := body\<rparr>, cn)))))"

section \<open>Writing\<close>

text \<open>The vector of buffers that is left after \<open>wrote\<close> bytes of it were taken.\<close>

fun iov_advance :: "nat \<Rightarrow> byte list list \<Rightarrow> byte list list" where
  "iov_advance wrote [] = []"
| "iov_advance wrote (v # iov) =
    (if wrote \<ge> length v then iov_advance (wrote - length v) iov else drop wrote v # iov)"

lemma iov_advance_concat: "concat (iov_advance n iov) = drop n (concat iov)"
  by (induction n iov rule: iov_advance.induct) auto

function writev_loop :: "byte list list \<Rightarrow> conn \<Rightarrow> rc \<times> conn" where
  "writev_loop iov cn =
    (if iov \<noteq> []
     then (case sock_write (concat iov) cn of
             (Inl e, cn) \<Rightarrow>
               if e = EINTR then writev_loop iov cn
               else if e = EAGAIN then (Some ETIMEDOUT, cn)
               else (Some e, cn)
           | (Inr wrote, cn) \<Rightarrow>
               if wrote = 0 then (Some EPIPE, cn) else writev_loop (iov_advance wrote iov) cn)
     else (None, cn))"
  by pat_completeness auto
termination
proof (relation "measure (\<lambda>(iov, cn). length (concat iov) + length (tx cn))", goal_cases)
  case 1 show ?case by simp
next
  case 2
  then show ?case by (auto simp: sock_write.simps split: list.splits tx_event.splits)
next
  case 3
  then show ?case
    by (auto simp: sock_write.simps iov_advance_concat min_def split: list.splits tx_event.splits if_splits)
qed

declare writev_loop.simps [simp del]

definition bloomd_write_response :: "bloomd_response \<Rightarrow> conn \<Rightarrow> rc \<times> conn" where
  "bloomd_write_response resp cn =
    (let hdr = (rheader resp)\<lparr>body_len := of_nat (length (buf_data (rbody resp)))\<rparr> in
     writev_loop (if buf_data (rbody resp) = [] then [header_bytes hdr]
                  else [header_bytes hdr, buf_data (rbody resp)]) cn)"

section \<open>What arrives is what was sent\<close>

lemma read_all_ok:
  assumes "bloomd_read_all len buf cn = (Inr data, cn')"
  shows "\<exists>bs. data = buf @ bs \<and> length bs = len \<and> rx_bytes (rx cn) = bs @ rx_bytes (rx cn') \<and>
    tx cn' = tx cn \<and> sent cn' = sent cn"
  using assms
proof (induction len buf cn rule: bloomd_read_all.induct)
  case (1 len buf cn)
  note unf = bloomd_read_all.simps [of len buf cn]
  show ?case
  proof (cases "len > 0")
    case False
    then show ?thesis using "1.prems" unfolding unf by auto
  next
    case pos: True
    obtain r1 cn1 where rd: "sock_read len cn = (r1, cn1)" by fastforce
    note s = sock_read_cases [OF rd]
    show ?thesis
    proof (cases r1)
      case (Inl e)
      then have e: "e = EINTR" "bloomd_read_all len buf cn1 = (Inr data, cn')"
        using "1.prems" pos rd unfolding unf by (auto split: if_splits)
      from "1.IH"(1) [OF pos rd [symmetric] Inl e] show ?thesis using s(1-3) Inl by simp
    next
      case (Inr got)
      then have ne: "got \<noteq> []" "bloomd_read_all (len - length got) (buf @ got) cn1 = (Inr data, cn')"
        using "1.prems" pos rd unfolding unf by (auto split: if_splits)
      from "1.IH"(2) [OF pos rd [symmetric] Inr ne] obtain bs where
        "data = (buf @ got) @ bs" "length bs = len - length got" "rx_bytes (rx cn1) = bs @ rx_bytes (rx cn')"
        "tx cn' = tx cn1" "sent cn' = sent cn1" by blast
      then show ?thesis using s(1-3) s(4) [OF Inr] Inr by (intro exI [of _ "got @ bs"]) simp
    qed
  qed
qed

lemma read_all_succeeds:
  assumes "\<forall>ev\<in>set (rx cn). \<exists>bs. ev = Rx bs \<and> bs \<noteq> []" "len \<le> length (rx_bytes (rx cn))"
  shows "\<exists>data cn'. bloomd_read_all len buf cn = (Inr data, cn') \<and>
    (\<forall>ev\<in>set (rx cn'). \<exists>bs. ev = Rx bs \<and> bs \<noteq> [])"
  using assms
proof (induction len buf cn rule: bloomd_read_all.induct)
  case (1 len buf cn)
  note unf = bloomd_read_all.simps [of len buf cn]
  show ?case
  proof (cases "len > 0")
    case False
    then show ?thesis using "1.prems" unfolding unf by simp
  next
    case pos: True
    then obtain bs r where rx: "rx cn = Rx bs # r" "bs \<noteq> []"
      using "1.prems" by (cases "rx cn") auto
    let ?cn = "cn\<lparr>rx := (if length bs \<le> len then r else Rx (drop len bs) # r)\<rparr>"
    have rd: "sock_read len cn = (Inr (take len bs), ?cn)" using rx by (simp add: sock_read.simps)
    have ne: "take len bs \<noteq> []" using rx pos by simp
    have a: "\<forall>ev\<in>set (rx ?cn). \<exists>bs. ev = Rx bs \<and> bs \<noteq> []" using "1.prems"(1) rx by auto
    have b: "len - length (take len bs) \<le> length (rx_bytes (rx ?cn))" using "1.prems"(2) rx by auto
    from "1.IH"(2) [OF pos rd [symmetric] refl ne a b] show ?thesis
      using rd ne pos unfolding unf by simp
  qed
qed

lemma writev_spec:
  assumes "writev_loop iov cn = (r, cn')"
  shows "rx cn' = rx cn \<and> (\<exists>k \<le> length (concat iov). sent cn' = sent cn @ take k (concat iov) \<and>
    (r = None \<longrightarrow> k = length (concat iov)))"
  using assms
proof (induction iov cn rule: writev_loop.induct)
  case (1 iov cn)
  note unf = writev_loop.simps [of iov cn]
  show ?case
  proof (cases "iov = []")
    case True
    then show ?thesis using "1.prems" unfolding unf by simp
  next
    case ne: False
    obtain r1 cn1 where wr: "sock_write (concat iov) cn = (r1, cn1)" by fastforce
    note s = sock_write_cases [OF wr]
    consider (again) e where "r1 = Inl e" "e = EINTR" "writev_loop iov cn1 = (r, cn')"
      | (stop) "r \<noteq> None" "cn' = cn1" "case r1 of Inl _ \<Rightarrow> True | Inr n \<Rightarrow> n = 0"
      | (more) n where "r1 = Inr n" "n \<noteq> 0" "writev_loop (iov_advance n iov) cn1 = (r, cn')"
      using "1.prems" ne wr unfolding unf by (cases r1) (auto split: if_splits)
    then show ?thesis
    proof cases
      case again
      from "1.IH"(1) [OF ne wr [symmetric] again] show ?thesis using s(1,2) again(1) by simp
    next
      case stop
      then show ?thesis using s(1,2) by (intro conjI exI [of _ 0]) (auto split: sum.splits)
    next
      case more
      from "1.IH"(2) [OF ne wr [symmetric] more] obtain k where
        k: "rx cn' = rx cn1" "k \<le> length (drop n (concat iov))" "sent cn' = sent cn1 @ take k (drop n (concat iov))"
        "r = None \<longrightarrow> k = length (drop n (concat iov))" unfolding iov_advance_concat by blast
      have n: "n \<le> length (concat iov)" by (rule s(3) [OF more(1)])
      have "sent cn' = sent cn @ take (n + k) (concat iov)"
        using k(3) s(2) more(1) by (simp add: take_add)
      then show ?thesis using k n s(1) by (intro conjI exI [of _ "n + k"]) auto
    qed
  qed
qed

lemma write_response_spec:
  assumes "bloomd_write_response resp cn = (r, cn')"
  shows "rx cn' = rx cn" "\<exists>k. sent cn' = sent cn @ take k (response_bytes resp)"
    "r = None \<Longrightarrow> sent cn' = sent cn @ response_bytes resp"
proof -
  obtain iov where iov: "writev_loop iov cn = (r, cn')" "concat iov = response_bytes resp"
    using assms by (auto simp: bloomd_write_response_def response_bytes_def Let_def split: if_splits)
  from writev_spec [OF iov(1)] show "rx cn' = rx cn" "\<exists>k. sent cn' = sent cn @ take k (response_bytes resp)"
    "r = None \<Longrightarrow> sent cn' = sent cn @ response_bytes resp" unfolding iov(2) by auto
qed

definition arriving :: "conn \<Rightarrow> bool" where
  "arriving cn \<longleftrightarrow> (\<forall>ev\<in>set (rx cn). \<exists>bs. ev = Rx bs \<and> bs \<noteq> [])"

lemma read_all_gets:
  assumes "arriving cn" "rx_bytes (rx cn) = bs @ rest"
  shows "\<exists>cn'. bloomd_read_all (length bs) [] cn = (Inr bs, cn') \<and> arriving cn' \<and> rx_bytes (rx cn') = rest \<and>
    sent cn' = sent cn"
proof -
  have "length bs \<le> length (rx_bytes (rx cn))" using assms(2) by simp
  from read_all_succeeds [OF assms(1) [unfolded arriving_def] this, of "[]"] obtain data cn' where
    r: "bloomd_read_all (length bs) [] cn = (Inr data, cn')"
    and a: "\<forall>ev\<in>set (rx cn'). \<exists>bs. ev = Rx bs \<and> bs \<noteq> []" by auto
  from read_all_ok [OF r] assms(2) have "data = bs" "rx_bytes (rx cn') = rest" "sent cn' = sent cn"
    by (auto simp: append_eq_append_conv)
  moreover have "arriving cn'" using a by (simp only: arriving_def)
  ultimately show ?thesis using r by blast
qed

lemma read_frame_gets:
  assumes mem: "\<And>n. alloc n" and a: "arriving cn"
    and v: "bloomd_header_is_valid (rq_header req) = None" "request_ok req"
    and rx: "rx_bytes (rx cn) = request_bytes req @ rest"
  shows "\<exists>st' cn'. bloomd_read_frame alloc st cn = (Inr req, st', cn') \<and> arriving cn' \<and>
    rx_bytes (rx cn') = rest \<and> sent cn' = sent cn"
proof -
  note l = length_header_bytes [OF valid_magic [OF v(1)]]
  note h = header_of_bytes_header [OF valid_magic [OF v(1)]]
  have "rx_bytes (rx cn) = header_bytes (rq_header req) @ rq_body req @ rest" using rx by (simp add: request_bytes_def)
  from read_all_gets [OF a this] l obtain cn1 where c1: "bloomd_read_all 16 [] cn = (Inr (header_bytes (rq_header req)), cn1)"
    "arriving cn1" "rx_bytes (rx cn1) = rq_body req @ rest" "sent cn1 = sent cn" by auto
  from read_all_gets [OF c1(2,3)] obtain cn2 where c2: "bloomd_read_all (length (rq_body req)) [] cn1 = (Inr (rq_body req), cn2)"
    "arriving cn2" "rx_bytes (rx cn2) = rest" "sent cn2 = sent cn1" by blast
  show ?thesis
  proof (cases "body_len (rq_header req) = 0")
    case True
    then have "rq_body req = []" using v(2) by (simp add: request_ok_def)
    then show ?thesis using c1 v(1) True h by (cases req) (auto simp: bloomd_read_frame_def Let_def)
  next
    case False
    have "length (rq_body req) = rq_len req" using v(2) by (simp add: request_ok_def)
    then show ?thesis
      using c1 c2 v(1) False h mem by (cases req) (auto simp: bloomd_read_frame_def Let_def bloomd_buffer_reserve_def)
  qed
qed

text \<open>
  C25. A frame survives the transfer: what \<open>bloomd_write_response\<close> reports as written, whatever
  short writes and interruptions it meets, is read back by \<open>bloomd_read_frame\<close> on the other side as
  the same header and body, however the bytes are cut on the way, and the next frame is left for the
  next read.
\<close>

theorem frame_transfer_roundtrip:
  assumes "\<forall>n. alloc n" "bloomd_write_response resp cn = (None, cn')" "sent cn = []"
    "bloomd_header_is_valid ((rheader resp)\<lparr>body_len := of_nat (length (buf_data (rbody resp)))\<rparr>) = None"
    "length (buf_data (rbody resp)) \<le> BLOOMD_MAX_FRAME_BODY"
    "arriving peer" "rx_bytes (rx peer) = sent cn' @ rest"
  shows "\<exists>st' peer'. bloomd_read_frame alloc st peer =
      (Inr \<lparr>rq_header = (rheader resp)\<lparr>body_len := of_nat (length (buf_data (rbody resp)))\<rparr>,
         rq_body = buf_data (rbody resp)\<rparr>, st', peer') \<and> rx_bytes (rx peer') = rest"
proof -
  let ?req = "\<lparr>rq_header = (rheader resp)\<lparr>body_len := of_nat (length (buf_data (rbody resp)))\<rparr>,
    rq_body = buf_data (rbody resp)\<rparr>"
  have "unat (of_nat (length (buf_data (rbody resp))) :: u32) = length (buf_data (rbody resp))"
    using assms(5) by (simp add: unat_of_nat protocol_consts)
  then have ok: "request_ok ?req" by (simp add: request_ok_def)
  have "rx_bytes (rx peer) = request_bytes ?req @ rest"
    using assms(7) write_response_spec(3) [OF assms(2)] assms(3) by (simp add: request_bytes_def response_bytes_def)
  from read_frame_gets [OF _ assms(6) _ ok this, of alloc st] assms(1,4) show ?thesis by auto
qed

definition reply_conn :: conn where
  "reply_conn = \<lparr>rx = [], tx = [Tx 3, Tx_fail EINTR, Tx 20], sent = []\<rparr>"

definition reply_sample :: bloomd_response where
  "reply_sample = (bloomd_response_init 1 7)\<lparr>rbody := \<lparr>buf_data = [0x50, 0x4F, 0x4E, 0x47], buf_cap = 4\<rparr>\<rparr>"

lemma reply_written:
  "\<exists>cn'. bloomd_write_response reply_sample reply_conn = (None, cn') \<and> sent cn' = response_bytes reply_sample"
proof -
  have "fst (bloomd_write_response reply_sample reply_conn) = None"
    by (simp add: bloomd_write_response_def reply_sample_def reply_conn_def bloomd_response_init_def header_bytes_def
      bloomd_store_u32_def writev_loop.simps sock_write.simps BLOOMD_PROTOCOL_MAGIC_def Let_def)
  then obtain cn' where w: "bloomd_write_response reply_sample reply_conn = (None, cn')"
    by (cases "bloomd_write_response reply_sample reply_conn") simp
  then show ?thesis using write_response_spec(3) [OF w] by (simp add: reply_conn_def)
qed

theorem frame_transfer_roundtrip_witness:
  "\<exists>view st' peer'. bloomd_read_frame (\<lambda>_. True) bloomd_buffer_init
     \<lparr>rx = map (\<lambda>b. Rx [b]) (response_bytes reply_sample), tx = [], sent = []\<rparr> = (Inr view, st', peer') \<and>
     rq_body view = [0x50, 0x4F, 0x4E, 0x47]"
proof -
  obtain cn' where w: "bloomd_write_response reply_sample reply_conn = (None, cn')" "sent cn' = response_bytes reply_sample"
    using reply_written by blast
  let ?peer = "\<lparr>rx = map (\<lambda>b. Rx [b]) (response_bytes reply_sample), tx = [], sent = []\<rparr>"
  have b: "rx_bytes (map (\<lambda>b. Rx [b]) bs) = bs" for bs by (induction bs) auto
  have v: "bloomd_header_is_valid ((rheader reply_sample)\<lparr>body_len := of_nat (length (buf_data (rbody reply_sample)))\<rparr>) = None"
    by (simp add: bloomd_header_is_valid_def reply_sample_def bloomd_response_init_def protocol_consts)
  from frame_transfer_roundtrip [OF _ w(1) _ v, of "\<lambda>_. True" ?peer "[]" bloomd_buffer_init] show ?thesis
    by (auto simp: reply_conn_def w(2) b arriving_def reply_sample_def protocol_consts)
qed

end
