(* ===== verification/Bloomctl.thy ===== *)
theory Bloomctl
  imports Wire_Io
begin

text \<open>
  The command line client \<open>src/src/bloomctl.c\<close>: building the body of a request from the arguments,
  one exchange with the daemon, and decoding the response into what is printed. The process is a
  function of its arguments, the result of \<open>connect\<close> and the connection; its result is the exit
  status and the text on standard output and standard error.
\<close>

section \<open>Building requests\<close>

definition bloomctl_append_name ::
  "(nat \<Rightarrow> bool) \<Rightarrow> bloomd_buffer \<Rightarrow> string \<Rightarrow> rc \<times> bloomd_buffer" where
  "bloomctl_append_name alloc body name =
    (if \<not> bloomd_name_is_valid name then (Some EINVAL, body)
     else if length name > 0xFFFF then (Some EINVAL, body)
     else bloomd_buffer_append alloc body (bytes_of_string name))"

text \<open>The memory of a request structure whose other fields are zero.\<close>

definition name_request_bytes :: "u16 \<Rightarrow> byte list" where
  "name_request_bytes nlen = bloomd_store_u16 nlen @ bloomd_store_u16 0 @ bloomd_store_u32 0"

definition payload_request_bytes :: "u16 \<Rightarrow> u32 \<Rightarrow> byte list" where
  "payload_request_bytes nlen plen = bloomd_store_u16 nlen @ bloomd_store_u16 0 @ bloomd_store_u32 plen"

definition create_request_bytes :: "bloomd_create_request \<Rightarrow> byte list" where
  "create_request_bytes r = bloomd_store_u64 (cr_capacity r) @ bloomd_store_u64 (cr_error_rate r) @
     bloomd_store_u32 (cr_hashes r) @ bloomd_store_u16 (cr_name_len r) @ bloomd_store_u16 (cr_reserved r)"

definition batch_request_bytes :: "u16 \<Rightarrow> u16 \<Rightarrow> byte list" where
  "batch_request_bytes nlen count = bloomd_store_u16 nlen @ bloomd_store_u16 count @ bloomd_store_u32 0"

definition bloomctl_build_name_request ::
  "(nat \<Rightarrow> bool) \<Rightarrow> bloomd_buffer \<Rightarrow> string \<Rightarrow> rc \<times> bloomd_buffer" where
  "bloomctl_build_name_request alloc body name =
    (case bloomd_buffer_append alloc body (name_request_bytes (of_nat (length name))) of
       (Some e, body) \<Rightarrow> (Some e, body)
     | (None, body) \<Rightarrow> bloomctl_append_name alloc body name)"

definition bloomctl_build_payload_request ::
  "(nat \<Rightarrow> bool) \<Rightarrow> bloomd_buffer \<Rightarrow> string \<Rightarrow> byte list \<Rightarrow> rc \<times> bloomd_buffer" where
  "bloomctl_build_payload_request alloc body name payload =
    (if length payload > 0xFFFFFFFF then (Some EINVAL, body)
     else case bloomd_buffer_append alloc body
                 (payload_request_bytes (of_nat (length name)) (of_nat (length payload))) of
       (Some e, body) \<Rightarrow> (Some e, body)
     | (None, body) \<Rightarrow>
         (case bloomctl_append_name alloc body name of
            (Some e, body) \<Rightarrow> (Some e, body)
          | (None, body) \<Rightarrow> bloomd_buffer_append alloc body payload))"

text \<open>The arguments after the command.\<close>

definition bloomctl_command_create ::
  "(nat \<Rightarrow> bool) \<Rightarrow> bloomd_buffer \<Rightarrow> string list \<Rightarrow> rc \<times> bloomd_buffer" where
  "bloomctl_command_create alloc body args =
    (if length args < 3 then (Some EINVAL, body)
     else
       let req = \<lparr>cr_capacity = fst (strtoul 10 (args ! 1)), cr_error_rate = fst (strtod (args ! 2)),
             cr_hashes = (if length args \<ge> 4 then ucast (fst (strtoul 10 (args ! 3))) else 0),
             cr_name_len = of_nat (length (args ! 0)), cr_reserved = 0\<rparr>
       in case bloomd_buffer_append alloc body (create_request_bytes req) of
            (Some e, body) \<Rightarrow> (Some e, body)
          | (None, body) \<Rightarrow> bloomctl_append_name alloc body (args ! 0))"

fun append_items :: "(nat \<Rightarrow> bool) \<Rightarrow> string list \<Rightarrow> bloomd_buffer \<Rightarrow> rc \<times> bloomd_buffer" where
  "append_items alloc [] body = (None, body)"
| "append_items alloc (item # its) body =
    (let len = (of_nat (length item) :: u32) in
     case bloomd_buffer_append_u32 alloc body len of
       (Some e, body) \<Rightarrow> (Some e, body)
     | (None, body) \<Rightarrow>
         (case bloomd_buffer_append alloc body (take (unat len) (bytes_of_string item)) of
            (Some e, body) \<Rightarrow> (Some e, body)
          | (None, body) \<Rightarrow> append_items alloc its body))"

definition bloomctl_command_batch ::
  "(nat \<Rightarrow> bool) \<Rightarrow> bloomd_buffer \<Rightarrow> string \<Rightarrow> string list \<Rightarrow> rc \<times> bloomd_buffer" where
  "bloomctl_command_batch alloc body name its =
    (if length its = 0 \<or> length its > BLOOMD_MAX_BATCH_ITEMS then (Some EINVAL, body)
     else case bloomd_buffer_append alloc body
                 (batch_request_bytes (of_nat (length name)) (of_nat (length its))) of
       (Some e, body) \<Rightarrow> (Some e, body)
     | (None, body) \<Rightarrow>
         (case bloomctl_append_name alloc body name of
            (Some e, body) \<Rightarrow> (Some e, body)
          | (None, body) \<Rightarrow> append_items alloc its body))"

text \<open>The command and its arguments: the opcode and the body, or \<^term>\<open>None\<close> for exit status 2.\<close>

definition bloomctl_build ::
  "(nat \<Rightarrow> bool) \<Rightarrow> string \<Rightarrow> string list \<Rightarrow> (bloomd_opcode \<times> bloomd_buffer) option" where
  "bloomctl_build alloc cmd args =
    (let built = (\<lambda>op r. case r of (Some e, body) \<Rightarrow> None | (None, body) \<Rightarrow> Some (op, body));
         b = bloomd_buffer_init
     in if cmd = ''ping'' then Some (OP_PING, b)
        else if cmd = ''create'' then built OP_CREATE (bloomctl_command_create alloc b args)
        else if cmd = ''add'' \<or> cmd = ''check''
        then (if length args \<noteq> 2 then None
              else built (if cmd = ''add'' then OP_ADD else OP_CHECK)
                (bloomctl_build_payload_request alloc b (args ! 0) (bytes_of_string (args ! 1))))
        else if cmd = ''madd'' \<or> cmd = ''mcheck''
        then (if length args < 2 then None
              else built (if cmd = ''madd'' then OP_MADD else OP_MCHECK)
                (bloomctl_command_batch alloc b (args ! 0) (drop 1 args)))
        else if cmd = ''info'' \<or> cmd = ''drop''
        then (if length args \<noteq> 1 then None
              else built (if cmd = ''info'' then OP_INFO else OP_DROP)
                (bloomctl_build_name_request alloc b (args ! 0)))
        else if cmd = ''list'' then Some (OP_LIST, b)
        else if cmd = ''stats'' then Some (OP_STATS, b)
        else None)"

section \<open>The exchange\<close>

text \<open>
  \<open>sock\<close> is the result of \<open>socket\<close>, \<open>listener\<close> what \<open>connect\<close> finds at an address: the
  connection, or an error. The path is cut to what fits \<open>sun_path\<close> (108 bytes with the final zero).
\<close>

definition bloomctl_connect :: "rc \<Rightarrow> (string \<Rightarrow> errno + conn) \<Rightarrow> string \<Rightarrow> errno + conn" where
  "bloomctl_connect sock listener path =
    (case sock of Some e \<Rightarrow> Inl e | None \<Rightarrow> listener (take 107 path))"

definition bloomctl_send_request ::
  "(nat \<Rightarrow> bool) \<Rightarrow> byte \<Rightarrow> u32 \<Rightarrow> bloomd_buffer \<Rightarrow> conn \<Rightarrow> (errno + bloomd_request_view) \<times> conn" where
  "bloomctl_send_request alloc opc rid body cn =
    (let resp = bloomd_response_init opc rid;
         req = resp\<lparr>rheader := (rheader resp)\<lparr>flags := 0\<rparr>, rbody := body\<rparr>
     in case bloomd_write_response req cn of
          (Some e, cn) \<Rightarrow> (Inl e, cn)
        | (None, cn) \<Rightarrow>
            (case bloomd_read_frame alloc bloomd_buffer_init cn of (r, _, cn) \<Rightarrow> (r, cn)))"

section \<open>Printing\<close>

text \<open>Exit status, standard output, standard error.\<close>

type_synonym ctl_result = "int \<times> string \<times> string"

text \<open>\<open>%.*s\<close> with precision \<open>n\<close>: at most \<open>n\<close> bytes, up to a zero byte.\<close>

definition print_bytes :: "nat \<Rightarrow> byte list \<Rightarrow> string" where
  "print_bytes n bs = string_of_bytes (takeWhile (\<lambda>b. b \<noteq> 0) (take n bs))"

abbreviation dec_of :: "'a::len word \<Rightarrow> string" where
  "dec_of x \<equiv> dec_digits (uint x)"

definition NL :: string where "NL = [LF]"

abbreviation ctl_len :: "bloomd_request_view \<Rightarrow> nat" where
  "ctl_len resp \<equiv> unat (body_len (rq_header resp))"

definition bloomctl_print_error :: "bloomd_request_view \<Rightarrow> ctl_result" where
  "bloomctl_print_error resp =
    (let malformed = (1, '''', ''server error: malformed error body'' @ NL) in
     if ctl_len resp < 8 then malformed
     else let code = bloomd_load_u32 (rq_body resp); msg_len = unat (bloomd_load_u32 (drop 4 (rq_body resp))) in
     if 8 + msg_len > ctl_len resp then malformed
     else (1, '''', ''server error ['' @ bloomd_status_string (status (rq_header resp)) @ ''/'' @
             bloomd_errno_string code @ '']: '' @ print_bytes msg_len (drop 8 (rq_body resp)) @ NL))"

definition malformed_length :: "string \<Rightarrow> bloomd_request_view \<Rightarrow> ctl_result" where
  "malformed_length what resp =
    (1, '''', what @ '': malformed response body length '' @ dec_of (body_len (rq_header resp)) @ NL)"

definition bloomctl_expect_body_len :: "bloomd_request_view \<Rightarrow> nat \<Rightarrow> string \<Rightarrow> ctl_result option" where
  "bloomctl_expect_body_len resp expected what =
    (if ctl_len resp \<noteq> expected then Some (malformed_length what resp) else None)"

definition print_ping :: "bloomd_request_view \<Rightarrow> ctl_result" where
  "print_ping resp = (0, print_bytes (ctl_len resp) (rq_body resp) @ NL, '''')"

definition print_bool :: "bloomd_request_view \<Rightarrow> ctl_result" where
  "print_bool resp =
    (case bloomctl_expect_body_len resp 1 ''add/check'' of
       Some r \<Rightarrow> r
     | None \<Rightarrow> (0, (if ctl_len resp > 0 then dec_of (rq_body resp ! 0) else ''0'') @ NL, ''''))"

definition print_batch :: "bloomd_request_view \<Rightarrow> ctl_result" where
  "print_batch resp =
    (if ctl_len resp < 2 then malformed_length ''batch'' resp
     else let count = unat (bloomd_load_u16 (rq_body resp)); vals = drop 2 (rq_body resp) in
     if ctl_len resp \<noteq> 2 + count then malformed_length ''batch'' resp
     else (0, concat (map (\<lambda>i. dec_of (vals ! i) @ (if i + 1 = count then NL else '' '')) [0..<count]), ''''))"

definition state_bit :: "u32 \<Rightarrow> u32 \<Rightarrow> string" where
  "state_bit fl m = (if fl AND m \<noteq> 0 then ''1'' else ''0'')"

definition bloomd_load_double :: "byte list \<Rightarrow> double" where
  "bloomd_load_double p = le_word 8 p"

definition print_info :: "bloomd_request_view \<Rightarrow> ctl_result" where
  "print_info resp =
    (let p = rq_body resp in
     if ctl_len resp < 72 then malformed_length ''info'' resp
     else
       let name_len = unat (bloomd_load_u16 p); backend_len = unat (bloomd_load_u16 (drop 2 p));
           digest_len = unat (bloomd_load_u16 (drop 4 p)); pin_len = unat (bloomd_load_u32 (drop 64 p));
           state_flags = bloomd_load_u32 (drop 68 p)
       in if 72 + name_len + backend_len + digest_len + pin_len \<noteq> ctl_len resp
          then malformed_length ''info'' resp
          else
            let name = drop 72 p; backend = drop name_len name; digest = drop backend_len backend;
                pin = drop digest_len digest
            in (0, ''name='' @ print_bytes name_len name @ NL @ ''backend='' @ print_bytes backend_len backend @ NL @
                 ''digest='' @ print_bytes digest_len digest @ NL @
                 ''capacity='' @ dec_of (bloomd_load_u64 (drop 8 p)) @ NL @
                 ''error_rate='' @ fmt_g17 (bloomd_load_double (drop 16 p)) @ NL @
                 ''hashes='' @ dec_of (bloomd_load_u32 (drop 24 p)) @ NL @
                 ''value_size='' @ dec_of (bloomd_load_u32 (drop 28 p)) @ NL @
                 ''pin_path='' @ print_bytes pin_len pin @ NL @
                 ''add_calls='' @ dec_of (bloomd_load_u64 (drop 32 p)) @ NL @
                 ''check_calls='' @ dec_of (bloomd_load_u64 (drop 40 p)) @ NL @
                 ''batch_add_calls='' @ dec_of (bloomd_load_u64 (drop 48 p)) @ NL @
                 ''batch_check_calls='' @ dec_of (bloomd_load_u64 (drop 56 p)) @ NL @
                 ''state_flags='' @ dec_of state_flags @ NL @
                 ''durable='' @ state_bit state_flags 0x01 @ NL @ ''metadata_only='' @ state_bit state_flags 0x02 @ NL @
                 ''log_clean='' @ state_bit state_flags 0x04 @ NL @ ''log_dirty='' @ state_bit state_flags 0x08 @ NL, ''''))"

text \<open>The entries from offset \<open>off\<close>; the text printed so far stays printed when an entry is cut off.\<close>

fun print_names :: "nat \<Rightarrow> nat \<Rightarrow> nat \<Rightarrow> byte list \<Rightarrow> string \<Rightarrow> ctl_result" where
  "print_names 0 len off body out =
    (if off \<noteq> len then (1, out, ''list: trailing bytes in response'' @ NL) else (0, out, ''''))"
| "print_names (Suc k) len off body out =
    (if off + 2 > len then (1, out, ''list: truncated entry header'' @ NL)
     else let n = unat (bloomd_load_u16 (drop off body)); off = off + 2 in
       if off + n > len then (1, out, ''list: truncated entry body'' @ NL)
       else print_names k len (off + n) body (out @ print_bytes n (drop off body) @ NL))"

definition print_list :: "bloomd_request_view \<Rightarrow> ctl_result" where
  "print_list resp =
    (if ctl_len resp < 4 then malformed_length ''list'' resp
     else print_names (unat (bloomd_load_u32 (rq_body resp))) (ctl_len resp) 4 (rq_body resp) '''')"

definition print_stats :: "bloomd_request_view \<Rightarrow> ctl_result" where
  "print_stats resp =
    (case bloomctl_expect_body_len resp 100 ''stats'' of
       Some r \<Rightarrow> r
     | None \<Rightarrow>
         let p = rq_body resp; u64 = (\<lambda>off. dec_of (bloomd_load_u64 (drop off p)));
             u32 = (\<lambda>off. dec_of (bloomd_load_u32 (drop off p)))
         in (0, ''requests='' @ u64 0 @ NL @ ''responses='' @ u64 8 @ NL @ ''errors='' @ u64 16 @ NL @
              ''accepted_connections='' @ u64 24 @ NL @ ''filters_loaded='' @ u64 32 @ NL @
              ''filters_created='' @ u64 40 @ NL @ ''filters_dropped='' @ u64 48 @ NL @
              ''orphan_meta='' @ u64 56 @ NL @ ''orphan_pin='' @ u64 64 @ NL @ ''filter_count='' @ u32 72 @ NL @
              ''metadata_only_filters='' @ u32 76 @ NL @ ''durable_filters='' @ u32 80 @ NL @
              ''empty_pool_hits='' @ u64 84 @ NL @ ''empty_pool_misses='' @ u64 92 @ NL, ''''))"

definition bloomctl_print :: "bloomd_opcode \<Rightarrow> bloomd_request_view \<Rightarrow> ctl_result" where
  "bloomctl_print op resp =
    (if status (rq_header resp) \<noteq> status_byte STATUS_OK then bloomctl_print_error resp
     else case op of
       OP_PING \<Rightarrow> print_ping resp
     | OP_ADD \<Rightarrow> print_bool resp | OP_CHECK \<Rightarrow> print_bool resp
     | OP_MADD \<Rightarrow> print_batch resp | OP_MCHECK \<Rightarrow> print_batch resp
     | OP_INFO \<Rightarrow> print_info resp
     | OP_LIST \<Rightarrow> print_list resp
     | OP_STATS \<Rightarrow> print_stats resp
     | _ \<Rightarrow> (0, '''', ''''))"

section \<open>The program\<close>

text \<open>
  The arguments are those after the program name. The texts of the usage messages are left out
  (standard error of an exit with status 2).
\<close>

definition bloomctl_main ::
  "(nat \<Rightarrow> bool) \<Rightarrow> rc \<Rightarrow> (string \<Rightarrow> errno + conn) \<Rightarrow> string list \<Rightarrow> ctl_result" where
  "bloomctl_main alloc sock listener args =
    (let use_s = (length args \<ge> 2 \<and> args ! 0 = ''-s'');
         path = (if use_s then args ! 1 else ''/run/bloomd.sock'');
         args = (if use_s then drop 2 args else args)
     in if args \<noteq> [] \<and> hd args = ''--version'' then (0, ''bloomctl 1.0.0'' @ NL, '''')
        else if args = [] then (2, '''', '''')
        else case bloomctl_build alloc (hd args) (tl args) of
          None \<Rightarrow> (2, '''', '''')
        | Some (op, body) \<Rightarrow>
            (case bloomctl_connect sock listener path of
               Inl e \<Rightarrow> (1, '''', ''connect failed: '' @ strerror e @ NL)
             | Inr cn \<Rightarrow>
                 (case bloomctl_send_request alloc (opcode_byte op) 1 body cn of
                    (Inl e, _) \<Rightarrow> (1, '''', ''request failed: '' @ strerror e @ NL)
                  | (Inr resp, _) \<Rightarrow> bloomctl_print op resp)))"

end
