(* ===== verification/Bloomctl_Correct.thy ===== *)
theory Bloomctl_Correct
  imports Bloomctl
begin

text \<open>
  The client against the daemon: every request \<open>bloomctl\<close> builds is parsed by the daemon as the
  arguments meant it, what the client prints is what the daemon answered, and the guarantee of the
  daemon (no false negatives) seen from the command line.
\<close>

section \<open>What the client puts into a request\<close>

lemma append_ok:
  assumes "bloomd_buffer_append alloc b data = (None, b')"
  shows "buf_data b' = buf_data b @ data" "buffer_ok b \<Longrightarrow> buffer_ok b'"
  using assms by (auto elim: buffer_append_cases)

lemma append_name_ok:
  assumes "bloomctl_append_name alloc b name = (None, b')"
  shows "bloomd_name_is_valid name" "buf_data b' = buf_data b @ bytes_of_string name"
    "buffer_ok b \<Longrightarrow> buffer_ok b'"
  using assms append_ok [of alloc b "bytes_of_string name" b']
  by (auto simp: bloomctl_append_name_def split: if_splits)

definition item_bytes :: "string list \<Rightarrow> byte list" where
  "item_bytes its = concat (map (\<lambda>s. bloomd_store_u32 (of_nat (length s)) @ bytes_of_string s) its)"

lemma append_items_ok:
  assumes "append_items alloc its b = (None, b')" "buffer_ok b" "\<forall>s\<in>set its. length s < 2 ^ 32"
  shows "buf_data b' = buf_data b @ item_bytes its \<and> buffer_ok b'"
  using assms
proof (induction its arbitrary: b)
  case Nil
  then show ?case by (simp add: item_bytes_def)
next
  case (Cons s its)
  let ?len = "of_nat (length s) :: u32"
  have len: "take (unat ?len) (bytes_of_string s) = bytes_of_string s"
    using Cons.prems(3) by (simp add: unat_of_nat)
  obtain b1 b2 where b1: "bloomd_buffer_append alloc b (bloomd_store_u32 ?len) = (None, b1)"
    and b2: "bloomd_buffer_append alloc b1 (bytes_of_string s) = (None, b2)"
    and b3: "append_items alloc its b2 = (None, b')"
    using Cons.prems(1) len by (auto simp: bloomd_buffer_append_u32_def Let_def split: prod.splits option.splits)
  note k1 = append_ok [OF b1] and k2 = append_ok [OF b2]
  have ok: "buffer_ok b2" using k1 k2 Cons.prems(2) by blast
  have "\<forall>s\<in>set its. length s < 2 ^ 32" using Cons.prems(3) by simp
  from Cons.IH [OF b3 ok this] show ?case using k1(1) k2(1) by (simp add: item_bytes_def)
qed

lemma items_read:
  assumes "length (item_bytes its) \<le> BLOOMD_MAX_FRAME_BODY"
  shows "scan_payloads (length its) (item_bytes its) = Inr []"
    "payload_digests (length its) (item_bytes its) = map (\<lambda>s. bloomd_digest_payload (bytes_of_string s)) its"
proof -
  have "scan_payloads (length its) (item_bytes its) = Inr [] \<and>
    payload_digests (length its) (item_bytes its) = map (\<lambda>s. bloomd_digest_payload (bytes_of_string s)) its"
    using assms
  proof (induction its)
    case Nil
    show ?case by (simp add: item_bytes_def)
  next
    case (Cons s its)
    let ?p = "bytes_of_string s"
    have split: "item_bytes (s # its) = bloomd_store_u32 (of_nat (length ?p)) @ ?p @ item_bytes its"
      by (simp add: item_bytes_def)
    have l: "length ?p \<le> BLOOMD_MAX_FRAME_BODY" "length (item_bytes its) \<le> BLOOMD_MAX_FRAME_BODY"
      using Cons.prems by (simp_all add: split)
    have r: "bloomd_protocol_read_payload (item_bytes (s # its)) = Inr (?p, 4 + length ?p)"
      unfolding split by (rule read_payload_store [OF l(1)])
    have d: "drop (4 + length ?p) (item_bytes (s # its)) = item_bytes its" by (simp add: split)
    from Cons.IH [OF l(2)] show ?case using r d by simp
  qed
  then show "scan_payloads (length its) (item_bytes its) = Inr []"
    "payload_digests (length its) (item_bytes its) = map (\<lambda>s. bloomd_digest_payload (bytes_of_string s)) its"
    by simp_all
qed

section \<open>The frame and the daemon's parsers\<close>

definition ctl_request :: "bloomd_opcode \<Rightarrow> bloomd_buffer \<Rightarrow> bloomd_request_view" where
  "ctl_request op body =
    \<lparr>rq_header = (rheader (bloomd_response_init (opcode_byte op) 1))\<lparr>flags := 0, body_len := of_nat (length (buf_data body))\<rparr>,
     rq_body = buf_data body\<rparr>"

lemma ctl_request_fields [simp]: "rq_body (ctl_request op body) = buf_data body" "rq_op (ctl_request op body) = Some op"
  by (simp_all add: ctl_request_def bloomd_response_init_def)

lemma ctl_request_ok:
  assumes "buffer_ok body"
  shows "request_ok (ctl_request op body)" "bloomd_header_is_valid (rq_header (ctl_request op body)) = None"
    "rq_len (ctl_request op body) = length (buf_data body)"
proof -
  have "unat (of_nat (length (buf_data body)) :: u32) = length (buf_data body)"
    using assms by (simp add: unat_of_nat buffer_ok_def protocol_consts)
  then show "request_ok (ctl_request op body)" "bloomd_header_is_valid (rq_header (ctl_request op body)) = None"
    "rq_len (ctl_request op body) = length (buf_data body)"
    using assms by (simp_all add: ctl_request_def request_ok_def bloomd_response_init_def bloomd_header_is_valid_def
      buffer_ok_def protocol_consts)
qed

lemma name_len_ok:
  assumes "bloomd_name_is_valid name"
  shows "unat (of_nat (length name) :: u16) = length name"
    "bloomd_name_view_is_valid (bytes_of_string name @ rest) (length name) = None"
proof -
  show "unat (of_nat (length name) :: u16) = length name"
    using name_valid_chars(2) [OF assms] by (simp add: unat_of_nat)
  show "bloomd_name_view_is_valid (bytes_of_string name @ rest) (length name) = None"
    using name_view_valid_iff [of "length name" "bytes_of_string name @ rest"] assms by simp
qed

lemmas request_layout = name_request_bytes_def payload_request_bytes_def batch_request_bytes_def create_request_bytes_def
  name_request_of_def payload_request_of_def batch_request_of_def create_request_of_def

lemma parse_built_payload:
  assumes "rq_body req = payload_request_bytes (of_nat (length name)) (of_nat (length p)) @ bytes_of_string name @ p"
    "rq_len req = length (rq_body req)" "bloomd_name_is_valid name" "length p < 2 ^ 32"
  shows "bloomd_parse_name_payload req = Inr (name, p)"
proof -
  have u: "unat (of_nat (length p) :: u32) = length p" using assms(4) by (simp add: unat_of_nat)
  show ?thesis
    using assms(1,2) name_len_ok [OF assms(3)]
    by (simp add: bloomd_parse_name_payload_def request_layout u Let_def)
qed

lemma parse_built_name:
  assumes "rq_body req = name_request_bytes (of_nat (length name)) @ bytes_of_string name"
    "rq_len req = length (rq_body req)" "bloomd_name_is_valid name"
  shows "parse_name_request what req = Inr name"
  using assms(1,2) name_len_ok [OF assms(3)] name_len_ok(2) [OF assms(3), of "[]"]
  by (simp add: parse_name_request_def request_layout Let_def)

lemma parse_built_batch:
  assumes "rq_body req = batch_request_bytes (of_nat (length name)) (of_nat n) @ bytes_of_string name @ its"
    "rq_len req = length (rq_body req)" "bloomd_name_is_valid name" "0 < n" "n \<le> BLOOMD_MAX_BATCH_ITEMS"
  shows "bloomd_parse_batch req = Inr (name, of_nat n, its)"
proof -
  have u: "unat (of_nat n :: u16) = n" using assms(5) by (simp add: unat_of_nat protocol_consts)
  then have z: "(of_nat n :: u16) \<noteq> 0" using assms(4) by (metis unat_0 less_irrefl)
  show ?thesis
    using assms(1,2,5) name_len_ok [OF assms(3)] u z
    by (simp add: bloomd_parse_batch_def request_layout Let_def)
qed

lemma parse_built_create:
  assumes "rq_body req = create_request_bytes cr @ bytes_of_string name" "cr_name_len cr = of_nat (length name)"
    "bloomd_name_is_valid name"
  shows "create_request_of (rq_body req) = cr" "create_name req = Some name"
proof -
  show c: "create_request_of (rq_body req) = cr" using assms(1) by (cases cr) (simp add: request_layout)
  have "drop 24 (rq_body req) = bytes_of_string name" using assms(1) by (simp add: request_layout)
  then show "create_name req = Some name"
    using name_len_ok [OF assms(3)] name_len_ok(2) [OF assms(3), of "[]"] c assms(2)
    by (simp add: create_name_def bloomd_parse_name_copy_def)
qed

lemma init_ok [simp]: "buffer_ok bloomd_buffer_init" "buf_data bloomd_buffer_init = []"
  by (simp_all add: buffer_ok_def bloomd_buffer_init_def)

lemma build_payload_ok:
  assumes "bloomctl_build_payload_request alloc bloomd_buffer_init name p = (None, body)"
  shows "buffer_ok body" "bloomd_parse_name_payload (ctl_request op body) = Inr (name, p)"
proof -
  obtain b1 b2 where b:
    "bloomd_buffer_append alloc bloomd_buffer_init (payload_request_bytes (of_nat (length name)) (of_nat (length p))) = (None, b1)"
    "bloomctl_append_name alloc b1 name = (None, b2)" "bloomd_buffer_append alloc b2 p = (None, body)" "length p \<le> 0xFFFFFFFF"
    using assms by (auto simp: bloomctl_build_payload_request_def split: if_splits prod.splits option.splits)
  note k = append_ok [OF b(1)] append_name_ok [OF b(2)] append_ok [OF b(3)]
  show ok: "buffer_ok body" using k by simp
  show "bloomd_parse_name_payload (ctl_request op body) = Inr (name, p)"
    using k b(4) ctl_request_ok(3) [OF ok] by (intro parse_built_payload) simp_all
qed

lemma build_name_ok:
  assumes "bloomctl_build_name_request alloc bloomd_buffer_init name = (None, body)"
  shows "buffer_ok body" "parse_name_request what (ctl_request op body) = Inr name"
proof -
  obtain b1 where b:
    "bloomd_buffer_append alloc bloomd_buffer_init (name_request_bytes (of_nat (length name))) = (None, b1)"
    "bloomctl_append_name alloc b1 name = (None, body)"
    using assms by (auto simp: bloomctl_build_name_request_def split: prod.splits option.splits)
  note k = append_ok [OF b(1)] append_name_ok [OF b(2)]
  show ok: "buffer_ok body" using k by simp
  show "parse_name_request what (ctl_request op body) = Inr name"
    using k ctl_request_ok(3) [OF ok] by (intro parse_built_name) simp_all
qed

lemma build_batch_ok:
  assumes "bloomctl_command_batch alloc bloomd_buffer_init name its = (None, body)" "\<forall>s\<in>set its. length s < 2 ^ 32"
  shows "buffer_ok body" "bloomd_parse_batch (ctl_request op body) = Inr (name, of_nat (length its), item_bytes its)"
    "length its \<le> BLOOMD_MAX_BATCH_ITEMS" "length (item_bytes its) \<le> BLOOMD_MAX_FRAME_BODY"
proof -
  obtain b1 b2 where b:
    "bloomd_buffer_append alloc bloomd_buffer_init (batch_request_bytes (of_nat (length name)) (of_nat (length its))) = (None, b1)"
    "bloomctl_append_name alloc b1 name = (None, b2)" "append_items alloc its b2 = (None, body)"
    and n: "0 < length its" "length its \<le> BLOOMD_MAX_BATCH_ITEMS"
    using assms(1) by (auto simp: bloomctl_command_batch_def split: if_splits prod.splits option.splits)
  note k = append_ok [OF b(1)] append_name_ok [OF b(2)]
  have ok2: "buffer_ok b2" using k by simp
  note i = append_items_ok [OF b(3) ok2 assms(2)]
  show ok: "buffer_ok body" using i by simp
  show "bloomd_parse_batch (ctl_request op body) = Inr (name, of_nat (length its), item_bytes its)"
    using k i n ctl_request_ok(3) [OF ok] by (intro parse_built_batch) simp_all
  show "length its \<le> BLOOMD_MAX_BATCH_ITEMS" by (rule n)
  show "length (item_bytes its) \<le> BLOOMD_MAX_FRAME_BODY" using i ok by (simp add: buffer_ok_def)
qed

definition create_args :: "string list \<Rightarrow> bloomd_create_request" where
  "create_args args = \<lparr>cr_capacity = fst (strtoul 10 (args ! 1)), cr_error_rate = fst (strtod (args ! 2)),
     cr_hashes = (if length args \<ge> 4 then ucast (fst (strtoul 10 (args ! 3))) else 0),
     cr_name_len = of_nat (length (args ! 0)), cr_reserved = 0\<rparr>"

lemma build_create_ok:
  assumes "bloomctl_command_create alloc bloomd_buffer_init args = (None, body)"
  shows "buffer_ok body" "create_request_of (rq_body (ctl_request op body)) = create_args args"
    "create_name (ctl_request op body) = Some (args ! 0)"
    "rq_len (ctl_request op body) = 24 + length (args ! 0)"
proof -
  obtain b1 where b:
    "bloomd_buffer_append alloc bloomd_buffer_init (create_request_bytes (create_args args)) = (None, b1)"
    "bloomctl_append_name alloc b1 (args ! 0) = (None, body)"
    using assms by (auto simp: bloomctl_command_create_def create_args_def Let_def
      split: if_splits prod.splits option.splits)
  note k = append_ok [OF b(1)] append_name_ok [OF b(2)]
  show ok: "buffer_ok body" using k by simp
  have c: "rq_body (ctl_request op body) = create_request_bytes (create_args args) @ bytes_of_string (args ! 0)"
    using k by simp
  note r = parse_built_create [OF c _ k(3)]
  show "create_request_of (rq_body (ctl_request op body)) = create_args args"
    "create_name (ctl_request op body) = Some (args ! 0)" using r by (simp_all add: create_args_def)
  show "rq_len (ctl_request op body) = 24 + length (args ! 0)"
    using ctl_request_ok(3) [OF ok] c by (simp add: create_request_bytes_def)
qed

text \<open>
  C23. The client and the daemon agree on the layout of requests: whatever command line \<open>bloomctl\<close>
  turns into a request, the frame is valid and the daemon's parsers read from it exactly the
  arguments: name and payload of \<open>add\<close> and \<open>check\<close>, name and every item in order of \<open>madd\<close> and
  \<open>mcheck\<close> with no byte left over, the name of \<open>info\<close> and \<open>drop\<close>, name and numbers of \<open>create\<close>, an
  empty body for the others. (An argument of 4 GiB or more, which Linux does not pass, is excluded.)
\<close>

theorem client_requests_parse:
  assumes "bloomctl_build alloc cmd args = Some (op, body)" "\<forall>s\<in>set args. length s < 2 ^ 32"
  shows "request_ok (ctl_request op body) \<and> bloomd_header_is_valid (rq_header (ctl_request op body)) = None \<and>
    (case op of
       OP_CREATE \<Rightarrow> create_request_of (rq_body (ctl_request op body)) = create_args args \<and>
         create_name (ctl_request op body) = Some (args ! 0) \<and>
         rq_len (ctl_request op body) = 24 + length (args ! 0)
     | OP_ADD \<Rightarrow> bloomd_parse_name_payload (ctl_request op body) = Inr (args ! 0, bytes_of_string (args ! 1))
     | OP_CHECK \<Rightarrow> bloomd_parse_name_payload (ctl_request op body) = Inr (args ! 0, bytes_of_string (args ! 1))
     | OP_INFO \<Rightarrow> parse_name_request ''INFO'' (ctl_request op body) = Inr (args ! 0)
     | OP_DROP \<Rightarrow> parse_name_request ''DROP'' (ctl_request op body) = Inr (args ! 0)
     | _ \<Rightarrow> if op = OP_MADD \<or> op = OP_MCHECK
         then \<exists>its. bloomd_parse_batch (ctl_request op body) = Inr (args ! 0, of_nat (length (tl args)), its) \<and>
           scan_payloads (length (tl args)) its = Inr [] \<and>
           payload_digests (length (tl args)) its = map (\<lambda>s. bloomd_digest_payload (bytes_of_string s)) (tl args)
         else rq_len (ctl_request op body) = 0)"
proof -
  have its: "\<forall>s\<in>set (drop (Suc 0) args). length s < 2 ^ 32" using assms(2) by (meson in_set_dropD)
  have tl: "tl args = drop (Suc 0) args" by (simp add: drop_Suc)
  note built = assms(1) [unfolded bloomctl_build_def Let_def]
  consider (none) "op \<in> {OP_PING, OP_LIST, OP_STATS}" "body = bloomd_buffer_init"
    | (create) "op = OP_CREATE" "bloomctl_command_create alloc bloomd_buffer_init args = (None, body)"
    | (payload) "op \<in> {OP_ADD, OP_CHECK}"
        "bloomctl_build_payload_request alloc bloomd_buffer_init (args ! 0) (bytes_of_string (args ! 1)) = (None, body)"
    | (batch) "op \<in> {OP_MADD, OP_MCHECK}"
        "bloomctl_command_batch alloc bloomd_buffer_init (args ! 0) (drop (Suc 0) args) = (None, body)"
    | (name) "op \<in> {OP_INFO, OP_DROP}" "bloomctl_build_name_request alloc bloomd_buffer_init (args ! 0) = (None, body)"
    using built by (auto split: if_splits prod.splits option.splits)
  then show ?thesis
  proof cases
    case none
    then show ?thesis using ctl_request_ok [of body op] by auto
  next
    case create
    note c = build_create_ok [OF create(2)]
    show ?thesis using create(1) ctl_request_ok [OF c(1)] c by simp
  next
    case payload
    note c = build_payload_ok [OF payload(2)]
    show ?thesis using payload(1) ctl_request_ok [OF c(1)] c(2) by auto
  next
    case batch
    note c = build_batch_ok [OF batch(2) its]
    show ?thesis using batch(1) ctl_request_ok [OF c(1)] c(2) items_read [OF c(4)] unfolding tl by auto
  next
    case name
    note c = build_name_ok [OF name(2)]
    show ?thesis using name(1) ctl_request_ok [OF c(1)] c(2) by auto
  qed
qed

lemma madd_built:
  "\<exists>body. bloomctl_build (\<lambda>_. True) ''madd'' [''users'', ''a'', ''bc''] = Some (OP_MADD, body)"
proof -
  have "bloomd_name_is_valid ''users''" by code_simp
  then show ?thesis
    by (simp add: bloomctl_build_def bloomctl_command_batch_def bloomctl_append_name_def batch_request_bytes_def
      bloomd_buffer_append_def bloomd_buffer_reserve_def bloomd_buffer_append_u32_def bloomd_buffer_init_def
      protocol_consts Let_def)
qed

theorem client_requests_parse_witness:
  "\<exists>body its. bloomctl_build (\<lambda>_. True) ''madd'' [''users'', ''a'', ''bc''] = Some (OP_MADD, body) \<and>
    bloomd_parse_batch (ctl_request OP_MADD body) = Inr (''users'', 2, its) \<and> scan_payloads 2 its = Inr []"
proof -
  obtain body where b: "bloomctl_build (\<lambda>_. True) ''madd'' [''users'', ''a'', ''bc''] = Some (OP_MADD, body)"
    using madd_built by blast
  have "\<forall>s\<in>set [''users'', ''a'', ''bc'']. length s < 2 ^ 32" by simp
  from client_requests_parse [OF b this] b show ?thesis
    by (auto simp: numeral_2_eq_2 simp del: scan_payloads.simps payload_digests.simps)
qed

section \<open>The exchange\<close>

lemma read_frame_ok:
  assumes "bloomd_read_frame alloc st cn = (Inr v, st', cn')"
  shows "rx_bytes (rx cn) = request_bytes v @ rx_bytes (rx cn')" "bloomd_header_is_valid (rq_header v) = None"
    "request_ok v" "sent cn' = sent cn"
proof -
  obtain r1 cn1 where r1: "bloomd_read_all 16 [] cn = (r1, cn1)" by fastforce
  then obtain hdr where r1': "bloomd_read_all 16 [] cn = (Inr hdr, cn1)"
    using assms by (cases r1) (auto simp: bloomd_read_frame_def Let_def)
  from read_all_ok [OF this] have h: "length hdr = 16" "rx_bytes (rx cn) = hdr @ rx_bytes (rx cn1)" "sent cn1 = sent cn"
    by auto
  let ?h = "header_of_bytes hdr"
  have valid: "bloomd_header_is_valid ?h = None"
    using assms r1' by (cases "bloomd_header_is_valid ?h") (auto simp: bloomd_read_frame_def Let_def)
  have "\<exists>body. v = \<lparr>rq_header = ?h, rq_body = body\<rparr> \<and> length body = unat (body_len ?h) \<and>
    rx_bytes (rx cn1) = body @ rx_bytes (rx cn') \<and> sent cn' = sent cn1"
  proof (cases "body_len ?h = 0")
    case True
    then show ?thesis using assms r1' valid by (auto simp: bloomd_read_frame_def Let_def)
  next
    case False
    then obtain cn2 body where r2: "bloomd_read_all (unat (body_len ?h)) [] cn1 = (Inr body, cn2)"
      and v: "v = \<lparr>rq_header = ?h, rq_body = body\<rparr>" "cn' = cn2"
      using assms r1' valid by (auto simp: bloomd_read_frame_def Let_def split: prod.splits option.splits sum.splits)
    from read_all_ok [OF r2] v show ?thesis by auto
  qed
  then show "rx_bytes (rx cn) = request_bytes v @ rx_bytes (rx cn')" "bloomd_header_is_valid (rq_header v) = None"
    "request_ok v" "sent cn' = sent cn"
    using h valid header_bytes_of [OF h(1)] by (auto simp: request_bytes_def request_ok_def)
qed

definition response_view :: "bloomd_response \<Rightarrow> bloomd_request_view" where
  "response_view resp = \<lparr>rq_header = (rheader resp)\<lparr>body_len := of_nat (length (buf_data (rbody resp)))\<rparr>,
     rq_body = buf_data (rbody resp)\<rparr>"

lemma served_view:
  assumes "serve_request E cfg resp req d = (r, ans, d')"
  shows "bloomd_header_is_valid (rq_header (response_view ans)) = None" "request_ok (response_view ans)"
    "request_bytes (response_view ans) = response_bytes ans" "ctl_len (response_view ans) = length (buf_data (rbody ans))"
proof -
  note a = serve_answers [OF assms]
  have l: "length (buf_data (rbody ans)) \<le> BLOOMD_MAX_FRAME_BODY" using a(5) by (simp add: buffer_ok_def)
  then have u: "unat (of_nat (length (buf_data (rbody ans))) :: u32) = length (buf_data (rbody ans))"
    by (simp add: unat_of_nat protocol_consts)
  show "bloomd_header_is_valid (rq_header (response_view ans)) = None" "request_ok (response_view ans)"
    "request_bytes (response_view ans) = response_bytes ans" "ctl_len (response_view ans) = length (buf_data (rbody ans))"
    using a l u by (simp_all add: response_view_def bloomd_header_is_valid_def request_ok_def request_bytes_def
      response_bytes_def protocol_consts)
qed

lemma send_request_spec:
  assumes "bloomctl_send_request alloc (opcode_byte op) 1 body cn = (Inr v, cn')"
  shows "sent cn' = sent cn @ request_bytes (ctl_request op body)"
    "rx_bytes (rx cn) = request_bytes v @ rx_bytes (rx cn')"
    "bloomd_header_is_valid (rq_header v) = None" "request_ok v"
proof -
  let ?i = "bloomd_response_init (opcode_byte op) 1"
  let ?req = "?i\<lparr>rheader := (rheader ?i)\<lparr>flags := 0\<rparr>, rbody := body\<rparr>"
  obtain r1 cn1 where w: "bloomd_write_response ?req cn = (r1, cn1)" by fastforce
  then have r1: "r1 = None" using assms by (cases r1) (auto simp: bloomctl_send_request_def Let_def)
  then obtain st where f: "bloomd_read_frame alloc bloomd_buffer_init cn1 = (Inr v, st, cn')"
    using assms w by (auto simp: bloomctl_send_request_def Let_def split: prod.splits)
  note wr = write_response_spec [OF w] and rf = read_frame_ok [OF f]
  have "response_bytes ?req = request_bytes (ctl_request op body)"
    by (simp add: response_bytes_def request_bytes_def ctl_request_def)
  then show "sent cn' = sent cn @ request_bytes (ctl_request op body)"
    "rx_bytes (rx cn) = request_bytes v @ rx_bytes (rx cn')"
    "bloomd_header_is_valid (rq_header v) = None" "request_ok v" using wr(3) [OF r1] wr(1) rf by simp_all
qed

lemma frame_unique:
  assumes "request_bytes v @ s = request_bytes v' @ s'" "bloomd_header_is_valid (rq_header v) = None" "request_ok v"
    "bloomd_header_is_valid (rq_header v') = None" "request_ok v'"
  shows "v = v'"
  using frames_request [OF assms(2,3), of s] frames_request [OF assms(4,5), of s'] assms(1) by simp

lemma send_request_reads:
  assumes "bloomctl_send_request alloc (opcode_byte op) 1 body cn = (Inr v, cn')"
    "serve_request E cfg resp req d = (r, ans, d')" "rx_bytes (rx cn) = response_bytes ans @ rest"
  shows "v = response_view ans"
  using send_request_spec(2-4) [OF assms(1)] served_view(1-3) [OF assms(2)] assms(3)
  by (intro frame_unique [where s = "rx_bytes (rx cn')" and s' = rest]) auto

lemma iov_advance_ne: "\<forall>v\<in>set iov. v \<noteq> [] \<Longrightarrow> \<forall>v\<in>set (iov_advance n iov). v \<noteq> []"
  by (induction n iov rule: iov_advance.induct) auto

fun tx_good :: "tx_event \<Rightarrow> bool" where
  "tx_good (Tx n) = (0 < n)"
| "tx_good (Tx_fail e) = (e = EINTR)"

definition writable :: "conn \<Rightarrow> bool" where
  "writable cn \<longleftrightarrow> list_all tx_good (tx cn)"

lemma sock_write_writable:
  assumes "writable cn" "bs \<noteq> []" "sock_write bs cn = (r, cn')"
  shows "writable cn' \<and> (r = Inl EINTR \<or> (\<exists>n. r = Inr n \<and> n \<noteq> 0))"
proof (cases "tx cn")
  case Nil
  then show ?thesis using assms by (auto simp: sock_write.simps writable_def)
next
  case (Cons ev t)
  then show ?thesis using assms by (cases ev) (auto simp: sock_write.simps writable_def)
qed

lemma writev_completes:
  assumes "writable cn" "\<forall>v\<in>set iov. v \<noteq> []"
  shows "\<exists>cn'. writev_loop iov cn = (None, cn')"
  using assms
proof (induction iov cn rule: writev_loop.induct)
  case (1 iov cn)
  note unf = writev_loop.simps [of iov cn]
  show ?case
  proof (cases "iov = []")
    case True
    then show ?thesis unfolding unf by simp
  next
    case ne: False
    then have c: "concat iov \<noteq> []" using "1.prems"(2) by (cases iov) auto
    obtain r1 cn1 where wr: "sock_write (concat iov) cn = (r1, cn1)" by fastforce
    from sock_write_writable [OF "1.prems"(1) c this]
    consider "writable cn1" "r1 = Inl EINTR" | n where "writable cn1" "r1 = Inr n" "n \<noteq> 0" by blast
    then show ?thesis
    proof cases
      case 1
      then show ?thesis using "1.IH"(1) [OF ne wr [symmetric] 1(2) refl 1(1) "1.prems"(2)] ne wr unfolding unf by simp
    next
      case (2 n)
      then show ?thesis
        using "1.IH"(2) [OF ne wr [symmetric] 2(2,3,1) iov_advance_ne [OF "1.prems"(2)]] ne wr unfolding unf by simp
    qed
  qed
qed

lemma send_request_completes:
  assumes "\<forall>n. alloc n" "writable cn" "arriving cn"
    "serve_request E cfg resp req d = (r, ans, d')" "rx_bytes (rx cn) = response_bytes ans @ rest"
  shows "\<exists>cn'. bloomctl_send_request alloc (opcode_byte op) 1 body cn = (Inr (response_view ans), cn')"
proof -
  let ?i = "bloomd_response_init (opcode_byte op) 1"
  let ?req = "?i\<lparr>rheader := (rheader ?i)\<lparr>flags := 0\<rparr>, rbody := body\<rparr>"
  have "\<exists>cn1. bloomd_write_response ?req cn = (None, cn1)"
    unfolding bloomd_write_response_def Let_def
    by (rule writev_completes [OF assms(2)]) (simp add: header_bytes_def)
  then obtain cn1 where w: "bloomd_write_response ?req cn = (None, cn1)" by blast
  have "rx cn1 = rx cn" by (rule write_response_spec(1) [OF w])
  then have a: "arriving cn1" "rx_bytes (rx cn1) = request_bytes (response_view ans) @ rest"
    using assms(3,5) served_view(3) [OF assms(4)] by (simp_all add: arriving_def)
  from read_frame_gets [OF _ a(1) served_view(1,2) [OF assms(4)] a(2), of alloc bloomd_buffer_init] assms(1)
  obtain st cn2 where "bloomd_read_frame alloc bloomd_buffer_init cn1 = (Inr (response_view ans), st, cn2)" by blast
  then show ?thesis using w by (simp add: bloomctl_send_request_def Let_def)
qed

lemma main_completes:
  assumes "\<forall>n. alloc n" "cmd \<noteq> ''-s''" "cmd \<noteq> ''--version''"
    "bloomctl_build alloc cmd args = Some (op, body)"
    "listener ''/run/bloomd.sock'' = Inr cn" "writable cn" "arriving cn"
    "serve_request E cfg resp (ctl_request op body) d = (r, ans, d')" "rx_bytes (rx cn) = response_bytes ans @ rest"
  shows "bloomctl_main alloc None listener (cmd # args) = bloomctl_print op (response_view ans)"
  using send_request_completes [OF assms(1,6,7,8,9), of op body] assms(2-5)
  by (auto simp: bloomctl_main_def bloomctl_connect_def Let_def)

text \<open>
  C24. The client always comes to an end with the daemon's answer: when the daemon answers the
  request and the answer arrives, in pieces of any size, and the socket takes what is written, in pieces
  of any size and with any number of interruptions, \<open>bloomctl\<close> prints the daemon's response and
  nothing else decides its exit status.
\<close>

theorem client_exchange_completes:
  assumes "\<forall>n. alloc n" "cmd \<noteq> ''-s''" "cmd \<noteq> ''--version''"
    "bloomctl_build alloc cmd args = Some (op, body)"
    "listener ''/run/bloomd.sock'' = Inr cn" "writable cn" "arriving cn"
    "serve_request E cfg resp (ctl_request op body) d = (r, ans, d')" "rx_bytes (rx cn) = response_bytes ans @ rest"
  shows "bloomctl_main alloc None listener (cmd # args) = bloomctl_print op (response_view ans)"
  using assms by (rule main_completes)

section \<open>The daemon's guarantee at the command line\<close>

lemma main_success:
  assumes "bloomctl_main alloc sock listener (cmd # args) = (0, out, err)" "cmd \<noteq> ''-s''" "cmd \<noteq> ''--version''"
  obtains op body cn v cn' where "bloomctl_build alloc cmd args = Some (op, body)"
    "listener ''/run/bloomd.sock'' = Inr cn"
    "bloomctl_send_request alloc (opcode_byte op) 1 body cn = (Inr v, cn')" "bloomctl_print op v = (0, out, err)"
  using assms by (auto simp: bloomctl_main_def bloomctl_connect_def Let_def
    split: option.splits sum.splits prod.splits)

lemma print_success:
  assumes "bloomctl_print op v = (0, out, err)"
  shows "status (rq_header v) = status_byte STATUS_OK"
  using assms by (auto simp: bloomctl_print_def bloomctl_print_error_def Let_def split: if_splits)

lemma ctl_success:
  assumes m: "bloomctl_main alloc sock listener (cmd # args) = (0, out, err)" "cmd \<noteq> ''-s''" "cmd \<noteq> ''--version''"
    and b: "bloomctl_build alloc cmd args = Some (op, body)"
    and s: "serve_request E cfg resp (ctl_request op body) d = (r, ans, d')"
    and l: "\<forall>path cn. listener path = Inr cn \<longrightarrow> rx_bytes (rx cn) = response_bytes ans"
  shows "resp_ok ans" "bloomctl_print op (response_view ans) = (0, out, err)"
proof -
  from m obtain op' body' cn v cn' where x: "bloomctl_build alloc cmd args = Some (op', body')"
    "listener ''/run/bloomd.sock'' = Inr cn"
    "bloomctl_send_request alloc (opcode_byte op') 1 body' cn = (Inr v, cn')" "bloomctl_print op' v = (0, out, err)"
    by (rule main_success)
  have e: "op' = op" "body' = body" using x(1) b by simp_all
  have "v = response_view ans"
    using send_request_reads [OF x(3) s, of "[]"] l x(2) by simp
  then show p: "bloomctl_print op (response_view ans) = (0, out, err)" using x(4) e by simp
  from print_success [OF p] show "resp_ok ans" by (simp add: resp_ok_def response_view_def)
qed

lemma digit_one: "dec_digits 1 = ''1''"
  by code_simp

lemma bool_body_printed:
  assumes "bloomctl_print op (response_view ans) = (0, out, err)" "op = OP_ADD \<or> op = OP_CHECK"
    "buf_data (rbody ans) = [1]"
  shows "out = ''1'' @ NL"
  using assms print_success [OF assms(1)] digit_one
  by (auto simp: bloomctl_print_def print_bool_def response_view_def bloomctl_expect_body_len_def)

text \<open>
  C22. The daemon's contract as a user sees it. A user runs \<open>bloomctl add NAME P\<close> and it exits with
  status 0; after any run of further requests by any clients, none of which drops the filter, someone runs
  \<open>bloomctl check NAME P\<close> and it exits with status 0: then it prints 1. The two processes talk to
  the daemon over any connections that deliver its responses, whatever the sizes of reads and writes,
  and the daemon and its kernel may fail wherever they can fail.
\<close>

theorem ctl_add_then_check_prints_one:
  assumes kernel: "bpf_kernel E kinv obj held pinned" and inv: "daemon_inv kinv obj held d"
    and add: "bloomctl_build alloc ''add'' [name, p] = Some (OP_ADD, body1)"
      "serve_request E cfg resp1 (ctl_request OP_ADD body1) d = (r1, ans1, d1)"
      "\<forall>path cn. listener1 path = Inr cn \<longrightarrow> rx_bytes (rx cn) = response_bytes ans1"
      "bloomctl_main alloc sock1 listener1 [''add'', name, p] = (0, out1, err1)"
    and run: "\<forall>(resp, req)\<in>set evs. request_ok req \<and> \<not> drops req name" "serve E cfg evs d1 = (rs, d2)"
    and check: "bloomctl_build alloc ''check'' [name, p] = Some (OP_CHECK, body2)"
      "serve_request E cfg resp2 (ctl_request OP_CHECK body2) d2 = (r2, ans2, d3)"
      "\<forall>path cn. listener2 path = Inr cn \<longrightarrow> rx_bytes (rx cn) = response_bytes ans2"
      "bloomctl_main alloc sock2 listener2 [''check'', name, p] = (0, out2, err2)"
  shows "out2 = ''1'' @ NL"
proof -
  have b1: "bloomctl_build_payload_request alloc bloomd_buffer_init name (bytes_of_string p) = (None, body1)"
    "bloomctl_build_payload_request alloc bloomd_buffer_init name (bytes_of_string p) = (None, body2)"
    using add(1) check(1) by (auto simp: bloomctl_build_def Let_def split: prod.splits option.splits)
  note p1 = build_payload_ok [OF b1(1)] and p2 = build_payload_ok [OF b1(2)]
  have s1: "resp_ok ans1" by (rule ctl_success(1) [OF add(4) _ _ add(1,2,3)]) simp_all
  have s2: "resp_ok ans2" "bloomctl_print OP_CHECK (response_view ans2) = (0, out2, err2)"
    by (rule ctl_success [OF check(4) _ _ check(1,2,3)]; simp)+
  note ok = ctl_request_ok(1) [OF p1(1), of OP_ADD] ctl_request_ok(1) [OF p2(1), of OP_CHECK]
  note st = bpf_kernel.serve_request_refines [OF kernel inv ok(1) add(2)]
  from filter_step_added [OF st(2) [unfolded eqTrueI [OF s1]] _ p1(2)] obtain D where
    D: "abs_filters obj held d1 name = Some D" "bloomd_digest_payload (bytes_of_string p) \<in> D" by auto
  from bpf_kernel.serve_keeps [OF kernel st(1) run(1) D(1) run(2)] obtain D' where
    D': "daemon_inv kinv obj held d2" "abs_filters obj held d2 name = Some D'" "D \<subseteq> D'" by blast
  have "buf_data (rbody ans2) = [1]"
    using D(2) D'(3)
    by (intro bpf_kernel.check_answers [OF kernel D'(1) ok(2) _ p2(2) D'(2) _ check(2) s2(1)]) auto
  then show ?thesis using bool_body_printed [OF s2(2)] by simp
qed

section \<open>A session on the mock kernel\<close>

text \<open>\<open>bloomctl add users abc\<close> and \<open>bloomctl check users abc\<close>; each answer arrives byte by byte.\<close>

definition ctl_body :: bloomd_buffer where
  "ctl_body = snd (bloomctl_build_payload_request (\<lambda>_. True) bloomd_buffer_init ''users'' (bytes_of_string ''abc''))"

abbreviation ctl_serve :: "bloomd_opcode \<Rightarrow> mock daemon \<Rightarrow> rc \<times> bloomd_response \<times> mock daemon" where
  "ctl_serve op d \<equiv> serve_request mock_env bloomd_config_defaults (bloomd_response_init 0 0) (ctl_request op ctl_body) d"

definition ctl_conn :: "bloomd_response \<Rightarrow> conn" where
  "ctl_conn ans = \<lparr>rx = map (\<lambda>b. Rx [b]) (response_bytes ans), tx = [Tx 5, Tx_fail EINTR], sent = []\<rparr>"

lemma ctl_conn_good: "writable (ctl_conn ans)" "arriving (ctl_conn ans)" "rx_bytes (rx (ctl_conn ans)) = response_bytes ans"
proof -
  have "rx_bytes (map (\<lambda>b. Rx [b]) bs) = bs" for bs by (induction bs) auto
  then show "writable (ctl_conn ans)" "arriving (ctl_conn ans)" "rx_bytes (rx (ctl_conn ans)) = response_bytes ans"
    by (auto simp: ctl_conn_def writable_def arriving_def)
qed

lemma ctl_payload_built:
  "bloomctl_build_payload_request (\<lambda>_. True) bloomd_buffer_init ''users'' (bytes_of_string ''abc'') = (None, ctl_body)"
proof -
  have "bloomd_name_is_valid ''users''" by code_simp
  then show ?thesis
    by (simp add: ctl_body_def bloomctl_build_payload_request_def bloomctl_append_name_def payload_request_bytes_def
      bloomd_buffer_append_def bloomd_buffer_reserve_def bloomd_buffer_init_def protocol_consts Let_def)
qed

lemma ctl_built:
  "bloomctl_build (\<lambda>_. True) ''add'' [''users'', ''abc''] = Some (OP_ADD, ctl_body)"
  "bloomctl_build (\<lambda>_. True) ''check'' [''users'', ''abc''] = Some (OP_CHECK, ctl_body)"
  using ctl_payload_built by (simp_all add: bloomctl_build_def)

lemma ctl_parse: "bloomd_parse_name_payload (ctl_request op ctl_body) = Inr (''users'', [0x61, 0x62, 0x63])"
proof -
  have "bytes_of_string ''abc'' = [0x61, 0x62, 0x63]" by code_simp
  then show ?thesis using build_payload_ok(2) [OF ctl_payload_built, of op] by simp
qed

abbreviation ctl_add :: "rc \<times> bloomd_response \<times> mock daemon" where
  "ctl_add \<equiv> ctl_serve OP_ADD sample_daemon"

abbreviation ctl_check :: "rc \<times> bloomd_response \<times> mock daemon" where
  "ctl_check \<equiv> ctl_serve OP_CHECK (snd (snd ctl_add))"

lemma ctl_answers:
  "resp_ok (fst (snd ctl_add))" "buf_data (rbody (fst (snd ctl_add))) = [1]"
  "resp_ok (fst (snd ctl_check))" "buf_data (rbody (fst (snd ctl_check))) = [1]"
  by (simp_all add: sample_eval ctl_parse sample_find)

lemma bool_printed:
  assumes "resp_ok ans" "buf_data (rbody ans) = [1]" "op = OP_ADD \<or> op = OP_CHECK"
  shows "bloomctl_print op (response_view ans) = (0, ''1'' @ NL, '''')"
  using assms digit_one
  by (auto simp: resp_ok_def bloomctl_print_def print_bool_def response_view_def bloomctl_expect_body_len_def)

theorem client_exchange_completes_witness:
  "bloomctl_main (\<lambda>_. True) None (\<lambda>_. Inr (ctl_conn (fst (snd ctl_add)))) [''add'', ''users'', ''abc''] =
    (0, ''1'' @ NL, '''')"
proof -
  have "bloomctl_main (\<lambda>_. True) None (\<lambda>_. Inr (ctl_conn (fst (snd ctl_add)))) [''add'', ''users'', ''abc''] =
    bloomctl_print OP_ADD (response_view (fst (snd ctl_add)))"
    by (rule client_exchange_completes [OF _ _ _ ctl_built(1) refl ctl_conn_good(1,2) triple_eq, where rest = "[]"])
      (simp_all add: ctl_conn_good(3))
  then show ?thesis using bool_printed [OF ctl_answers(1,2), of OP_ADD] by simp
qed

theorem ctl_add_then_check_prints_one_witness:
  "fst (snd (bloomctl_main (\<lambda>_. True) None (\<lambda>_. Inr (ctl_conn (fst (snd ctl_check)))) [''check'', ''users'', ''abc''])) =
    ''1'' @ NL"
proof -
  have m1: "bloomctl_main (\<lambda>_. True) None (\<lambda>_. Inr (ctl_conn (fst (snd ctl_add)))) [''add'', ''users'', ''abc''] =
    bloomctl_print OP_ADD (response_view (fst (snd ctl_add)))"
    by (rule main_completes [OF _ _ _ ctl_built(1) refl ctl_conn_good(1,2) triple_eq, where rest = "[]"])
      (simp_all add: ctl_conn_good(3))
  have m2: "bloomctl_main (\<lambda>_. True) None (\<lambda>_. Inr (ctl_conn (fst (snd ctl_check)))) [''check'', ''users'', ''abc''] =
    bloomctl_print OP_CHECK (response_view (fst (snd ctl_check)))"
    by (rule main_completes [OF _ _ _ ctl_built(2) refl ctl_conn_good(1,2) triple_eq, where rest = "[]"])
      (simp_all add: ctl_conn_good(3))
  let ?m = "bloomctl_main (\<lambda>_. True) None (\<lambda>_. Inr (ctl_conn (fst (snd ctl_check)))) [''check'', ''users'', ''abc'']"
  have m: "?m = (0, fst (snd ?m), snd (snd ?m))"
    unfolding m2 bool_printed [OF ctl_answers(3,4) disjI2 [OF refl]] by simp
  show ?thesis
    by (rule ctl_add_then_check_prints_one [OF mk.bpf_kernel_axioms sample_inv ctl_built(1) triple_eq _
      m1 [unfolded bool_printed [OF ctl_answers(1,2) disjI1 [OF refl]]] _ _ ctl_built(2) triple_eq _ m,
      where evs = "[]" and rs = "[]"]) (simp_all add: ctl_conn_good(3))
qed

end
