(* ===== verification/Bloomctl_Output.thy ===== *)
theory Bloomctl_Output
  imports Bloomctl_Correct
begin

text \<open>
  What \<open>bloomctl list\<close>, \<open>bloomctl info\<close> and \<open>bloomctl stats\<close> print is the state of the daemon: the
  encoders of \<open>src/src/daemon.c\<close> against the decoders of \<open>src/src/bloomctl.c\<close>.
\<close>

section \<open>Text fields\<close>

lemma byte_of_char_0: "(of_char c :: byte) = 0 \<longleftrightarrow> c = NUL"
proof
  assume "(of_char c :: byte) = 0"
  then have "char_of (unat (of_char c :: byte)) = char_of (0 :: nat)" by simp
  also have "char_of (0 :: nat) = NUL" by code_simp
  finally show "c = NUL" by (simp only: char_of_of_char_word)
qed simp

lemma print_bytes_string:
  assumes "NUL \<notin> set s"
  shows "print_bytes (length s) (bytes_of_string s @ rest) = s"
proof -
  have "\<forall>b\<in>set (bytes_of_string s). b \<noteq> 0" using assms by (auto simp: bytes_of_string_def byte_of_char_0)
  then have "takeWhile (\<lambda>b. b \<noteq> 0) (bytes_of_string s) = bytes_of_string s" by (simp only: takeWhile_eq_all_conv simp_thms)
  moreover have "take (length s) (bytes_of_string s @ rest) = bytes_of_string s" by simp
  ultimately show ?thesis by (simp only: print_bytes_def string_of_bytes_of_string)
qed

text \<open>A request answered with success went through the handler without a failed append.\<close>

lemma served_by:
  assumes "serve_request E cfg resp req d = (r, ans, d')" "resp_ok ans"
  obtains resp1 d1 where "dispatch_op E cfg req resp1 (d\<lparr>d_stats := (d_stats d)\<lparr>requests := requests (d_stats d) + 1\<rparr>\<rparr>) =
      (None, ans, d1)" "buf_data (rbody resp1) = []" "resp_ok resp1"
proof -
  let ?d = "d\<lparr>d_stats := (d_stats d)\<lparr>requests := requests (d_stats d) + 1\<rparr>\<rparr>"
  let ?resp = "bloomd_response_reset resp (opcode (rq_header req)) (request_id (rq_header req))"
  obtain r1 resp1 d1 where op: "dispatch_op E cfg req ?resp ?d = (r1, resp1, d1)" using prod_cases3 by blast
  have "ans = resp1 \<and> r1 = None"
    using assms op by (auto simp: serve_request_def bloomd_dispatch_def Let_def resp_ok_def
      split: option.splits if_splits prod.splits dest!: respond_error_frame)
  then show ?thesis using op that [of ?resp d1] by simp
qed

lemma not_error: "respond_error E st code msg resp d = (r, ans, d') \<Longrightarrow> st \<noteq> STATUS_OK \<Longrightarrow> \<not> resp_ok ans"
  using respond_error_frame by blast

lemma append_all_ok: "append_all alloc xs (Some e) b = (r, b') \<Longrightarrow> r \<noteq> None"
  by (induction xs arbitrary: b) (auto split: prod.splits)

lemma append_all_bytes:
  assumes "append_all alloc xs None b = (None, b')"
  shows "buf_data b' = buf_data b @ concat xs"
  using assms
proof (induction xs arbitrary: b)
  case (Cons x xs)
  obtain r1 b1 where a: "bloomd_buffer_append alloc b x = (r1, b1)" by fastforce
  then have "r1 = None" using Cons.prems append_all_ok by (cases r1) fastforce+
  then show ?case using Cons a append_ok(1) [of alloc b x b1] by simp
qed simp

lemma respond_all_body:
  assumes "respond_all E xs resp d = (None, ans, d')" "buf_data (rbody resp) = []"
  shows "buf_data (rbody ans) = concat xs"
  using assms append_all_bytes [of "mem E" xs "rbody resp" "rbody ans"]
  by (auto simp: respond_all_def split: prod.splits)

section \<open>LIST\<close>

definition name_entry :: "string \<Rightarrow> byte list" where
  "name_entry n = bloomd_store_u16 (of_nat (length n)) @ bytes_of_string n"

lemma name_len16:
  assumes "bloomd_name_is_valid n"
  shows "unat (of_nat (length n) :: u16) = length n"
  using name_len_ok(1) [OF assms] .

lemma list_names_bytes:
  assumes "list_names alloc fs b = (None, b')" "\<forall>f\<in>set fs. bloomd_name_is_valid (f_name f)"
  shows "buf_data b' = buf_data b @ concat (map (\<lambda>f. name_entry (f_name f)) fs)"
  using assms
proof (induction fs arbitrary: b)
  case (Cons f fs)
  note l = name_len16 [of "f_name f"]
  obtain b1 b2 where b: "bloomd_buffer_append alloc b (bloomd_store_u16 (of_nat (length (f_name f)))) = (None, b1)"
    "bloomd_buffer_append alloc b1 (bytes_of_string (f_name f)) = (None, b2)" "list_names alloc fs b2 = (None, b')"
    using Cons.prems l by (auto simp: bloomd_buffer_append_u16_def Let_def split: prod.splits option.splits)
  have v: "\<forall>f\<in>set fs. bloomd_name_is_valid (f_name f)" using Cons.prems(2) by simp
  show ?case using Cons.IH [OF b(3) v] append_ok(1) [OF b(1)] append_ok(1) [OF b(2)] by (simp add: name_entry_def)
qed simp

lemma names_printed:
  assumes "\<forall>n\<in>set ns. bloomd_name_is_valid n"
  shows "print_names (length ns) (length pre + length (concat (map name_entry ns))) (length pre)
    (pre @ concat (map name_entry ns)) out = (0, out @ concat (map (\<lambda>n. n @ NL) ns), '''')"
  using assms
proof (induction ns arbitrary: pre out)
  case (Cons n ns)
  have v: "bloomd_name_is_valid n" "\<forall>n\<in>set ns. bloomd_name_is_valid n" using Cons.prems by auto
  note nv = name_valid_chars(3) [OF v(1)]
  have e: "pre @ concat (map name_entry (n # ns)) = (pre @ name_entry n) @ concat (map name_entry ns)" by simp
  show ?case
    using Cons.IH [OF v(2), of "pre @ name_entry n" "out @ n @ NL"] name_len16 [OF v(1)] print_bytes_string [OF nv]
    by (simp add: name_entry_def Let_def add.assoc)
qed simp

lemma entries_length: "length ns \<le> length (concat (map name_entry ns))"
  by (induction ns) (auto simp: name_entry_def)

lemma list_body:
  assumes "serve_request E cfg resp req d = (r, ans, d')" "resp_ok ans" "rq_op req = Some OP_LIST" "set_ok (d_set d)"
  shows "buf_data (rbody ans) = bloomd_store_u32 (of_nat (length (names (d_set d)))) @
    concat (map name_entry (names (d_set d)))"
proof -
  let ?d = "d\<lparr>d_stats := (d_stats d)\<lparr>requests := requests (d_stats d) + 1\<rparr>\<rparr>"
  from assms(1,2) obtain resp1 d1 where op: "dispatch_op E cfg req resp1 ?d = (None, ans, d1)"
    "buf_data (rbody resp1) = []" by (rule served_by)
  then have "bloomd_handle_list E resp1 ?d = (None, ans, d1)"
    using assms(2,3) not_error by (fastforce simp: dispatch_op_def Let_def split: if_splits)
  then obtain b1 where b: "bloomd_buffer_append (mem E) (rbody resp1) (bloomd_store_u32 (of_nat (length (items (d_set d))))) = (None, b1)"
    "list_names (mem E) (items (d_set d)) b1 = (None, rbody ans)"
    by (auto simp: bloomd_handle_list_def bloomd_buffer_append_u32_def split: prod.splits option.splits)
  have "\<forall>f\<in>set (items (d_set d)). bloomd_name_is_valid (f_name f)"
    using assms(4) by (auto simp: set_ok_def names_def list_all_iff)
  from list_names_bytes [OF b(2) this] append_ok(1) [OF b(1)] op(2) show ?thesis by (simp add: names_def comp_def)
qed

text \<open>
  C27. \<open>bloomctl list\<close> prints the names of all filters of the daemon, one a line and in the order of
  the set, and nothing else; it never reports the daemon's own response as malformed.
\<close>

theorem ctl_list_prints_names:
  assumes "serve_request E cfg resp req d = (r, ans, d')" "resp_ok ans" "rq_op req = Some OP_LIST"
    "daemon_inv kinv obj held d"
  shows "bloomctl_print OP_LIST (response_view ans) = (0, concat (map (\<lambda>n. n @ NL) (names (d_set d))), '''')"
proof -
  let ?ns = "names (d_set d)" and ?c = "bloomd_store_u32 (of_nat (length (names (d_set d))))"
  have ok: "set_ok (d_set d)" using assms(4) by (simp add: daemon_inv_def)
  note b = list_body [OF assms(1-3) ok] and l = served_view(4) [OF assms(1)]
  have v: "\<forall>n\<in>set ?ns. bloomd_name_is_valid n" using ok by (simp add: set_ok_def list_all_iff)
  have "length (buf_data (rbody ans)) \<le> BLOOMD_MAX_FRAME_BODY"
    using serve_answers(5) [OF assms(1)] by (simp add: buffer_ok_def)
  then have "length ?ns < 2 ^ 32" using entries_length [of ?ns] b by (simp add: protocol_consts)
  then have u: "unat (of_nat (length ?ns) :: u32) = length ?ns" by (simp add: unat_of_nat)
  have st: "status (rq_header (response_view ans)) = status_byte STATUS_OK"
    using assms(2) by (simp add: resp_ok_def response_view_def)
  have rb: "rq_body (response_view ans) = ?c @ concat (map name_entry ?ns)" using b by (simp add: response_view_def)
  show ?thesis
    using names_printed [OF v, of ?c "[]"] u st l b
    by (simp add: bloomctl_print_def print_list_def rb)
qed

section \<open>STATS\<close>

definition dec_line :: "string \<Rightarrow> 'a::len word \<Rightarrow> string" where
  "dec_line key x = key @ ''='' @ dec_of x @ NL"

text \<open>The counters of a daemon, one a line; a filter with data is durable.\<close>

definition stats_text :: "bloomd_stats \<Rightarrow> bloomd_filter list \<Rightarrow> string" where
  "stats_text st fs = dec_line ''requests'' (requests st) @ dec_line ''responses'' (responses st) @
     dec_line ''errors'' (errors st) @ dec_line ''accepted_connections'' (accepted_connections st) @
     dec_line ''filters_loaded'' (filters_loaded st) @ dec_line ''filters_created'' (filters_created st) @
     dec_line ''filters_dropped'' (filters_dropped st) @ dec_line ''orphan_meta'' (orphan_meta st) @
     dec_line ''orphan_pin'' (orphan_pin st) @ dec_line ''filter_count'' (of_nat (length fs) :: u32) @
     dec_line ''metadata_only_filters'' (of_nat (length (filter (\<lambda>f. \<not> fm_has_data (f_meta f)) fs)) :: u32) @
     dec_line ''durable_filters'' (of_nat (length (filter (\<lambda>f. fm_has_data (f_meta f)) fs)) :: u32) @
     dec_line ''empty_pool_hits'' (empty_pool_hits st) @ dec_line ''empty_pool_misses'' (empty_pool_misses st)"

lemma count_states:
  assumes "bloomd_count_filter_states fs = (a, b, c)"
  shows "a = of_nat (length (filter (\<lambda>f. \<not> fm_has_data (f_meta f)) fs))"
    "b + c = of_nat (length (filter (\<lambda>f. fm_has_data (f_meta f)) fs))"
  using assms
  by (induction fs arbitrary: a b c) (auto split: prod.splits if_splits simp: algebra_simps)

text \<open>The fields of the daemon's STATS response.\<close>

definition stats_fields :: "bloomd_stats \<Rightarrow> bloomd_filter list \<Rightarrow> byte list list" where
  "stats_fields st fs = [bloomd_store_u64 (requests st), bloomd_store_u64 (responses st),
     bloomd_store_u64 (errors st), bloomd_store_u64 (accepted_connections st),
     bloomd_store_u64 (filters_loaded st), bloomd_store_u64 (filters_created st),
     bloomd_store_u64 (filters_dropped st), bloomd_store_u64 (orphan_meta st),
     bloomd_store_u64 (orphan_pin st), bloomd_store_u32 (of_nat (length fs)),
     bloomd_store_u32 (of_nat (length (filter (\<lambda>f. \<not> fm_has_data (f_meta f)) fs))),
     bloomd_store_u32 (of_nat (length (filter (\<lambda>f. fm_has_data (f_meta f)) fs))),
     bloomd_store_u64 (empty_pool_hits st), bloomd_store_u64 (empty_pool_misses st)]"

lemma handle_stats_fields:
  "bloomd_handle_stats E resp d = respond_all E (stats_fields (d_stats d) (items (d_set d))) resp d"
proof -
  obtain a b c where c: "bloomd_count_filter_states (items (d_set d)) = (a, b, c)" using prod_cases3 by blast
  show ?thesis using count_states [OF c] by (simp add: bloomd_handle_stats_def stats_fields_def c Let_def)
qed

lemma print_stats_text:
  assumes "rq_body v = concat (stats_fields st fs)"
    "ctl_len v = length (rq_body v)"
  shows "print_stats v = (0, stats_text st fs, '''')"
  using assms by (simp add: print_stats_def bloomctl_expect_body_len_def stats_text_def dec_line_def stats_fields_def)

text \<open>
  C28. \<open>bloomctl stats\<close> prints the daemon's counters, each under its own name: the counters as they
  are while the request is served (so the request counts itself), the number of filters and how
  many of them are metadata only and durable.
\<close>

theorem ctl_stats_prints_counters:
  assumes "serve_request E cfg resp req d = (r, ans, d')" "resp_ok ans" "rq_op req = Some OP_STATS"
  shows "bloomctl_print OP_STATS (response_view ans) =
    (0, stats_text ((d_stats d)\<lparr>requests := requests (d_stats d) + 1\<rparr>) (items (d_set d)), '''')"
proof -
  let ?d = "d\<lparr>d_stats := (d_stats d)\<lparr>requests := requests (d_stats d) + 1\<rparr>\<rparr>"
  from assms(1,2) obtain resp1 d1 where op: "dispatch_op E cfg req resp1 ?d = (None, ans, d1)"
    "buf_data (rbody resp1) = []" by (rule served_by)
  then have h: "bloomd_handle_stats E resp1 ?d = (None, ans, d1)"
    using assms(2,3) not_error by (fastforce simp: dispatch_op_def Let_def split: if_splits)
  have st: "status (rq_header (response_view ans)) = status_byte STATUS_OK"
    using assms(2) by (simp add: resp_ok_def response_view_def)
  have l: "ctl_len (response_view ans) = length (rq_body (response_view ans))"
    using served_view(4) [OF assms(1)] by (simp add: response_view_def)
  have rb: "rq_body (response_view ans) = buf_data (rbody ans)" by (simp add: response_view_def)
  show ?thesis
    using st print_stats_text [OF _ l, of "d_stats ?d" "items (d_set d)"]
      respond_all_body [OF h [unfolded handle_stats_fields] op(2)] rb by (simp add: bloomctl_print_def)
qed

section \<open>INFO\<close>

definition text_line :: "string \<Rightarrow> string \<Rightarrow> string" where
  "text_line key s = key @ ''='' @ s @ NL"

definition info_text :: "bloomd_filter \<Rightarrow> string" where
  "info_text flt = (let m = f_meta flt in
     text_line ''name'' (fm_name m) @ text_line ''backend'' (fm_backend m) @ text_line ''digest'' (fm_digest m) @
     dec_line ''capacity'' (fm_capacity m) @ text_line ''error_rate'' (fmt_g17 (fm_error_rate m)) @
     dec_line ''hashes'' (fm_hashes m) @ dec_line ''value_size'' (fm_value_size m) @
     text_line ''pin_path'' (fm_pin_path m) @ dec_line ''add_calls'' (add_calls flt) @
     dec_line ''check_calls'' (check_calls flt) @ dec_line ''batch_add_calls'' (batch_add_calls flt) @
     dec_line ''batch_check_calls'' (batch_check_calls flt) @ dec_line ''state_flags'' (filter_state_flags m) @
     text_line ''durable'' (if fm_has_data m then ''1'' else ''0'') @
     text_line ''metadata_only'' (if fm_has_data m then ''0'' else ''1'') @
     text_line ''log_clean'' (if fm_log_clean m then ''1'' else ''0'') @
     text_line ''log_dirty'' (if fm_has_data m \<and> \<not> fm_log_clean m then ''1'' else ''0''))"

text \<open>A text field that the daemon and the client pass on whole.\<close>

definition plain_text :: "string \<Rightarrow> bool" where
  "plain_text s \<longleftrightarrow> NUL \<notin> set s \<and> length s < 2 ^ 16"

lemma plain_text_len:
  assumes "plain_text s"
  shows "unat (of_nat (length s) :: u16) = length s" "unat (of_nat (length s) :: u32) = length s"
  using assms by (simp_all add: plain_text_def unat_of_nat)

lemma state_bits:
  "state_bit (filter_state_flags m) 0x01 = (if fm_has_data m then ''1'' else ''0'')"
  "state_bit (filter_state_flags m) 0x02 = (if fm_has_data m then ''0'' else ''1'')"
  "state_bit (filter_state_flags m) 0x04 = (if fm_log_clean m then ''1'' else ''0'')"
  "state_bit (filter_state_flags m) 0x08 = (if fm_has_data m \<and> \<not> fm_log_clean m then ''1'' else ''0'')"
  by (simp_all add: state_bit_def filter_state_flags_def Let_def)

lemma load_double: "bloomd_load_double p = bloomd_load_u64 p"
  by (simp add: bloomd_load_double_def load_le_word)

lemma print_info_text:
  assumes "rq_body v = concat (info_fields flt)" "ctl_len v = length (rq_body v)"
    and p: "plain_text (fm_name (f_meta flt))" "plain_text (fm_backend (f_meta flt))"
      "plain_text (fm_digest (f_meta flt))" "plain_text (fm_pin_path (f_meta flt))"
  shows "print_info v = (0, info_text flt, '''')"
proof -
  note u = plain_text_len [OF p(1)] plain_text_len [OF p(2)] plain_text_len [OF p(3)] plain_text_len [OF p(4)]
  have z: "NUL \<notin> set (fm_name (f_meta flt))" "NUL \<notin> set (fm_backend (f_meta flt))"
    "NUL \<notin> set (fm_digest (f_meta flt))" "NUL \<notin> set (fm_pin_path (f_meta flt))"
    using p by (simp_all add: plain_text_def)
  note pb = print_bytes_string [OF z(1)] print_bytes_string [OF z(2)] print_bytes_string [OF z(3)]
    print_bytes_string [OF z(4), of "[]", simplified]
  show ?thesis
    using assms(2) unfolding print_info_def assms(1)
    by (simp add: info_fields_def u pb state_bits load_double info_text_def text_line_def dec_line_def Let_def)
qed

text \<open>
  C26. \<open>bloomctl info NAME\<close> prints the named filter as the daemon holds it: every field of its
  metadata and every counter under its own name, and the state flags decoded to what they mean
  (durable or metadata only, log clean or dirty).
\<close>

theorem ctl_info_prints_filter:
  assumes "serve_request E cfg resp req d = (r, ans, d')" "resp_ok ans" "request_ok req" "rq_op req = Some OP_INFO"
    "parse_name_request ''INFO'' req = Inr name" "daemon_inv kinv obj held d" "lookup (d_set d) name = Some flt"
    "plain_text (fm_name (f_meta flt))" "plain_text (fm_backend (f_meta flt))"
    "plain_text (fm_digest (f_meta flt))" "plain_text (fm_pin_path (f_meta flt))"
  shows "bloomctl_print OP_INFO (response_view ans) = (0, info_text flt, '''')"
proof -
  let ?d = "d\<lparr>d_stats := (d_stats d)\<lparr>requests := requests (d_stats d) + 1\<rparr>\<rparr>"
  from assms(1,2) obtain resp1 d1 where op: "dispatch_op E cfg req resp1 ?d = (None, ans, d1)"
    "buf_data (rbody resp1) = []" by (rule served_by)
  then have h: "bloomd_handle_info E req resp1 ?d = (None, ans, d1)" using assms(4) by (simp add: dispatch_op_def)
  have ok: "set_ok (d_set d)" using assms(6) by (simp add: daemon_inv_def)
  obtain ri s where f: "bloomd_filter_set_find_n (d_set d) name = (ri, s)" by fastforce
  note sp = find_n_spec [OF ok parse_name_request_valid [OF assms(3,5)] f]
  have "\<exists>i. ri = Some i \<and> items s ! i = flt"
    using sp assms(2,7) h not_error by (cases ri) (auto simp: bloomd_handle_info_def assms(5) f)
  then have "respond_all E (info_fields flt) resp1 (?d\<lparr>d_set := s\<rparr>) = (None, ans, d1)"
    using h by (auto simp: bloomd_handle_info_def assms(5) f)
  from respond_all_body [OF this op(2)] have b: "rq_body (response_view ans) = concat (info_fields flt)"
    by (simp add: response_view_def)
  have l: "ctl_len (response_view ans) = length (rq_body (response_view ans))"
    using served_view(4) [OF assms(1)] by (simp add: response_view_def)
  have st: "status (rq_header (response_view ans)) = status_byte STATUS_OK"
    using assms(2) by (simp add: resp_ok_def response_view_def)
  show ?thesis using st print_info_text [OF b l assms(8-11)] by (simp add: bloomctl_print_def)
qed

section \<open>Witnesses\<close>

definition info_body :: bloomd_buffer where
  "info_body = snd (bloomctl_build_name_request (\<lambda>_. True) bloomd_buffer_init ''users'')"

abbreviation ask :: "bloomd_opcode \<Rightarrow> bloomd_buffer \<Rightarrow> rc \<times> bloomd_response \<times> mock daemon" where
  "ask op body \<equiv> serve_request mock_env bloomd_config_defaults (bloomd_response_init 0 0) (ctl_request op body) sample_daemon"

lemma info_built: "bloomctl_build_name_request (\<lambda>_. True) bloomd_buffer_init ''users'' = (None, info_body)"
  using sample_valid
  by (simp add: info_body_def bloomctl_build_name_request_def bloomctl_append_name_def name_request_bytes_def
    bloomd_buffer_append_def bloomd_buffer_reserve_def bloomd_buffer_init_def protocol_consts Let_def)

lemma empty_request: "body_len (rq_header (ctl_request op \<lparr>buf_data = [], buf_cap = 0\<rparr>)) = 0"
  by (simp add: ctl_request_def)

lemma sample_names: "names (d_set sample_daemon) = [''users'']" "lookup (d_set sample_daemon) ''users'' = Some sample_filter"
  by (simp_all add: names_def lookup_def sample_daemon_def sample_filter_def sample_meta_def)

lemma ask_ok:
  "resp_ok (fst (snd (ask OP_LIST bloomd_buffer_init)))" "resp_ok (fst (snd (ask OP_STATS bloomd_buffer_init)))"
  "resp_ok (fst (snd (ask OP_INFO info_body)))"
  using build_name_ok(2) [OF info_built, of "''INFO''" OP_INFO]
  by (simp_all add: sample_eval empty_request bloomd_handle_list_def bloomd_handle_stats_def bloomd_handle_info_def
    respond_all_def info_fields_def bloomd_buffer_append_u16_def bloomd_buffer_append_u32_def sample_find
    BLOOMD_BACKEND_NAME_def BLOOMD_DIGEST_NAME_def)

theorem ctl_list_prints_names_witness:
  "bloomctl_print OP_LIST (response_view (fst (snd (ask OP_LIST bloomd_buffer_init)))) = (0, ''users'' @ NL, '''')"
  using ctl_list_prints_names [OF triple_eq ask_ok(1) ctl_request_fields(2) sample_inv] by (simp add: sample_names)

theorem ctl_stats_prints_counters_witness:
  "bloomctl_print OP_STATS (response_view (fst (snd (ask OP_STATS bloomd_buffer_init)))) =
    (0, stats_text (zero_stats\<lparr>requests := 1\<rparr>) [sample_filter], '''')"
  using ctl_stats_prints_counters [OF triple_eq ask_ok(2) ctl_request_fields(2)]
  by (simp add: sample_daemon_def zero_stats_def)

theorem ctl_info_prints_filter_witness:
  "bloomctl_print OP_INFO (response_view (fst (snd (ask OP_INFO info_body)))) = (0, info_text sample_filter, '''')"
proof -
  have p: "plain_text (fm_name (f_meta sample_filter))" "plain_text (fm_backend (f_meta sample_filter))"
    "plain_text (fm_digest (f_meta sample_filter))" "plain_text (fm_pin_path (f_meta sample_filter))"
    by (simp_all add: plain_text_def sample_filter_def sample_meta_def BLOOMD_BACKEND_NAME_def BLOOMD_DIGEST_NAME_def)
  show ?thesis
    by (rule ctl_info_prints_filter [OF triple_eq ask_ok(3) ctl_request_ok(1) ctl_request_fields(2) build_name_ok(2)
      sample_inv sample_names(2) p, OF build_name_ok(1) [OF info_built] info_built])
qed

end
