(* ===== verification/Inspect.thy ===== *)
theory Inspect
  imports Recovery Bloomctl
begin

text \<open>
  The offline inspector \<open>src/src/bloominspect.c\<close>: it walks the metadata directory, puts every
  metadata file into one of eight classes, walks the pin directory for pins of no loaded filter, and
  prints a line for each and a summary. The process is a function of its arguments and the world;
  its result is the exit status, standard output, standard error and the world. (The texts of usage
  messages are left out.)
\<close>

section \<open>State and helpers\<close>

record inspect_stats =
  i_ok :: u32
  i_invalid_meta :: u32
  i_missing_log :: u32
  i_bad_log :: u32
  i_rebuildable :: u32
  i_unsafe_rebuild :: u32
  i_stale_meta :: u32
  i_bad_pin :: u32
  i_orphan_pin :: u32

definition inspect_zero :: inspect_stats where
  "inspect_zero = \<lparr>i_ok = 0, i_invalid_meta = 0, i_missing_log = 0, i_bad_log = 0, i_rebuildable = 0,
     i_unsafe_rebuild = 0, i_stale_meta = 0, i_bad_pin = 0, i_orphan_pin = 0\<rparr>"

text \<open>The word a line of output starts with, and the counter that goes with it.\<close>

datatype inspect_class =
  C_ok | C_invalid_meta | C_missing_log | C_bad_log | C_rebuildable | C_unsafe_rebuild | C_stale_meta | C_bad_pin

fun inspect_count :: "inspect_class \<Rightarrow> inspect_stats \<Rightarrow> inspect_stats" where
  "inspect_count C_ok st = st\<lparr>i_ok := i_ok st + 1\<rparr>"
| "inspect_count C_invalid_meta st = st\<lparr>i_invalid_meta := i_invalid_meta st + 1\<rparr>"
| "inspect_count C_missing_log st = st\<lparr>i_missing_log := i_missing_log st + 1\<rparr>"
| "inspect_count C_bad_log st = st\<lparr>i_bad_log := i_bad_log st + 1\<rparr>"
| "inspect_count C_rebuildable st = st\<lparr>i_rebuildable := i_rebuildable st + 1\<rparr>"
| "inspect_count C_unsafe_rebuild st = st\<lparr>i_unsafe_rebuild := i_unsafe_rebuild st + 1\<rparr>"
| "inspect_count C_stale_meta st = st\<lparr>i_stale_meta := i_stale_meta st + 1\<rparr>"
| "inspect_count C_bad_pin st = st\<lparr>i_bad_pin := i_bad_pin st + 1\<rparr>"

definition inspect_log_noop :: "(unit, 'k) replay_cb" where
  "inspect_log_noop digest ctx k = (False, ctx, k)"

definition inspect_has_suffix :: "string \<Rightarrow> string \<Rightarrow> bool" where
  "inspect_has_suffix name suffix \<longleftrightarrow>
     length name \<ge> length suffix \<and> drop (length name - length suffix) name = suffix"

text \<open>\<open>path[root_len]\<close> after a match of \<open>root_len\<close> characters: the next character or the final zero.\<close>

definition inspect_path_under_root :: "string \<Rightarrow> string \<Rightarrow> bool" where
  "inspect_path_under_root path root \<longleftrightarrow>
     take (length root) path = root \<and>
     (case drop (length root) path of [] \<Rightarrow> True | c # _ \<Rightarrow> c = slash)"

definition inspect_path_has_name :: "string \<Rightarrow> string \<Rightarrow> bool" where
  "inspect_path_has_name path name \<longleftrightarrow>
     (case strrchr_slash path of None \<Rightarrow> False | Some s \<Rightarrow> drop 1 s = name)"

definition inspect_entry_name :: "string \<Rightarrow> errno + string" where
  "inspect_entry_name entry =
    (let len = length entry in
     if \<not> inspect_has_suffix entry ''.meta'' then Inl EINVAL
     else let len = len - 5 in
       if len = 0 \<or> len > BLOOMD_MAX_NAME_LEN then Inl EINVAL
       else let out = take len entry in if bloomd_name_is_valid out then Inr out else Inl EINVAL)"

fun inspect_contains :: "string list \<Rightarrow> string \<Rightarrow> bool" where
  "inspect_contains [] name = False"
| "inspect_contains (n # ns) name = (if n = name then True else inspect_contains ns name)"

text \<open>The array of names and its capacity (8 bytes per pointer).\<close>

definition inspect_add_name ::
  "(nat \<Rightarrow> bool) \<Rightarrow> string list \<Rightarrow> nat \<Rightarrow> string \<Rightarrow> rc \<times> string list \<times> nat" where
  "inspect_add_name alloc nms cap name =
    (let new_cap = (if cap = 0 then 8 else cap * 2) in
     if length nms = cap \<and> \<not> alloc (new_cap * 8) then (Some ENOMEM, nms, cap)
     else let cap = (if length nms = cap then new_cap else cap) in
       if \<not> alloc (length name + 1) then (Some ENOMEM, nms, cap)
       else (None, nms @ [name], cap))"

definition inspect_validate_pin_matches_meta ::
  "'k env \<Rightarrow> bloomd_filter_meta \<Rightarrow> int \<Rightarrow> 'k world \<Rightarrow> bool \<times> 'k world" where
  "inspect_validate_pin_matches_meta E meta fd w =
    (if fd < 0 then (False, w)
     else case bloomd_bpf_get_map_info E fd w of
       (Inl _, w) \<Rightarrow> (False, w)
     | (Inr info, w) \<Rightarrow>
         (mi_type info = BPF_MAP_TYPE_BLOOM_FILTER \<and> mi_key_size info = 0 \<and>
          mi_value_size info = fm_value_size meta \<and> ucast (mi_max_entries info) = fm_capacity meta \<and>
          mi_map_extra info AND 0x0F = ucast (fm_hashes meta), w))"

section \<open>One metadata file\<close>

text \<open>The texts of the lines.\<close>

definition flag_digit :: "bool \<Rightarrow> string" where
  "flag_digit b = (if b then ''1'' else ''0'')"

definition where_text :: "bloomd_filter_meta \<Rightarrow> string \<Rightarrow> string \<Rightarrow> string" where
  "where_text meta path log_path =
    '' name='' @ fm_name meta @ '' meta='' @ path @ '' pin='' @ fm_pin_path meta @ '' log='' @ log_path"

definition replay_text :: "nat \<Rightarrow> string" where
  "replay_text n = '' replay_count='' @ dec_digits (int n)"

definition clean_text :: "bool \<Rightarrow> string" where
  "clean_text b = '' log_clean='' @ flag_digit b @ NL"

definition bad_pin_text :: "bloomd_filter_meta \<Rightarrow> string \<Rightarrow> string \<Rightarrow> string" where
  "bad_pin_text meta path err =
    ''bad_pin name='' @ fm_name meta @ '' path='' @ path @ '' pin='' @ fm_pin_path meta @ '' error='' @ err @ NL"

definition bad_log_text :: "bloomd_filter_meta \<Rightarrow> string \<Rightarrow> string \<Rightarrow> errno \<Rightarrow> string" where
  "bad_log_text meta path log_path e =
    ''bad_log'' @ where_text meta path log_path @ '' error='' @ strerror e @ clean_text (fm_log_clean meta)"

definition empty_text :: "bloomd_filter_meta \<Rightarrow> string \<Rightarrow> string \<Rightarrow> string" where
  "empty_text meta path log_path =
    ''ok'' @ where_text meta path log_path @ '' replay_count=0 empty=1'' @ clean_text (fm_log_clean meta)"

text \<open>A log without a map: can the daemon rebuild from it?\<close>

definition inspect_rebuild :: "bloomd_filter_meta \<Rightarrow> string \<Rightarrow> string \<Rightarrow> nat \<Rightarrow> inspect_class \<times> string" where
  "inspect_rebuild meta path log_path n =
    (if fm_log_clean meta
     then (C_rebuildable, ''rebuildable'' @ where_text meta path log_path @ replay_text n @ '' log_clean=1'' @ NL)
     else (C_unsafe_rebuild, ''unsafe_rebuild'' @ where_text meta path log_path @ replay_text n @ '' log_clean=0'' @ NL))"

text \<open>
  The branches for a filter without data; \<open>log_rc\<close> is the result of the replay, \<open>fd\<close> that of
  opening the pin.
\<close>

definition inspect_empty ::
  "'k env \<Rightarrow> bloomd_filter_meta \<Rightarrow> string \<Rightarrow> string \<Rightarrow> errno + nat \<Rightarrow> errno + int \<Rightarrow> 'k world
    \<Rightarrow> (inspect_class \<times> string) \<times> 'k world" where
  "inspect_empty E meta path log_path log_rc fd w =
    (case fd of
       Inr fd \<Rightarrow>
         (case inspect_validate_pin_matches_meta E meta fd w of
            (same, w) \<Rightarrow>
              (if \<not> same then (C_bad_pin, bad_pin_text meta path ''metadata_mismatch'')
               else (C_ok, empty_text meta path log_path), snd (bloomd_bpf_close E fd w)))
     | Inl e \<Rightarrow>
         (if e = ENOENT \<and> log_rc = Inl ENOENT then (C_ok, empty_text meta path log_path)
          else case log_rc of
            Inr n \<Rightarrow>
              if e = ENOENT then inspect_rebuild meta path log_path n
              else (C_bad_pin, bad_pin_text meta path (strerror e))
          | Inl le \<Rightarrow>
              if le \<noteq> ENOENT then (C_bad_log, bad_log_text meta path log_path le)
              else (C_bad_pin, bad_pin_text meta path (strerror e)), w))"

text \<open>The branches for a filter with data; the last component: its pin was opened.\<close>

definition inspect_durable ::
  "'k env \<Rightarrow> bloomd_filter_meta \<Rightarrow> string \<Rightarrow> string \<Rightarrow> errno + nat \<Rightarrow> errno + int \<Rightarrow> 'k world
    \<Rightarrow> (inspect_class \<times> string) \<times> bool \<times> 'k world" where
  "inspect_durable E meta path log_path log_rc fd w =
    (let bad_log = (\<lambda>le. (C_bad_log, bad_log_text meta path log_path le)) in
     case fd of
       Inr fd \<Rightarrow>
         (case inspect_validate_pin_matches_meta E meta fd w of
            (same, w) \<Rightarrow>
              (if \<not> same then (C_bad_pin, bad_pin_text meta path ''metadata_mismatch'')
               else case log_rc of
                 Inr n \<Rightarrow> (C_ok, ''ok'' @ where_text meta path log_path @ replay_text n @ clean_text (fm_log_clean meta))
               | Inl le \<Rightarrow>
                   if le = ENOENT
                   then (C_missing_log, ''missing_log'' @ where_text meta path log_path @ clean_text (fm_log_clean meta))
                   else bad_log le, True, snd (bloomd_bpf_close E fd w)))
     | Inl e \<Rightarrow>
         (if e = ENOENT
          then case log_rc of
            Inr n \<Rightarrow> inspect_rebuild meta path log_path n
          | Inl le \<Rightarrow>
              if le = ENOENT
              then (C_stale_meta, ''stale_meta path='' @ path @ '' pin='' @ fm_pin_path meta @ '' log='' @ log_path @
                      clean_text (fm_log_clean meta))
              else bad_log le
          else (C_bad_pin, bad_pin_text meta path (strerror e)), False, w))"

text \<open>The checks on the file itself: the metadata and the path of its log.\<close>

definition inspect_read ::
  "string \<Rightarrow> string \<Rightarrow> string \<Rightarrow> string \<Rightarrow> 'k world \<Rightarrow> (bloomd_filter_meta \<times> string) option \<times> 'k world" where
  "inspect_read mroot proot path entry w =
    (case inspect_entry_name entry of
       Inl _ \<Rightarrow> (None, w)
     | Inr entry_name \<Rightarrow>
         (case bloomd_meta_read_file path w of
            (Inl _, w) \<Rightarrow> (None, w)
          | (Inr meta, w) \<Rightarrow>
              if entry_name \<noteq> fm_name meta \<or> \<not> inspect_path_under_root (fm_pin_path meta) proot \<or>
                 \<not> inspect_path_has_name (fm_pin_path meta) (fm_name meta)
              then (None, w)
              else (case bloomd_build_log_path mroot (fm_name meta) PATH_MAX of
                      Inl _ \<Rightarrow> (None, w)
                    | Inr log_path \<Rightarrow> (Some (meta, log_path), w))))"

record 'k inspector =
  in_stats :: inspect_stats
  in_out :: string
  in_loaded :: "string list"
  in_cap :: nat
  in_world :: "'k world"

definition inspect_report :: "inspect_class \<times> string \<Rightarrow> 'k inspector \<Rightarrow> 'k inspector" where
  "inspect_report r s = s\<lparr>in_stats := inspect_count (fst r) (in_stats s), in_out := in_out s @ snd r\<rparr>"

text \<open>One entry of the metadata directory; the first component is false when memory ran out.\<close>

definition inspect_entry ::
  "'k env \<Rightarrow> string \<Rightarrow> string \<Rightarrow> string \<Rightarrow> 'k inspector \<Rightarrow> bool \<times> 'k inspector" where
  "inspect_entry E mroot proot entry s =
    (let path = mroot @ ''/'' @ entry in
     if \<not> inspect_has_suffix entry ''.meta'' then (True, s)
     else if length path \<ge> PATH_MAX
     then (True, inspect_report (C_invalid_meta, ''invalid_meta path_too_long='' @ path @ NL) s)
     else case inspect_read mroot proot path entry (in_world s) of
       (None, w) \<Rightarrow>
         (True, inspect_report (C_invalid_meta, ''invalid_meta path='' @ path @ NL) (s\<lparr>in_world := w\<rparr>))
     | (Some (meta, log_path), w) \<Rightarrow>
    (case bloomd_log_replay_readonly log_path inspect_log_noop () w of
       (log_rc, _, w) \<Rightarrow>
    (case bloomd_bpf_open_pinned E (fm_pin_path meta) w of
       (fd, w) \<Rightarrow>
         if \<not> fm_has_data meta
         then (case inspect_empty E meta path log_path log_rc fd w of
                 (r, w) \<Rightarrow> (True, inspect_report r (s\<lparr>in_world := w\<rparr>)))
         else (case inspect_durable E meta path log_path log_rc fd w of
                 (r, opened, w) \<Rightarrow>
                   let s = inspect_report r (s\<lparr>in_world := w\<rparr>) in
                   if opened \<and> \<not> inspect_contains (in_loaded s) (fm_name meta)
                   then (case inspect_add_name (mem E) (in_loaded s) (in_cap s) (fm_name meta) of
                           (r, nms, cap) \<Rightarrow> (r = None, s\<lparr>in_loaded := nms, in_cap := cap\<rparr>))
                   else (True, s)))))"

fun inspect_entries ::
  "'k env \<Rightarrow> string \<Rightarrow> string \<Rightarrow> string list \<Rightarrow> 'k inspector \<Rightarrow> bool \<times> 'k inspector" where
  "inspect_entries E mroot proot [] s = (True, s)"
| "inspect_entries E mroot proot (entry # entries) s =
    (case inspect_entry E mroot proot entry s of
       (False, s) \<Rightarrow> (False, s)
     | (True, s) \<Rightarrow> inspect_entries E mroot proot entries s)"

section \<open>Pins\<close>

definition inspect_pin :: "string \<Rightarrow> string \<Rightarrow> 'k inspector \<Rightarrow> 'k inspector" where
  "inspect_pin proot entry s =
    (if \<not> bloomd_name_is_valid entry then s
     else if inspect_contains (in_loaded s) entry then s
     else s\<lparr>in_out := in_out s @ ''orphan_pin path='' @ proot @ ''/'' @ entry @ NL,
            in_stats := (in_stats s)\<lparr>i_orphan_pin := i_orphan_pin (in_stats s) + 1\<rparr>\<rparr>)"

section \<open>The program\<close>

definition inspect_summary :: "inspect_stats \<Rightarrow> string" where
  "inspect_summary st =
    ''summary ok='' @ dec_of (i_ok st) @ '' invalid_meta='' @ dec_of (i_invalid_meta st) @
    '' missing_log='' @ dec_of (i_missing_log st) @ '' bad_log='' @ dec_of (i_bad_log st) @
    '' rebuildable='' @ dec_of (i_rebuildable st) @ '' unsafe_rebuild='' @ dec_of (i_unsafe_rebuild st) @
    '' stale_meta='' @ dec_of (i_stale_meta st) @ '' bad_pin='' @ dec_of (i_bad_pin st) @
    '' orphan_pin='' @ dec_of (i_orphan_pin st) @ NL"

definition inspect_troubled :: "inspect_stats \<Rightarrow> bool" where
  "inspect_troubled st \<longleftrightarrow> i_invalid_meta st \<noteq> 0 \<or> i_missing_log st \<noteq> 0 \<or> i_bad_log st \<noteq> 0 \<or>
     i_rebuildable st \<noteq> 0 \<or> i_unsafe_rebuild st \<noteq> 0 \<or> i_stale_meta st \<noteq> 0 \<or> i_bad_pin st \<noteq> 0 \<or>
     i_orphan_pin st \<noteq> 0"

datatype inspect_args = Inspect string string bool | Inspect_exit int string

text \<open>Pin root, metadata root and \<open>--strict\<close>, or the exit status and the text printed.\<close>

fun inspect_parse_args :: "string list \<Rightarrow> string \<Rightarrow> string \<Rightarrow> bool \<Rightarrow> inspect_args" where
  "inspect_parse_args [] proot mroot strict = Inspect proot mroot strict"
| "inspect_parse_args (a # args) proot mroot strict =
    (if a = ''--pin-root'' \<and> args \<noteq> []
     then inspect_parse_args (tl args) (snprintf_to PATH_MAX (hd args)) mroot strict
     else if a = ''--meta-root'' \<and> args \<noteq> []
     then inspect_parse_args (tl args) proot (snprintf_to PATH_MAX (hd args)) strict
     else if a = ''--strict'' then inspect_parse_args args proot mroot True
     else if a = ''--version'' then Inspect_exit 0 (''bloominspect 1.0.0'' @ NL)
     else if a = ''-h'' \<or> a = ''--help'' then Inspect_exit 0 ''''
     else Inspect_exit 2 '''')"

definition inspect_start :: "string \<Rightarrow> string \<Rightarrow> 'k world \<Rightarrow> 'k inspector" where
  "inspect_start mroot proot w =
    \<lparr>in_stats = inspect_zero, in_out = ''bloominspect: meta_root='' @ mroot @ '' pin_root='' @ proot @ NL,
     in_loaded = [], in_cap = 0, in_world = w\<rparr>"

definition inspect_run ::
  "'k env \<Rightarrow> string \<Rightarrow> string \<Rightarrow> bool \<Rightarrow> 'k world \<Rightarrow> int \<times> string \<times> string \<times> 'k world" where
  "inspect_run E proot mroot strict w =
    (let listed = (\<lambda>root. case bloomd_list_dir E root w of
           Inl e \<Rightarrow> if e \<noteq> ENOENT then Inl e else Inr []
         | Inr nms \<Rightarrow> Inr nms)
     in case listed mroot of
       Inl e \<Rightarrow> (1, '''', ''bloominspect: failed to list metadata directory: '' @ strerror e @ NL, w)
     | Inr meta_entries \<Rightarrow>
    (case listed proot of
       Inl e \<Rightarrow> (1, '''', ''bloominspect: failed to list pin directory: '' @ strerror e @ NL, w)
     | Inr pin_entries \<Rightarrow>
    (case inspect_entries E mroot proot meta_entries (inspect_start mroot proot w) of
       (False, s) \<Rightarrow> (1, in_out s, ''bloominspect: out of memory'' @ NL, in_world s)
     | (True, s) \<Rightarrow>
         let s = fold (inspect_pin proot) pin_entries s
         in (if strict \<and> inspect_troubled (in_stats s) then 1 else 0,
             in_out s @ inspect_summary (in_stats s), '''', in_world s))))"

definition inspect_main ::
  "'k env \<Rightarrow> string list \<Rightarrow> 'k world \<Rightarrow> int \<times> string \<times> string \<times> 'k world" where
  "inspect_main E args w =
    (case inspect_parse_args args ''/sys/fs/bpf/bloomd'' ''/var/lib/bloomd'' False of
       Inspect_exit code out \<Rightarrow> (code, out, '''', w)
     | Inspect proot mroot strict \<Rightarrow> inspect_run E proot mroot strict w)"

end
