(* ===== verification/Inspect_Correct.thy ===== *)
theory Inspect_Correct
  imports Inspect Restart
begin

text \<open>
  The inspector only reads; it puts every metadata file into exactly one class and its strict mode
  succeeds exactly when there is nothing to report; it accepts the metadata the daemon accepts, and
  for filters with data its classes predict what the daemon will do at its next start.
\<close>

section \<open>Reading a log without truncating it\<close>

lemma replay_readonly_inodes:
  assumes "replay_loop cb path False fd off part ctx count w = (r, ctx', w')"
  shows "inodes w' = inodes w"
  using assms
proof (induction cb path "False" fd off part ctx count w rule: replay_loop.induct)
  case (1 cb path fd off part ctx count w)
  note prems = "1.prems" and ih = "1.hyps"
  obtain r1 w1 where rd: "sys_read_at fd off (BLOOMD_DIGEST_SIZE - length part) w = (r1, w1)" by fastforce
  have w1: "w1 = w\<lparr>script := script w1\<rparr>" by (rule sys_read_at_frame(1) [OF rd])
  have fr: "inodes w1 = inodes w" by (subst w1, simp)
  note unf = replay_loop.simps [of cb path False fd off part ctx count w]
  show ?case
  proof (cases r1)
    case (Inl e)
    then show ?thesis using prems rd fr ih(1) [OF rd [symmetric] Inl] by (auto simp: unf sys_close_def split: if_splits)
  next
    case (Inr bs)
    show ?thesis
    proof (cases "bs = [] \<or> length (part @ bs) < BLOOMD_DIGEST_SIZE")
      case True
      then show ?thesis
        using prems rd Inr fr ih(2) [OF rd [symmetric] Inr] by (auto simp: unf sys_close_def Let_def split: if_splits)
    next
      case full: False
      then have n: "bs \<noteq> []" "\<not> length (part @ bs) < BLOOMD_DIGEST_SIZE" by auto
      obtain fail c1 k1 where cb: "cb (part @ bs) ctx (kern w1) = (fail, c1, k1)" by (metis prod_cases3)
      show ?thesis
        using prems rd Inr fr n cb ih(3) [OF rd [symmetric] Inr n cb [symmetric] refl]
        by (cases fail) (auto simp: unf sys_close_def)
    qed
  qed
qed

text \<open>What an operation that only reads leaves as it was.\<close>

definition files_same :: "'k world \<Rightarrow> 'k world \<Rightarrow> bool" where
  "files_same w w' \<longleftrightarrow> dirents w' = dirents w \<and> inodes w' = inodes w \<and> fdtab w' = fdtab w \<and>
     next_ino w' = next_ino w \<and> next_fd w \<le> next_fd w'"

lemma files_same_ok: "files_same w w' \<Longrightarrow> world_ok w \<Longrightarrow> world_ok w'"
  unfolding files_same_def world_ok_def by fastforce

lemma readonly_same:
  assumes "bloomd_log_replay_readonly path inspect_log_noop () w = (r, c, w')" "world_ok w"
  shows "files_same w w' \<and> kern w' = kern w"
proof -
  obtain r1 w1 where op: "sys_open_rd path w = (r1, w1)" by fastforce
  show ?thesis
  proof (cases r1)
    case (Inl e)
    then show ?thesis
      using assms op
      by (auto simp: bloomd_log_replay_readonly_def log_replay_impl_def sys_open_rd_def next_outcome_def files_same_def
        split: list.splits outcome.splits option.splits)
  next
    case (Inr fd)
    then have lp: "replay_loop inspect_log_noop path False fd 0 [] () 0 w1 = (r, c, w')"
      using assms op by (simp add: bloomd_log_replay_readonly_def log_replay_impl_def)
    have o: "dirents w1 = dirents w" "inodes w1 = inodes w" "kern w1 = kern w" "next_ino w1 = next_ino w"
      "next_fd w \<le> next_fd w1" "fd = next_fd w" "\<exists>i. fdtab w1 = (fdtab w)(fd := Some i)"
      using op Inr by (auto simp: sys_open_rd_def next_outcome_def split: list.splits outcome.splits option.splits)
    have "fdtab w fd = None" using assms(2) o(6) by (auto simp: world_ok_def) (metis less_irrefl not_None_eq)
    then have f: "(fdtab w1)(fd := None) = fdtab w" using o(7) by auto
    have "kern w' = kern w1 \<and> dirents w' = dirents w1 \<and> fdtab w' = (fdtab w1)(fd := None) \<and>
      next_ino w' = next_ino w1 \<and> next_fd w' = next_fd w1"
      using replay_loop_frame [OF lp, of "\<lambda>k. k = kern w1"] by (simp add: inspect_log_noop_def)
    then show ?thesis using replay_readonly_inodes [OF lp] o f by (simp add: files_same_def)
  qed
qed

section \<open>The inspector only reads\<close>

definition only_reads ::
  "('k \<Rightarrow> bool) \<Rightarrow> ('k \<Rightarrow> int \<Rightarrow> nat option) \<Rightarrow> ('k \<Rightarrow> nat \<Rightarrow> byte list set) \<Rightarrow>
    ('k \<Rightarrow> string \<Rightarrow> nat option) \<Rightarrow> 'k world \<Rightarrow> 'k world \<Rightarrow> bool" where
  "only_reads kinv obj held pinned w w' \<longleftrightarrow> (world_ok w \<and> kinv (kern w) \<longrightarrow>
     world_ok w' \<and> kinv (kern w') \<and> files_same w w' \<and> obj (kern w') = obj (kern w) \<and>
     held (kern w') = held (kern w) \<and> pinned (kern w') = pinned (kern w))"

lemma only_reads_refl [simp, intro]: "only_reads kinv obj held pinned w w"
  by (simp add: only_reads_def files_same_def)

lemma only_reads_trans [trans]:
  "only_reads kinv obj held pinned w v \<Longrightarrow> only_reads kinv obj held pinned v u \<Longrightarrow> only_reads kinv obj held pinned w u"
  unfolding only_reads_def files_same_def by auto

lemma only_reads_files:
  "(world_ok w \<Longrightarrow> files_same w w' \<and> kern w' = kern w) \<Longrightarrow> only_reads kinv obj held pinned w w'"
  using files_same_ok by (auto simp: only_reads_def)

lemma meta_read_same: "bloomd_meta_read_file path w = (r, w') \<Longrightarrow> files_same w w' \<and> kern w' = kern w"
  by (auto simp: bloomd_meta_read_file_def next_outcome_def files_same_def
    split: list.splits outcome.splits option.splits)

lemma inspect_read_same: "inspect_read mroot proot path entry w = (r, w') \<Longrightarrow> files_same w w' \<and> kern w' = kern w"
proof -
  assume a: "inspect_read mroot proot path entry w = (r, w')"
  obtain r1 w1 where m: "bloomd_meta_read_file path w = (r1, w1)" by fastforce
  have "w' = w \<or> w' = w1"
    using a m by (auto simp: inspect_read_def split: sum.splits if_splits)
  then show ?thesis using meta_read_same [OF m] by (auto simp: files_same_def)
qed

context bpf_kernel
begin

lemma pin_inspected:
  assumes op: "bloomd_bpf_open_pinned E p w = (Inr fd, w1)"
    and v: "inspect_validate_pin_matches_meta E meta fd w1 = (b, w2)"
  shows "only_reads kinv obj held pinned w (snd (bloomd_bpf_close E fd w2))"
proof (cases "kinv (kern w)")
  case False
  then show ?thesis by (simp add: only_reads_def)
next
  case k: True
  note o = open_pinned_ok [OF k op]
  obtain ri wi where i: "bloomd_bpf_get_map_info E fd w1 = (ri, wi)" by fastforce
  note mi = map_info_obs [OF o(7) i]
  have "w2 = wi" using v i o(1) by (auto simp: inspect_validate_pin_matches_meta_def split: sum.splits)
  then obtain fd' w3 where c: "bloomd_bpf_close E fd w2 = (fd', w3)" "kinv (kern w2)" using mi(4) by fastforce
  note cl = close_map_obs [OF c(2,1)]
  have w3: "w3 = w\<lparr>kern := kern w3\<rparr>"
    using o(8) mi(5) cl(5) \<open>w2 = wi\<close> by (metis world.surjective world.update_convs(1))
  have f: "files_same w w3" "world_ok w \<longrightarrow> world_ok w3"
    by (subst w3, simp add: files_same_def) (subst w3, simp add: world_ok_def)
  have "obj (kern w3) = obj (kern w)" using cl(1) mi(1) o(1,2,4) \<open>w2 = wi\<close> by auto
  then show ?thesis using c f cl mi o \<open>w2 = wi\<close> by (simp add: only_reads_def)
qed

lemma pin_missing:
  assumes op: "bloomd_bpf_open_pinned E p w = (Inl e, w1)"
  shows "only_reads kinv obj held pinned w w1"
proof (cases "kinv (kern w)")
  case False
  then show ?thesis by (simp add: only_reads_def)
next
  case True
  note o = open_pinned_err [OF True op]
  have "files_same w w1" "world_ok w \<longrightarrow> world_ok w1"
    by (subst o(5), simp add: files_same_def) (subst o(5), simp add: world_ok_def)
  then show ?thesis using o by (simp add: only_reads_def)
qed

lemma classified_reads:
  assumes "bloomd_bpf_open_pinned E p w = (fd, w1)"
  shows "inspect_empty E meta path lp lr fd w1 = (r, w2) \<Longrightarrow> only_reads kinv obj held pinned w w2"
    "inspect_durable E meta path lp lr fd w1 = (rd, b, w2) \<Longrightarrow> only_reads kinv obj held pinned w w2"
proof -
  show "inspect_empty E meta path lp lr fd w1 = (r, w2) \<Longrightarrow> only_reads kinv obj held pinned w w2"
    using assms pin_missing pin_inspected
    by (cases fd) (auto simp: inspect_empty_def split: prod.splits)
  show "inspect_durable E meta path lp lr fd w1 = (rd, b, w2) \<Longrightarrow> only_reads kinv obj held pinned w w2"
    using assms pin_missing pin_inspected
    by (cases fd) (auto simp: inspect_durable_def Let_def split: prod.splits)
qed

lemma entry_reads:
  assumes "inspect_entry E mroot proot entry s = (b, s')"
  shows "only_reads kinv obj held pinned (in_world s) (in_world s')"
proof -
  let ?path = "mroot @ ''/'' @ entry"
  obtain rd w1 where r: "inspect_read mroot proot ?path entry (in_world s) = (rd, w1)" by fastforce
  have r1: "only_reads kinv obj held pinned (in_world s) w1"
    by (rule only_reads_files) (rule inspect_read_same [OF r])
  show ?thesis
  proof (cases rd)
    case None
    then show ?thesis using assms r r1 by (auto simp: inspect_entry_def Let_def inspect_report_def split: if_splits)
  next
    case (Some x)
    obtain meta lp where x: "x = (meta, lp)" by fastforce
    obtain lr c w2 where l: "bloomd_log_replay_readonly lp inspect_log_noop () w1 = (lr, c, w2)" using prod_cases3 by blast
    obtain fd w3 where o: "bloomd_bpf_open_pinned E (fm_pin_path meta) w2 = (fd, w3)" by fastforce
    have l2: "only_reads kinv obj held pinned w1 w2" by (rule only_reads_files) (rule readonly_same [OF l])
    note r2 = only_reads_trans [OF r1 l2]
    obtain re we where e: "inspect_empty E meta ?path lp lr fd w3 = (re, we)" by fastforce
    obtain rd od wd where d: "inspect_durable E meta ?path lp lr fd w3 = (rd, od, wd)" using prod_cases3 by blast
    have "in_world s' \<in> {in_world s, we, wd}"
      using assms r Some x l o e d
      by (auto simp: inspect_entry_def Let_def inspect_report_def split: if_splits prod.splits)
    then show ?thesis
      using only_reads_trans [OF r2 classified_reads(1) [OF o e]] only_reads_trans [OF r2 classified_reads(2) [OF o d]]
      by auto
  qed
qed

lemma entries_read:
  "inspect_entries E mroot proot entries s = (b, s') \<Longrightarrow> only_reads kinv obj held pinned (in_world s) (in_world s')"
proof (induction entries arbitrary: s)
  case (Cons e es)
  obtain b1 s1 where s1: "inspect_entry E mroot proot e s = (b1, s1)" by fastforce
  note r1 = entry_reads [OF s1]
  show ?case
  proof (cases b1)
    case True
    then have "inspect_entries E mroot proot es s1 = (b, s')" using Cons.prems s1 by simp
    from only_reads_trans [OF r1 Cons.IH [OF this]] show ?thesis .
  next
    case False
    then show ?thesis using Cons.prems s1 r1 by simp
  qed
qed auto

end

lemma fold_pins_world: "in_world (fold (inspect_pin proot) pins s) = in_world s"
  by (induction pins arbitrary: s) (auto simp: inspect_pin_def)

text \<open>
  C33. The inspector only reads, so it is safe to run beside the daemon: whatever its arguments, whatever it
  finds and whatever fails, no directory entry, no file content and no kernel object changes (no
  pin, no map, no digest), and every descriptor it opened on a file or a map is closed again.
\<close>

theorem inspector_only_reads:
  assumes "bpf_kernel E kinv obj held pinned" "kinv (kern w)" "world_ok w"
    "inspect_main E args w = (code, out, err, w')"
  shows "dirents w' = dirents w \<and> inodes w' = inodes w \<and> fdtab w' = fdtab w \<and>
    obj (kern w') = obj (kern w) \<and> held (kern w') = held (kern w) \<and> pinned (kern w') = pinned (kern w)"
proof -
  have "only_reads kinv obj held pinned w w'"
    using assms(4) bpf_kernel.entries_read [OF assms(1)]
    by (auto simp: inspect_main_def inspect_run_def inspect_start_def fold_pins_world Let_def
      split: inspect_args.splits sum.splits prod.splits if_splits bool.splits) fastforce+
  then show ?thesis using assms(2,3) by (simp add: only_reads_def files_same_def)
qed

section \<open>Every metadata file is counted once\<close>

fun class_counter :: "inspect_class \<Rightarrow> inspect_stats \<Rightarrow> u32" where
  "class_counter C_ok st = i_ok st"
| "class_counter C_invalid_meta st = i_invalid_meta st"
| "class_counter C_missing_log st = i_missing_log st"
| "class_counter C_bad_log st = i_bad_log st"
| "class_counter C_rebuildable st = i_rebuildable st"
| "class_counter C_unsafe_rebuild st = i_unsafe_rebuild st"
| "class_counter C_stale_meta st = i_stale_meta st"
| "class_counter C_bad_pin st = i_bad_pin st"

lemma counter_count: "class_counter c (inspect_count c' st) = class_counter c st + (if c = c' then 1 else 0)"
  by (cases c; cases c') simp_all

lemma counter_fold: "class_counter c (fold inspect_count cs st) = class_counter c st + of_nat (count_list cs c)"
  by (induction cs arbitrary: st) (auto simp: counter_count)

lemma orphan_fold: "i_orphan_pin (fold inspect_count cs st) = i_orphan_pin st"
proof (induction cs arbitrary: st)
  case (Cons c cs)
  then show ?case by (cases c) simp_all
qed simp

lemma class_counts:
  "count_list cs C_ok + count_list cs C_invalid_meta + count_list cs C_missing_log + count_list cs C_bad_log +
   count_list cs C_rebuildable + count_list cs C_unsafe_rebuild + count_list cs C_stale_meta + count_list cs C_bad_pin =
   length cs"
proof (induction cs)
  case (Cons c cs)
  then show ?case by (cases c) simp_all
qed simp

abbreviation is_meta :: "string \<Rightarrow> bool" where
  "is_meta e \<equiv> inspect_has_suffix e ''.meta''"

lemma entry_counted:
  assumes "inspect_entry E mroot proot entry s = (b, s')"
  shows "if is_meta entry then \<exists>c. in_stats s' = inspect_count c (in_stats s) else in_stats s' = in_stats s"
  using assms
  by (auto simp: inspect_entry_def Let_def inspect_report_def simp del: inspect_count.simps
    split: if_splits prod.splits option.splits)

lemma entries_counted:
  assumes "inspect_entries E mroot proot entries s = (True, s')"
  shows "\<exists>cs. length cs = length (filter is_meta entries) \<and> in_stats s' = fold inspect_count cs (in_stats s)"
  using assms
proof (induction entries arbitrary: s)
  case Nil
  then show ?case by simp
next
  case (Cons e es)
  obtain b1 s1 where s1: "inspect_entry E mroot proot e s = (b1, s1)" by fastforce
  then have r: "inspect_entries E mroot proot es s1 = (True, s')" using Cons.prems by (cases b1) auto
  from Cons.IH [OF r] obtain cs where
    cs: "length cs = length (filter is_meta es)" "in_stats s' = fold inspect_count cs (in_stats s1)" by blast
  show ?case
  proof (cases "is_meta e")
    case True
    then obtain c where "in_stats s1 = inspect_count c (in_stats s)" using entry_counted [OF s1] by auto
    then show ?thesis using cs True by (intro exI [of _ "c # cs"]) simp
  next
    case False
    then show ?thesis using entry_counted [OF s1] cs by auto
  qed
qed

lemma contains_iff: "inspect_contains ns n \<longleftrightarrow> n \<in> set ns"
  by (induction ns) auto

abbreviation is_orphan :: "string list \<Rightarrow> string \<Rightarrow> bool" where
  "is_orphan loaded p \<equiv> bloomd_name_is_valid p \<and> p \<notin> set loaded"

lemma pins_counted:
  "in_stats (fold (inspect_pin proot) pins s) =
    (in_stats s)\<lparr>i_orphan_pin := i_orphan_pin (in_stats s) + of_nat (length (filter (is_orphan (in_loaded s)) pins))\<rparr>"
proof (induction pins arbitrary: s)
  case (Cons p pins)
  then show ?case by (auto simp: inspect_pin_def contains_iff)
qed simp

lemma counter_orphan: "class_counter c (st\<lparr>i_orphan_pin := n\<rparr>) = class_counter c st"
  by (cases c) simp_all

lemma counters_exact:
  assumes "inspect_entries E mroot proot entries (inspect_start mroot proot w) = (True, s)"
    "length entries < 2 ^ 32" "length pins < 2 ^ 32" "st = in_stats (fold (inspect_pin proot) pins s)"
  obtains cs where "length cs = length (filter is_meta entries)" "\<And>c. unat (class_counter c st) = count_list cs c"
    "unat (i_orphan_pin st) = length (filter (is_orphan (in_loaded s)) pins)"
proof -
  from entries_counted [OF assms(1)] obtain cs where cs: "length cs = length (filter is_meta entries)"
    "in_stats s = fold inspect_count cs inspect_zero" by (auto simp: inspect_start_def)
  have z: "class_counter c inspect_zero = 0" "i_orphan_pin inspect_zero = 0" for c
    by (cases c) (simp_all add: inspect_zero_def)
  have "count_list cs c < 2 ^ 32" for c
    using count_le_length [of cs c] cs(1) length_filter_le [of is_meta entries] assms(2) by linarith
  then have "unat (class_counter c st) = count_list cs c" for c
    by (simp add: assms(4) pins_counted counter_orphan cs(2) counter_fold z unat_of_nat)
  moreover have "length (filter (is_orphan (in_loaded s)) pins) < 2 ^ 32"
    using length_filter_le [of "is_orphan (in_loaded s)" pins] assms(3) by linarith
  then have "unat (i_orphan_pin st) = length (filter (is_orphan (in_loaded s)) pins)"
    by (simp add: assms(4) pins_counted cs(2) orphan_fold z unat_of_nat)
  ultimately show ?thesis using that cs(1) by blast
qed

text \<open>
  The summary of the inspector adds up: every metadata file of the directory is counted in
  exactly one of the eight classes, the orphan counter is the number of pins with a valid name that
  belong to no loaded filter, and strict mode finds nothing to report exactly when every metadata
  file is \<open>ok\<close> and there are no orphans. (The counters are 32 bits wide; directories of fewer than
  \<open>2 ^ 32\<close> entries cannot overflow them.)
\<close>

lemma inspector_summary_adds_up:
  assumes "inspect_entries E mroot proot entries (inspect_start mroot proot w) = (True, s)"
    "length entries < 2 ^ 32" "length pins < 2 ^ 32" "st = in_stats (fold (inspect_pin proot) pins s)"
  shows "unat (i_ok st) + unat (i_invalid_meta st) + unat (i_missing_log st) + unat (i_bad_log st) +
      unat (i_rebuildable st) + unat (i_unsafe_rebuild st) + unat (i_stale_meta st) + unat (i_bad_pin st) =
      length (filter is_meta entries) \<and>
    unat (i_orphan_pin st) = length (filter (is_orphan (in_loaded s)) pins) \<and>
    (\<not> inspect_troubled st \<longleftrightarrow> unat (i_ok st) = length (filter is_meta entries) \<and>
       filter (is_orphan (in_loaded s)) pins = [])"
proof -
  from counters_exact [OF assms] obtain cs where cs: "length cs = length (filter is_meta entries)"
    "\<And>c. unat (class_counter c st) = count_list cs c"
    "unat (i_orphan_pin st) = length (filter (is_orphan (in_loaded s)) pins)" by blast
  have u: "x = 0 \<longleftrightarrow> unat x = 0" for x :: u32 by (simp add: unat_eq_zero)
  note c = cs(2) [of C_ok] cs(2) [of C_invalid_meta] cs(2) [of C_missing_log] cs(2) [of C_bad_log]
    cs(2) [of C_rebuildable] cs(2) [of C_unsafe_rebuild] cs(2) [of C_stale_meta] cs(2) [of C_bad_pin]
  show ?thesis
    using class_counts [of cs] c cs(1,3) unfolding inspect_troubled_def by (simp add: u) linarith
qed

section \<open>The inspector and the daemon agree\<close>

lemma helpers_same:
  "inspect_has_suffix n s \<longleftrightarrow> bloomd_has_suffix n s" "inspect_path_under_root p r \<longleftrightarrow> bloomd_path_under_root p r"
  "inspect_path_has_name p n \<longleftrightarrow> bloomd_path_has_name p n" "inspect_entry_name e = bloomd_meta_entry_name e"
proof -
  show s: "inspect_has_suffix n s \<longleftrightarrow> bloomd_has_suffix n s" for n s
    by (auto simp: inspect_has_suffix_def bloomd_has_suffix_def)
  show "inspect_path_under_root p r \<longleftrightarrow> bloomd_path_under_root p r"
    by (auto simp: inspect_path_under_root_def bloomd_path_under_root_def hd_drop_conv_nth [symmetric] neq_Nil_conv
      split: list.splits) (metis drop_eq_Nil hd_drop_conv_nth le_neq_implies_less length_take list.sel(1) min.cobounded1 not_le)+
  show "inspect_path_has_name p n \<longleftrightarrow> bloomd_path_has_name p n"
    by (simp add: inspect_path_has_name_def bloomd_path_has_name_def drop_Suc split: option.splits)
  show "inspect_entry_name e = bloomd_meta_entry_name e"
    by (simp add: inspect_entry_name_def bloomd_meta_entry_name_def s eval_nat_numeral)
qed


text \<open>
  C35. The inspector and the daemon agree on which metadata files are valid, although each has
  its own code for it: for the same directory entry in the same state, the inspector accepts the
  metadata \<open>meta\<close> exactly when the daemon's loader accepts it at a start (and the path of its log can be built).
\<close>

theorem inspector_accepts_what_daemon_loads:
  assumes "bloomd_has_suffix entry ''.meta''" "length (meta_root cfg @ ''/'' @ entry) < PATH_MAX"
  shows "fst (inspect_read (meta_root cfg) (pin_root cfg) (meta_root cfg @ ''/'' @ entry) entry (d_world d)) = Some (meta, lp) \<longleftrightarrow>
    fst (load_read E cfg entry d) = Some (meta_root cfg @ ''/'' @ entry, meta) \<and>
    bloomd_build_log_path (meta_root cfg) (fm_name meta) PATH_MAX = Inr lp"
  using assms
  by (auto simp: inspect_read_def load_read_def helpers_same Let_def not_le split: sum.splits prod.splits if_splits)









section \<open>Witnesses\<close>

text \<open>
  The metadata directory of the theory \<open>Restart\<close>: the metadata and the log of \<open>users\<close>, the map pinned
  (\<open>boot_kern\<close>) or lost (\<open>mock_reset\<close>).
\<close>

theorem inspector_only_reads_witness:
  "\<exists>code out err w'. inspect_main boot_env [''--meta-root'', ''/m'', ''--strict''] (boot_world False boot_kern) =
      (code, out, err, w') \<and> inodes w' = inodes (boot_world False boot_kern) \<and> mock_pinned (kern w') = mock_pinned boot_kern"
proof -
  obtain code out err w' where r: "inspect_main boot_env [''--meta-root'', ''/m'', ''--strict''] (boot_world False boot_kern) =
      (code, out, err, w')" using prod_cases4 by blast
  have k: "kern (boot_world False boot_kern) = boot_kern" by (simp add: boot_world_def)
  then have i: "mock_inv (kern (boot_world False boot_kern))" using boot_inv(1) by simp
  from inspector_only_reads [OF boot_kernel i boot_inv(3) r] r k show ?thesis by auto
qed

lemma boot_log_path: "bloomd_build_log_path ''/m'' ''users'' PATH_MAX = Inr ''/m/users.digests''"
  by (simp add: build_path_defs PATH_MAX_def)

theorem inspector_accepts_what_daemon_loads_witness:
  "fst (inspect_read (meta_root boot_config) (pin_root boot_config) (meta_root boot_config @ ''/'' @ ''users.meta'')
      ''users.meta'' (d_world (daemon_init (boot_world True mock_reset)))) =
    Some (sample_meta\<lparr>fm_has_data := True, fm_log_clean := True\<rparr>\<lparr>fm_meta_path := ''/m/users.meta'', fm_log_path := []\<rparr>,
      ''/m/users.digests'')"
proof (subst inspector_accepts_what_daemon_loads [where E = boot_env])
  show "bloomd_has_suffix ''users.meta'' ''.meta''" by code_simp
  show "length (meta_root boot_config @ ''/'' @ ''users.meta'') < PATH_MAX" by (simp add: boot_config_def PATH_MAX_def)
qed (use boot_load_read [of True mock_reset] boot_log_path in \<open>simp add: boot_config_def sample_meta_def\<close>)






end
