(* ===== verification/Wellformed.thy ===== *)
theory Wellformed
  imports Restart
begin

text \<open>
  Invariants of the single filters over all states the daemon can reach. The locale \<open>filter_type\<close> says
  what a property of a filter must be kept by (the steps of ADD, the periodic sync, opening the log,
  a new filter); inside it the request handlers, the loader and the reachable states are done once. It is
  interpreted twice: with well-formedness (the metadata passes the checks of the metadata reader, so that it can be
  written and read back, and the bytes waiting for the log fit the fixed-size array of \<open>struct bloomd_filter\<close>), and
  with the discipline of the clean mark (metadata that calls the log clean leaves nothing unwritten
  or unsynced behind).
\<close>

section \<open>The contract of one filter\<close>

definition filters_all :: "(bloomd_filter \<Rightarrow> bool) \<Rightarrow> 'k daemon \<Rightarrow> bool" where
  "filters_all P d \<longleftrightarrow> (\<forall>f\<in>set (items (d_set d)). P f)"

text \<open>
  \<open>ready m f\<close> holds between the preparation of an ADD and its digests; \<open>m\<close>: the dirty mark was set
  by this request and is taken back when it fails.
\<close>

locale filter_type =
  fixes E :: "'k env" and mode :: bloomd_log_sync_mode
    and ok :: "bloomd_filter \<Rightarrow> bool" and ready :: "bool \<Rightarrow> bloomd_filter \<Rightarrow> bool"
  assumes new: "meta_ok meta \<Longrightarrow> ok ((new_filter meta fd)\<lparr>log_history_incomplete := b\<rparr>)"
    and open_log: "bloomd_open_filter_log False f w = (r, f', w') \<Longrightarrow> ok f \<Longrightarrow> ok f'"
    and prepare: "add_prepare E mode f w = (r, m, f', w') \<Longrightarrow> ok f \<Longrightarrow> ok f' \<and> (r = None \<longrightarrow> ready m f')"
    and staged: "add_staged E mode m dg f w = (res, f', w') \<Longrightarrow> ready m f \<Longrightarrow> length dg = 16 \<Longrightarrow>
      ok f' \<and> (res = None \<longrightarrow> ready False f')"
    and sync: "sync_dirty_log E now force f w = (f', w') \<Longrightarrow> ok f \<Longrightarrow> ok f'"
    and counters: "ok (f\<lparr>add_calls := n\<rparr>) = ok f" "ok (f\<lparr>check_calls := n\<rparr>) = ok f"
      "ok (f\<lparr>batch_add_calls := n\<rparr>) = ok f" "ok (f\<lparr>batch_check_calls := n\<rparr>) = ok f" "ok (f\<lparr>map_fd := fd\<rparr>) = ok f"

section \<open>Generic facts\<close>

lemma find_items: "bloomd_filter_set_find_n s n = (r, s') \<Longrightarrow> items s' = items s"
  by (auto simp: bloomd_filter_set_find_n_def split: if_splits option.splits)

lemma find_index_lt: "find_index P xs = Some i \<Longrightarrow> i < length xs"
  by (induction xs arbitrary: i) (auto split: if_splits option.splits)

lemma found_ok:
  assumes "bloomd_filter_set_find_n (d_set d) n = (Some i, s)" "filters_all P d"
  shows "P (items s ! i)" "filters_all P (d\<lparr>d_set := s\<rparr>)"
proof -
  note it = find_items [OF assms(1)]
  have "i < length (items s)"
    using assms(1) find_index_lt it by (fastforce simp: bloomd_filter_set_find_n_def split: if_splits option.splits)
  then show "P (items s ! i)" "filters_all P (d\<lparr>d_set := s\<rparr>)"
    using assms(2) it by (auto simp: filters_all_def)
qed

lemma not_found_ok:
  assumes "bloomd_filter_set_find_n (d_set d) n = (r, s)" "filters_all P d"
  shows "filters_all P (d\<lparr>d_set := s\<rparr>)"
  using assms find_items [OF assms(1)] by (simp add: filters_all_def)

lemma put_ok: "filters_all P d \<Longrightarrow> P f \<Longrightarrow> filters_all P (put_filter i f w d)"
  using set_update_subset_insert [of "items (d_set d)" i f]
  by (auto simp: filters_all_def put_filter_def set_item_def)

lemma filters_all_simps [simp]:
  "filters_all P (d\<lparr>d_world := w\<rparr>) = filters_all P d" "filters_all P (d\<lparr>d_stats := st\<rparr>) = filters_all P d"
  "filters_all P (d\<lparr>d_pool := po\<rparr>) = filters_all P d"
  by (simp_all add: filters_all_def)

lemma remove_ok:
  assumes "bloomd_filter_set_remove_n E n s w = (r, s', w')" "\<forall>f\<in>set (items s). P f"
  shows "\<forall>f\<in>set (items s'). P f"
  using assms set_take_subset set_drop_subset
  by (fastforce simp: bloomd_filter_set_remove_n_def Let_def split: option.splits)

lemma add_ok:
  assumes "bloomd_filter_set_add alloc f s = (r, s')" "\<forall>f\<in>set (items s). P f" "P f"
  shows "\<forall>f\<in>set (items s'). P f"
  using assms by (auto simp: bloomd_filter_set_add_def Let_def split: if_splits)

lemma handled_daemon [simp]:
  "snd (snd (respond_error E st code msg resp d)) = d" "snd (snd (bloomd_send_bool E v resp d)) = d"
  "snd (snd (bloomd_send_u32_count_bytes E c vs resp d)) = d" "snd (snd (respond_all E xs resp d)) = d"
  "snd (snd (bloomd_handle_ping E resp d)) = d" "snd (snd (bloomd_handle_list E resp d)) = d"
  "snd (snd (bloomd_handle_stats E resp d)) = d"
  by (simp_all add: respond_error_def bloomd_send_bool_def bloomd_send_u32_count_bytes_def respond_all_def
    bloomd_handle_ping_def bloomd_handle_list_def bloomd_handle_stats_def Let_def split: prod.splits option.splits)

text \<open>
  \<open>libm_ok\<close>: the logarithm of the C library is not a NaN where the daemon calls it, at the
  reciprocal of an error rate strictly between 0 and 1.
\<close>

definition libm_ok :: "'k env \<Rightarrow> bool" where
  "libm_ok E \<longleftrightarrow> (\<forall>rate. rate_ok rate \<longrightarrow> \<not> dnan (libm_log2 E (round_double (dden rate) (dnum rate))))"

lemma hashes_in_range:
  assumes "rate_ok rate" "\<not> dnan (log2 (round_double (dden rate) (dnum rate)))"
  shows "1 \<le> bloomd_hashes_for_error_rate log2 nc rate \<and> bloomd_hashes_for_error_rate log2 nc rate \<le> 15"
proof -
  let ?l = "log2 (round_double (dden rate) (dnum rate))"
  have w: "1 \<le> (of_int h :: u32) \<and> (of_int h :: u32) \<le> 15" if "1 \<le> h" "h \<le> 15" for h :: int
  proof -
    have "uint (of_int h :: u32) = h" using that by (simp add: uint_word_of_int_eq take_bit_int_eq_self)
    then show ?thesis using that by (simp add: word_le_def)
  qed
  show ?thesis
    using assms w [of "dceil ?l"] by (auto simp: bloomd_hashes_for_error_rate_def rate_ok_def Let_def)
qed

lemma assign_meta_ok: "bloomd_assign_filter_paths cfg m = Inr m' \<Longrightarrow> meta_ok m \<Longrightarrow> meta_ok m'"
  by (auto simp: bloomd_assign_filter_paths_def meta_ok_def split: sum.splits)

lemma read_meta_ok:
  assumes "bloomd_meta_read_file path w = (Inr m, w')"
  shows "meta_ok m"
proof -
  obtain s where "meta_parse_text path s = Inr m"
    using assms by (auto simp: bloomd_meta_read_file_def split: prod.splits outcome.splits option.splits)
  then show ?thesis
    by (auto simp: meta_parse_text_def meta_finish_def meta_ok_def rate_ok_def Let_def not_less
      split: sum.splits if_splits)
qed

lemma load_map_ok:
  assumes "load_map E cfg m w = (Map_open m' fd u, w')" "meta_ok m"
  shows "meta_ok m'"
  using assms assign_meta_ok
  by (auto simp: load_map_def bloomd_rebuild_from_log_def split: sum.splits prod.splits if_splits option.splits)

lemma new_meta_ok:
  assumes "libm_ok E" "bloomd_parse_name_copy src len = Inr n" "len \<le> length src" "cr_capacity hdr \<noteq> 0"
    "cr_hashes hdr \<le> 15" "rate_ok (cr_error_rate hdr)"
  shows "meta_ok (new_filter_meta E n hdr)"
proof -
  have "bloomd_name_is_valid n"
    using assms(2,3) name_view_valid_iff [of len src] by (auto simp: bloomd_parse_name_copy_def split: if_splits)
  then show ?thesis
    using assms hashes_in_range [OF assms(6), of "libm_log2 E" "nan_cast E"]
    by (simp add: meta_ok_def new_filter_meta_def libm_ok_def)
qed

lemma set_aside_ok [simp]: "filters_all P (set_aside E path d) = filters_all P d"
  by (simp add: set_aside_def)

lemma load_read_ok:
  assumes "load_read E cfg entry d = (r, d')"
  shows "filters_all P d' = filters_all P d" "r = Some (path, m) \<Longrightarrow> meta_ok m"
  using assms read_meta_ok
  by (auto simp: load_read_def Let_def split: if_splits sum.splits prod.splits)

lemma cleanup_ok:
  assumes "bloomd_cleanup_orphan_pins E cfg d = (r, d')" "filters_all P d"
  shows "filters_all P d'"
proof -
  have c: "filters_all P (cleanup_pin E cfg e d)" if "filters_all P d" for e d
    using that
    by (auto simp: cleanup_pin_def bloomd_filter_set_find_def Let_def split: prod.splits option.splits
      dest: found_ok(2) not_found_ok)
  have "filters_all P (fold (cleanup_pin E cfg) es d)" if "filters_all P d" for es d
    using that by (induction es arbitrary: d) (auto intro: c)
  then show ?thesis using assms by (auto simp: bloomd_cleanup_orphan_pins_def split: sum.splits if_splits)
qed

text \<open>The states of the daemon from its start on: requests, periodic syncs, and time passing in between.\<close>

inductive daemon_state :: "'k env \<Rightarrow> bloomd_config \<Rightarrow> 'k daemon \<Rightarrow> bool" for E cfg where
  loaded: "bloomd_load_metadata_dir E cfg (daemon_init w) = (r, d) \<Longrightarrow> daemon_state E cfg d"
| cleaned: "daemon_state E cfg d \<Longrightarrow> bloomd_cleanup_orphan_pins E cfg d = (r, d') \<Longrightarrow> daemon_state E cfg d'"
| request: "daemon_state E cfg d \<Longrightarrow> request_ok req \<Longrightarrow> serve_request E cfg resp req d = (r, resp', d') \<Longrightarrow>
    daemon_state E cfg d'"
| sync: "daemon_state E cfg d \<Longrightarrow> bloomd_sync_dirty_logs E now force (d_set d) (d_world d) = (s, w) \<Longrightarrow>
    daemon_state E cfg (d\<lparr>d_set := s, d_world := w\<rparr>)"
| elapsed: "daemon_state E cfg d \<Longrightarrow> daemon_state E cfg (d\<lparr>d_world := w\<rparr>)"

section \<open>What the contract gives\<close>

context filter_type
begin

lemma new_filter_ok: "meta_ok m \<Longrightarrow> ok (new_filter m fd)"
  using new [where b = False] by (simp add: new_filter_def)

lemma staged_payload:
  "add_staged E mode m (bloomd_digest_payload p) f w = (r, f', w') \<Longrightarrow> ready m f \<Longrightarrow> ok f' \<and> (r = None \<longrightarrow> ready False f')"
  using staged by simp

lemma handle_add_check_ok:
  assumes "filters_all ok d"
  shows "filters_all ok (snd (snd (bloomd_handle_add_check E a mode req resp d)))"
proof -
  have run: "filters_all ok (snd (snd (bloomd_handle_add_check E a mode req resp d)))"
    if p: "bloomd_parse_name_payload req = Inr (name, p)" and fi: "bloomd_filter_set_find_n (d_set d) name = (Some i, s)" for name p i s
  proof -
    let ?f = "items s ! i"
    note f = found_ok [OF fi assms]
    obtain r1 m f1 w1 where pr: "add_prepare E mode ?f (d_world d) = (r1, m, f1, w1)" using prod_cases4 by blast
    obtain r2 f2 w2 where st: "add_staged E mode m (bloomd_digest_payload p) f1 w1 = (r2, f2, w2)" using prod_cases3 by blast
    note k = prepare [OF pr f(1)]
    show ?thesis
      using f k staged_payload [OF st]
      by (auto simp: bloomd_handle_add_check_def p fi pr st Let_def counters split: sum.splits prod.splits option.splits intro!: put_ok)
  qed
  show ?thesis
  proof (cases "bloomd_parse_name_payload req")
    case (Inr np)
    then show ?thesis
      using run assms not_found_ok [OF _ assms]
      by (cases np; cases "bloomd_filter_set_find_n (d_set d) (fst np)"; cases "fst (bloomd_filter_set_find_n (d_set d) (fst np))")
        (auto simp: bloomd_handle_add_check_def)
  qed (simp add: bloomd_handle_add_check_def assms)
qed

lemma batch_loop_ok:
  assumes "ok f" "a \<longrightarrow> ready (m \<and> \<not> ad) f"
  shows "ok (fst (snd (batch_loop E a mode m ad k its res f w)))"
  using assms
proof (induction k arbitrary: ad its res f w)
  case (Suc k)
  show ?case
  proof (cases "bloomd_protocol_read_payload its")
    case (Inr pc)
    obtain p c where pc: "pc = (p, c)" by fastforce
    obtain r1 f1 w1 where st: "add_staged E mode (m \<and> \<not> ad) (bloomd_digest_payload p) f w = (r1, f1, w1)"
      using prod_cases3 by blast
    show ?thesis
      using Suc.IH [of f1 True "drop c its" "res @ [1]" w1] Suc.IH [of f ad] Suc.prems staged_payload [OF st]
      by (cases a; cases r1) (auto simp: Inr pc st Let_def split: prod.splits sum.splits)
  qed (use Suc.prems in simp)
qed simp

lemma batch_run_ok:
  assumes "filters_all ok d" "ok f" "a \<longrightarrow> ready m f"
  shows "filters_all ok (snd (snd (batch_run E a mode m c its i f w resp d)))"
  using assms batch_loop_ok [OF assms(2), of a m False "unat c" its "[]" w]
  by (auto simp: batch_run_def counters split: sum.splits prod.splits intro!: put_ok)

lemma handle_batch_ok:
  assumes "filters_all ok d"
  shows "filters_all ok (snd (snd (bloomd_handle_batch E a mode req resp d)))"
  using assms
  by (auto simp: bloomd_handle_batch_def Let_def split: sum.splits prod.splits option.splits
    intro!: put_ok batch_run_ok dest: found_ok not_found_ok prepare)

lemma drop_finish_ok:
  assumes "filters_all ok d" "ok f"
  shows "filters_all ok (drop_finish E name i f w d)"
  using assms set_update_subset_insert [of "items (d_set d)" i]
  by (auto simp: drop_finish_def Let_def filters_all_def set_item_def counters split: prod.splits) (fastforce dest!: remove_ok [where P = ok] simp: counters)+

lemma handle_drop_ok:
  assumes "filters_all ok d"
  shows "filters_all ok (snd (snd (bloomd_handle_drop E req resp d)))"
  using assms
  by (auto simp: bloomd_handle_drop_def Let_def split: sum.splits prod.splits option.splits
    intro!: drop_finish_ok dest: found_ok not_found_ok)

lemma handle_info_ok:
  assumes "filters_all ok d"
  shows "filters_all ok (snd (snd (bloomd_handle_info E req resp d)))"
  using assms
  by (auto simp: bloomd_handle_info_def split: sum.splits prod.splits option.splits dest: found_ok not_found_ok)

lemma create_finish_ok:
  assumes "filters_all ok d" "ok f"
  shows "filters_all ok (snd (snd (create_finish E f resp d)))"
  using assms
  by (auto simp: create_finish_def Let_def filters_all_def split: prod.splits option.splits dest!: add_ok [where P = ok])

lemma create_with_map_ok:
  assumes "filters_all ok d" "meta_ok m"
  shows "filters_all ok (snd (snd (create_with_map E m resp d)))"
  using assms new_filter_ok
  by (auto simp: create_with_map_def Let_def split: prod.splits sum.splits intro!: create_finish_ok)

lemma handle_create_ok:
  assumes "filters_all ok d" "libm_ok E" "request_ok req"
  shows "filters_all ok (snd (snd (bloomd_handle_create E cfg req resp d)))"
proof -
  have n: "filters_all ok (snd (snd (create_named E cfg n hdr resp d)))" if "meta_ok (new_filter_meta E n hdr)" for n hdr
    using that assms(1) assign_meta_ok
    by (auto simp: create_named_def bloomd_filter_set_find_def split: prod.splits option.splits sum.splits
      intro!: create_with_map_ok dest: found_ok not_found_ok)
  show ?thesis
    using assms(1,3) n new_meta_ok [OF assms(2), of "drop 24 (rq_body req)" _ _ "create_request_of (rq_body req)"]
    by (auto simp: bloomd_handle_create_def Let_def rate_ok_def request_ok_def not_less split: sum.splits)
qed

lemma serve_request_ok:
  assumes "filters_all ok d" "libm_ok E" "log_sync_mode cfg = mode" "request_ok req"
    "serve_request E cfg resp req d = (r, resp', d')"
  shows "filters_all ok d'"
proof -
  have op: "filters_all ok (snd (snd (dispatch_op E cfg req resp d)))" if "filters_all ok d" for resp d
    using that assms(2-4)
    by (simp add: dispatch_op_def Let_def handle_create_ok handle_add_check_ok handle_batch_ok handle_info_ok handle_drop_ok
      split: option.splits bloomd_opcode.splits)
  have dp: "filters_all ok (snd (snd (bloomd_dispatch E cfg req resp d)))" if "filters_all ok d" for resp d
    using op [OF that, of resp] by (auto simp: bloomd_dispatch_def split: prod.splits)
  show ?thesis
    using assms(5) dp [of "d\<lparr>d_stats := (d_stats d)\<lparr>requests := requests (d_stats d) + 1\<rparr>\<rparr>"
      "bloomd_response_reset resp (opcode (rq_header req)) (request_id (rq_header req))"] assms(1)
    by (auto simp: serve_request_def Let_def split: prod.splits option.splits if_splits)
qed

lemma load_enter_filters:
  assumes "load_enter E path m fd u d = (r, d')" "filters_all ok d" "meta_ok m"
  shows "filters_all ok d'"
proof -
  let ?f = "(new_filter m fd)\<lparr>log_history_incomplete := fm_has_data m \<and> \<not> fm_log_clean m\<rparr>"
  have f: "ok ?f" by (rule new [OF assms(3)])
  obtain r1 w1 where v: "bloomd_validate_open_pinned_map E m fd (d_world d) = (r1, w1)" by fastforce
  obtain ri s where fi: "bloomd_filter_set_find_n (d_set d) (fm_name m) = (ri, s)" by fastforce
  obtain r2 g w2 where o: "(if fm_has_data m then bloomd_open_filter_log False ?f w1 else (None, ?f, w1)) = (r2, g, w2)"
    using prod_cases3 by blast
  have g: "ok g" using o f open_log [of ?f w1 r2 g w2] by (auto split: if_splits)
  obtain r3 s3 where a: "bloomd_filter_set_add (mem E) g s = (r3, s3)" by fastforce
  have s: "\<forall>f\<in>set (items s). ok f" using assms(2) find_items [OF fi] by (simp add: filters_all_def)
  have "items (d_set d') \<in> {items (d_set d), items s, items s3}"
    using assms(1) v fi a o
    by (auto simp: load_enter_def bloomd_filter_set_find_def Let_def set_aside_def split: option.splits prod.splits)
  then show ?thesis using assms(2) s add_ok [OF a s g] by (auto simp: filters_all_def)
qed

lemma load_entry_filters:
  assumes "load_entry E cfg entry d = (r, d')" "filters_all ok d"
  shows "filters_all ok d'"
proof -
  obtain rd d1 where l: "load_read E cfg entry d = (rd, d1)" by fastforce
  have d1: "filters_all ok d1" using load_read_ok(1) [OF l] assms(2) by simp
  have m: "meta_ok (m\<lparr>fm_log_path := lp\<rparr>)" if "rd = Some (path, m)" for path m lp
    using load_read_ok(2) [OF l that] by (simp add: meta_ok_def)
  show ?thesis
    using assms(1) l d1 m
    by (auto simp: load_entry_def split: option.splits sum.splits prod.splits map_result.splits
      dest!: load_map_ok elim!: load_enter_filters)
qed

lemma load_filters:
  assumes "bloomd_load_metadata_dir E cfg d = (r, d')" "filters_all ok d"
  shows "filters_all ok d'"
proof -
  have "load_entries E cfg es d = (r, d') \<Longrightarrow> filters_all ok d \<Longrightarrow> filters_all ok d'" for es d
    by (induction es arbitrary: d) (auto split: prod.splits option.splits dest: load_entry_filters)
  then show ?thesis using assms by (auto simp: bloomd_load_metadata_dir_def split: sum.splits if_splits)
qed

lemma sync_logs_filters:
  assumes "bloomd_sync_dirty_logs E now force s w = (s', w')" "\<forall>f\<in>set (items s). ok f"
  shows "\<forall>f\<in>set (items s'). ok f"
proof -
  have "sync_items E now force fs w = (fs', w') \<Longrightarrow> \<forall>f\<in>set fs. ok f \<Longrightarrow> \<forall>f\<in>set fs'. ok f" for fs fs' w w'
    by (induction fs arbitrary: fs' w) (auto split: prod.splits dest: sync)
  then show ?thesis using assms by (auto simp: bloomd_sync_dirty_logs_def split: prod.splits)
qed

text \<open>Every filter of every reachable state has the property.\<close>

lemma reachable_filters:
  assumes "libm_ok E" "log_sync_mode cfg = mode" "daemon_state E cfg d"
  shows "filters_all ok d"
  using assms(3)
proof induction
  case (loaded w r d)
  then show ?case by (rule load_filters) (simp add: filters_all_def daemon_init_def bloomd_filter_set_init_def)
next
  case (sync d now force s w)
  then show ?case using sync_logs_filters [OF sync(2)] by (simp add: filters_all_def)
qed (use assms(1,2) in \<open>auto intro: cleanup_ok serve_request_ok\<close>)

end

section \<open>Well-formed filters\<close>

definition filter_ok :: "bloomd_filter \<Rightarrow> bool" where
  "filter_ok f \<longleftrightarrow> meta_ok (f_meta f) \<and> length (log_buf f) \<le> BLOOMD_LOG_BUFFER_CAP"

lemma meta_ok_flags [simp]: "meta_ok (m\<lparr>fm_has_data := h, fm_log_clean := c\<rparr>) = meta_ok m"
  by (simp add: meta_ok_def)

lemma log_append_fits:
  assumes "bloomd_log_buffer_append fd buf dg w = (r, buf', w')" "length dg = 16" "length buf \<le> BLOOMD_LOG_BUFFER_CAP"
  shows "length buf' \<le> BLOOMD_LOG_BUFFER_CAP"
  using assms by (auto simp: bloomd_log_buffer_append_def log_consts protocol_consts split: if_splits prod.splits option.splits)

lemma log_flush_fits:
  assumes "bloomd_log_buffer_flush fd buf sync w = (r, buf', w')" "length buf \<le> BLOOMD_LOG_BUFFER_CAP"
  shows "length buf' \<le> BLOOMD_LOG_BUFFER_CAP"
  using assms by (auto simp: bloomd_log_buffer_flush_def split: if_splits prod.splits option.splits)

lemma open_log_ok:
  "bloomd_open_filter_log t f w = (r, f', w') \<Longrightarrow> filter_ok f \<Longrightarrow> filter_ok f'"
  by (auto simp: bloomd_open_filter_log_def filter_ok_def split: prod.splits sum.splits)

lemma update_state_ok:
  "bloomd_update_filter_meta_state E h c f w = (r, f', w') \<Longrightarrow> filter_ok f \<Longrightarrow> filter_ok f'"
  using update_state_frame(2) [of E h c f w r f' w'] by (auto simp: filter_ok_def split: if_splits)

lemma ensure_durable_ok:
  assumes "bloomd_ensure_filter_durable E f w = (r, f', w')" "filter_ok f"
  shows "filter_ok f'"
proof (cases "fm_has_data (f_meta f)")
  case True
  then show ?thesis using assms open_log_ok by (auto simp: bloomd_ensure_filter_durable_def split: if_splits)
next
  case False
  obtain r1 w1 where p: "bloomd_bpf_pin_map E (map_fd f) (fm_pin_path (f_meta f)) w = (r1, w1)" by fastforce
  obtain r2 f2 w2 where o: "bloomd_open_filter_log True f w1 = (r2, f2, w2)" using prod_cases3 by blast
  obtain r3 f3 w3 where u: "bloomd_update_filter_meta_state E True True f2 w2 = (r3, f3, w3)" using prod_cases3 by blast
  have ok: "filter_ok f2" "filter_ok f3" using open_log_ok [OF o assms(2)] update_state_ok [OF u] by auto
  have "f' = f \<or> f' = f2 \<or> f' = f3 \<or> (\<exists>fd. f' = f3\<lparr>log_fd := fd\<rparr>)"
    using assms(1) False p o u
    by (auto simp: bloomd_ensure_filter_durable_def Let_def split: option.splits prod.splits)
  then show ?thesis using assms(2) ok by (auto simp: filter_ok_def)
qed

lemma mark_dirty_ok:
  assumes "bloomd_mark_filter_log_dirty E f w = (r, ch, f', w')" "filter_ok f"
  shows "filter_ok f'"
  using assms update_state_ok [of E True False f w]
  by (auto simp: bloomd_mark_filter_log_dirty_def split: if_splits prod.splits option.splits)

lemma add_prepare_ok:
  assumes "add_prepare E mode f w = (r, m, f', w')" "filter_ok f"
  shows "filter_ok f'"
proof -
  obtain r1 f1 w1 where e: "bloomd_ensure_filter_durable E f w = (r1, f1, w1)" using prod_cases3 by blast
  have ok: "filter_ok f1" by (rule ensure_durable_ok [OF e assms(2)])
  then show ?thesis using assms(1) e mark_dirty_ok by (auto simp: add_prepare_def split: option.splits if_splits)
qed

lemma stage_ok:
  assumes "bloomd_stage_digest_for_add dg mode f w = (r, st, f', w')" "filter_ok f" "length dg = 16"
  shows "filter_ok f'"
proof -
  have m: "f_meta f' = f_meta f"
    by (subst stage_frame(2) [OF assms(1)]) simp
  obtain r1 w1 where l: "(if mode = LOG_SYNC_ALWAYS then sys_lseek_end (log_fd f) w else (Inr 0, w)) = (r1, w1)" by fastforce
  obtain r2 b2 w2 where a: "bloomd_log_buffer_append (log_fd f) (log_buf f) dg w1 = (r2, b2, w2)" using prod_cases3 by blast
  obtain r3 b3 w3 where b: "bloomd_log_buffer_flush (log_fd f) b2 True w2 = (r3, b3, w3)" using prod_cases3 by blast
  have len: "length (log_buf f) \<le> BLOOMD_LOG_BUFFER_CAP" using assms(2) by (simp add: filter_ok_def)
  note f2 = log_append_fits [OF a assms(3) len] and f3 = log_flush_fits [OF b]
  have "log_buf f' \<in> {log_buf f, b2, b3}"
    using assms(1) unfolding bloomd_stage_digest_for_add_def Let_def l
    by (auto simp: a b split: sum.splits option.splits if_splits)
  then show ?thesis using m assms(2) f2 f3 by (auto simp: filter_ok_def)
qed

lemma rollback_ok:
  assumes "bloomd_rollback_staged_digest st mode f w = (f', w')" "filter_ok f"
  shows "filter_ok f'"
  using assms by (auto simp: bloomd_rollback_staged_digest_def filter_ok_def split: if_splits)

lemma commit_ok:
  assumes "bloomd_commit_staged_digest mode f w = (f', w')" "filter_ok f"
  shows "filter_ok f'"
  using assms by (auto simp: bloomd_commit_staged_digest_def filter_ok_def split: if_splits prod.splits)

lemma restore_ok:
  assumes "restore_clean_mark E b f w = (f', w')" "filter_ok f"
  shows "filter_ok f'"
proof -
  obtain r1 f1 w1 where u: "bloomd_update_filter_meta_state E True True f w = (r1, f1, w1)" using prod_cases3 by blast
  show ?thesis using assms u update_state_ok [OF u] by (auto simp: restore_clean_mark_def split: if_splits)
qed

lemma add_staged_ok_filter:
  assumes "add_staged E mode restore dg f w = (r, f', w')" "filter_ok f" "length dg = 16"
  shows "filter_ok f'"
proof -
  obtain r1 st f1 w1 where s: "bloomd_stage_digest_for_add dg mode f w = (r1, st, f1, w1)" using prod_cases4 by blast
  note ok = stage_ok [OF s assms(2,3)]
  show ?thesis
    using assms(1) s ok restore_ok [OF _ ok] commit_ok [OF _ ok] restore_ok [OF _ rollback_ok [OF _ ok]]
    by (auto simp: add_staged_def split: option.splits prod.splits)
qed

lemma sync_ok:
  assumes "sync_dirty_log E now force f w = (f', w')" "filter_ok f"
  shows "filter_ok f'"
proof -
  obtain r1 b1 w1 where fl: "bloomd_log_buffer_flush (log_fd f) (log_buf f) True w = (r1, b1, w1)"
    using prod_cases3 by blast
  have b: "length b1 \<le> BLOOMD_LOG_BUFFER_CAP" using log_flush_fits [OF fl] assms(2) by (simp add: filter_ok_def)
  let ?g = "f\<lparr>log_buf := b1, last_log_sync_ms := now, log_dirty := False\<rparr>"
  obtain r2 f2 w2 where u: "bloomd_update_filter_meta_state E True True ?g w1 = (r2, f2, w2)" using prod_cases3 by blast
  have g: "filter_ok ?g" using assms(2) b by (simp add: filter_ok_def)
  from update_state_ok [OF u g] show ?thesis
    using assms fl u g b by (auto simp: sync_dirty_log_def Let_def filter_ok_def split: if_splits)
qed

interpretation wf: filter_type E mode filter_ok "\<lambda>_. filter_ok" for E :: "'k env" and mode
proof (unfold_locales, goal_cases)
  case (1 m fd b)
  then show ?case by (simp add: filter_ok_def new_filter_def)
next
  case (2 f w r f' w')
  then show ?case by (rule open_log_ok)
next
  case (3 f w r m f' w')
  then show ?case using add_prepare_ok by blast
next
  case (4 m dg f w r f' w')
  then show ?case using add_staged_ok_filter by blast
next
  case (5 now force f w f' w')
  then show ?case by (rule sync_ok)
qed (simp_all add: filter_ok_def)

section \<open>The clean mark\<close>

text \<open>
  In the periodic mode metadata that calls the log clean belongs to a filter with nothing waiting: no bytes in its buffer and no write
  that is not synced. Between the preparation of an ADD and its digests the mark is down; when this request
  took it down, nothing was waiting.
\<close>

definition clean_ok :: "bloomd_filter \<Rightarrow> bool" where
  "clean_ok f \<longleftrightarrow> (fm_log_clean (f_meta f) \<longrightarrow> log_buf f = [] \<and> \<not> log_dirty f)"

definition clean_ready :: "bool \<Rightarrow> bloomd_filter \<Rightarrow> bool" where
  "clean_ready m f \<longleftrightarrow> \<not> fm_log_clean (f_meta f) \<and> (m \<longrightarrow> log_buf f = [] \<and> \<not> log_dirty f)"

lemma open_log_clean:
  assumes "bloomd_open_filter_log t f w = (r, f', w')"
  shows "f_meta f' = f_meta f" "clean_ok f \<Longrightarrow> clean_ok f'" "r = None \<Longrightarrow> log_buf f' = [] \<and> \<not> log_dirty f'"
  using assms by (auto simp: bloomd_open_filter_log_def clean_ok_def split: prod.splits sum.splits)

lemma ensure_durable_clean:
  assumes "bloomd_ensure_filter_durable E f w = (r, f', w')" "clean_ok f"
  shows "clean_ok f' \<and> (r = None \<longrightarrow> fm_has_data (f_meta f'))"
proof (cases "fm_has_data (f_meta f)")
  case True
  then show ?thesis using assms open_log_clean(1,2) [of False f w r f' w']
    by (auto simp: bloomd_ensure_filter_durable_def split: if_splits)
next
  case False
  obtain r1 w1 where p: "bloomd_bpf_pin_map E (map_fd f) (fm_pin_path (f_meta f)) w = (r1, w1)" by fastforce
  obtain r2 f2 w2 where o: "bloomd_open_filter_log True f w1 = (r2, f2, w2)" using prod_cases3 by blast
  obtain r3 f3 w3 where u: "bloomd_update_filter_meta_state E True True f2 w2 = (r3, f3, w3)" using prod_cases3 by blast
  note f3 = update_state_frame(2) [OF u]
  have ok: "clean_ok f2" "r2 = None \<Longrightarrow> clean_ok f3" "r3 = None \<Longrightarrow> fm_has_data (f_meta f3)"
    using open_log_clean(2,3) [OF o] assms(2) f3 by (auto simp: clean_ok_def)
  have "(r \<noteq> None \<and> (f' = f \<or> f' = f2)) \<or> (r2 = None \<and> r = r3 \<and> f' = f3) \<or> (r \<noteq> None \<and> r2 = None \<and> (\<exists>fd. f' = f3\<lparr>log_fd := fd\<rparr>))"
    using assms(1) False p o u
    by (auto simp: bloomd_ensure_filter_durable_def Let_def split: option.splits prod.splits)
  then show ?thesis using assms(2) ok by (auto simp: clean_ok_def)
qed

lemma add_prepare_clean:
  assumes "add_prepare E LOG_SYNC_PERIODIC f w = (r, m, f', w')" "clean_ok f"
  shows "clean_ok f' \<and> (r = None \<longrightarrow> clean_ready m f')"
proof -
  obtain r1 f1 w1 where e: "bloomd_ensure_filter_durable E f w = (r1, f1, w1)" using prod_cases3 by blast
  obtain r2 f2 w2 where u: "bloomd_update_filter_meta_state E True False f1 w1 = (r2, f2, w2)" using prod_cases3 by blast
  note ok = ensure_durable_clean [OF e assms(2)] and f2 = update_state_frame(2) [OF u]
  show ?thesis
    using assms(1) e u ok f2
    by (auto simp: add_prepare_def bloomd_mark_filter_log_dirty_def clean_ok_def clean_ready_def split: option.splits if_splits)
qed

lemma stage_clean:
  assumes "bloomd_stage_digest_for_add dg LOG_SYNC_PERIODIC f w = (r, st, f', w')"
  shows "f_meta f' = f_meta f \<and> log_dirty f' = log_dirty f \<and> prev_dirty st = log_dirty f \<and>
    (log_buf f = [] \<longrightarrow> prev_buf_len st = 0 \<and> (r \<noteq> None \<longrightarrow> log_buf f' = []))"
  using assms
  by (auto simp: bloomd_stage_digest_for_add_def bloomd_log_buffer_append_def log_consts protocol_consts Let_def
    split: if_splits prod.splits option.splits)

lemma restore_clean:
  assumes "restore_clean_mark E b f w = (f', w')" "clean_ready b f"
  shows "clean_ok f'"
proof -
  obtain r1 f1 w1 where u: "bloomd_update_filter_meta_state E True True f w = (r1, f1, w1)" using prod_cases3 by blast
  show ?thesis
    using assms u update_state_frame(2) [OF u] by (auto simp: restore_clean_mark_def clean_ok_def clean_ready_def split: if_splits)
qed

lemma rollback_clean:
  assumes "bloomd_rollback_staged_digest st LOG_SYNC_PERIODIC f w = (f', w')" "\<not> fm_log_clean (f_meta f)"
    "b \<longrightarrow> prev_buf_len st = 0 \<and> \<not> prev_dirty st"
  shows "clean_ready b f'"
  using assms by (auto simp: bloomd_rollback_staged_digest_def clean_ready_def)

lemma add_staged_clean:
  assumes "add_staged E LOG_SYNC_PERIODIC m dg f w = (r, f', w')" "clean_ready m f"
  shows "clean_ok f' \<and> (r = None \<longrightarrow> clean_ready False f')"
proof -
  obtain r1 st f1 w1 where s: "bloomd_stage_digest_for_add dg LOG_SYNC_PERIODIC f w = (r1, st, f1, w1)" using prod_cases4 by blast
  obtain r2 w2 where b: "bloomd_bpf_add_digest E (map_fd f1) dg w1 = (r2, w2)" by fastforce
  obtain f3 w3 where ro: "bloomd_rollback_staged_digest st LOG_SYNC_PERIODIC f1 w2 = (f3, w3)" by fastforce
  obtain f4 w4 where c: "restore_clean_mark E m f3 w3 = (f4, w4)" by fastforce
  obtain f5 w5 where c1: "restore_clean_mark E m f1 w1 = (f5, w5)" by fastforce
  note st = stage_clean [OF s]
  have "clean_ready m f3" by (rule rollback_clean [OF ro]) (use st assms(2) in \<open>auto simp: clean_ready_def\<close>)
  note f4 = restore_clean [OF c this]
  have f5: "r1 \<noteq> None \<Longrightarrow> clean_ok f5" using restore_clean [OF c1] st assms(2) by (auto simp: clean_ready_def)
  show ?thesis
    using assms s b ro c c1 st f4 f5
    by (auto simp: add_staged_def bloomd_commit_staged_digest_def clean_ready_def clean_ok_def split: option.splits)
qed

lemma sync_clean:
  assumes "sync_dirty_log E now force f w = (f', w')" "clean_ok f"
  shows "clean_ok f'"
proof -
  obtain r1 b1 w1 where fl: "bloomd_log_buffer_flush (log_fd f) (log_buf f) True w = (r1, b1, w1)"
    using prod_cases3 by blast
  have b: "r1 = None \<Longrightarrow> b1 = []"
    using fl by (auto simp: bloomd_log_buffer_flush_def split: if_splits prod.splits option.splits)
  let ?g = "f\<lparr>log_buf := b1, last_log_sync_ms := now, log_dirty := False\<rparr>"
  obtain r2 f2 w2 where u: "bloomd_update_filter_meta_state E True True ?g w1 = (r2, f2, w2)" using prod_cases3 by blast
  show ?thesis
    using assms fl u b update_state_frame(2) [OF u] by (auto simp: sync_dirty_log_def Let_def clean_ok_def split: if_splits)
qed

interpretation clean: filter_type E LOG_SYNC_PERIODIC clean_ok clean_ready for E :: "'k env"
proof (unfold_locales, goal_cases)
  case (1 m fd b)
  then show ?case by (simp add: clean_ok_def new_filter_def)
next
  case (2 f w r f' w')
  then show ?case by (rule open_log_clean(2))
next
  case (3 f w r m f' w')
  then show ?case by (rule add_prepare_clean)
next
  case (4 m dg f w r f' w')
  then show ?case using add_staged_clean by blast
next
  case (5 now force f w f' w')
  then show ?case by (rule sync_clean)
qed (simp_all add: clean_ok_def)

section \<open>Properties\<close>

text \<open>
  C32. Filters stay well formed: in every state the daemon can reach, by loading any directory, serving
  any requests and syncing its logs, whatever fails on the way, each filter has metadata that the metadata
  reader accepts (a valid name, the fixed strings, value size 16, version 1, a capacity, at most 15
  hashes, an error rate strictly between 0 and 1), and the bytes waiting for its log never exceed
  the 1024 bytes of its buffer.
\<close>

theorem filters_stay_well_formed:
  assumes "libm_ok E" "daemon_state E cfg d" "f \<in> set (items (d_set d))"
  shows "meta_ok (f_meta f) \<and> length (log_buf f) \<le> BLOOMD_LOG_BUFFER_CAP"
  using wf.reachable_filters [OF assms(1) refl assms(2)] assms(3) by (auto simp: filters_all_def filter_ok_def)

lemma mock_libm_ok: "libm_ok boot_env"
  by (simp add: libm_ok_def boot_env_def mock_env_def mock_log2_def round_double_not_nan)

text \<open>The daemon after loading the directory of \<open>Restart\<close>, marked clean.\<close>

lemma boot_filter:
  obtains d f where "daemon_state boot_env boot_config d" "f \<in> set (items (d_set d))" "fm_log_clean (f_meta f)"
    "f_name f = ''users''"
proof -
  obtain d where d: "bloomd_load_metadata_dir boot_env boot_config (daemon_init (boot_world True boot_kern)) = (None, d)"
    "map (\<lambda>f. (f_name f, fm_log_clean (f_meta f))) (items (d_set d)) = [(''users'', True)]"
    using boot_load [of True] by (elim exE conjE)
  then obtain f where "f \<in> set (items (d_set d))" "f_name f = ''users''" "fm_log_clean (f_meta f)" by auto
  then show thesis by (intro that [OF daemon_state.loaded [OF d(1)]])
qed

theorem filters_stay_well_formed_witness:
  "\<exists>d f. daemon_state boot_env boot_config d \<and> f \<in> set (items (d_set d)) \<and> f_name f = ''users'' \<and>
    meta_ok (f_meta f)"
proof -
  obtain d f where d: "daemon_state boot_env boot_config d" "f \<in> set (items (d_set d))" "f_name f = ''users''"
    by (rule boot_filter)
  show ?thesis using filters_stay_well_formed [OF mock_libm_ok d(1,2)] d by blast
qed

text \<open>
  C21. The clean mark: in the periodic mode, in every state the daemon can reach, whatever fails on the way, a filter whose
  metadata calls its digest log clean has no bytes waiting in its buffer and no write left to sync. In other words, the
  mark is down whenever digests are waiting, in a batch as in a single ADD.
\<close>

theorem clean_mark_means_nothing_waiting:
  assumes "libm_ok E" "log_sync_mode cfg = LOG_SYNC_PERIODIC" "daemon_state E cfg d" "f \<in> set (items (d_set d))"
    "fm_log_clean (f_meta f)"
  shows "log_buf f = [] \<and> \<not> log_dirty f"
  using clean.reachable_filters [OF assms(1-3)] assms(4,5) by (auto simp: filters_all_def clean_ok_def)

text \<open>The filter of a clean directory, loaded with the default options.\<close>

theorem clean_mark_means_nothing_waiting_witness:
  "\<exists>d f. daemon_state boot_env boot_config d \<and> f \<in> set (items (d_set d)) \<and> fm_log_clean (f_meta f) \<and>
    log_buf f = [] \<and> \<not> log_dirty f"
proof -
  obtain d f where d: "daemon_state boot_env boot_config d" "f \<in> set (items (d_set d))" "fm_log_clean (f_meta f)"
    by (rule boot_filter)
  have m: "log_sync_mode boot_config = LOG_SYNC_PERIODIC" by (simp add: boot_config_def bloomd_config_defaults_def)
  show ?thesis using clean_mark_means_nothing_waiting [OF mock_libm_ok m d] d by blast
qed

text \<open>
  C36. The number of hash functions the daemon derives from an error rate is between 1 and 15, the range
  the kernel accepts, for every rate strictly between 0 and 1, and 0 (refused later) for every
  other double, infinities and NaNs included.
\<close>

theorem derived_hashes_in_range:
  assumes "rate_ok rate \<Longrightarrow> \<not> dnan (log2 (round_double (dden rate) (dnum rate)))"
  shows "if rate_ok rate then 1 \<le> bloomd_hashes_for_error_rate log2 nc rate \<and> bloomd_hashes_for_error_rate log2 nc rate \<le> 15
    else bloomd_hashes_for_error_rate log2 nc rate = 0"
  using assms hashes_in_range [of rate log2 nc]
  by (auto simp: rate_ok_def bloomd_hashes_for_error_rate_def)

text \<open>The error rate 0.01, with a logarithm rounded down to an integer.\<close>

theorem derived_hashes_in_range_witness:
  "rate_ok 0x3F847AE147AE147B \<and> 1 \<le> bloomd_hashes_for_error_rate mock_log2 0 0x3F847AE147AE147B \<and>
    bloomd_hashes_for_error_rate mock_log2 0 0x3F847AE147AE147B \<le> 15"
proof -
  have r: "rate_ok 0x3F847AE147AE147B" using sample_meta_ok by (simp add: meta_ok_def sample_meta_def)
  then show ?thesis
    using derived_hashes_in_range [of "0x3F847AE147AE147B" mock_log2 0]
    by (simp only: mock_log2_def round_double_not_nan max.cobounded1 zero_less_one if_True not_False_eq_True simp_thms)
qed

end
