(* ===== verification/Progress.thy ===== *)
theory Progress
  imports Wellformed
begin

text \<open>
  When nothing fails, the daemon does its work. The other theories say what a request may and may not
  do whatever happens; here the operating system is calm: no call of it fails, a write may still be
  short but takes at least one byte, and then every step of an ADD and of a CREATE goes through and the request is
  answered with success. The transfer loop ends even under interruptions.
\<close>

section \<open>A calm world\<close>

fun calm_outcome :: "outcome \<Rightarrow> bool" where
  "calm_outcome Normal = True"
| "calm_outcome (Short k) = (k > 0)"
| "calm_outcome (Fail e) = False"

definition calm :: "'k world \<Rightarrow> bool" where
  "calm w \<longleftrightarrow> (\<forall>oc\<in>set (script w). calm_outcome oc) \<and> 0 \<le> next_fd w"

text \<open>A step that leaves the kernel and the descriptors handed out so far alone and stays calm.\<close>

definition smooth :: "'k world \<Rightarrow> 'k world \<Rightarrow> bool" where
  "smooth w w' \<longleftrightarrow> kern w' = kern w \<and> calm w' \<and> next_fd w \<le> next_fd w' \<and>
     (\<forall>fd<next_fd w. fdtab w' fd = fdtab w fd)"

lemma smooth_refl [simp, intro]: "calm w \<Longrightarrow> smooth w w" by (simp add: smooth_def)

lemma smooth_trans [trans]: "smooth w v \<Longrightarrow> smooth v u \<Longrightarrow> smooth w u"
  by (auto simp: smooth_def)

lemma smooth_calm [dest]: "smooth w w' \<Longrightarrow> calm w'" by (simp add: smooth_def)

lemma next_outcome_calm:
  assumes "calm w" "next_outcome w = (oc, w')"
  shows "calm_outcome oc" "w' = w\<lparr>script := script w'\<rparr>" "calm w'"
  using assms by (auto simp: calm_def next_outcome_def split: list.splits)

lemma outcome_calm:
  assumes "calm w"
  obtains oc s where "next_outcome w = (oc, w\<lparr>script := s\<rparr>)" "calm_outcome oc" "calm (w\<lparr>script := s\<rparr>)"
  using assms by (cases "script w") (auto simp: calm_def next_outcome_def intro: that [of Normal "[]"] that)

section \<open>Calls\<close>

lemma open_calm:
  assumes "calm w"
  shows "\<exists>w' ino. sys_open p t w = (Inr (next_fd w), w') \<and> smooth w w' \<and> next_fd w' = next_fd w + 1 \<and>
    fdtab w' (next_fd w) = Some ino \<and> dirents w' p = Some ino"
proof -
  obtain oc s where o: "next_outcome w = (oc, w\<lparr>script := s\<rparr>)" "calm_outcome oc" "calm (w\<lparr>script := s\<rparr>)"
    by (rule outcome_calm [OF assms])
  then show ?thesis
    by (cases oc; cases "dirents w p") (auto simp: sys_open_def Let_def smooth_def calm_def)
qed

lemma fsync_calm:
  assumes "calm w" "fdtab w fd = Some ino"
  shows "\<exists>w'. sys_fsync fd w = (None, w') \<and> smooth w w' \<and> dirents w' = dirents w \<and> fdtab w' = fdtab w \<and> next_fd w' = next_fd w"
proof -
  obtain oc s where o: "next_outcome w = (oc, w\<lparr>script := s\<rparr>)" "calm_outcome oc" "calm (w\<lparr>script := s\<rparr>)"
    by (rule outcome_calm [OF assms(1)])
  then show ?thesis using assms(2) by (cases oc) (auto simp: sys_fsync_def smooth_def calm_def)
qed

lemma lseek_calm:
  assumes "calm w" "fdtab w fd = Some ino"
  shows "\<exists>n w'. sys_lseek_end fd w = (Inr n, w') \<and> smooth w w' \<and> fdtab w' = fdtab w \<and> next_fd w' = next_fd w"
proof -
  obtain oc s where o: "next_outcome w = (oc, w\<lparr>script := s\<rparr>)" "calm_outcome oc" "calm (w\<lparr>script := s\<rparr>)"
    by (rule outcome_calm [OF assms(1)])
  then show ?thesis using assms(2) by (cases oc) (auto simp: sys_lseek_end_def smooth_def calm_def)
qed

lemma rename_calm:
  assumes "calm w" "dirents w src = Some ino"
  shows "\<exists>w'. sys_rename src dst w = (None, w') \<and> smooth w w'"
proof -
  obtain oc s where o: "next_outcome w = (oc, w\<lparr>script := s\<rparr>)" "calm_outcome oc" "calm (w\<lparr>script := s\<rparr>)"
    by (rule outcome_calm [OF assms(1)])
  then show ?thesis using assms(2) by (cases oc) (auto simp: sys_rename_def smooth_def calm_def)
qed

text \<open>
  The transfer loop: whatever interruptions and short writes it meets, it returns 0 after the last
  byte, as long as no call fails for good and no write takes nothing.
\<close>

definition steady :: "'k world \<Rightarrow> bool" where
  "steady w \<longleftrightarrow> (\<forall>oc\<in>set (script w). calm_outcome oc \<or> oc = Fail EINTR)"

lemma write_all_steady:
  assumes "steady w" "fdtab w fd = Some ino"
  shows "fst (bloomd_write_all fd buf w) = None"
  using assms
proof (induction fd buf w rule: bloomd_write_all.induct)
  case (1 fd buf w)
  show ?case
  proof (cases "buf = []")
    case True
    then show ?thesis by (simp add: bloomd_write_all.simps [of fd "[]" w])
  next
    case False
    obtain r w1 where w1: "sys_write fd buf w = (r, w1)" by fastforce
    have g: "steady w1" "fdtab w1 fd = Some ino" "r = Inl EINTR \<or> (\<exists>n>0. r = Inr n)"
      using "1.prems" w1 False
      by (auto simp: steady_def sys_write_def next_outcome_def Let_def split: list.splits outcome.splits)
    show ?thesis
    proof (cases r)
      case (Inl e)
      then show ?thesis using "1.IH"(1) [OF False w1 [symmetric] Inl] g w1 False
        by (simp add: bloomd_write_all.simps [of fd buf w])
    next
      case (Inr n)
      then show ?thesis using "1.IH"(2) [OF False w1 [symmetric] Inr] g w1 False
        by (simp add: bloomd_write_all.simps [of fd buf w])
    qed
  qed
qed

lemma write_all_calm:
  assumes "calm w" "fdtab w fd = Some ino"
  shows "\<exists>w'. bloomd_write_all fd buf w = (None, w') \<and> smooth w w' \<and> dirents w' = dirents w \<and>
    fdtab w' = fdtab w \<and> next_fd w' = next_fd w"
proof -
  have "steady w" using assms(1) by (auto simp: steady_def calm_def)
  from write_all_steady [OF this assms(2), of buf] obtain w' where w: "bloomd_write_all fd buf w = (None, w')"
    by (cases "bloomd_write_all fd buf w") auto
  from bloomd_write_all_spec [OF assms(2) w] obtain n s where
    "w' = (append_ino ino (take n buf) w)\<lparr>script := s\<rparr>" "set s \<subseteq> set (script w)" by auto
  then show ?thesis using w assms(1) by (auto simp: smooth_def calm_def)
qed

lemma now_calm:
  assumes "calm w" "bloomd_now_ms w = (t, w')"
  shows "smooth w w'" "fdtab w' = fdtab w" "next_fd w' = next_fd w"
  using assms by (auto simp: bloomd_now_ms_def smooth_def calm_def split: list.splits)

lemma close_calm: "calm w \<Longrightarrow> n \<le> fd \<Longrightarrow> smooth v w \<Longrightarrow> next_fd v \<le> n \<Longrightarrow> smooth v (sys_close fd w)"
  by (auto simp: sys_close_def smooth_def calm_def)

section \<open>Metadata and log\<close>

definition meta_fits :: "'k env \<Rightarrow> bloomd_filter_meta \<Rightarrow> bool" where
  "meta_fits E m \<longleftrightarrow> length (meta_body m) < 2048 \<and> length (meta_tmp_path (getpid E) (fm_meta_path m)) < PATH_MAX"

lemma meta_fits_flags [simp]: "meta_fits E (m\<lparr>fm_has_data := h, fm_log_clean := c\<rparr>) = meta_fits E m"
  by (simp add: meta_fits_def meta_body_def meta_line_def flag_text_def)

lemma meta_write_calm:
  assumes "calm w" "meta_fits E m"
  shows "\<exists>w'. bloomd_meta_write_atomic E m w = (None, w') \<and> smooth w w'"
proof -
  let ?tmp = "meta_tmp_path (getpid E) (fm_meta_path m)"
  obtain w1 ino where o: "sys_open ?tmp True w = (Inr (next_fd w), w1)" "smooth w w1"
    "fdtab w1 (next_fd w) = Some ino" "dirents w1 ?tmp = Some ino"
    using open_calm [OF assms(1), of ?tmp True] by auto
  obtain w2 where wr: "bloomd_write_all (next_fd w) (bytes_of_string (meta_body m)) w1 = (None, w2)" "smooth w1 w2"
    "dirents w2 = dirents w1" "fdtab w2 = fdtab w1"
    using write_all_calm [OF smooth_calm [OF o(2)] o(3)] by blast
  obtain w3 where fs: "sys_fsync (next_fd w) w2 = (None, w3)" "smooth w2 w3" "dirents w3 = dirents w2"
    using fsync_calm [OF smooth_calm [OF wr(2)], of "next_fd w" ino] wr o by auto
  have c: "smooth w (sys_close (next_fd w) w3)"
    by (rule close_calm [OF smooth_calm [OF fs(2)] order_refl]) (use o wr fs smooth_trans in blast)+
  have "dirents (sys_close (next_fd w) w3) ?tmp = Some ino" using o wr fs by (simp add: sys_close_def)
  from rename_calm [OF smooth_calm [OF c] this] obtain w4 where
    "sys_rename ?tmp (fm_meta_path m) (sys_close (next_fd w) w3) = (None, w4)" "smooth (sys_close (next_fd w) w3) w4"
    by blast
  then show ?thesis
    using assms(2) o wr fs smooth_trans [OF c] by (auto simp: bloomd_meta_write_atomic_def Let_def meta_fits_def)
qed

section \<open>The steps of an ADD\<close>

text \<open>
  What an ADD finds: the buffer of the filter fits, its metadata fits the record, and its log is open,
  if it has data.
\<close>

definition filter_ready :: "'k env \<Rightarrow> bloomd_filter \<Rightarrow> 'k world \<Rightarrow> bool" where
  "filter_ready E f w \<longleftrightarrow> length (log_buf f) \<le> BLOOMD_LOG_BUFFER_CAP \<and> meta_fits E (f_meta f) \<and>
     (fm_has_data (f_meta f) \<and> log_fd f \<ge> 0 \<longrightarrow> log_fd f < next_fd w \<and> fdtab w (log_fd f) \<noteq> None)"

text \<open>After the preparation the log is open in any case.\<close>

definition log_ready :: "'k env \<Rightarrow> bloomd_filter \<Rightarrow> 'k world \<Rightarrow> bool" where
  "log_ready E f w \<longleftrightarrow> length (log_buf f) \<le> BLOOMD_LOG_BUFFER_CAP \<and> meta_fits E (f_meta f) \<and>
     0 \<le> log_fd f \<and> log_fd f < next_fd w \<and> fdtab w (log_fd f) \<noteq> None"

lemma log_ready_smooth: "log_ready E f w \<Longrightarrow> smooth w w' \<Longrightarrow> log_ready E f w'"
  by (auto simp: log_ready_def smooth_def)

text \<open>The kernel takes the digest: it pins the map of a filter without data, and it accepts the update.\<close>

definition kernel_takes :: "'k env \<Rightarrow> bloomd_filter \<Rightarrow> byte list \<Rightarrow> 'k \<Rightarrow> bool" where
  "kernel_takes E f dg k \<longleftrightarrow>
    (if fm_has_data (f_meta f) then br_ret (fst (sys_bpf E (BPF_MAP_UPDATE_ELEM (map_fd f) dg) k)) = 0
     else case sys_bpf E (BPF_OBJ_PIN (map_fd f) (fm_pin_path (f_meta f))) k of
       (r, k1) \<Rightarrow> br_ret r = 0 \<and> br_ret (fst (sys_bpf E (BPF_MAP_UPDATE_ELEM (map_fd f) dg) k1)) = 0)"

lemma open_log_calm:
  assumes "calm w" "meta_fits E (f_meta f)"
  shows "\<exists>g w'. bloomd_open_filter_log t f w = (None, g, w') \<and> smooth w w' \<and> log_ready E g w' \<and>
    f_meta g = f_meta f \<and> map_fd g = map_fd f"
proof -
  obtain w1 ino where o: "sys_open (fm_log_path (f_meta f)) t w = (Inr (next_fd w), w1)" "smooth w w1"
    "next_fd w1 = next_fd w + 1" "fdtab w1 (next_fd w) = Some ino"
    using open_calm [OF assms(1)] by blast
  obtain now w2 where n: "bloomd_now_ms w1 = (now, w2)" by fastforce
  note n2 = now_calm [OF smooth_calm [OF o(2)] n]
  have "0 \<le> next_fd w" using assms(1) by (simp add: calm_def)
  then show ?thesis
    using o n n2 assms(2) smooth_trans [OF o(2) n2(1)]
    by (cases t) (auto simp: bloomd_open_filter_log_def bloomd_log_open_create_def bloomd_log_open_append_def log_ready_def)
qed

lemma update_state_calm:
  assumes "calm w" "meta_fits E (f_meta f)"
  shows "\<exists>w'. bloomd_update_filter_meta_state E h c f w =
    (None, f\<lparr>f_meta := (f_meta f)\<lparr>fm_has_data := h, fm_log_clean := c\<rparr>\<rparr>, w') \<and> smooth w w'"
  using meta_write_calm [of w E "(f_meta f)\<lparr>fm_has_data := h, fm_log_clean := c\<rparr>"] assms
  by (auto simp: bloomd_update_filter_meta_state_def Let_def)

lemma log_ready_meta:
  "log_ready E f w \<Longrightarrow> m = f_meta f \<Longrightarrow> log_ready E (f\<lparr>f_meta := m\<lparr>fm_has_data := h, fm_log_clean := c\<rparr>\<rparr>) w"
  by (simp add: log_ready_def)

lemma ensure_durable_calm:
  assumes "calm w" "filter_ready E f w" "kernel_takes E f dg (kern w)"
  shows "\<exists>g w'. bloomd_ensure_filter_durable E f w = (None, g, w') \<and> calm w' \<and> log_ready E g w' \<and>
    map_fd g = map_fd f \<and> br_ret (fst (sys_bpf E (BPF_MAP_UPDATE_ELEM (map_fd f) dg) (kern w'))) = 0"
proof (cases "fm_has_data (f_meta f)")
  case True
  have "log_fd f < 0 \<or> log_ready E f w" using assms(2) True by (auto simp: filter_ready_def log_ready_def)
  then show ?thesis
    using True assms open_log_calm [OF assms(1), of E f False]
    by (auto simp: bloomd_ensure_filter_durable_def kernel_takes_def filter_ready_def smooth_def)
next
  case False
  obtain r k1 where p: "sys_bpf E (BPF_OBJ_PIN (map_fd f) (fm_pin_path (f_meta f))) (kern w) = (r, k1)" by fastforce
  let ?w = "w\<lparr>kern := k1\<rparr>"
  have c: "calm ?w" using assms(1) by (simp add: calm_def)
  have m: "meta_fits E (f_meta f)" using assms(2) by (simp add: filter_ready_def)
  obtain g w1 where o: "bloomd_open_filter_log True f ?w = (None, g, w1)" "smooth ?w w1" "log_ready E g w1"
    "f_meta g = f_meta f" "map_fd g = map_fd f" using open_log_calm [OF c m] by blast
  obtain w2 where u: "bloomd_update_filter_meta_state E True True g w1 =
    (None, g\<lparr>f_meta := (f_meta g)\<lparr>fm_has_data := True, fm_log_clean := True\<rparr>\<rparr>, w2)" "smooth w1 w2"
    using update_state_calm [OF smooth_calm [OF o(2)], of E g] m o(4) by auto
  have k: "kern w2 = k1" "calm w2" using o(2) u(2) by (auto simp: smooth_def)
  show ?thesis
    using False assms(3) p o u k log_ready_meta [OF log_ready_smooth [OF o(3) u(2)] refl]
    by (simp add: bloomd_ensure_filter_durable_def kernel_takes_def bloomd_bpf_pin_map_def bloomd_sys_bpf_def)
qed

lemma add_prepare_calm:
  assumes "calm w" "filter_ready E f w" "kernel_takes E f dg (kern w)"
  shows "\<exists>m g w'. add_prepare E mode f w = (None, m, g, w') \<and> calm w' \<and> log_ready E g w' \<and>
    map_fd g = map_fd f \<and> br_ret (fst (sys_bpf E (BPF_MAP_UPDATE_ELEM (map_fd f) dg) (kern w'))) = 0"
proof -
  obtain g w1 where e: "bloomd_ensure_filter_durable E f w = (None, g, w1)" "calm w1" "log_ready E g w1"
    "map_fd g = map_fd f" "br_ret (fst (sys_bpf E (BPF_MAP_UPDATE_ELEM (map_fd f) dg) (kern w1))) = 0"
    using ensure_durable_calm [OF assms] by blast
  obtain w2 where u: "bloomd_update_filter_meta_state E True False g w1 =
    (None, g\<lparr>f_meta := (f_meta g)\<lparr>fm_has_data := True, fm_log_clean := False\<rparr>\<rparr>, w2)" "smooth w1 w2"
    using update_state_calm [OF e(2), of E g] e(3) by (auto simp: log_ready_def)
  have k: "kern w2 = kern w1" "calm w2" using u(2) by (auto simp: smooth_def)
  show ?thesis
    using e u k log_ready_meta [OF log_ready_smooth [OF e(3) u(2)] refl]
    by (auto simp: add_prepare_def bloomd_mark_filter_log_dirty_def)
qed

lemma flush_calm:
  assumes "calm w" "0 \<le> fd" "fdtab w fd = Some ino"
  shows "\<exists>w'. bloomd_log_buffer_flush fd buf True w = (None, [], w') \<and> smooth w w'"
proof -
  obtain w1 where w1: "bloomd_write_all fd buf w = (None, w1)" "smooth w w1" "fdtab w1 = fdtab w"
    using write_all_calm [OF assms(1,3)] by blast
  let ?v = "if length buf > 0 then w1 else w"
  have v: "smooth w ?v" "fdtab ?v fd = Some ino" using w1 assms by auto
  obtain w2 where f: "sys_fsync fd ?v = (None, w2)" "smooth ?v w2" using fsync_calm [OF smooth_calm [OF v(1)] v(2)] by blast
  show ?thesis
    using w1(1) f smooth_trans [OF v(1) f(2)] assms(2)
    by (auto simp: bloomd_log_buffer_flush_def bloomd_log_sync_def split: if_splits)
qed

lemma append_calm:
  assumes "calm w" "0 \<le> fd" "fdtab w fd = Some ino" "length buf \<le> BLOOMD_LOG_BUFFER_CAP"
  shows "\<exists>buf' w'. bloomd_log_buffer_append fd buf dg w = (None, buf', w') \<and> smooth w w' \<and> fdtab w' = fdtab w"
  using assms write_all_calm [OF assms(1,3), of buf] by (auto simp: bloomd_log_buffer_append_def)

lemma stage_calm:
  assumes "calm w" "log_ready E f w"
  shows "\<exists>st buf w'. bloomd_stage_digest_for_add dg mode f w = (None, st, f\<lparr>log_buf := buf\<rparr>, w') \<and> smooth w w'"
proof -
  obtain ino where fd: "0 \<le> log_fd f" "fdtab w (log_fd f) = Some ino" "length (log_buf f) \<le> BLOOMD_LOG_BUFFER_CAP"
    using assms(2) by (auto simp: log_ready_def)
  obtain sz w1 where l: "(if mode = LOG_SYNC_ALWAYS then sys_lseek_end (log_fd f) w else (Inr 0, w)) = (Inr sz, w1)"
    "smooth w w1" "fdtab w1 = fdtab w" using lseek_calm [OF assms(1) fd(2)] assms(1) by (cases mode) auto
  obtain b w2 where a: "bloomd_log_buffer_append (log_fd f) (log_buf f) dg w1 = (None, b, w2)" "smooth w1 w2"
    "fdtab w2 = fdtab w1" using append_calm [OF smooth_calm [OF l(2)] fd(1) _ fd(3), of ino dg] l(3) fd(2) by auto
  obtain w3 where f: "bloomd_log_buffer_flush (log_fd f) b True w2 = (None, [], w3)" "smooth w2 w3"
    using flush_calm [OF smooth_calm [OF a(2)] fd(1)] a(3) l(3) fd(2) by auto
  have s: "smooth w w2" "smooth w w3" using l(2) a(2) f(2) smooth_trans by blast+
  show ?thesis
    unfolding bloomd_stage_digest_for_add_def Let_def l(1)
    using a(1) f(1) s by (cases mode) auto
qed

lemma add_staged_calm:
  assumes "calm w" "log_ready E f w" "br_ret (fst (sys_bpf E (BPF_MAP_UPDATE_ELEM (map_fd f) dg) (kern w))) = 0"
  shows "\<exists>g w'. add_staged E mode m dg f w = (None, g, w')"
proof -
  obtain st b w1 where s: "bloomd_stage_digest_for_add dg mode f w = (None, st, f\<lparr>log_buf := b\<rparr>, w1)" "smooth w w1"
    using stage_calm [OF assms(1,2)] by blast
  have "kern w1 = kern w" using s(2) by (simp add: smooth_def)
  then show ?thesis
    using assms(3) s(1) by (auto simp: add_staged_def bloomd_bpf_add_digest_def bloomd_sys_bpf_def split: prod.splits)
qed

section \<open>The steps of a CREATE\<close>

lemma set_add_succeeds: "(\<And>n. alloc n) \<Longrightarrow> \<exists>s'. bloomd_filter_set_add alloc f s = (None, s')"
  by (simp add: bloomd_filter_set_add_def Let_def)

lemma create_finish_calm:
  assumes "calm (d_world d)" "meta_fits E (f_meta f)" "\<And>n. mem E n"
  shows "\<exists>d'. create_finish E f resp d = (None, resp, d') \<and> bloomd_filter_set_add (mem E) f (d_set d) = (None, d_set d')"
proof -
  obtain s' where "bloomd_filter_set_add (mem E) f (d_set d) = (None, s')" using set_add_succeeds assms(3) by blast
  then show ?thesis using meta_write_calm [OF assms(1,2)] by (auto simp: create_finish_def)
qed

text \<open>The kernel has room for one more Bloom filter map.\<close>

definition kernel_creates :: "'k env \<Rightarrow> 'k \<Rightarrow> bool" where
  "kernel_creates E k \<longleftrightarrow> (\<forall>a. ca_map_type a = BPF_MAP_TYPE_BLOOM_FILTER \<longrightarrow> 0 \<le> br_ret (fst (sys_bpf E (BPF_MAP_CREATE a) k)))"

lemma create_map_calm:
  assumes "kernel_creates E (kern w)" "0 < c" "c \<le> 0xFFFFFFFF" "h \<le> 15" "calm w"
  shows "\<exists>fd w'. bloomd_bpf_create_map E n c h w = (Inr fd, w') \<and> 0 \<le> fd \<and> calm w'"
proof -
  have ret: "\<not> br_ret r < 0" if "sys_bpf E (BPF_MAP_CREATE a) (kern w) = (r, k)" "ca_map_type a = BPF_MAP_TYPE_BLOOM_FILTER" for a r k
    using assms(1) that by (fastforce simp: kernel_creates_def)
  have g: "c \<noteq> 0" "\<not> 0xFFFFFFFF < c" "\<not> 15 < h" using assms(2-4) by (auto simp: not_less)
  show ?thesis
    using g assms(5) ret by (simp add: bloomd_bpf_create_map_def bloomd_sys_bpf_def calm_def split: prod.splits) fastforce
qed

lemma create_with_map_calm:
  assumes "calm (d_world d)" "meta_fits E m" "\<And>n. mem E n" "0 < fm_capacity m" "fm_capacity m \<le> 0xFFFFFFFF" "fm_hashes m \<le> 15"
    "kernel_creates E (kern (d_world d))"
  shows "\<exists>fd d'. create_with_map E m resp d = (None, resp, d') \<and> 0 \<le> fd \<and>
    bloomd_filter_set_add (mem E) (new_filter m fd) (d_set d) = (None, d_set d')"
proof -
  obtain fd st po where t: "bloomd_take_empty_map (fm_capacity m) (fm_hashes m) (fm_value_size m) (d_stats d) (d_pool d) = (fd, st, po)"
    using prod_cases3 by blast
  let ?d = "d\<lparr>d_stats := st, d_pool := po\<rparr>"
  have m: "meta_fits E (f_meta (new_filter m fd))" for fd using assms(2) by (simp add: new_filter_def)
  show ?thesis
  proof (cases "fd \<ge> 0")
    case True
    have "calm (d_world ?d)" using assms(1) by simp
    from create_finish_calm [OF this m [of fd] assms(3), of resp] True show ?thesis
      by (auto simp: create_with_map_def t)
  next
    case False
    obtain fd' w where c: "bloomd_bpf_create_map E (fm_name m) (fm_capacity m) (fm_hashes m) (d_world d) = (Inr fd', w)"
      "0 \<le> fd'" "calm w" using create_map_calm [OF assms(7,4,5,6,1)] by blast
    have "calm (d_world (?d\<lparr>d_world := w\<rparr>))" using c(3) by simp
    from create_finish_calm [OF this m [of fd'] assms(3), of resp] False c show ?thesis
      by (auto simp: create_with_map_def t)
  qed
qed

section \<open>Properties\<close>

text \<open>
  C29. The daemon is not stuck: when the operating system is calm (no call fails, writes may be short),
  memory is available, the kernel takes the digest, and the filter is as the daemon keeps it (its log buffer
  and its metadata record fit, its log is open if it has data), an ADD to it is answered with
  status OK and the body 1, in both sync modes, for the first digest of a filter as for any later one.
\<close>

theorem add_is_answered:
  assumes "rq_op req = Some OP_ADD" "request_ok req" "bloomd_parse_name_payload req = Inr (name, payload)"
    and found: "set_ok (d_set d)" "lookup (d_set d) name = Some f"
    and os: "calm (d_world d)" "\<And>n. mem E n"
    and ready: "filter_ready E f (d_world d)" "kernel_takes E f (bloomd_digest_payload payload) (kern (d_world d))"
  shows "\<exists>ans d'. serve_request E cfg resp req d = (None, ans, d') \<and> resp_ok ans \<and> buf_data (rbody ans) = [1]"
proof -
  let ?d = "d\<lparr>d_stats := (d_stats d)\<lparr>requests := requests (d_stats d) + 1\<rparr>\<rparr>"
  let ?r = "bloomd_response_reset resp (opcode (rq_header req)) (request_id (rq_header req))"
  have v: "bloomd_name_is_valid name" by (rule parse_name_payload_valid [OF assms(2,3)])
  obtain ri s where fn: "bloomd_filter_set_find_n (d_set d) name = (ri, s)" by fastforce
  note sp = find_n_spec [OF found(1) v fn]
  obtain i where ri: "ri = Some i" using sp(4) found(2) by (cases ri) simp_all
  have i: "bloomd_filter_set_find_n (d_set d) name = (Some i, s)" "items s ! i = f"
    using fn ri sp(1) sp(3) [OF ri] found(2) by simp_all
  obtain m g w where p: "add_prepare E (log_sync_mode cfg) f (d_world d) = (None, m, g, w)" "calm w" "log_ready E g w" "map_fd g = map_fd f"
    "br_ret (fst (sys_bpf E (BPF_MAP_UPDATE_ELEM (map_fd f) (bloomd_digest_payload payload)) (kern w))) = 0"
    using add_prepare_calm [OF os(1) ready] by blast
  obtain h w' where a: "add_staged E (log_sync_mode cfg) m (bloomd_digest_payload payload) g w = (None, h, w')"
    using add_staged_calm [OF p(2,3)] p(4,5) by force
  obtain b where b: "bloomd_buffer_append (mem E) (rbody ?r) [1] = (None, b)" "buf_data b = [1]"
    using buffer_append_fits [of "mem E" "rbody ?r" "[1]"] os(2) by (auto simp: bloomd_response_reset_def BLOOMD_MAX_FRAME_BODY_def)
  have "dispatch_op E cfg req ?r ?d = (None, ?r\<lparr>rbody := b\<rparr>, put_filter i (h\<lparr>add_calls := add_calls h + 1\<rparr>) w' (?d\<lparr>d_set := s\<rparr>))"
    using assms(1,3) i p(1) a b(1)
    by (simp add: dispatch_op_def Let_def bloomd_handle_add_check_def bloomd_send_bool_def)
  then show ?thesis
    using b(2) by (simp add: serve_request_def bloomd_dispatch_def Let_def resp_ok_def bloomd_response_reset_def)
qed

text \<open>The sample daemon, with a write cut short on the way.\<close>

theorem add_is_answered_witness:
  "\<exists>ans d'. serve_request mock_env bloomd_config_defaults (bloomd_response_init 0 0) (sample_request OP_ADD)
      (sample_daemon\<lparr>d_world := (d_world sample_daemon)\<lparr>script := [Normal, Short 3]\<rparr>\<rparr>) = (None, ans, d') \<and>
    resp_ok ans \<and> buf_data (rbody ans) = [1]"
proof (rule add_is_answered)
  let ?d = "sample_daemon\<lparr>d_world := (d_world sample_daemon)\<lparr>script := [Normal, Short 3]\<rparr>\<rparr>"
  show "bloomd_parse_name_payload (sample_request OP_ADD) = Inr (''users'', [0x61, 0x62, 0x63])" by (rule sample_parse)
  show "request_ok (sample_request OP_ADD)" by (rule sample_request_ok)
  show "rq_op (sample_request OP_ADD) = Some OP_ADD" by (rule sample_op)
  show "set_ok (d_set ?d)" using sample_inv by (simp add: daemon_inv_def)
  show "lookup (d_set ?d) ''users'' = Some sample_filter" by (simp add: lookup_def sample_daemon_def sample_filter_def sample_meta_def)
  show "calm (d_world ?d)" by (simp add: calm_def sample_daemon_def)
  show "filter_ready mock_env sample_filter (d_world ?d)"
    using sample_body_length sample_tmp_length
    by (simp add: filter_ready_def meta_fits_def sample_daemon_def sample_filter_def mock_env_def log_consts)
  show "kernel_takes mock_env sample_filter (bloomd_digest_payload [0x61, 0x62, 0x63]) (kern (d_world ?d))"
    by (simp add: kernel_takes_def sample_eval)
qed (simp add: mock_env_def)

text \<open>
  C30. CREATE does its work under the same conditions: a well-formed request for a new name, with a
  capacity of 1 to \<open>2 ^ 32 - 1\<close>, at most 15 hashes and an error rate between 0 and 1, is answered with
  status OK and an empty body, and the set holds the filter the request describes and otherwise what it held.
\<close>

theorem create_is_answered:
  assumes req: "rq_op req = Some OP_CREATE" "request_ok req" "create_name req = Some name"
      "rq_len req = 24 + unat (cr_name_len (create_request_of (rq_body req)))"
      "cr_reserved (create_request_of (rq_body req)) = 0"
    and range: "0 < cr_capacity (create_request_of (rq_body req))" "cr_capacity (create_request_of (rq_body req)) \<le> 0xFFFFFFFF"
      "cr_hashes (create_request_of (rq_body req)) \<le> 15" "rate_ok (cr_error_rate (create_request_of (rq_body req)))"
    and new: "set_ok (d_set d)" "lookup (d_set d) name = None"
      "bloomd_assign_filter_paths cfg (new_filter_meta E name (create_request_of (rq_body req))) = Inr meta"
    and os: "calm (d_world d)" "\<And>n. mem E n" "meta_fits E meta" "libm_ok E"
      "kernel_creates E (kern (d_world d))"
  shows "\<exists>ans d' fd. serve_request E cfg resp req d = (None, ans, d') \<and> resp_ok ans \<and> buf_data (rbody ans) = [] \<and>
    0 \<le> fd \<and> lookup (d_set d') = (lookup (d_set d))(name \<mapsto> new_filter meta fd)"
proof -
  let ?d = "d\<lparr>d_stats := (d_stats d)\<lparr>requests := requests (d_stats d) + 1\<rparr>\<rparr>"
  let ?r = "bloomd_response_reset resp (opcode (rq_header req)) (request_id (rq_header req))"
  let ?hdr = "create_request_of (rq_body req)"
  have pn: "bloomd_parse_name_copy (drop 24 (rq_body req)) (unat (cr_name_len ?hdr)) = Inr name"
    using req(3) by (auto simp: create_name_def split: sum.splits)
  have v: "bloomd_name_is_valid name"
    using pn req(2,4) name_view_valid_iff [of "unat (cr_name_len ?hdr)" "drop 24 (rq_body req)"]
    by (auto simp: bloomd_parse_name_copy_def request_ok_def split: if_splits)
  have h: "fm_hashes (new_filter_meta E name ?hdr) \<le> 15"
    using range(3) hashes_in_range [OF range(4), of "libm_log2 E" "nan_cast E"] os(4) range(4)
    by (simp add: new_filter_meta_def libm_ok_def)
  have mf: "fm_capacity meta = cr_capacity ?hdr" "fm_hashes meta \<le> 15" "fm_name meta = name"
    using new(3) h by (auto simp: bloomd_assign_filter_paths_def new_filter_meta_def split: sum.splits)
  obtain s where s: "bloomd_filter_set_find (d_set d) name = (None, s)" "items s = items (d_set d)" "set_cap s = set_cap (d_set d)"
  proof -
    obtain ri s where fn: "bloomd_filter_set_find_n (d_set d) name = (ri, s)" by fastforce
    note sp = find_n_spec [OF new(1) v fn]
    have "ri = None" using sp(3) new(2) by (cases ri) simp_all
    then show ?thesis using that [of s] fn sp by (simp add: bloomd_filter_set_find_def)
  qed
  have so: "set_ok s" "lookup s = lookup (d_set d)"
    using new(1) s by (auto simp: set_ok_def names_def lookup_def)
  obtain fd d' where c: "create_with_map E meta ?r (?d\<lparr>d_set := s\<rparr>) = (None, ?r, d')" "0 \<le> fd"
    "bloomd_filter_set_add (mem E) (new_filter meta fd) s = (None, d_set d')"
    using create_with_map_calm [of "?d\<lparr>d_set := s\<rparr>" E meta ?r] os range mf by auto
  have l: "lookup (d_set d') = (lookup (d_set d))(name \<mapsto> new_filter meta fd)"
    using filter_set_add_law(2) [OF so(1) _ _ c(3)] so(2) v new(2) mf(3) by (simp add: new_filter_def)
  have g: "cr_capacity ?hdr \<noteq> 0" "\<not> 0xFFFFFFFF < cr_capacity ?hdr" "\<not> 15 < cr_hashes ?hdr"
    using range(1-3) by (auto simp: not_less)
  have "dispatch_op E cfg req ?r ?d = (None, ?r, d')"
    using req pn g range(4) s(1) new(3) c(1)
    by (simp add: dispatch_op_def Let_def bloomd_handle_create_def create_named_def rate_ok_def)
  then show ?thesis
    using l c(2) by (auto simp: serve_request_def bloomd_dispatch_def Let_def resp_ok_def bloomd_response_reset_def)
qed

text \<open>A request for a filter \<open>new\<close> of capacity 1000, error rate 0.01 and 7 hashes, on the sample daemon.\<close>

definition new_request :: bloomd_request_view where
  "new_request = \<lparr>rq_header = \<lparr>magic = BLOOMD_PROTOCOL_MAGIC, version = 1, opcode = opcode_byte OP_CREATE,
       flags = 0, status = 0, request_id = 7, body_len = 27\<rparr>,
     rq_body = [0xE8, 3, 0, 0, 0, 0, 0, 0, 0x7B, 0x14, 0xAE, 0x47, 0xE1, 0x7A, 0x84, 0x3F, 7, 0, 0, 0, 3, 0, 0, 0,
       0x6E, 0x65, 0x77]\<rparr>"

definition new_meta :: bloomd_filter_meta where
  "new_meta = sample_meta\<lparr>fm_name := ''new'', fm_meta_path := ''/var/lib/bloomd/new.meta'',
     fm_log_path := ''/var/lib/bloomd/new.digests'', fm_pin_path := ''/sys/fs/bpf/bloomd/new'',
     fm_has_data := False, fm_log_clean := True\<rparr>"

lemma new_request_parsed:
  "create_request_of (rq_body new_request) = \<lparr>cr_capacity = 1000, cr_error_rate = 0x3F847AE147AE147B, cr_hashes = 7,
     cr_name_len = 3, cr_reserved = 0\<rparr>"
  "create_name new_request = Some ''new''"
  by code_simp+

lemma new_meta_assigned:
  "bloomd_assign_filter_paths bloomd_config_defaults
     (new_filter_meta mock_env ''new'' (create_request_of (rq_body new_request))) = Inr new_meta"
  by (simp add: bloomd_assign_filter_paths_def new_filter_meta_def new_request_parsed build_path_defs bloomd_join_path_def
    bloomd_config_defaults_def PATH_MAX_def Let_def new_meta_def sample_meta_def)

lemma new_meta_fits: "meta_fits mock_env new_meta"
  by (simp add: meta_fits_def new_meta_def meta_body_def meta_line_def sample_meta_def sample_rate flag_text_def
    sample_digits BLOOMD_BACKEND_NAME_def BLOOMD_DIGEST_NAME_def meta_tmp_path_def mock_env_def PATH_MAX_def)

theorem create_is_answered_witness:
  "\<exists>ans d' fd. serve_request mock_env bloomd_config_defaults (bloomd_response_init 0 0) new_request sample_daemon =
      (None, ans, d') \<and> resp_ok ans \<and> buf_data (rbody ans) = [] \<and> 0 \<le> fd \<and>
    lookup (d_set d') = (lookup (d_set sample_daemon))(''new'' \<mapsto> new_filter new_meta fd)"
proof (rule create_is_answered)
  show "request_ok new_request" by (simp add: request_ok_def new_request_def)
  show "rq_op new_request = Some OP_CREATE" by code_simp
  show "create_name new_request = Some ''new''" by (rule new_request_parsed)
  show "rq_len new_request = 24 + unat (cr_name_len (create_request_of (rq_body new_request)))"
    unfolding new_request_parsed by (simp add: new_request_def)
  show "rate_ok (cr_error_rate (create_request_of (rq_body new_request)))"
    unfolding new_request_parsed using sample_rate(3) by simp
  show "set_ok (d_set sample_daemon)" using sample_inv by (simp add: daemon_inv_def)
  show "lookup (d_set sample_daemon) ''new'' = None" by (simp add: lookup_def sample_eval)
  show "calm (d_world sample_daemon)" by (simp add: calm_def sample_daemon_def)
  show "kernel_creates mock_env (kern (d_world sample_daemon))"
    by (simp add: kernel_creates_def sample_eval MOCK_MAX_MAPS_def Let_def mock_map_handle_def mock_map_create_def)
  show "libm_ok mock_env" using mock_libm_ok by (simp add: libm_ok_def boot_env_def)
qed (rule new_meta_assigned new_meta_fits | simp add: new_request_parsed)+

text \<open>
  C31. The transfer loop ends: however many interruptions and short writes it meets, \<open>bloomd_write_all\<close> on
  an open descriptor returns 0 with the whole buffer appended to the file and nothing else changed, provided that no call
  fails for good and no write takes nothing. (The recursion itself is total for every script.)
\<close>

theorem write_all_ends_with_all_bytes:
  assumes "steady w" "fdtab w fd = Some ino"
  shows "\<exists>s. bloomd_write_all fd buf w = (None, (append_ino ino buf w)\<lparr>script := s\<rparr>)"
proof -
  obtain w' where w: "bloomd_write_all fd buf w = (None, w')"
    using write_all_steady [OF assms, of buf] by (cases "bloomd_write_all fd buf w") auto
  then show ?thesis using bloomd_write_all_spec [OF assms(2) w] by auto
qed

theorem write_all_ends_with_all_bytes_witness:
  "\<exists>s. bloomd_write_all 5 [1, 2, 3] ((d_world sample_daemon)\<lparr>script := [Fail EINTR, Short 2, Fail EINTR]\<rparr>) =
    (None, (append_ino 0 [1, 2, 3] ((d_world sample_daemon)\<lparr>script := [Fail EINTR, Short 2, Fail EINTR]\<rparr>))\<lparr>script := s\<rparr>)"
  by (rule write_all_ends_with_all_bytes) (simp_all add: steady_def sample_daemon_def)

end
