(* ===== verification/Disk_Frames.thy ===== *)
theory Disk_Frames
  imports Wellformed Durability
begin

text \<open>
  Which files the operations on one filter touch. \<open>touches P I w w'\<close>: between the two worlds only
  directory entries in \<open>P\<close>, the files they named and the files in \<open>I\<close> changed, descriptors of
  other files stay open, and no new outcomes entered the script.
\<close>

section \<open>The relation\<close>

definition touches :: "string set \<Rightarrow> nat set \<Rightarrow> 'k world \<Rightarrow> 'k world \<Rightarrow> bool" where
  "touches P I w w' \<longleftrightarrow> world_ok w' \<and> set (script w') \<subseteq> set (script w) \<and> next_ino w \<le> next_ino w' \<and>
     next_fd w \<le> next_fd w' \<and>
     (\<forall>p. p \<notin> P \<longrightarrow> dirents w' p = dirents w p) \<and>
     (\<forall>p\<in>P. \<forall>i. dirents w' p = Some i \<longrightarrow> i < next_ino w \<longrightarrow> i \<in> I \<or> Some i \<in> dirents w ` P) \<and>
     (\<forall>i. i < next_ino w \<longrightarrow> i \<notin> I \<longrightarrow> Some i \<notin> dirents w ` P \<longrightarrow>
       inodes w' i = inodes w i \<and> (\<forall>fd. fdtab w fd = Some i \<longrightarrow> fdtab w' fd = Some i))"

lemma touchesD:
  assumes "touches P I w w'"
  shows "world_ok w'" "set (script w') \<subseteq> set (script w)" "next_ino w \<le> next_ino w'"
    "next_fd w \<le> next_fd w'" "p \<notin> P \<Longrightarrow> dirents w' p = dirents w p"
    "p \<in> P \<Longrightarrow> dirents w' p = Some i \<Longrightarrow> i < next_ino w \<Longrightarrow> i \<in> I \<or> Some i \<in> dirents w ` P"
    "i < next_ino w \<Longrightarrow> i \<notin> I \<Longrightarrow> Some i \<notin> dirents w ` P \<Longrightarrow> inodes w' i = inodes w i"
    "i < next_ino w \<Longrightarrow> i \<notin> I \<Longrightarrow> Some i \<notin> dirents w ` P \<Longrightarrow> fdtab w fd = Some i \<Longrightarrow> fdtab w' fd = Some i"
  using assms unfolding touches_def by blast+

lemma touches_trans:
  assumes "touches P I w v" "touches P I v u"
  shows "touches P I w u"
proof -
  note a = touchesD [OF assms(1)] and b = touchesD [OF assms(2)]
  have stay: "Some i \<notin> dirents v ` P" if "i < next_ino w" "i \<notin> I" "Some i \<notin> dirents w ` P" for i
    using a(6) that by force
  have 1: "i \<in> I \<or> Some i \<in> dirents w ` P" if "p \<in> P" "dirents u p = Some i" "i < next_ino w" for p i
    using b(6) [OF that(1,2)] stay [of i] a(3) that(3) by fastforce
  have 2: "inodes u i = inodes w i \<and> (\<forall>fd. fdtab w fd = Some i \<longrightarrow> fdtab u fd = Some i)"
    if "i < next_ino w" "i \<notin> I" "Some i \<notin> dirents w ` P" for i
    using a(7,8) [OF that] b(7,8) [of i] stay [OF that] a(3) that(1,2) by (metis order_less_le_trans)
  show ?thesis
    unfolding touches_def using a(2,3,4,5) b(1,2,3,4,5) 1 2 by (intro conjI allI ballI impI) (auto | meson order_trans)+
qed

lemma touches_mono: "touches P I w w' \<Longrightarrow> P \<subseteq> Q \<Longrightarrow> I \<subseteq> J \<Longrightarrow> touches Q J w w'"
proof -
  assume t: "touches P I w w'" and s: "P \<subseteq> Q" "I \<subseteq> J"
  note a = touchesD [OF t]
  have "i \<in> J \<or> Some i \<in> dirents w ` Q" if "p \<in> Q" "dirents w' p = Some i" "i < next_ino w" for p i
    using a(5) [of p] a(6) [of p i] that s by (cases "p \<in> P") (force simp: image_iff)+
  moreover have "Some i \<notin> dirents w ` P \<and> i \<notin> I" if "i \<notin> J" "Some i \<notin> dirents w ` Q" for i
    using that s by blast
  ultimately show ?thesis
    unfolding touches_def using a s by (intro conjI allI ballI impI) blast+
qed

lemma touches_absorb:
  assumes "touches P I w w'" "\<And>i. i \<in> I \<Longrightarrow> Some i \<in> dirents w ` P"
  shows "touches P {} w w'"
  using assms unfolding touches_def by blast

lemma touches_eq:
  assumes "world_ok w" "dirents w' = dirents w" "inodes w' = inodes w" "next_ino w' = next_ino w"
    "next_fd w \<le> next_fd w'" "fdtab w' = fdtab w" "set (script w') \<subseteq> set (script w)"
  shows "touches P I w w'"
proof -
  have "world_ok w'" using assms(1) unfolding world_ok_def assms(2,4,6) using assms(5) by (meson order_less_le_trans)
  then show ?thesis unfolding touches_def using assms by (auto simp: image_iff) metis
qed

lemma touches_refl [intro]: "world_ok w \<Longrightarrow> touches P I w w"
  by (rule touches_eq) auto

lemma touches_kern: "world_ok w \<Longrightarrow> w' = w\<lparr>kern := k\<rparr> \<Longrightarrow> touches P I w w'"
  by (rule touches_eq) auto

lemma touches_now: "world_ok w \<Longrightarrow> bloomd_now_ms w = (t, w') \<Longrightarrow> touches P I w w'"
  by (rule touches_eq) (auto simp: bloomd_now_ms_def split: list.splits)

section \<open>System calls\<close>

lemma script_next: "next_outcome w = (oc, w') \<Longrightarrow> set (script w') \<subseteq> set (script w)"
  by (cases "script w") (auto simp: next_outcome_def)

lemma script_sys:
  "sys_open p t w = (r1, w') \<Longrightarrow> set (script w') \<subseteq> set (script w)"
  "sys_write fd buf w = (r2, w') \<Longrightarrow> set (script w') \<subseteq> set (script w)"
  "sys_fsync fd w = (r3, w') \<Longrightarrow> set (script w') \<subseteq> set (script w)"
  "sys_ftruncate fd n w = (r3, w') \<Longrightarrow> set (script w') \<subseteq> set (script w)"
  "sys_lseek_end fd w = (r4, w') \<Longrightarrow> set (script w') \<subseteq> set (script w)"
  "sys_unlink p w = (r3, w') \<Longrightarrow> set (script w') \<subseteq> set (script w)"
  "sys_rename p q w = (r3, w') \<Longrightarrow> set (script w') \<subseteq> set (script w)"
  by (auto simp: sys_defs Let_def split: option.splits list.splits outcome.splits)

text \<open>A transfer appends to the file behind the descriptor; when nothing is cut short, all of the bytes or none.\<close>

lemma write_all_closed: "fdtab w fd = None \<Longrightarrow> bloomd_write_all fd buf w = (if buf = [] then None else Some EBADF, w)"
  by (simp add: bloomd_write_all.simps [of fd buf] sys_write_def)

lemma script_write_all: "bloomd_write_all fd buf w = (r, w') \<Longrightarrow> set (script w') \<subseteq> set (script w)"
  using bloomd_write_all_spec [of w fd _ buf r w'] write_all_closed [of w fd buf]
  by (cases "fdtab w fd") fastforce+

lemma script_meta_write:
  assumes "bloomd_meta_write_atomic E m w = (r, w')"
  shows "set (script w') \<subseteq> set (script w)"
proof -
  let ?tmp = "meta_tmp_path (getpid E) (fm_meta_path m)"
  obtain r1 w1 where o: "sys_open ?tmp True w = (r1, w1)" by fastforce
  obtain r2 w2 where wr: "bloomd_write_all (projr r1) (bytes_of_string (meta_body m)) w1 = (r2, w2)" by fastforce
  obtain r3 w3 where f: "sys_fsync (projr r1) w2 = (r3, w3)" by fastforce
  obtain r4 w4 where rn: "sys_rename ?tmp (fm_meta_path m) (sys_close (projr r1) w3) = (r4, w4)" by fastforce
  have u: "set (script (snd (sys_unlink ?tmp v))) \<subseteq> set (script v)" for v :: "'a world"
    using script_sys(6) [of ?tmp v] by (cases "sys_unlink ?tmp v") simp
  have c: "script (sys_close fd v) = script v" for fd and v :: "'a world" by (simp add: sys_close_def)
  note sub = script_sys(1) [OF o] script_write_all [OF wr] script_sys(3) [OF f] script_sys(7) [OF rn, unfolded c]
  have "set (script w') \<subseteq> set (script w) \<or> set (script w') \<subseteq> set (script w1) \<or> set (script w') \<subseteq> set (script w2) \<or>
    set (script w') \<subseteq> set (script w3) \<or> set (script w') \<subseteq> set (script w4)"
    using assms o wr f rn u [of "sys_close (projr r1) w2"] u [of "sys_close (projr r1) w3"] u [of w4]
    by (cases r1) (auto simp: bloomd_meta_write_atomic_def Let_def c split: if_splits option.splits)
  then show ?thesis using sub by blast
qed

text \<open>\<open>mine P I w fd\<close>: if the descriptor is open, then on a file that may change.\<close>

definition mine :: "string set \<Rightarrow> nat set \<Rightarrow> 'k world \<Rightarrow> int \<Rightarrow> bool" where
  "mine P I w fd \<longleftrightarrow> (\<forall>i. fdtab w fd = Some i \<longrightarrow> i \<in> I \<or> Some i \<in> dirents w ` P)"

lemma touches_inode:
  assumes "world_ok w" "mine P I w fd" "fdtab w fd = Some ino" "dirents w' = dirents w" "fdtab w' = fdtab w"
    "next_ino w' = next_ino w" "next_fd w' = next_fd w" "\<And>i. i \<noteq> ino \<Longrightarrow> inodes w' i = inodes w i"
    "set (script w') \<subseteq> set (script w)"
  shows "touches P I w w'"
proof -
  have "world_ok w'" using assms(1) by (simp add: world_ok_def assms(4-7))
  moreover have "i \<noteq> ino" if "i \<notin> I" "Some i \<notin> dirents w ` P" for i
    using assms(2,3) that by (auto simp: mine_def)
  ultimately show ?thesis
    unfolding touches_def using assms(4-9) by (intro conjI allI ballI impI) (auto intro: rev_image_eqI)
qed

lemma touches_write_all:
  assumes "world_ok w" "mine P I w fd" "bloomd_write_all fd buf w = (r, w')"
  shows "touches P I w w'" "fdtab w' = fdtab w" "dirents w' = dirents w"
proof -
  have "touches P I w w' \<and> fdtab w' = fdtab w \<and> dirents w' = dirents w"
  proof (cases "fdtab w fd")
    case None
    then show ?thesis using assms write_all_closed [OF None, of buf] by (auto intro: touches_refl)
  next
    case (Some ino)
    from bloomd_write_all_spec [OF Some assms(3)] obtain n s where
      w': "w' = (append_ino ino (take n buf) w)\<lparr>script := s\<rparr>" "set s \<subseteq> set (script w)" by blast
    then show ?thesis using touches_inode [OF assms(1,2) Some, of w'] by (simp add: append_ino_def)
  qed
  then show "touches P I w w'" "fdtab w' = fdtab w" "dirents w' = dirents w" by auto
qed

lemma touches_fsync:
  assumes "world_ok w" "mine P I w fd" "sys_fsync fd w = (r, w')"
  shows "touches P I w w' \<and> fdtab w' = fdtab w \<and> dirents w' = dirents w \<and>
    (\<forall>i. idata (inodes w' i) = idata (inodes w i)) \<and>
    (\<forall>i. isynced (inodes w' i) = isynced (inodes w i) \<or> isynced (inodes w' i) = idata (inodes w i)) \<and>
    (\<forall>ino. r = None \<longrightarrow> fdtab w fd = Some ino \<longrightarrow> isynced (inodes w' ino) = idata (inodes w ino))"
  using assms(3)
proof (cases rule: sys_fsync_cases)
  case (ok ino s)
  have "set s \<subseteq> set (script w)" using script_sys(3) [OF assms(3)] ok by simp
  then show ?thesis using touches_inode [OF assms(1,2) ok(2), of w'] ok(2,3) by simp
next
  case (err e s)
  have "set s \<subseteq> set (script w)" using script_sys(3) [OF assms(3)] err by simp
  then show ?thesis using err touches_eq [OF assms(1), of w' P I] by simp
qed

lemma touches_ftruncate:
  assumes "world_ok w" "mine P I w fd" "sys_ftruncate fd n w = (r, w')"
  shows "touches P I w w' \<and> fdtab w' = fdtab w \<and> dirents w' = dirents w \<and>
    (\<forall>i. isynced (inodes w' i) = isynced (inodes w i)) \<and>
    (\<forall>ino. fdtab w fd = Some ino \<longrightarrow> idata (inodes w' ino) = idata (inodes w ino) \<or>
      idata (inodes w' ino) = take n (idata (inodes w ino)) @ replicate (n - length (idata (inodes w ino))) 0)"
proof -
  note sub = script_sys(4) [OF assms(3)]
  obtain oc w1 where o: "next_outcome w = (oc, w1)" by fastforce
  then obtain s where s: "w1 = w\<lparr>script := s\<rparr>" using next_outcome_script by blast
  have "set s \<subseteq> set (script w)" using script_next [OF o] s by simp
  then show ?thesis
    using assms(3) o s sub touches_inode [OF assms(1,2), of _ w'] touches_refl [OF assms(1)]
      touches_eq [OF assms(1), of "w\<lparr>script := s\<rparr>"]
    by (cases oc) (auto simp: sys_ftruncate_def Let_def split: option.splits)
qed

lemma touches_lseek:
  assumes "world_ok w" "sys_lseek_end fd w = (r, w')"
  shows "touches P I w w'" "w' = w\<lparr>script := script w'\<rparr>"
    "r = Inr n \<Longrightarrow> fdtab w fd = Some ino \<Longrightarrow> n = length (idata (inodes w ino))"
proof -
  show e: "w' = w\<lparr>script := script w'\<rparr>"
    using assms(2) by (auto simp: sys_lseek_end_def next_outcome_def split: option.splits list.splits outcome.splits)
  show "touches P I w w'"
    using script_sys(5) [OF assms(2)] by (subst e, intro touches_eq [OF assms(1)]) simp_all
  show "r = Inr n \<Longrightarrow> fdtab w fd = Some ino \<Longrightarrow> n = length (idata (inodes w ino))"
    using lseek_effect(1) assms(2) by blast
qed

lemma touches_close: "world_ok w \<Longrightarrow> mine P I w fd \<Longrightarrow> touches P I w (sys_close fd w)"
  using world_ok_close [of w fd]
  by (auto simp: touches_def mine_def sys_close_def image_iff) metis+

lemma touches_unlink:
  assumes "world_ok w" "p \<in> P" "sys_unlink p w = (r, w')"
  shows "touches P I w w'"
proof -
  note sub = script_sys(6) [OF assms(3)] and ok = world_ok_unlink [OF assms(1), of p, unfolded assms(3), simplified]
  from assms(3) show ?thesis
    by (cases rule: sys_unlink_cases)
      (use assms(1,2) sub ok in \<open>auto simp: touches_def image_iff split: if_splits, metis+\<close>)
qed

lemma touches_meta_write:
  assumes "world_ok w" "bloomd_meta_write_atomic E m w = (r, w')"
    "{fm_meta_path m, meta_tmp_path (getpid E) (fm_meta_path m)} \<subseteq> P"
  shows "touches P I w w'" "fdtab w' = fdtab w"
proof -
  let ?Q = "{fm_meta_path m, meta_tmp_path (getpid E) (fm_meta_path m)}"
  have "only_files ?Q w w'"
    using meta_write_ok(1) [OF assms(1), of E m w'] meta_write_err [OF assms(1), of E m _ w'] assms(2)
    by (cases r) (auto elim: only_files_mono)
  note f = this [unfolded only_files_def]
  have "touches ?Q {} w w'"
    unfolding touches_def using f script_meta_write [OF assms(2)] by (auto simp: image_iff)
  then show "touches P I w w'" using touches_mono assms(3) by blast
  show "fdtab w' = fdtab w" using f by simp
qed

lemma touches_open:
  assumes "world_ok w" "sys_open p t w = (r, w')" "p \<in> P"
  shows "touches P I w w'"
proof (cases r)
  case (Inl e)
  then obtain s where "w' = w\<lparr>script := s\<rparr>" using sys_open_Inl assms(2) by blast
  then show ?thesis using script_sys(1) [OF assms(2)] by (intro touches_eq [OF assms(1)]) simp_all
next
  case (Inr fd)
  note sub = script_sys(1) [OF assms(2)] and ok = world_ok_open [OF assms(1,2)]
  have fd: "fdtab w (next_fd w) = None" by (rule world_okD(5) [OF assms(1)])
  from assms(2) [unfolded Inr] show ?thesis
    by (cases rule: sys_open_Inr)
      (use sub ok fd assms(3) in \<open>auto simp: touches_def image_iff split: if_splits, metis+\<close>)
qed

section \<open>The log file of a filter\<close>

text \<open>\<open>whole w\<close>: no write is cut short, so that a transfer that fails has written nothing.\<close>

definition whole :: "'k world \<Rightarrow> bool" where
  "whole w \<longleftrightarrow> (\<forall>n. Short n \<notin> set (script w))"

lemma touches_whole: "touches P I w w' \<Longrightarrow> whole w \<Longrightarrow> whole w'"
  using touchesD(2) [of P I w w'] by (auto simp: whole_def)

lemma write_all_whole:
  assumes "whole w" "fdtab w fd = Some ino" "bloomd_write_all fd buf w = (r, w')"
  shows "idata (inodes w' ino) = (if r = None then idata (inodes w ino) @ buf else idata (inodes w ino)) \<and>
    isynced (inodes w' ino) = isynced (inodes w ino)"
proof -
  from bloomd_write_all_spec [OF assms(2,3)] obtain n s where w': "w' = (append_ino ino (take n buf) w)\<lparr>script := s\<rparr>"
    "r = None \<longrightarrow> n = length buf" "r \<noteq> None \<longrightarrow> n = 0" using assms(1) unfolding whole_def by blast
  then show ?thesis by (simp add: append_ino_def)
qed

lemma append_log:
  assumes "world_ok w" "whole w" "mine P I w fd" "fdtab w fd = Some ino"
    "bloomd_log_buffer_append fd buf dg w = (r, buf', w')"
  shows "touches P I w w'" "fdtab w' = fdtab w" "dirents w' = dirents w" "isynced (inodes w' ino) = isynced (inodes w ino)"
    "(buf' = buf \<and> r \<noteq> None \<and> idata (inodes w' ino) = idata (inodes w ino)) \<or>
     (buf' = buf @ dg \<and> r = None \<and> w' = w \<and> length buf + BLOOMD_DIGEST_SIZE \<le> BLOOMD_LOG_BUFFER_CAP) \<or>
     (buf' = dg \<and> r = None \<and> idata (inodes w' ino) = idata (inodes w ino) @ buf \<and>
       length buf + BLOOMD_DIGEST_SIZE > BLOOMD_LOG_BUFFER_CAP)"
  using assms(5) touches_refl [OF assms(1)] touches_write_all [OF assms(1,3)] write_all_whole [OF assms(2,4)]
  by (auto simp: bloomd_log_buffer_append_def split: if_splits prod.splits option.splits)

lemma flush_log:
  assumes "world_ok w" "whole w" "mine P I w fd" "fdtab w fd = Some ino" "fd \<ge> 0"
    "bloomd_log_buffer_flush fd buf sync w = (r, buf', w')"
  shows "touches P I w w'" "fdtab w' = fdtab w" "dirents w' = dirents w"
    "(buf' = buf \<and> r \<noteq> None \<and> idata (inodes w' ino) = idata (inodes w ino)) \<or>
     (buf' = [] \<and> idata (inodes w' ino) = idata (inodes w ino) @ buf)"
    "isynced (inodes w' ino) = isynced (inodes w ino) \<or> isynced (inodes w' ino) = idata (inodes w' ino)"
    "r = None \<Longrightarrow> sync \<Longrightarrow> isynced (inodes w' ino) = idata (inodes w' ino)"
proof -
  obtain r1 w1 where w1: "(if length buf > 0 then bloomd_write_all fd buf w else (None, w)) = (r1, w1)" by fastforce
  have a: "touches P I w w1" "fdtab w1 = fdtab w" "dirents w1 = dirents w"
    "idata (inodes w1 ino) = (if r1 = None then idata (inodes w ino) @ buf else idata (inodes w ino))"
    "isynced (inodes w1 ino) = isynced (inodes w ino)"
    using w1 touches_refl [OF assms(1)] touches_write_all [OF assms(1,3)] write_all_whole [OF assms(2,4)]
    by (auto split: if_splits)
  have m: "mine P I w1 fd" using assms(3) a(2,3) by (simp add: mine_def)
  obtain r2 w2 where sy: "sys_fsync fd w1 = (r2, w2)" by fastforce
  note b = touches_fsync [OF touchesD(1) [OF a(1)] m sy]
  have c: "isynced (inodes w2 ino) = isynced (inodes w ino) \<or> isynced (inodes w2 ino) = idata (inodes w2 ino)"
    "r2 = None \<Longrightarrow> isynced (inodes w2 ino) = idata (inodes w2 ino)" using b a(2,5) assms(4) by metis+
  have "(r1 \<noteq> None \<and> r = r1 \<and> buf' = buf \<and> w' = w1) \<or> (r1 = None \<and> buf' = [] \<and> (\<not> sync \<and> w' = w1 \<or> sync \<and> r = r2 \<and> w' = w2))"
    using assms(5,6) unfolding bloomd_log_buffer_flush_def w1
    by (auto simp: bloomd_log_sync_def sy split: option.splits if_splits)
  then show "touches P I w w'" "fdtab w' = fdtab w" "dirents w' = dirents w"
    "(buf' = buf \<and> r \<noteq> None \<and> idata (inodes w' ino) = idata (inodes w ino)) \<or>
     (buf' = [] \<and> idata (inodes w' ino) = idata (inodes w ino) @ buf)"
    "isynced (inodes w' ino) = isynced (inodes w ino) \<or> isynced (inodes w' ino) = idata (inodes w' ino)"
    "r = None \<Longrightarrow> sync \<Longrightarrow> isynced (inodes w' ino) = idata (inodes w' ino)"
    using a b c touches_trans [OF a(1)] by auto
qed

end
