(* ===== verification/Log_Complete.thy ===== *)
theory Log_Complete
  imports Disk_Frames
begin

text \<open>
  The digest log is complete. As long as no write is cut short, the log of a filter, its file followed by what waits in its buffer,
  holds every digest of its map; and the file alone holds them, on stable storage too, when the metadata calls the log clean and
  whenever every digest is synced. So a filter with the clean mark can be rebuilt from its log without loss, at any time, whatever
  other calls failed, and after a power failure.
\<close>

section \<open>One filter\<close>

text \<open>The paths of a filter are those CREATE and the loader give it.\<close>

definition own_paths :: "bloomd_config \<Rightarrow> bloomd_filter \<Rightarrow> bool" where
  "own_paths cfg f \<longleftrightarrow> bloomd_name_is_valid (f_name f) \<and>
     fm_meta_path (f_meta f) = meta_root cfg @ ''/'' @ f_name f @ ''.meta'' \<and>
     fm_log_path (f_meta f) = meta_root cfg @ ''/'' @ f_name f @ ''.digests'' \<and>
     fm_pin_path (f_meta f) = pin_root cfg @ ''/'' @ f_name f"

text \<open>The open log of a filter is the file under its log path.\<close>

definition log_at :: "bloomd_filter \<Rightarrow> 'k world \<Rightarrow> nat \<Rightarrow> bool" where
  "log_at f w ino \<longleftrightarrow> log_fd f \<ge> 0 \<and> fdtab w (log_fd f) = Some ino \<and> dirents w (fm_log_path (f_meta f)) = Some ino"

text \<open>The buffer counts in the periodic mode only: in the other mode a failed flush can leave a refused digest in it.\<close>

definition log_content :: "bloomd_log_sync_mode \<Rightarrow> bloomd_filter \<Rightarrow> nat \<Rightarrow> 'k world \<Rightarrow> byte list" where
  "log_content mode f ino w = idata (inodes w ino) @ (if mode = LOG_SYNC_PERIODIC then log_buf f else [])"

text \<open>
  The digests that are on stable storage: all of them in the mode that syncs every digest, and whenever the metadata calls the
  log clean.
\<close>

definition safe_part :: "bloomd_log_sync_mode \<Rightarrow> byte list set \<Rightarrow> bloomd_filter \<Rightarrow> byte list set" where
  "safe_part mode D f = (if \<not> log_history_incomplete f \<and> (mode = LOG_SYNC_ALWAYS \<or> fm_log_clean (f_meta f)) then D else {})"

definition in_log :: "byte list set \<Rightarrow> nat \<Rightarrow> 'k world \<Rightarrow> bool" where
  "in_log S ino w \<longleftrightarrow> S \<subseteq> set (log_records (idata (inodes w ino))) \<and> S \<subseteq> set (log_records (isynced (inodes w ino)))"

definition log_ok :: "bloomd_log_sync_mode \<Rightarrow> byte list set \<Rightarrow> bloomd_filter \<Rightarrow> 'k world \<Rightarrow> bool" where
  "log_ok mode D f w \<longleftrightarrow>
     (log_history_incomplete f \<longrightarrow> fm_has_data (f_meta f) \<and> \<not> fm_log_clean (f_meta f)) \<and>
     (\<not> fm_has_data (f_meta f) \<longrightarrow> log_fd f < 0 \<and> D = {}) \<and>
     (fm_has_data (f_meta f) \<longrightarrow> (\<exists>ino. log_at f w ino \<and> 16 dvd length (idata (inodes w ino)) \<and> 16 dvd length (log_buf f) \<and>
        (\<not> log_history_incomplete f \<longrightarrow> D \<subseteq> set (log_records (log_content mode f ino w))) \<and> in_log (safe_part mode D f) ino w))"

lemma own_paths_in:
  assumes "own_paths cfg f"
  shows "fm_meta_path (f_meta f) \<in> own_files cfg (f_name f)" "fm_log_path (f_meta f) \<in> own_files cfg (f_name f)"
    "meta_tmp_path pid (fm_meta_path (f_meta f)) \<in> own_files cfg (f_name f)"
    "fm_log_path (f_meta f) \<notin> {fm_meta_path (f_meta f), meta_tmp_path pid (fm_meta_path (f_meta f))}"
  using assms by (auto simp: own_paths_def own_files_def meta_tmp_path_def)

lemma log_at_mine: "log_at f w ino \<Longrightarrow> fm_log_path (f_meta f) \<in> P \<Longrightarrow> mine P I w (log_fd f)"
  by (auto simp: log_at_def mine_def intro: rev_image_eqI)

lemma log_at_frame:
  assumes "world_ok w" "touches Q {} w w'" "log_at f w ino" "fm_log_path (f_meta f) \<notin> Q"
    "log_fd f' = log_fd f" "fm_log_path (f_meta f') = fm_log_path (f_meta f)"
  shows "log_at f' w' ino" "inodes w' ino = inodes w ino"
proof -
  have d: "dirents w (fm_log_path (f_meta f)) = Some ino" "fdtab w (log_fd f) = Some ino" using assms(3) by (simp_all add: log_at_def)
  have i: "ino < next_ino w" "Some ino \<notin> dirents w ` Q"
    using world_okD(1,2) [OF assms(1)] d(1) assms(4) by (blast, metis imageE)
  show "log_at f' w' ino" "inodes w' ino = inodes w ino"
    using touchesD(5,7,8) [OF assms(2)] i d assms(3-6) by (auto simp: log_at_def)
qed

lemma touches_file:
  assumes "world_ok w" "touches Q {} w w'" "p \<notin> Q"
  shows "file_data p w' = file_data p w" "file_synced p w' = file_synced p w"
proof -
  have d: "dirents w' p = dirents w p" using touchesD(5) [OF assms(2,3)] .
  have "inodes w' i = inodes w i" if "dirents w p = Some i" for i
  proof -
    have "Some i \<notin> dirents w ` Q" using world_okD(1) [OF assms(1)] that assms(3) by (metis imageE)
    then show ?thesis using touchesD(7) [OF assms(2)] world_okD(2) [OF assms(1) that] by simp
  qed
  then show "file_data p w' = file_data p w" "file_synced p w' = file_synced p w"
    by (cases "dirents w p"; simp add: file_data_def file_synced_def d)+
qed

text \<open>The metadata file is what the writer makes of the metadata in memory, on stable storage too.\<close>

definition on_disk :: "bloomd_filter \<Rightarrow> 'k world \<Rightarrow> bool" where
  "on_disk f w \<longleftrightarrow> file_data (fm_meta_path (f_meta f)) w = Some (bytes_of_string (meta_body (f_meta f))) \<and>
     file_synced (fm_meta_path (f_meta f)) w = Some (bytes_of_string (meta_body (f_meta f)))"

definition good :: "bloomd_config \<Rightarrow> byte list set \<Rightarrow> bloomd_filter \<Rightarrow> 'k world \<Rightarrow> bool" where
  "good cfg D f w \<longleftrightarrow> own_paths cfg f \<and> log_ok (log_sync_mode cfg) D f w \<and> on_disk f w"

definition calm_files :: "'k world \<Rightarrow> bool" where
  "calm_files w \<longleftrightarrow> world_ok w \<and> whole w \<and> 0 \<le> next_fd w"

lemma calm_files_step: "calm_files w \<Longrightarrow> touches P I w w' \<Longrightarrow> calm_files w'"
  using touchesD(1,4) [of P I w w'] touches_whole [of P I w w'] by (auto simp: calm_files_def)

text \<open>What a step on the filter may do to the files: touch its own.\<close>

abbreviation own_step :: "bloomd_config \<Rightarrow> bloomd_filter \<Rightarrow> 'k world \<Rightarrow> 'k world \<Rightarrow> bool" where
  "own_step cfg f w w' \<equiv> touches (own_files cfg (f_name f)) {} w w'"

lemma own_step_log: "own_paths cfg f \<Longrightarrow> touches {fm_log_path (f_meta f)} {} w w' \<Longrightarrow> own_step cfg f w w'"
  by (rule touches_mono [of "{fm_log_path (f_meta f)}" "{}"]) (simp_all add: own_paths_in)

lemma on_disk_log:
  assumes "world_ok w" "own_paths cfg f" "touches {fm_log_path (f_meta f)} {} w w'" "on_disk f w" "f_meta f' = f_meta f"
  shows "on_disk f' w'"
proof -
  have "fm_meta_path (f_meta f) \<notin> {fm_log_path (f_meta f)}" using own_paths_in(4) [OF assms(2), of 0] by auto
  from touches_file [OF assms(1,3) this] show ?thesis using assms(4,5) by (simp add: on_disk_def)
qed

lemma update_state_disk:
  assumes "world_ok w" "own_paths cfg f" "on_disk f w" "bloomd_update_filter_meta_state E h c f w = (r, f', w')"
  shows "touches {fm_meta_path (f_meta f), meta_tmp_path (getpid E) (fm_meta_path (f_meta f))} {} w w'"
    "own_step cfg f w w'" "on_disk f' w'" "own_paths cfg f'"
    "f' = (if r = None then f\<lparr>f_meta := (f_meta f)\<lparr>fm_has_data := h, fm_log_clean := c\<rparr>\<rparr> else f)"
proof -
  let ?m = "(f_meta f)\<lparr>fm_has_data := h, fm_log_clean := c\<rparr>"
  let ?Q = "{fm_meta_path (f_meta f), meta_tmp_path (getpid E) (fm_meta_path (f_meta f))}"
  obtain rm wm where mw: "bloomd_meta_write_atomic E ?m w = (rm, wm)" by fastforce
  have u: "w' = wm" "r = None \<longleftrightarrow> rm = None" using assms(4) mw by (auto simp: bloomd_update_filter_meta_state_def split: option.splits)
  show t: "touches ?Q {} w w'" using touches_meta_write(1) [OF assms(1) mw, of ?Q "{}"] u by simp
  show "own_step cfg f w w'" by (rule touches_mono [OF t]) (use own_paths_in [OF assms(2)] in auto)
  show f': "f' = (if r = None then f\<lparr>f_meta := ?m\<rparr> else f)" by (rule update_state_frame(2) [OF assms(4)])
  then show "own_paths cfg f'" using assms(2) by (simp add: own_paths_def)
  have "file_data (fm_meta_path (f_meta f)) w' = file_data (fm_meta_path (f_meta f)) w"
    "file_synced (fm_meta_path (f_meta f)) w' = file_synced (fm_meta_path (f_meta f)) w" if "rm = Some e" for e
    using only_files_file [OF assms(1) meta_write_err [OF assms(1) mw [unfolded that]], of "fm_meta_path (f_meta f)"] u by simp_all
  then show "on_disk f' w'"
    using f' u assms(3) meta_write_ok(2,3) [OF assms(1), of E ?m wm] mw by (cases rm) (auto simp: on_disk_def)
qed

lemma update_state_log:
  assumes "world_ok w" "own_paths cfg f" "on_disk f w" "bloomd_update_filter_meta_state E h c f w = (r, f', w')"
    "log_at f w ino"
  shows "log_at f' w' ino" "inodes w' ino = inodes w ino" "log_content mode f' ino w' = log_content mode f ino w"
proof -
  note u = update_state_disk [OF assms(1-4)]
  have s: "log_fd f' = log_fd f" "fm_log_path (f_meta f') = fm_log_path (f_meta f)" "log_buf f' = log_buf f" using u(5) by simp_all
  note l = log_at_frame [OF assms(1) u(1) assms(5) own_paths_in(4) [OF assms(2)] s(1,2)]
  then show "log_at f' w' ino" "inodes w' ino = inodes w ino" "log_content mode f' ino w' = log_content mode f ino w"
    by (simp_all add: log_content_def s(3))
qed

section \<open>Preparing an ADD\<close>

lemma open_log_disk:
  assumes w: "world_ok w" "0 \<le> next_fd w" and h: "bloomd_open_filter_log t f w = (r, f', w')"
  shows "touches {fm_log_path (f_meta f)} {} w w'" "f_meta f' = f_meta f"
    "log_history_incomplete f' = log_history_incomplete f"
    "r \<noteq> None \<Longrightarrow> log_fd f' < 0"
    "r = None \<Longrightarrow> \<exists>ino. log_at f' w' ino \<and> log_buf f' = [] \<and> (t \<longrightarrow> idata (inodes w' ino) = []) \<and>
      (\<forall>i. \<not> t \<longrightarrow> dirents w (fm_log_path (f_meta f)) = Some i \<longrightarrow> ino = i \<and> inodes w' i = inodes w i)"
proof -
  let ?lp = "fm_log_path (f_meta f)"
  obtain r1 w1 where o: "sys_open ?lp t w = (r1, w1)" by fastforce
  then have o': "(if t then bloomd_log_open_create ?lp w else bloomd_log_open_append ?lp w) = (r1, w1)"
    by (cases t) (simp_all add: bloomd_log_open_create_def bloomd_log_open_append_def)
  obtain now w2 where n: "bloomd_now_ms w1 = (now, w2)" by fastforce
  have t1: "touches {?lp} {} w w1" by (rule touches_open [OF w(1) o]) simp
  note t2 = touches_trans [OF t1 touches_now [OF touchesD(1) [OF t1] n]]
  have w2: "fdtab w2 = fdtab w1" "dirents w2 = dirents w1" "inodes w2 = inodes w1"
    using n by (auto simp: bloomd_now_ms_def split: list.splits)
  have "touches {?lp} {} w w' \<and> f_meta f' = f_meta f \<and> log_history_incomplete f' = log_history_incomplete f \<and>
    (r \<noteq> None \<longrightarrow> log_fd f' < 0) \<and>
    (r = None \<longrightarrow> (\<exists>ino. log_at f' w' ino \<and> log_buf f' = [] \<and> (t \<longrightarrow> idata (inodes w' ino) = []) \<and>
      (\<forall>i. \<not> t \<longrightarrow> dirents w ?lp = Some i \<longrightarrow> ino = i \<and> inodes w' i = inodes w i)))"
  proof (cases r1)
    case (Inl e)
    then show ?thesis using h t1 unfolding bloomd_open_filter_log_def o' by auto
  next
    case (Inr fd)
    from o [unfolded Inr] show ?thesis
    proof (cases rule: sys_open_Inr)
      case (1 ino x)
      then show ?thesis
        using h t2 w(2) w2 Inr unfolding bloomd_open_filter_log_def o'
        by (intro conjI impI exI [of _ ino]) (auto simp: n log_at_def)
    qed
  qed
  then show "touches {?lp} {} w w'" "f_meta f' = f_meta f" "log_history_incomplete f' = log_history_incomplete f"
    "r \<noteq> None \<Longrightarrow> log_fd f' < 0"
    "r = None \<Longrightarrow> \<exists>ino. log_at f' w' ino \<and> log_buf f' = [] \<and> (t \<longrightarrow> idata (inodes w' ino) = []) \<and>
      (\<forall>i. \<not> t \<longrightarrow> dirents w ?lp = Some i \<longrightarrow> ino = i \<and> inodes w' i = inodes w i)" by auto
qed

lemma touches_remove: "world_ok w \<Longrightarrow> p \<in> P \<Longrightarrow> touches P I w (snd (bloomd_remove_path_if_exists p w))"
  using touches_unlink [of w p P] by (auto simp: bloomd_remove_path_if_exists_def split: prod.splits option.splits)

lemma touches_unpin: "world_ok w \<Longrightarrow> touches P I w (snd (bloomd_bpf_unpin E p w))"
  by (rule touches_eq) (auto simp: bpf_call_defs split: prod.splits)

lemma touches_pin: "world_ok w \<Longrightarrow> bloomd_bpf_pin_map E fd p w = (r, w') \<Longrightarrow> touches P I w w'"
  by (rule touches_eq) (auto simp: bpf_call_defs split: prod.splits if_splits)

lemma own_step_trans: "own_step cfg f w v \<Longrightarrow> touches (own_files cfg (f_name f)) {} v u \<Longrightarrow> own_step cfg f w u"
  by (rule touches_trans)

text \<open>The undo of a durable transition: close and remove the log, remove the pin.\<close>

lemma undo_durable:
  assumes ok: "world_ok w" and own: "own_paths cfg f" and l: "log_at g w ino" "f_meta g = f_meta f" and od: "on_disk f w"
    and u: "u = snd (bloomd_bpf_unpin E pp (snd (bloomd_remove_path_if_exists (fm_log_path (f_meta f)) (sys_close (log_fd g) w))))"
  shows "own_step cfg f w u" "on_disk f u"
proof -
  let ?P = "own_files cfg (f_name f)" and ?lp = "fm_log_path (f_meta f)" and ?mp = "fm_meta_path (f_meta f)"
  let ?c = "sys_close (log_fd g) w"
  let ?v = "snd (bloomd_remove_path_if_exists ?lp ?c)"
  have lp: "?lp \<in> ?P" by (rule own_paths_in(2) [OF own])
  have t1: "touches ?P {} w ?c" using touches_close [OF ok log_at_mine [OF l(1)]] lp l(2) by simp
  note ok1 = touchesD(1) [OF t1] and t2 = touches_trans [OF t1 touches_remove [OF touchesD(1) [OF t1] lp]]
  show "own_step cfg f w u" unfolding u by (rule own_step_trans [OF t2 touches_unpin [OF touchesD(1) [OF t2]]])
  have "?mp \<notin> {?lp}" using own_paths_in(4) [OF own, of 0] by auto
  then have "on_disk f ?c \<Longrightarrow> on_disk f ?v" using touches_file [OF ok1 touches_remove [OF ok1], of ?lp "{?lp}"] by (simp add: on_disk_def)
  moreover have "on_disk f ?v \<Longrightarrow> on_disk f u"
    unfolding u using touches_file [OF touchesD(1) [OF t2] touches_unpin [OF touchesD(1) [OF t2]], where Q = "{}"] by (simp add: on_disk_def)
  moreover have "on_disk f ?c" using od by (simp add: on_disk_def file_data_def file_synced_def sys_close_def)
  ultimately show "on_disk f u" by blast
qed

lemma ensure_durable_good:
  assumes "calm_files w" "good cfg D f w" "bloomd_ensure_filter_durable E f w = (r, f', w')"
  shows "own_step cfg f w w' \<and> good cfg D f' w' \<and> f_name f' = f_name f"
proof (cases "fm_has_data (f_meta f)")
  case True
  then have "\<not> log_fd f < 0" using assms(2) by (auto simp: good_def log_ok_def log_at_def)
  then show ?thesis using assms True by (auto simp: bloomd_ensure_filter_durable_def calm_files_def)
next
  case False
  let ?lp = "fm_log_path (f_meta f)" and ?P = "own_files cfg (f_name f)"
  have g: "own_paths cfg f" "D = {}" "log_fd f < 0" "\<not> log_history_incomplete f" "on_disk f w"
    using assms(2) False by (auto simp: good_def log_ok_def)
  obtain r1 w1 where p: "bloomd_bpf_pin_map E (map_fd f) (fm_pin_path (f_meta f)) w = (r1, w1)" by fastforce
  have ok: "world_ok w" using assms(1) by (simp add: calm_files_def)
  have t1: "touches Q {} w w1" for Q by (rule touches_pin [OF ok p])
  note c1 = calm_files_step [OF assms(1) t1]
  obtain r2 f2 w2 where o: "bloomd_open_filter_log True f w1 = (r2, f2, w2)" using prod_cases3 by blast
  have "world_ok w1" "0 \<le> next_fd w1" using c1 by (simp_all add: calm_files_def)
  note op = open_log_disk [OF this o]
  have t2: "touches {?lp} {} w w2" by (rule touches_trans [OF t1 op(1)])
  have g2: "own_paths cfg f2" "on_disk f2 w2" "world_ok w2"
    using g(1) op(2) on_disk_log [OF ok g(1) t2 g(5)] touchesD(1) [OF t2] by (auto simp: own_paths_def)
  obtain r3 f3 w3 where u: "bloomd_update_filter_meta_state E True True f2 w2 = (r3, f3, w3)" using prod_cases3 by blast
  note up = update_state_disk [OF g2(3,1,2) u]
  have s2: "own_step cfg f w w2" by (rule own_step_log [OF g(1) t2])
  have s3: "own_step cfg f w w3" using own_step_trans [OF s2] up(2) op(2) by simp
  show ?thesis
  proof (cases "r1 = None \<and> r2 = None")
    case fail: False
    have nd: "\<not> fm_has_data (f_meta f2)" using op(2) False by simp
    have "touches ?P {} w (snd (bloomd_bpf_unpin E pp w2))" for pp by (rule own_step_trans [OF s2 touches_unpin [OF g2(3)]])
    moreover have "on_disk f2 (snd (bloomd_bpf_unpin E pp w2))" for pp
      using g2(2) touches_file [OF g2(3) touches_unpin [OF g2(3)], where Q = "{}"] by (simp add: on_disk_def)
    moreover have "on_disk f w1" using touches_file [OF ok t1, where p = "fm_meta_path (f_meta f)" and Q = "{}"] g(5) by (simp add: on_disk_def)
    ultimately show ?thesis
      using assms(3) False fail p o t1 op(2,3,4) g g2 nd
      by (auto simp: bloomd_ensure_filter_durable_def good_def log_ok_def split: option.splits)
  next
    case True
    from op(5) True obtain ino where l: "log_at f2 w2 ino" "log_buf f2 = []" "idata (inodes w2 ino) = []" by blast
    note ul = update_state_log [OF g2(3,1,2) u l(1)]
    show ?thesis
    proof (cases r3)
      case None
      then have "f' = f3" "w' = w3" using assms(3) False True p o u by (auto simp: bloomd_ensure_filter_durable_def)
      then show ?thesis
        using s3 up(3-5) None ul g(2,4) l op(2,3) by (auto simp: good_def log_ok_def safe_part_def in_log_def)
    next
      case (Some e)
      have f3: "f3 = f2" using up(5) Some by simp
      have "f' = f2\<lparr>log_fd := - 1\<rparr>" and w': "w' = snd (bloomd_bpf_unpin E (fm_pin_path (f_meta f))
          (snd (bloomd_remove_path_if_exists ?lp (sys_close (log_fd f2) w3))))"
        using assms(3) False True p o u Some f3 op(2) l(1)
        by (auto simp: bloomd_ensure_filter_durable_def Let_def bloomd_log_close_def bloomd_log_delete_def log_at_def)
      moreover have "on_disk f w3" "log_at f2 w3 ino" using up(3) f3 op(2) ul(1) by (simp_all add: on_disk_def)
      note ud = undo_durable [OF touchesD(1) [OF s3] g(1) this(2) op(2) this(1) w']
      ultimately show ?thesis
        using own_step_trans [OF s3 ud(1)] ud(2) g op(2,3) False by (auto simp: good_def log_ok_def own_paths_def on_disk_def)
    qed
  qed
qed

section \<open>The log of a filter with data\<close>

text \<open>
  Where it is, whole records, the digests \<open>R\<close> that are in it, and the digests \<open>S\<close> that are in the file, on stable storage too.
\<close>

definition log_state ::
  "bloomd_log_sync_mode \<Rightarrow> bloomd_filter \<Rightarrow> 'k world \<Rightarrow> nat \<Rightarrow> byte list set \<Rightarrow> byte list set \<Rightarrow> bool" where
  "log_state mode f w ino R S \<longleftrightarrow> log_at f w ino \<and> 16 dvd length (idata (inodes w ino)) \<and> 16 dvd length (log_buf f) \<and>
     R \<subseteq> set (log_records (log_content mode f ino w)) \<and> in_log S ino w"

lemma log_state_mono: "log_state mode f w ino R S \<Longrightarrow> R' \<subseteq> R \<Longrightarrow> S' \<subseteq> S \<Longrightarrow> log_state mode f w ino R' S'"
  by (auto simp: log_state_def in_log_def)

lemma log_state_cong:
  "log_state mode f w ino R S \<Longrightarrow> f_meta f' = f_meta f \<Longrightarrow> log_fd f' = log_fd f \<Longrightarrow> log_buf f' = log_buf f \<Longrightarrow>
    fdtab w' = fdtab w \<Longrightarrow> dirents w' = dirents w \<Longrightarrow> inodes w' = inodes w \<Longrightarrow> log_state mode f' w' ino R S"
  by (simp only: log_state_def log_at_def log_content_def in_log_def)

lemma good_data:
  assumes "good cfg D f w" "fm_has_data (f_meta f)"
  obtains ino where "log_state (log_sync_mode cfg) f w ino (if log_history_incomplete f then {} else D) (safe_part (log_sync_mode cfg) D f)"
proof -
  from assms obtain ino where l: "log_at f w ino" "16 dvd length (idata (inodes w ino))" "16 dvd length (log_buf f)"
    "\<not> log_history_incomplete f \<longrightarrow> D \<subseteq> set (log_records (log_content (log_sync_mode cfg) f ino w))"
    "in_log (safe_part (log_sync_mode cfg) D f) ino w"
    unfolding good_def log_ok_def by blast
  show thesis by (rule that [of ino]) (use l in \<open>simp add: log_state_def\<close>)
qed

lemma good_log:
  assumes "own_paths cfg f" "on_disk f w" "fm_has_data (f_meta f)" "log_history_incomplete f \<longrightarrow> \<not> fm_log_clean (f_meta f)"
    "log_state (log_sync_mode cfg) f w ino (if log_history_incomplete f then {} else D) (safe_part (log_sync_mode cfg) D f)"
  shows "good cfg D f w"
  using assms by (auto simp: good_def log_ok_def log_state_def split: if_splits)

text \<open>The clean mark may be set: nothing is missing in the log, and all of it is on stable storage.\<close>

definition restorable :: "bloomd_config \<Rightarrow> byte list set \<Rightarrow> bloomd_filter \<Rightarrow> 'k world \<Rightarrow> bool" where
  "restorable cfg D f w \<longleftrightarrow> \<not> log_history_incomplete f \<and> (\<exists>ino. log_state (log_sync_mode cfg) f w ino D D)"

lemma log_at_unique: "log_at f w i \<Longrightarrow> log_at f w j \<Longrightarrow> i = j"
  by (simp add: log_at_def)

lemma update_state_good:
  assumes "world_ok w" "good cfg D f w" "fm_has_data (f_meta f)" "c \<longrightarrow> restorable cfg D f w"
    "bloomd_update_filter_meta_state E True c f w = (r, f', w')"
  shows "own_step cfg f w w'" "good cfg D f' w'" "f_name f' = f_name f" "fm_has_data (f_meta f')"
    "log_history_incomplete f' = log_history_incomplete f" "log_fd f' = log_fd f" "fm_log_path (f_meta f') = fm_log_path (f_meta f)"
    "restorable cfg D f w \<Longrightarrow> restorable cfg D f' w'" "r = None \<Longrightarrow> fm_log_clean (f_meta f') = c"
proof -
  let ?mode = "log_sync_mode cfg"
  have g: "own_paths cfg f" "on_disk f w" using assms(2) by (simp_all add: good_def)
  note u = update_state_disk [OF assms(1) g assms(5)]
  show "own_step cfg f w w'" by (rule u(2))
  show s: "f_name f' = f_name f" "fm_has_data (f_meta f')" "log_history_incomplete f' = log_history_incomplete f"
    "log_fd f' = log_fd f" "fm_log_path (f_meta f') = fm_log_path (f_meta f)" "r = None \<Longrightarrow> fm_log_clean (f_meta f') = c"
    using u(5) assms(3) by simp_all
  have lb: "log_buf f' = log_buf f" using u(5) by simp
  have keep: "log_state ?mode f' w' ino R S" if "log_state ?mode f w ino R S" for ino R S
    using that update_state_log [OF assms(1) g assms(5), of ino] lb by (simp add: log_state_def in_log_def)
  show rs: "restorable cfg D f w \<Longrightarrow> restorable cfg D f' w'" using keep s(3) by (auto simp: restorable_def)
  obtain ino where l: "log_state ?mode f w ino (if log_history_incomplete f then {} else D) (safe_part ?mode D f)"
    using good_data [OF assms(2,3)] .
  have "\<exists>ino. log_state ?mode f' w' ino (if log_history_incomplete f' then {} else D) (safe_part ?mode D f')"
  proof (cases "r = None \<and> c")
    case True
    then show ?thesis using rs assms(4) s(6) by (auto simp: restorable_def safe_part_def)
  next
    case False
    then have "safe_part ?mode D f' \<subseteq> safe_part ?mode D f" using u(5) by (auto simp: safe_part_def)
    then show ?thesis using log_state_mono [OF keep [OF l] order_refl] s(3) by (intro exI [of _ ino]) simp
  qed
  then show "good cfg D f' w'"
    using good_log [OF u(4,3) s(2)] u(5) assms(2,4) by (auto simp: good_def log_ok_def restorable_def split: if_splits)
qed

lemma add_prepare_good:
  assumes "calm_files w" "good cfg D f w" "add_prepare E (log_sync_mode cfg) f w = (r, m, f', w')"
  shows "own_step cfg f w w'" "good cfg D f' w'" "f_name f' = f_name f"
    "r = None \<Longrightarrow> fm_has_data (f_meta f')" "m \<Longrightarrow> restorable cfg D f' w'"
    "r = None \<Longrightarrow> log_sync_mode cfg = LOG_SYNC_PERIODIC \<Longrightarrow> \<not> fm_log_clean (f_meta f')"
proof -
  obtain r1 f1 w1 where e: "bloomd_ensure_filter_durable E f w = (r1, f1, w1)" using prod_cases3 by blast
  have g1: "own_step cfg f w w1" "good cfg D f1 w1" "f_name f1 = f_name f" using ensure_durable_good [OF assms(1,2) e] by auto
  have d1: "r1 = None \<Longrightarrow> fm_has_data (f_meta f1)"
    using e by (auto simp: bloomd_ensure_filter_durable_def bloomd_update_filter_meta_state_def bloomd_open_filter_log_def Let_def
      split: if_splits option.splits prod.splits sum.splits)
  obtain r2 f2 w2 where u: "bloomd_update_filter_meta_state E True False f1 w1 = (r2, f2, w2)" using prod_cases3 by blast
  have h: "restorable cfg D f1 w1" if c: "fm_log_clean (f_meta f1)" "fm_has_data (f_meta f1)"
  proof -
    have "\<not> log_history_incomplete f1" using g1(2) c by (auto simp: good_def log_ok_def)
    then show ?thesis using good_data [OF g1(2) c(2)] c(1) by (auto simp: restorable_def safe_part_def)
  qed
  note up = update_state_good [OF touchesD(1) [OF g1(1)] g1(2) _ _ u]
  have "own_step cfg f w w' \<and> good cfg D f' w' \<and> f_name f' = f_name f \<and> (r = None \<longrightarrow> fm_has_data (f_meta f')) \<and>
    (m \<longrightarrow> restorable cfg D f' w') \<and> (r = None \<longrightarrow> log_sync_mode cfg = LOG_SYNC_PERIODIC \<longrightarrow> \<not> fm_log_clean (f_meta f'))"
    using assms(3) e u g1 d1 h up touches_trans [OF g1(1)]
    by (auto simp: add_prepare_def bloomd_mark_filter_log_dirty_def split: if_splits option.splits)
  then show "own_step cfg f w w'" "good cfg D f' w'" "f_name f' = f_name f"
    "r = None \<Longrightarrow> fm_has_data (f_meta f')" "m \<Longrightarrow> restorable cfg D f' w'"
    "r = None \<Longrightarrow> log_sync_mode cfg = LOG_SYNC_PERIODIC \<Longrightarrow> \<not> fm_log_clean (f_meta f')" by auto
qed

section \<open>The digests of an ADD\<close>

lemma records_append: "16 dvd length a \<Longrightarrow> set (log_records (a @ b)) = set (log_records a) \<union> set (log_records b)"
  using log_records_append [of a b] by (simp add: dvd_eq_mod_eq_0)

lemma records_digest: "length dg = 16 \<Longrightarrow> log_records dg = [dg]"
  using log_records_Cons [of dg "[]"] by simp

text \<open>What is in the log stays there when the file grows, and when what is there is synced.\<close>

lemma in_log_step:
  assumes "in_log S ino w" "16 dvd length (idata (inodes w ino))" "idata (inodes w' ino) = idata (inodes w ino) @ x"
    "isynced (inodes w' ino) = isynced (inodes w ino) \<or> isynced (inodes w' ino) = idata (inodes w' ino)"
  shows "in_log S ino w'"
  using assms by (auto simp: in_log_def records_append)

lemma log_at_same:
  "fdtab w' = fdtab w \<Longrightarrow> dirents w' = dirents w \<Longrightarrow> log_fd f' = log_fd f \<Longrightarrow> f_meta f' = f_meta f \<Longrightarrow>
    log_at f w ino \<Longrightarrow> log_at f' w' ino"
  by (simp add: log_at_def)

lemma log_at_mine1: "log_at f w ino \<Longrightarrow> mine {fm_log_path (f_meta f)} {} w (log_fd f)"
  by (rule log_at_mine) simp_all

lemma append_state:
  assumes "calm_files w" "log_state mode f w ino R S" "length dg = 16"
    "bloomd_log_buffer_append (log_fd f) (log_buf f) dg w = (r, b, w')"
  shows "touches {fm_log_path (f_meta f)} {} w w'" "log_state mode (f\<lparr>log_buf := b\<rparr>) w' ino R S"
    "r = None \<Longrightarrow> dg \<in> set (log_records (idata (inodes w' ino) @ b))"
    "r = None \<Longrightarrow> if length (log_buf f) + BLOOMD_DIGEST_SIZE > BLOOMD_LOG_BUFFER_CAP
      then idata (inodes w' ino) = idata (inodes w ino) @ log_buf f else w' = w \<and> b = log_buf f @ dg"
proof -
  have w: "world_ok w" "whole w" using assms(1) by (simp_all add: calm_files_def)
  have l: "log_at f w ino" "16 dvd length (idata (inodes w ino))" "16 dvd length (log_buf f)"
    using assms(2) by (auto simp: log_state_def)
  have fd: "fdtab w (log_fd f) = Some ino" using l(1) by (simp add: log_at_def)
  note al = append_log [OF w log_at_mine1 [OF l(1)] fd assms(4)]
  have at: "log_at (f\<lparr>log_buf := b\<rparr>) w' ino" by (rule log_at_same [OF al(2,3) _ _ l(1)]) simp_all
  have dg: "log_records dg = [dg]" by (rule records_digest [OF assms(3)])
  show "touches {fm_log_path (f_meta f)} {} w w'" by (rule al(1))
  have "\<exists>x. idata (inodes w' ino) = idata (inodes w ino) @ x" using al(5) by auto
  then have "in_log S ino w'" using in_log_step [OF _ l(2), of S w'] al(4) assms(2) by (auto simp: log_state_def)
  then show "log_state mode (f\<lparr>log_buf := b\<rparr>) w' ino R S"
    using al(5) at l assms(2,3) by (auto simp: log_state_def log_content_def records_append)
  show "r = None \<Longrightarrow> dg \<in> set (log_records (idata (inodes w' ino) @ b))"
    using al(5) l dg by (auto simp: records_append)
  show "r = None \<Longrightarrow> if length (log_buf f) + BLOOMD_DIGEST_SIZE > BLOOMD_LOG_BUFFER_CAP
      then idata (inodes w' ino) = idata (inodes w ino) @ log_buf f else w' = w \<and> b = log_buf f @ dg"
    using al(5) by auto
qed

lemma flush_state:
  assumes "calm_files w" "log_state mode f w ino R S"
    "bloomd_log_buffer_flush (log_fd f) (log_buf f) sy w = (r, b, w')"
  shows "touches {fm_log_path (f_meta f)} {} w w'" "log_state mode (f\<lparr>log_buf := b\<rparr>) w' ino R S"
    "\<exists>x. idata (inodes w' ino) = idata (inodes w ino) @ x"
    "r = None \<Longrightarrow> b = [] \<and> idata (inodes w' ino) = idata (inodes w ino) @ log_buf f"
    "r = None \<Longrightarrow> sy \<Longrightarrow> isynced (inodes w' ino) = idata (inodes w' ino)"
proof -
  have w: "world_ok w" "whole w" using assms(1) by (simp_all add: calm_files_def)
  have l: "log_at f w ino" "16 dvd length (idata (inodes w ino))" "16 dvd length (log_buf f)"
    using assms(2) by (auto simp: log_state_def)
  have fd: "fdtab w (log_fd f) = Some ino" "log_fd f \<ge> 0" using l(1) by (simp_all add: log_at_def)
  note al = flush_log [OF w log_at_mine1 [OF l(1)] fd assms(3)]
  have at: "log_at (f\<lparr>log_buf := b\<rparr>) w' ino" by (rule log_at_same [OF al(2,3) _ _ l(1)]) simp_all
  show "touches {fm_log_path (f_meta f)} {} w w'" by (rule al(1))
  show x: "\<exists>x. idata (inodes w' ino) = idata (inodes w ino) @ x" using al(4) by auto
  then have "in_log S ino w'" using in_log_step [OF _ l(2), of S w'] al(5) assms(2) by (auto simp: log_state_def)
  then show "log_state mode (f\<lparr>log_buf := b\<rparr>) w' ino R S"
    using al(4) at l assms(2) by (auto simp: log_state_def log_content_def records_append)
  show "r = None \<Longrightarrow> sy \<Longrightarrow> isynced (inodes w' ino) = idata (inodes w' ino)" by (rule al(6))
  show "r = None \<Longrightarrow> b = [] \<and> idata (inodes w' ino) = idata (inodes w ino) @ log_buf f" using al(4) by auto
qed

lemma stage_log_periodic:
  assumes "calm_files w" "log_state LOG_SYNC_PERIODIC f w ino R S" "length dg = 16"
    "bloomd_stage_digest_for_add dg LOG_SYNC_PERIODIC f w = (r, st, f', w')"
  shows "touches {fm_log_path (f_meta f)} {} w w' \<and> log_state LOG_SYNC_PERIODIC f' w' ino R S \<and>
    (r = None \<longrightarrow> log_state LOG_SYNC_PERIODIC f' w' ino (insert dg R) S \<and>
      (if overflow_flush st then idata (inodes w' ino) = idata (inodes w ino) @ log_buf f
       else w' = w \<and> log_buf f' = log_buf f @ dg \<and> prev_buf_len st = length (log_buf f)))"
proof -
  obtain r1 b w1 where a: "bloomd_log_buffer_append (log_fd f) (log_buf f) dg w = (r1, b, w1)" using prod_cases3 by blast
  have st: "r = r1" "w' = w1" "f' = f\<lparr>log_buf := b\<rparr>" "prev_buf_len st = length (log_buf f)"
    "overflow_flush st \<longleftrightarrow> length (log_buf f) + BLOOMD_DIGEST_SIZE > BLOOMD_LOG_BUFFER_CAP"
    using assms(4) a by (auto simp: bloomd_stage_digest_for_add_def Let_def split: option.splits)
  from append_state [OF assms(1-3) a] show ?thesis using st by (auto simp: log_state_def log_content_def)
qed

lemma stage_log_always:
  assumes "calm_files w" "log_state LOG_SYNC_ALWAYS f w ino R S" "length dg = 16"
    "bloomd_stage_digest_for_add dg LOG_SYNC_ALWAYS f w = (r, st, f', w')"
  shows "touches {fm_log_path (f_meta f)} {} w w' \<and> log_state LOG_SYNC_ALWAYS f' w' ino R S \<and>
    (r = None \<longrightarrow> log_state LOG_SYNC_ALWAYS f' w' ino (insert dg R) (insert dg S) \<and> prev_file_size st = length (idata (inodes w ino)) \<and>
      (\<exists>x. idata (inodes w' ino) = idata (inodes w ino) @ x))"
proof -
  have ok: "world_ok w" using assms(1) by (simp add: calm_files_def)
  have l: "log_at f w ino" using assms(2) by (simp add: log_state_def)
  obtain r0 w0 where ls: "sys_lseek_end (log_fd f) w = (r0, w0)" by fastforce
  note t0 = touches_lseek [OF ok ls]
  have w0: "fdtab w0 = fdtab w" "dirents w0 = dirents w" "inodes w0 = inodes w" by (subst t0(2), simp)+
  have s0: "log_state LOG_SYNC_ALWAYS f w0 ino R S"
    using assms(2) w0 by (simp add: log_state_def log_at_def log_content_def in_log_def)
  obtain r1 b1 w1 where a: "bloomd_log_buffer_append (log_fd f) (log_buf f) dg w0 = (r1, b1, w1)" using prod_cases3 by blast
  note al = append_state [OF calm_files_step [OF assms(1) t0(1)] s0 assms(3) a]
  note t1 = touches_trans [OF t0(1) al(1)]
  obtain r2 b2 w2 where fl: "bloomd_log_buffer_flush (log_fd f) b1 True w1 = (r2, b2, w2)" using prod_cases3 by blast
  note f = flush_state [OF calm_files_step [OF assms(1) t1] al(2), simplified, OF fl]
  note t2 = touches_trans [OF t1 f(1)]
  have x: "r1 = None \<Longrightarrow> \<exists>x. idata (inodes w1 ino) = idata (inodes w ino) @ x" using al(4) w0(3) by (auto split: if_splits)
  consider e where "r0 = Inl e" "r = Some e" "f' = f" "w' = w0"
    | n e where "r0 = Inr n" "r1 = Some e" "r = Some e" "f' = f\<lparr>log_buf := b1\<rparr>" "w' = w1"
    | n where "r0 = Inr n" "r1 = None" "r = r2" "f' = f\<lparr>log_buf := b2\<rparr>" "w' = w2" "prev_file_size st = n"
    using assms(4) ls a fl by (auto simp: bloomd_stage_digest_for_add_def Let_def split: sum.splits option.splits)
  then show ?thesis
  proof cases
    case 1
    then show ?thesis using t0(1) s0 by simp
  next
    case 2
    then show ?thesis using t1 al(2) by simp
  next
    case (3 n)
    have n: "n = length (idata (inodes w ino))" using t0(3) 3(1) l by (simp add: log_at_def)
    have "log_state LOG_SYNC_ALWAYS f' w' ino (insert dg R) (insert dg S)" if "r2 = None"
      using f(2,4,5) al(3) that 3 by (auto simp: log_state_def log_content_def in_log_def)
    then show ?thesis using t2 f(2,3) 3 n x by auto
  qed
qed

text \<open>Undoing a staged digest; the kernel has refused it in between.\<close>

lemma rollback_log_periodic:
  assumes "calm_files w" "log_state LOG_SYNC_PERIODIC f w ino R S" "length dg = 16"
    "bloomd_stage_digest_for_add dg LOG_SYNC_PERIODIC f w = (None, st, f', w')"
    "bloomd_rollback_staged_digest st LOG_SYNC_PERIODIC f' (w'\<lparr>kern := k\<rparr>) = (f'', w'')"
  shows "touches {fm_log_path (f_meta f)} {} w w'' \<and> log_state LOG_SYNC_PERIODIC f'' w'' ino R S"
proof -
  note s = stage_log_periodic [OF assms(1-4)]
  have m: "f_meta f' = f_meta f" "log_fd f' = log_fd f" by (subst stage_frame(2) [OF assms(4)], simp)+
  have t: "touches {fm_log_path (f_meta f)} {} w w'" using s by simp
  have "touches {fm_log_path (f_meta f)} {} w (w'\<lparr>kern := k\<rparr>)" by (rule touches_trans [OF t touches_kern [OF touchesD(1) [OF t] refl]])
  then show ?thesis
    using assms(2,5) s m
    by (auto simp: bloomd_rollback_staged_digest_def log_state_def log_at_def log_content_def in_log_def split: if_splits)
qed

lemma truncate_log:
  assumes "world_ok w" "log_at f w ino" "bloomd_log_truncate (log_fd f) n sy w = (r, w')" "n \<le> length (idata (inodes w ino))"
  shows "touches {fm_log_path (f_meta f)} {} w w' \<and> log_at f w' ino \<and>
    (idata (inodes w' ino) = idata (inodes w ino) \<or> idata (inodes w' ino) = take n (idata (inodes w ino))) \<and>
    (isynced (inodes w' ino) = isynced (inodes w ino) \<or> isynced (inodes w' ino) = idata (inodes w' ino))"
proof -
  let ?Q = "{fm_log_path (f_meta f)}"
  have fd: "\<not> log_fd f < 0" "fdtab w (log_fd f) = Some ino" using assms(2) by (simp_all add: log_at_def)
  note mi = log_at_mine1 [OF assms(2)]
  obtain r1 w1 where tr: "sys_ftruncate (log_fd f) n w = (r1, w1)" by fastforce
  note t1 = touches_ftruncate [OF assms(1) mi tr]
  have mi1: "mine ?Q {} w1 (log_fd f)" using mi t1 by (simp add: mine_def)
  have tt: "touches ?Q {} w w1" using t1 by simp
  obtain r2 w2 where sy: "sys_fsync (log_fd f) w1 = (r2, w2)" by fastforce
  note t2 = touches_fsync [OF touchesD(1) [OF tt] mi1 sy]
  have t3: "touches ?Q {} w w2" using touches_trans [OF tt] t2 by simp
  have "w' = w1 \<or> w' = w2"
    using assms(3) tr sy fd by (auto simp: bloomd_log_truncate_def bloomd_log_sync_def split: option.splits if_splits)
  moreover have "idata (inodes w1 ino) = idata (inodes w ino) \<or> idata (inodes w1 ino) = take n (idata (inodes w ino))"
    using t1 fd(2) assms(4) by auto
  moreover have "isynced (inodes w2 ino) = isynced (inodes w ino) \<or> isynced (inodes w2 ino) = idata (inodes w2 ino)"
    "isynced (inodes w1 ino) = isynced (inodes w ino)" using t1 t2 by metis+
  ultimately show ?thesis using tt t3 t1 t2 assms(2) by (auto simp: log_at_def)
qed

lemma rollback_log_always:
  assumes "calm_files w" "log_state LOG_SYNC_ALWAYS f w ino R S" "length dg = 16"
    "bloomd_stage_digest_for_add dg LOG_SYNC_ALWAYS f w = (None, st, f', w')"
    "bloomd_rollback_staged_digest st LOG_SYNC_ALWAYS f' (w'\<lparr>kern := k\<rparr>) = (f'', w'')"
  shows "touches {fm_log_path (f_meta f)} {} w w'' \<and> log_state LOG_SYNC_ALWAYS f'' w'' ino R S"
proof -
  let ?Q = "{fm_log_path (f_meta f)}" and ?w = "w'\<lparr>kern := k\<rparr>" and ?n = "prev_file_size st"
  note s = stage_log_always [OF assms(1-4)]
  have m: "f_meta f' = f_meta f" "log_fd f' = log_fd f" by (subst stage_frame(2) [OF assms(4)], simp)+
  have t: "touches ?Q {} w w'" using s by simp
  have tk: "touches ?Q {} w ?w" by (rule touches_trans [OF t touches_kern [OF touchesD(1) [OF t] refl]])
  have at: "log_at f' ?w ino" using s by (simp add: log_state_def log_at_def)
  obtain x where x: "idata (inodes ?w ino) = idata (inodes w ino) @ x" "?n = length (idata (inodes w ino))" using s by auto
  obtain r1 w1 where tr: "bloomd_log_truncate (log_fd f') ?n True ?w = (r1, w1)" by fastforce
  have n: "?n \<le> length (idata (inodes ?w ino))" using x by simp
  note tl = truncate_log [OF touchesD(1) [OF tk] at tr n]
  have w'': "f'' = f'\<lparr>log_buf := [], log_dirty := False\<rparr>" "w'' = ?w \<or> w'' = w1"
    using assms(5) tr by (auto simp: bloomd_rollback_staged_digest_def split: if_splits)
  have "touches ?Q {} w w''" using w''(2) tk touches_trans [OF tk] tl m by auto
  then show ?thesis
    using w'' s tl at x assms(2) by (auto simp: log_state_def log_content_def log_at_def in_log_def)
qed

lemma stage_log:
  assumes "calm_files w" "log_state mode f w ino R S" "length dg = 16" "bloomd_stage_digest_for_add dg mode f w = (r, st, f', w')"
  shows "touches {fm_log_path (f_meta f)} {} w w'" "log_state mode f' w' ino R S" "r = None \<Longrightarrow> log_state mode f' w' ino (insert dg R) (if mode = LOG_SYNC_ALWAYS then insert dg S else S)"
    "r = None \<Longrightarrow> bloomd_rollback_staged_digest st mode f' (w'\<lparr>kern := k\<rparr>) = (f'', w'') \<Longrightarrow>
      touches {fm_log_path (f_meta f)} {} w w'' \<and> log_state mode f'' w'' ino R S"
proof -
  have "touches {fm_log_path (f_meta f)} {} w w' \<and> log_state mode f' w' ino R S \<and> (r = None \<longrightarrow> log_state mode f' w' ino (insert dg R) (if mode = LOG_SYNC_ALWAYS then insert dg S else S)) \<and>
    (r = None \<longrightarrow> bloomd_rollback_staged_digest st mode f' (w'\<lparr>kern := k\<rparr>) = (f'', w'') \<longrightarrow>
      touches {fm_log_path (f_meta f)} {} w w'' \<and> log_state mode f'' w'' ino R S)"
  proof (cases mode)
    case LOG_SYNC_PERIODIC
    note a = assms [unfolded LOG_SYNC_PERIODIC]
    show ?thesis
      using stage_log_periodic [OF a] rollback_log_periodic [OF a(1-3), of st f' w' k f'' w''] a(4) unfolding LOG_SYNC_PERIODIC by simp
  next
    case LOG_SYNC_ALWAYS
    note a = assms [unfolded LOG_SYNC_ALWAYS]
    show ?thesis
      using stage_log_always [OF a] rollback_log_always [OF a(1-3), of st f' w' k f'' w''] a(4) unfolding LOG_SYNC_ALWAYS by simp
  qed
  then show "touches {fm_log_path (f_meta f)} {} w w'" "log_state mode f' w' ino R S" "r = None \<Longrightarrow> log_state mode f' w' ino (insert dg R) (if mode = LOG_SYNC_ALWAYS then insert dg S else S)"
    "r = None \<Longrightarrow> bloomd_rollback_staged_digest st mode f' (w'\<lparr>kern := k\<rparr>) = (f'', w'') \<Longrightarrow>
      touches {fm_log_path (f_meta f)} {} w w'' \<and> log_state mode f'' w'' ino R S" by simp_all
qed

text \<open>The whole step of one digest: staged, pushed into the map, committed or undone.\<close>

text \<open>After a change of the log alone.\<close>

lemma good_after_log:
  assumes "world_ok w" "good cfg D f w" "fm_has_data (f_meta f)" "touches {fm_log_path (f_meta f)} {} w w'"
    "f_meta f' = f_meta f" "log_history_incomplete f' = log_history_incomplete f"
    "log_state (log_sync_mode cfg) f' w' ino (if log_history_incomplete f then {} else D') S" "safe_part (log_sync_mode cfg) D' f \<subseteq> S"
  shows "good cfg D' f' w'" "own_step cfg f w w'"
proof -
  have g: "own_paths cfg f" "on_disk f w" "log_history_incomplete f \<longrightarrow> \<not> fm_log_clean (f_meta f)"
    using assms(2) by (auto simp: good_def log_ok_def)
  show "own_step cfg f w w'" by (rule own_step_log [OF g(1) assms(4)])
  have "safe_part (log_sync_mode cfg) D' f' \<subseteq> S" using assms(5,6,8) by (simp add: safe_part_def)
  from log_state_mono [OF assms(7) order_refl this] show "good cfg D' f' w'"
    by (intro good_log [where ino = ino])
      (use g on_disk_log [OF assms(1) g(1) assms(4) g(2) assms(5)] assms(3,5,6) in \<open>simp_all add: own_paths_def\<close>)
qed

lemma restore_good:
  assumes "world_ok w" "good cfg D f w" "fm_has_data (f_meta f)" "b \<longrightarrow> restorable cfg D f w" "restore_clean_mark E b f w = (f', w')"
  shows "own_step cfg f w w' \<and> good cfg D f' w' \<and> f_name f' = f_name f"
proof -
  obtain r1 f1 w1 where u: "bloomd_update_filter_meta_state E True True f w = (r1, f1, w1)" using prod_cases3 by blast
  show ?thesis
    using assms u update_state_good(1-3) [OF assms(1-3) _ u] by (auto simp: restore_clean_mark_def split: if_splits)
qed

text \<open>The log an ADD starts from: when the mark was lowered for it, all digests are on stable storage.\<close>

abbreviation ready_part :: "bloomd_config \<Rightarrow> bool \<Rightarrow> byte list set \<Rightarrow> bloomd_filter \<Rightarrow> byte list set" where
  "ready_part cfg b D f \<equiv> if b then D else safe_part (log_sync_mode cfg) D f"

lemma safe_part_sub: "safe_part mode D f \<subseteq> D"
  by (simp add: safe_part_def)

lemma ready_state:
  assumes "good cfg D f w" "fm_has_data (f_meta f)" "b \<longrightarrow> restorable cfg D f w"
  obtains ino where "log_state (log_sync_mode cfg) f w ino (if log_history_incomplete f then {} else D) (ready_part cfg b D f)"
proof -
  obtain ino where l: "log_state (log_sync_mode cfg) f w ino (if log_history_incomplete f then {} else D) (safe_part (log_sync_mode cfg) D f)"
    using good_data [OF assms(1,2)] .
  have "log_state (log_sync_mode cfg) f w ino D D" "\<not> log_history_incomplete f" if b
    using assms(3) that l log_at_unique [of f w ino] by (auto simp: restorable_def log_state_def)
  then show thesis using that [of ino] l by (cases b) simp_all
qed

text \<open>After the log changed and the digest was not taken, the mark may come back.\<close>

lemma refused_good:
  assumes "world_ok w" "good cfg D f w" "fm_has_data (f_meta f)" "b \<longrightarrow> \<not> log_history_incomplete f"
    "touches {fm_log_path (f_meta f)} {} w w1" "f_meta f1 = f_meta f" "log_history_incomplete f1 = log_history_incomplete f"
    "log_state (log_sync_mode cfg) f1 w1 ino (if log_history_incomplete f then {} else D) (ready_part cfg b D f)"
    "restore_clean_mark E b f1 w1 = (f', w')"
  shows "own_step cfg f w w' \<and> good cfg D f' w' \<and> f_name f' = f_name f"
proof -
  note g = good_after_log [OF assms(1-3,5-8)]
  have s: "safe_part (log_sync_mode cfg) D f \<subseteq> ready_part cfg b D f" using safe_part_sub by auto
  have "b \<longrightarrow> restorable cfg D f1 w1" using assms(4,7,8) by (auto simp: restorable_def split: if_splits)
  then have "own_step cfg f1 w1 w' \<and> good cfg D f' w' \<and> f_name f' = f_name f1"
    by (intro restore_good [OF touchesD(1) [OF assms(5)] g(1) [OF s] _ _ assms(9)]) (use assms in simp_all)
  then show ?thesis using touches_trans [OF g(2) [OF s]] assms(6) by simp
qed

lemma committed_good:
  assumes "world_ok w" "good cfg D f w" "fm_has_data (f_meta f)" "touches {fm_log_path (f_meta f)} {} w w1"
    "f_meta f1 = f_meta f" "log_history_incomplete f1 = log_history_incomplete f"
    "log_state (log_sync_mode cfg) f1 w1 ino (if log_history_incomplete f then {} else D') (safe_part (log_sync_mode cfg) D' f)"
    "bloomd_commit_staged_digest (log_sync_mode cfg) f1 (w1\<lparr>kern := k\<rparr>) = (f', w')"
  shows "own_step cfg f w w' \<and> good cfg D' f' w' \<and> f_meta f' = f_meta f \<and> log_history_incomplete f' = log_history_incomplete f"
proof -
  have f': "f_meta f' = f_meta f" "log_history_incomplete f' = log_history_incomplete f" "log_fd f' = log_fd f1" "log_buf f' = log_buf f1"
    and w': "fdtab w' = fdtab w1" "dirents w' = dirents w1" "inodes w' = inodes w1"
    using assms(5,6,8) by (auto simp: bloomd_commit_staged_digest_def bloomd_now_ms_def split: if_splits list.splits)
  have "touches {fm_log_path (f_meta f)} {} w1 w'"
    using assms(8) touchesD(1) [OF assms(4)]
    by (intro touches_eq) (auto simp: bloomd_commit_staged_digest_def bloomd_now_ms_def split: if_splits list.splits)
  note t = touches_trans [OF assms(4) this]
  have "log_state (log_sync_mode cfg) f' w' ino (if log_history_incomplete f then {} else D') (safe_part (log_sync_mode cfg) D' f)"
    by (rule log_state_cong [OF assms(7)]) (use assms(5) f' w' in simp_all)
  from good_after_log [OF assms(1-3) t f'(1,2) this order_refl] show ?thesis using f' by simp
qed

lemma add_staged_good:
  assumes "calm_files w" "good cfg D f w" "fm_has_data (f_meta f)" "b \<longrightarrow> restorable cfg D f w"
    "log_sync_mode cfg = LOG_SYNC_PERIODIC \<longrightarrow> \<not> fm_log_clean (f_meta f)" "length dg = 16"
    "add_staged E (log_sync_mode cfg) b dg f w = (r, f', w')"
  shows "own_step cfg f w w' \<and> good cfg (if r = None then insert dg D else D) f' w' \<and> f_name f' = f_name f \<and>
    (r = None \<longrightarrow> f_meta f' = f_meta f)"
proof -
  let ?mode = "log_sync_mode cfg" and ?R = "\<lambda>D. if log_history_incomplete f then {} else D"
  have ok: "world_ok w" using assms(1) by (simp add: calm_files_def)
  have b: "b \<longrightarrow> \<not> log_history_incomplete f" using assms(4) by (simp add: restorable_def)
  obtain ino where l: "log_state ?mode f w ino (?R D) (ready_part cfg b D f)" using ready_state [OF assms(2-4)] .
  obtain r1 st f1 w1 where s: "bloomd_stage_digest_for_add dg ?mode f w = (r1, st, f1, w1)" using prod_cases4 by blast
  note sl = stage_log [OF assms(1) l assms(6) s]
  have f1: "f_meta f1 = f_meta f" "log_history_incomplete f1 = log_history_incomplete f" by (subst stage_frame(2) [OF s], simp)+
  obtain r2 w2 where ad: "bloomd_bpf_add_digest E (map_fd f1) dg w1 = (r2, w2)" by fastforce
  then obtain k where w2: "w2 = w1\<lparr>kern := k\<rparr>" by (auto simp: bpf_call_defs split: prod.splits if_splits)
  obtain f3 w3 where rb: "bloomd_rollback_staged_digest st ?mode f1 w2 = (f3, w3)" by fastforce
  have f3: "f_meta f3 = f_meta f" "log_history_incomplete f3 = log_history_incomplete f"
    using rb f1 by (auto simp: bloomd_rollback_staged_digest_def split: if_splits)
  consider (stage) e where "r1 = Some e" "r \<noteq> None" "restore_clean_mark E b f1 w1 = (f', w')"
    | (refused) "r1 = None" "r \<noteq> None" "restore_clean_mark E b f3 w3 = (f', w')"
    | (added) "r1 = None" "r = None" "bloomd_commit_staged_digest ?mode f1 (w1\<lparr>kern := k\<rparr>) = (f', w')"
    using assms(7) s ad rb w2 by (auto simp: add_staged_def split: option.splits prod.splits)
  then show ?thesis
  proof cases
    case stage
    then show ?thesis using refused_good [OF ok assms(2,3) b sl(1) f1 sl(2)] by auto
  next
    case refused
    have "touches {fm_log_path (f_meta f)} {} w w3" "log_state ?mode f3 w3 ino (?R D) (ready_part cfg b D f)"
      using sl(4) [OF refused(1), of k f3 w3] rb w2 by auto
    from refused_good [OF ok assms(2,3) b this(1) f3 this(2)] show ?thesis using refused by auto
  next
    case added
    have "safe_part ?mode (insert dg D) f \<subseteq> (if ?mode = LOG_SYNC_ALWAYS then insert dg (ready_part cfg b D f) else ready_part cfg b D f)"
      using assms(5) by (cases ?mode) (auto simp: safe_part_def)
    then have "log_state ?mode f1 w1 ino (?R (insert dg D)) (safe_part ?mode (insert dg D) f)"
      by (intro log_state_mono [OF sl(3) [OF added(1)]]) auto
    from committed_good [OF ok assms(2,3) sl(1) f1 this added(3)] show ?thesis using added(2) by simp
  qed
qed

section \<open>Syncing\<close>

text \<open>A flush with sync that succeeds leaves nothing to lose.\<close>

lemma flushed_restorable:
  assumes "log_state mode (f\<lparr>log_buf := []\<rparr>) w ino D S" "isynced (inodes w ino) = idata (inodes w ino)" "\<not> log_history_incomplete f"
    "mode = log_sync_mode cfg" "g = f\<lparr>log_buf := [], last_log_sync_ms := t, log_dirty := b\<rparr>"
  shows "restorable cfg D g w"
proof -
  have "log_state mode g w ino D D" using assms(1,2,5) by (auto simp: log_state_def log_at_def log_content_def in_log_def split: if_splits)
  then show ?thesis using assms(3-5) by (auto simp: restorable_def)
qed

lemma sync_good:
  assumes "calm_files w" "good cfg D f w" "sync_dirty_log E now force f w = (f', w')"
  shows "own_step cfg f w w' \<and> good cfg D f' w' \<and> f_name f' = f_name f"
proof (cases "fm_has_data (f_meta f)")
  case True
  have ok: "world_ok w" using assms(1) by (simp add: calm_files_def)
  let ?R = "if log_history_incomplete f then {} else D" and ?S = "safe_part (log_sync_mode cfg) D f"
  obtain ino where l: "log_state (log_sync_mode cfg) f w ino ?R ?S" using good_data [OF assms(2) True] .
  obtain r1 b1 w1 where fl: "bloomd_log_buffer_flush (log_fd f) (log_buf f) True w = (r1, b1, w1)" using prod_cases3 by blast
  note fs = flush_state [OF assms(1) l fl]
  let ?g = "f\<lparr>log_buf := b1, last_log_sync_ms := now\<rparr>" and ?h = "f\<lparr>log_buf := b1, last_log_sync_ms := now, log_dirty := False\<rparr>"
  have "log_state (log_sync_mode cfg) ?g w1 ino ?R ?S" "log_state (log_sync_mode cfg) ?h w1 ino ?R ?S"
    by (rule log_state_cong [OF fs(2)]; simp)+
  note g = good_after_log [OF ok assms(2) True fs(1) _ _ this(1) order_refl] and h = good_after_log [OF ok assms(2) True fs(1) _ _ this(2) order_refl]
  obtain r2 f2 w2 where u: "bloomd_update_filter_meta_state E True True ?h w1 = (r2, f2, w2)" using prod_cases3 by blast
  have hh: "good cfg D ?h w1" "own_step cfg f w w1" using h by simp_all
  have rs: "restorable cfg D ?h w1" if "r1 = None" "\<not> log_history_incomplete f"
    using flushed_restorable [OF _ fs(5) [OF that(1)] that(2), of _ D ?S cfg ?h] fs(2) fs(4) [OF that(1)] that(2) by simp
  note up = update_state_good(1-3) [OF touchesD(1) [OF fs(1)] hh(1) _ _ u, simplified]
  show ?thesis
    using assms fl u g h rs up True touches_trans [OF hh(2)] touches_refl [OF ok]
    by (auto simp: sync_dirty_log_def Let_def split: if_splits)
next
  case False
  have "touches P I w w" for P I using assms(1) by (auto simp: calm_files_def)
  then show ?thesis
    using assms False
    by (auto simp: sync_dirty_log_def bloomd_log_buffer_flush_def good_def log_ok_def own_paths_def on_disk_def Let_def split: if_splits)
qed

end
