(* ===== verification/Disk_Store.thy ===== *)
theory Disk_Store
  imports Log_Complete Server_Correct
begin

text \<open>
  Every request and every sync keeps the disk and the filters of the daemon together: \<open>store_ok\<close> says that all
  filters are \<open>good\<close>, their metadata files as in memory and their logs complete, and it is kept whatever calls fail.
\<close>

section \<open>All filters\<close>

definition store_ok ::
  "('k \<Rightarrow> bool) \<Rightarrow> ('k \<Rightarrow> int \<Rightarrow> nat option) \<Rightarrow> ('k \<Rightarrow> nat \<Rightarrow> byte list set) \<Rightarrow> bloomd_config \<Rightarrow> 'k daemon \<Rightarrow> bool" where
  "store_ok kinv obj held cfg d \<longleftrightarrow> daemon_inv kinv obj held d \<and> calm_files (d_world d) \<and>
     (\<forall>n f D. lookup (d_set d) n = Some f \<longrightarrow> abs_filters obj held d n = Some D \<longrightarrow> good cfg D f (d_world d))"

lemma store_okD:
  assumes "store_ok kinv obj held cfg d"
  shows "daemon_inv kinv obj held d" "calm_files (d_world d)" "world_ok (d_world d)" "set_ok (d_set d)" "kinv (kern (d_world d))"
    "lookup (d_set d) n = Some f \<Longrightarrow> abs_filters obj held d n = Some D \<Longrightarrow> good cfg D f (d_world d)"
  using assms by (auto simp: store_ok_def daemon_inv_def)

text \<open>A step on the files of one name leaves the filters of all other names as they are.\<close>

lemma good_other:
  assumes "world_ok w" "touches (own_files cfg n) {} w w'" "bloomd_name_is_valid n" "f_name g \<noteq> n" "good cfg D g w"
  shows "good cfg D g w'"
proof -
  have g: "own_paths cfg g" "on_disk g w" "log_ok (log_sync_mode cfg) D g w" using assms(5) by (simp_all add: good_def)
  have p: "fm_meta_path (f_meta g) \<notin> own_files cfg n" "fm_log_path (f_meta g) \<notin> own_files cfg n"
    using g(1) own_files_disjoint [of "f_name g" n cfg] assms(3,4) by (auto simp: own_paths_def)
  have "on_disk g w'" using g(2) touches_file [OF assms(1,2) p(1)] by (simp add: on_disk_def)
  moreover have "log_ok (log_sync_mode cfg) D g w'"
    using g(3) log_at_frame [OF assms(1,2) _ p(2) refl refl] by (fastforce simp: log_ok_def log_content_def in_log_def)
  ultimately show ?thesis using g(1) by (simp add: good_def)
qed

lemma good_counters [simp]:
  "good cfg D (f\<lparr>add_calls := x\<rparr>) w = good cfg D f w" "good cfg D (f\<lparr>check_calls := x\<rparr>) w = good cfg D f w"
  "good cfg D (f\<lparr>batch_add_calls := x\<rparr>) w = good cfg D f w" "good cfg D (f\<lparr>batch_check_calls := x\<rparr>) w = good cfg D f w"
  by (simp_all add: good_def own_paths_def on_disk_def log_ok_def log_at_def log_content_def safe_part_def)

lemma good_world:
  assumes "dirents w' = dirents w" "inodes w' = inodes w" "fdtab w' = fdtab w"
  shows "good cfg D f w' = good cfg D f w"
  unfolding good_def on_disk_def log_ok_def log_at_def log_content_def file_data_def file_synced_def in_log_def assms ..

lemma good_kern: "good cfg D f (w\<lparr>kern := k\<rparr>) = good cfg D f w"
  by (rule good_world) simp_all

text \<open>The step of the whole daemon when the filter \<open>n\<close> alone was worked on.\<close>

lemma store_step:
  assumes "store_ok kinv obj held cfg d" "daemon_inv kinv obj held d'" "bloomd_name_is_valid n"
    "touches (own_files cfg n) {} (d_world d) (d_world d')"
    "\<And>a. a \<noteq> n \<Longrightarrow> lookup (d_set d') a = lookup (d_set d) a"
    "\<And>a. a \<noteq> n \<Longrightarrow> abs_filters obj held d' a = abs_filters obj held d a"
    "\<And>f D. lookup (d_set d') n = Some f \<Longrightarrow> abs_filters obj held d' n = Some D \<Longrightarrow> good cfg D f (d_world d')"
  shows "store_ok kinv obj held cfg d'"
proof -
  note s = store_okD [OF assms(1)]
  have "good cfg D f (d_world d')" if "lookup (d_set d') a = Some f" "abs_filters obj held d' a = Some D" for a f D
  proof (cases "a = n")
    case False
    then have l: "lookup (d_set d) a = Some f" "abs_filters obj held d a = Some D" using assms(5,6) that by auto
    have "f_name f = a" using lookup_Some [OF s(4)] l(1) by simp
    then show ?thesis using good_other [OF s(3) assms(4,3) _ s(6) [OF l]] False by simp
  qed (use assms(7) that in simp)
  then show ?thesis using assms(2) calm_files_step [OF s(2) assms(4)] by (simp add: store_ok_def)
qed

lemma store_cache:
  assumes "store_ok kinv obj held cfg d" "bloomd_name_is_valid n" "bloomd_filter_set_find_n (d_set d) n = (r, s)"
  shows "store_ok kinv obj held cfg (d\<lparr>d_set := s\<rparr>)"
proof -
  note s = store_okD [OF assms(1)]
  have "lookup s = lookup (d_set d)" using fs.find_law [OF s(4) assms(2,3)] by simp
  then show ?thesis using s(2,6) cache_moved [OF s(1) assms(2,3)] by (simp add: store_ok_def)
qed

lemma store_stats [simp]: "store_ok kinv obj held cfg (d\<lparr>d_stats := st\<rparr>) = store_ok kinv obj held cfg d"
  by (simp add: store_ok_def abs_filters_def daemon_inv_def pool_map_def)

context bpf_kernel
begin

text \<open>A filter that was found, worked on and stored back.\<close>

lemma store_put:
  assumes inv: "store_ok kinv obj held cfg d" and n: "bloomd_name_is_valid n"
    and find: "bloomd_filter_set_find_n (d_set d) n = (Some i, s)"
    and sf: "same_filter (items s ! i) f'" and m: "flt_map obj (d_world d) (items s ! i) = Some m"
    and w': "kinv (kern w')" "obj (kern w') = obj (kern (d_world d))" "held (kern w') = (held (kern (d_world d)))(m := X)"
    and t: "touches (own_files cfg n) {} (d_world d) w'" and g: "good cfg X f' w'"
    and d': "d' = put_filter i f' w' (d\<lparr>d_set := s\<rparr>)"
  shows "store_ok kinv obj held cfg d'"
proof -
  note so = store_okD [OF inv]
  have X: "\<not> fm_has_data (f_meta f') \<Longrightarrow> X = {}" using g by (auto simp: good_def log_ok_def)
  have ok': "world_ok w'" by (rule touchesD(1) [OF t])
  note st = put_filter_step [OF so(1) n find refl sf m w'(1) ok' w'(2,3) X d']
  have f': "f_name f' = n" using find_n_spec(1,3) [OF so(4) n find] sf by (auto simp: same_filter_def)
  have l: "lookup (d_set d') = (lookup (d_set d))(n \<mapsto> f')"
    using fs.store_law [OF so(4) n find f'] by (simp add: d' put_filter_def)
  have w: "d_world d' = w'" by (simp add: d' put_filter_def)
  show ?thesis
    by (rule store_step [OF inv st(1) n]) (use t g l st(2) w in auto)
qed

lemma found_good:
  assumes inv: "store_ok kinv obj held cfg d" and n: "bloomd_name_is_valid n"
    and find: "bloomd_filter_set_find_n (d_set d) n = (Some i, s)"
  obtains m where "flt_map obj (d_world d) (items s ! i) = Some m" "obj (kern (d_world d)) (map_fd (items s ! i)) = Some m"
    "f_name (items s ! i) = n" "good cfg (held (kern (d_world d)) m) (items s ! i) (d_world d)"
proof -
  note so = store_okD [OF inv]
  obtain m where m: "flt_map obj (d_world d) (items s ! i) = Some m" "obj (kern (d_world d)) (map_fd (items s ! i)) = Some m"
    "abs_filters obj held d n = Some (held (kern (d_world d)) m)" "lookup (d_set d) n = Some (items s ! i)" "f_name (items s ! i) = n"
    using found_filter [OF so(1) n find] by metis
  then show thesis using that so(6) [OF m(4,3)] by blast
qed

text \<open>When the map kept its digests.\<close>

lemma store_put_same:
  assumes inv: "store_ok kinv obj held cfg d" and n: "bloomd_name_is_valid n"
    and find: "bloomd_filter_set_find_n (d_set d) n = (Some i, s)"
    and sf: "same_filter (items s ! i) f'" and m: "flt_map obj (d_world d) (items s ! i) = Some m"
    and o: "obs_same kinv obj held (d_world d) w'"
    and t: "touches (own_files cfg n) {} (d_world d) w'" and g: "good cfg (held (kern (d_world d)) m) f' w'"
    and d': "d' = put_filter i f' w' (d\<lparr>d_set := s\<rparr>)"
  shows "store_ok kinv obj held cfg d'"
  by (rule store_put [OF inv n find sf m _ _ _ t g d'])
    (use o store_okD [OF inv] in \<open>auto simp: obs_same_def\<close>)

lemma add_store:
  assumes inv: "store_ok kinv obj held cfg d" and v: "bloomd_name_is_valid name"
    and parse: "bloomd_parse_name_payload req = Inr (name, p)" and find: "bloomd_filter_set_find_n (d_set d) name = (Some i, s)"
    and h: "bloomd_handle_add_check E True (log_sync_mode cfg) req resp d = (r, resp', d')"
  shows "store_ok kinv obj held cfg d'"
proof -
  let ?w = "d_world d" and ?f = "items s ! i" and ?dg = "bloomd_digest_payload p" and ?mode = "log_sync_mode cfg"
  note so = store_okD [OF inv]
  obtain m where m: "flt_map obj ?w ?f = Some m" "obj (kern ?w) (map_fd ?f) = Some m" "f_name ?f = name"
    "good cfg (held (kern ?w) m) ?f ?w" using found_good [OF inv v find] .
  obtain r1 mk f1 w1 where prep: "add_prepare E ?mode ?f ?w = (r1, mk, f1, w1)" using prod_cases4 by blast
  note pr = add_prepare_obs [OF prep] and gp = add_prepare_good [OF so(2) m(4) prep]
  obtain r2 f2 w2 where st: "add_staged E ?mode mk ?dg f1 w1 = (r2, f2, w2)" using prod_cases3 by blast
  have w1: "world_ok w1" "kinv (kern w1)" "obj (kern w1) = obj (kern ?w)" "held (kern w1) = held (kern ?w)"
    using pr(1) so(3,5) by (auto simp: obs_same_def)
  note run = bloomd_handle_add_check_def parse find prep st Let_def
  show ?thesis
  proof (cases r1)
    case (Some x)
    then have "d' = put_filter i f1 w1 (d\<lparr>d_set := s\<rparr>)" using h by (auto simp: run split: prod.splits dest!: respond_error_frame)
    then show ?thesis using store_put_same [OF inv v find pr(2) m(1) pr(1)] gp(1,2) m(3) by simp
  next
    case None
    have gs: "touches (own_files cfg name) {} w1 w2 \<and> good cfg (if r2 = None then insert ?dg (held (kern ?w) m) else held (kern ?w) m) f2 w2"
      using add_staged_good [OF calm_files_step [OF so(2) gp(1)] gp(2) gp(4) [OF None] _ _ _ st] gp(3,5) gp(6) [OF None] m(3) by simp
    have t: "touches (own_files cfg name) {} ?w w2" using touches_trans [OF gp(1)] gs m(3) by simp
    show ?thesis
    proof (cases r2)
      case (Some y)
      note er = add_staged_err [OF st [unfolded Some]]
      have "fst y \<noteq> STATUS_OK" using add_err_status st Some by (metis prod.collapse)
      then have "d' = put_filter i f2 w2 (d\<lparr>d_set := s\<rparr>)"
        using h None Some by (cases y) (auto simp: run dest!: respond_error_frame)
      then show ?thesis
        using store_put_same [OF inv v find same_filter_trans [OF pr(2) er(2)] m(1) obs_same_trans [OF pr(1) er(1)] t] gs Some by simp
    next
      case added: None
      obtain m' where m': "obj (kern w1) (map_fd f1) = Some m'" "held (kern w2) = (held (kern w1))(m' := insert ?dg (held (kern w1) m'))"
        "obj (kern w2) = obj (kern w1)" "kinv (kern w2)" "same_filter f1 f2"
        using add_staged_ok [OF st [unfolded added] w1(1,2)] by metis
      have mm: "m' = m" using m'(1) m(2) w1(3) pr(2) by (simp add: same_filter_def)
      let ?g = "f2\<lparr>add_calls := add_calls f2 + 1\<rparr>"
      have d': "d' = put_filter i ?g w2 (d\<lparr>d_set := s\<rparr>)" using h None added by (auto simp: run dest!: send_frame)
      have sf: "same_filter ?f ?g" using pr(2) m'(5) by (simp add: same_filter_def)
      show ?thesis
        by (rule store_put [OF inv v find sf m(1) m'(4) _ _ t _ d', where X = "insert ?dg (held (kern ?w) m)"])
          (use m' mm w1 gs added in simp_all)
    qed
  qed
qed

lemma touches_check:
  assumes "world_ok w" "bloomd_bpf_check_digest E fd dg w = (r, w')"
  shows "touches P I w w'" "good cfg D f w' = good cfg D f w"
proof -
  obtain k where "w' = w\<lparr>kern := k\<rparr>" using assms(2) by (auto simp: bpf_call_defs split: prod.splits if_splits)
  then show "touches P I w w'" "good cfg D f w' = good cfg D f w" using touches_kern [OF assms(1)] good_kern by simp_all
qed

lemma check_store:
  assumes inv: "store_ok kinv obj held cfg d" and v: "bloomd_name_is_valid name"
    and parse: "bloomd_parse_name_payload req = Inr (name, p)" and find: "bloomd_filter_set_find_n (d_set d) name = (Some i, s)"
    and h: "bloomd_handle_add_check E False mode req resp d = (r, resp', d')"
  shows "store_ok kinv obj held cfg d'"
proof -
  let ?w = "d_world d" and ?f = "items s ! i"
  note so = store_okD [OF inv]
  obtain m where m: "flt_map obj ?w ?f = Some m" "f_name ?f = name" "good cfg (held (kern ?w) m) ?f ?w"
    using found_good [OF inv v find] by metis
  obtain rc w1 where ck: "bloomd_bpf_check_digest E (map_fd ?f) (bloomd_digest_payload p) ?w = (rc, w1)" by fastforce
  have g: "good cfg (held (kern ?w) m) ?f w1" using touches_check(2) [OF so(3) ck] m(3) by simp
  have "\<exists>f'. (f' = ?f \<or> (\<exists>x. f' = ?f\<lparr>check_calls := x\<rparr>)) \<and> d' = put_filter i f' w1 (d\<lparr>d_set := s\<rparr>)"
    using h by (cases rc) (auto simp: bloomd_handle_add_check_def parse find ck Let_def split: prod.splits
      dest!: respond_error_frame send_frame(1))
  then obtain f' where f': "f' = ?f \<or> (\<exists>x. f' = ?f\<lparr>check_calls := x\<rparr>)" "d' = put_filter i f' w1 (d\<lparr>d_set := s\<rparr>)" by blast
  have "same_filter ?f f'" "good cfg (held (kern ?w) m) f' w1" using f'(1) g by (auto simp: same_filter_def)
  then show ?thesis using store_put_same [OF inv v find _ m(1) obs_check [OF ck] touches_check(1) [OF so(3) ck] _ f'(2)] by simp
qed

lemma handle_add_check_store:
  assumes inv: "store_ok kinv obj held cfg d" and rq: "request_ok req"
    and h: "bloomd_handle_add_check E a (log_sync_mode cfg) req resp d = (r, resp', d')"
  shows "store_ok kinv obj held cfg d'"
proof (cases "bloomd_parse_name_payload req")
  case (Inl e)
  then show ?thesis using h inv by (auto simp: bloomd_handle_add_check_def dest!: respond_error_frame)
next
  case (Inr np)
  obtain name p where np: "np = (name, p)" by fastforce
  note parse = Inr [unfolded np]
  have v: "bloomd_name_is_valid name" by (rule parse_name_payload_valid [OF rq parse])
  obtain ri s where find: "bloomd_filter_set_find_n (d_set d) name = (ri, s)" by fastforce
  show ?thesis
  proof (cases ri)
    case None
    then show ?thesis
      using h store_cache [OF inv v find] by (auto simp: bloomd_handle_add_check_def parse find dest!: respond_error_frame)
  next
    case (Some i)
    then show ?thesis using add_store [OF inv v parse] check_store [OF inv v parse] find h by (cases a) auto
  qed
qed

text \<open>The loop of a MADD.\<close>

lemma batch_add_good:
  assumes "batch_loop E True (log_sync_mode cfg) marked added k its res f w = (out, f', w')"
    and "calm_files w" "kinv (kern w)" "obj (kern w) (map_fd f) = Some m" "good cfg (held (kern w) m) f w"
    and "fm_has_data (f_meta f)" "marked \<and> \<not> added \<longrightarrow> restorable cfg (held (kern w) m) f w"
      "log_sync_mode cfg = LOG_SYNC_PERIODIC \<longrightarrow> \<not> fm_log_clean (f_meta f)"
  shows "own_step cfg f w w' \<and> good cfg (held (kern w') m) f' w'"
  using assms
proof (induction k arbitrary: added its res f w)
  case 0
  then show ?case by (auto simp: calm_files_def)
next
  case (Suc k)
  have ok: "world_ok w" using Suc.prems(2) by (simp add: calm_files_def)
  show ?case
  proof (cases "bloomd_protocol_read_payload its")
    case (Inl e)
    then show ?thesis using Suc.prems ok by auto
  next
    case (Inr pc)
    obtain p c where pc: "pc = (p, c)" by fastforce
    let ?dg = "bloomd_digest_payload p"
    obtain r1 f1 w1 where st: "add_staged E (log_sync_mode cfg) (marked \<and> \<not> added) ?dg f w = (r1, f1, w1)" using prod_cases3 by blast
    have g: "own_step cfg f w w1" "good cfg (if r1 = None then insert ?dg (held (kern w) m) else held (kern w) m) f1 w1"
      "f_name f1 = f_name f" "r1 = None \<Longrightarrow> f_meta f1 = f_meta f"
      using add_staged_good [OF Suc.prems(2,5-8) _ st] by simp_all
    show ?thesis
    proof (cases r1)
      case (Some x)
      have "held (kern w1) = held (kern w)" using add_staged_err(1) [OF st [unfolded Some]] ok Suc.prems(3) by (simp add: obs_same_def)
      then show ?thesis using Suc.prems(1) Inr pc st Some g by (auto simp: Let_def)
    next
      case None
      obtain m' where m': "obj (kern w) (map_fd f) = Some m'" "held (kern w1) = (held (kern w))(m' := insert ?dg (held (kern w) m'))"
        "obj (kern w1) = obj (kern w)" "kinv (kern w1)" "same_filter f f1"
        using add_staged_ok [OF st [unfolded None] ok Suc.prems(3)] by metis
      have "batch_loop E True (log_sync_mode cfg) marked True k (drop c its) (res @ [1]) f1 w1 = (out, f', w')"
        using Suc.prems(1) Inr pc st None by (simp add: Let_def)
      from Suc.IH [OF this calm_files_step [OF Suc.prems(2) g(1)] m'(4)] have "own_step cfg f1 w1 w' \<and> good cfg (held (kern w') m) f' w'"
        using m' Suc.prems(4,6,8) g(2,4) None by (simp add: same_filter_def)
      then show ?thesis using touches_trans [OF g(1)] g(3) by simp
    qed
  qed
qed

lemma batch_add_store:
  assumes inv: "store_ok kinv obj held cfg d" and v: "bloomd_name_is_valid name"
    and find: "bloomd_filter_set_find_n (d_set d) name = (Some i, s)"
    and prep: "add_prepare E (log_sync_mode cfg) (items s ! i) (d_world d) = (None, mk, f, w)"
    and h: "batch_run E True (log_sync_mode cfg) mk count its i f w resp (d\<lparr>d_set := s\<rparr>) = (r, resp', d')"
  shows "store_ok kinv obj held cfg d'"
proof -
  let ?w = "d_world d" and ?f = "items s ! i"
  note so = store_okD [OF inv]
  obtain m where m: "flt_map obj ?w ?f = Some m" "obj (kern ?w) (map_fd ?f) = Some m" "f_name ?f = name"
    "good cfg (held (kern ?w) m) ?f ?w" using found_good [OF inv v find] .
  note pr = add_prepare_obs [OF prep] and gp = add_prepare_good [OF so(2) m(4) prep]
  have w: "kinv (kern w)" "obj (kern w) = obj (kern ?w)" "held (kern w) = held (kern ?w)" "world_ok w"
    using pr(1) so(3,5) by (auto simp: obs_same_def)
  obtain out f1 w1 where loop: "batch_loop E True (log_sync_mode cfg) mk False (unat count) its [] f w = (out, f1, w1)"
    using prod_cases3 by blast
  have om: "obj (kern w) (map_fd f) = Some m" using m(2) w(2) pr(2) by (simp add: same_filter_def)
  have g: "own_step cfg f w w1 \<and> good cfg (held (kern w1) m) f1 w1"
    by (rule batch_add_good [OF loop calm_files_step [OF so(2) gp(1)] w(1) om]) (use gp w(3) in auto)
  obtain X where X: "held (kern w1) = (held (kern w))(m := X)" "obj (kern w1) = obj (kern w)" "kinv (kern w1)" "same_filter f f1"
    using batch_add_loop [OF loop w(4,1) om] by blast
  have "\<exists>f2. (f2 = f1 \<or> (\<exists>x. f2 = f1\<lparr>batch_add_calls := x\<rparr>)) \<and> d' = put_filter i f2 w1 (d\<lparr>d_set := s\<rparr>)"
    using h loop batch_add_loop [OF loop w(4,1) om]
    by (cases out) (auto simp: batch_run_def split: prod.splits if_splits dest!: respond_error_frame send_frame(2))
  then obtain f2 where f2: "f2 = f1 \<or> (\<exists>x. f2 = f1\<lparr>batch_add_calls := x\<rparr>)" "d' = put_filter i f2 w1 (d\<lparr>d_set := s\<rparr>)" by blast
  have sf: "same_filter ?f f2" "good cfg X f2 w1" using f2(1) X(1,4) g pr(2) by (auto simp: same_filter_def)
  have t: "touches (own_files cfg name) {} ?w w1" using touches_trans [OF gp(1)] g gp(3) m(3) by simp
  show ?thesis by (rule store_put [OF inv v find sf(1) m(1) X(3) _ _ t sf(2) f2(2)]) (use X w in simp_all)
qed

lemma batch_check_good:
  assumes "batch_loop E False mode marked added k its res f w = (out, f', w')" "world_ok w"
  shows "\<exists>k. w' = w\<lparr>kern := k\<rparr>"
  using assms
proof (induction k arbitrary: its res w)
  case 0
  then show ?case by (auto intro: exI [of _ "kern w"])
next
  case (Suc k)
  show ?case
  proof (cases "bloomd_protocol_read_payload its")
    case (Inl e)
    then show ?thesis using Suc.prems by (auto intro: exI [of _ "kern w"])
  next
    case (Inr pc)
    obtain p c where pc: "pc = (p, c)" by fastforce
    obtain rc w1 where ck: "bloomd_bpf_check_digest E (map_fd f) (bloomd_digest_payload p) w = (rc, w1)" by fastforce
    then obtain k1 where w1: "w1 = w\<lparr>kern := k1\<rparr>" by (auto simp: bpf_call_defs split: prod.splits if_splits)
    show ?thesis
    proof (cases rc)
      case (Inl em)
      then show ?thesis using Suc.prems Inr pc ck w1 by (auto simp: Let_def split: prod.splits)
    next
      case (Inr b)
      then have "batch_loop E False mode marked added k (drop c its) (res @ [if b then 1 else 0]) f w1 = (out, f', w')"
        using Suc.prems \<open>bloomd_protocol_read_payload its = Inr pc\<close> pc ck by (simp add: Let_def)
      then show ?thesis using Suc.IH [of "drop c its" _ w1] Suc.prems(2) w1 by fastforce
    qed
  qed
qed

lemma batch_check_store:
  assumes inv: "store_ok kinv obj held cfg d" and v: "bloomd_name_is_valid name"
    and find: "bloomd_filter_set_find_n (d_set d) name = (Some i, s)"
    and h: "batch_run E False mode mk count its i (items s ! i) (d_world d) resp (d\<lparr>d_set := s\<rparr>) = (r, resp', d')"
  shows "store_ok kinv obj held cfg d'"
proof -
  let ?w = "d_world d" and ?f = "items s ! i"
  note so = store_okD [OF inv]
  obtain m where m: "flt_map obj ?w ?f = Some m" "good cfg (held (kern ?w) m) ?f ?w"
    using found_good [OF inv v find] by metis
  obtain out f1 w1 where loop: "batch_loop E False mode mk False (unat count) its [] ?f ?w = (out, f1, w1)"
    using prod_cases3 by blast
  have b: "obs_same kinv obj held ?w w1" "f1 = ?f" "\<forall>st y. out = Inl (st, y) \<longrightarrow> st \<noteq> STATUS_OK"
    using batch_check_loop [OF loop] by auto
  obtain k where w1: "w1 = ?w\<lparr>kern := k\<rparr>" using batch_check_good [OF loop so(3)] by blast
  have t: "touches (own_files cfg name) {} ?w w1" "good cfg (held (kern ?w) m) ?f w1"
    using touches_kern [OF so(3) w1] m(2) by (simp_all add: w1 good_kern)
  have "\<exists>f2. (f2 = ?f \<or> (\<exists>x. f2 = ?f\<lparr>batch_check_calls := x\<rparr>)) \<and> d' = put_filter i f2 w1 (d\<lparr>d_set := s\<rparr>)"
    using h loop b(2,3)
    by (cases out) (auto simp: batch_run_def split: prod.splits if_splits dest!: respond_error_frame send_frame(2))
  then obtain f2 where f2: "f2 = ?f \<or> (\<exists>x. f2 = ?f\<lparr>batch_check_calls := x\<rparr>)" "d' = put_filter i f2 w1 (d\<lparr>d_set := s\<rparr>)" by blast
  have "same_filter ?f f2" "good cfg (held (kern ?w) m) f2 w1" using f2(1) t(2) by (auto simp: same_filter_def)
  then show ?thesis using store_put_same [OF inv v find _ m(1) b(1) t(1) _ f2(2)] by simp
qed

lemma handle_batch_store:
  assumes inv: "store_ok kinv obj held cfg d" and rq: "request_ok req"
    and h: "bloomd_handle_batch E a (log_sync_mode cfg) req resp d = (r, resp', d')"
  shows "store_ok kinv obj held cfg d'"
proof (cases "bloomd_parse_batch req")
  case (Inl e)
  then show ?thesis using h inv by (auto simp: bloomd_handle_batch_def split: if_splits dest!: respond_error_frame)
next
  case (Inr x)
  obtain name count its where parse: "bloomd_parse_batch req = Inr (name, count, its)" using Inr by (metis prod_cases3)
  have v: "bloomd_name_is_valid name" by (rule parse_batch_valid [OF rq parse])
  obtain ri s where find: "bloomd_filter_set_find_n (d_set d) name = (ri, s)" by fastforce
  note moved = store_cache [OF inv v find]
  show ?thesis
  proof (cases ri)
    case None
    then show ?thesis using h moved by (auto simp: bloomd_handle_batch_def parse find dest!: respond_error_frame)
  next
    case (Some i)
    note find' = find [unfolded Some]
    obtain m where m: "flt_map obj (d_world d) (items s ! i) = Some m" "f_name (items s ! i) = name"
      "good cfg (held (kern (d_world d)) m) (items s ! i) (d_world d)" using found_good [OF inv v find'] by metis
    obtain r1 mk f1 w1 where prep: "add_prepare E (log_sync_mode cfg) (items s ! i) (d_world d) = (r1, mk, f1, w1)"
      using prod_cases4 by blast
    note pr = add_prepare_obs [OF prep] and gp = add_prepare_good [OF store_okD(2) [OF inv] m(3) prep]
    consider (run) "r1 = None" "batch_run E True (log_sync_mode cfg) mk count its i f1 w1 resp (d\<lparr>d_set := s\<rparr>) = (r, resp', d')"
      | (check) "batch_run E False (log_sync_mode cfg) False count its i (items s ! i) (d_world d) resp (d\<lparr>d_set := s\<rparr>) = (r, resp', d')"
      | (fail) "d' = put_filter i f1 w1 (d\<lparr>d_set := s\<rparr>)"
      | (bad) "d' = d\<lparr>d_set := s\<rparr>"
      using h by (cases a) (auto simp: bloomd_handle_batch_def parse find' prep Let_def
        split: sum.splits if_splits option.splits prod.splits dest!: respond_error_frame)
    then show ?thesis
    proof cases
      case run
      then show ?thesis using batch_add_store [OF inv v find'] prep by simp
    next
      case check
      then show ?thesis by (rule batch_check_store [OF inv v find'])
    next
      case fail
      then show ?thesis using store_put_same [OF inv v find' pr(2) m(1) pr(1)] gp(1,2) m(2) by simp
    next
      case bad
      then show ?thesis using moved by simp
    qed
  qed
qed

lemma handle_info_store:
  assumes inv: "store_ok kinv obj held cfg d" and rq: "request_ok req" and h: "bloomd_handle_info E req resp d = (r, resp', d')"
  shows "store_ok kinv obj held cfg d'"
proof (cases "parse_name_request ''INFO'' req")
  case (Inl x)
  then show ?thesis using h inv by (cases x) (auto simp: bloomd_handle_info_def dest: arg_cong [where f = "\<lambda>x. snd (snd x)"])
next
  case (Inr name)
  have v: "bloomd_name_is_valid name" by (rule parse_name_request_valid [OF rq Inr])
  obtain ri s where find: "bloomd_filter_set_find_n (d_set d) name = (ri, s)" by fastforce
  have "d' = d\<lparr>d_set := s\<rparr>"
    using h by (auto simp: bloomd_handle_info_def Inr find split: option.splits dest!: respond_error_frame send_frame(3))
  then show ?thesis using store_cache [OF inv v find] by simp
qed

section \<open>CREATE and DROP\<close>

lemma create_finish_files:
  assumes "world_ok (d_world d)" "own_paths cfg f" "log_fd f < 0" "create_finish E f resp d = (r, resp', d')"
  shows "own_step cfg f (d_world d) (d_world d')"
    "d_set d' = d_set d \<or> (\<exists>s. bloomd_filter_set_add (mem E) f (d_set d) = (None, s) \<and> d_set d' = s \<and> on_disk f (d_world d'))"
proof -
  let ?P = "own_files cfg (f_name f)"
  obtain r1 w1 where mw: "bloomd_meta_write_atomic E (f_meta f) (d_world d) = (r1, w1)" by fastforce
  have t1: "touches ?P {} (d_world d) w1" using touches_meta_write(1) [OF assms(1) mw] own_paths_in [OF assms(2)] by simp
  have od: "r1 = None \<Longrightarrow> on_disk f w1" using meta_write_ok(2,3) [OF assms(1)] mw by (auto simp: on_disk_def)
  obtain r2 s2 where ad: "bloomd_filter_set_add (mem E) f (d_set d) = (r2, s2)" by fastforce
  have se: "r2 \<noteq> None \<Longrightarrow> s2 = d_set d" using fs.add_err ad by blast
  have cl: "touches ?P {} w (snd (bloomd_bpf_close E (map_fd f) w))" if "world_ok w" for w
    by (rule touches_eq [OF that]) (auto simp: bloomd_bpf_close_def)
  let ?w2 = "snd (bloomd_remove_path_if_exists (fm_meta_path (f_meta f)) w1)"
  let ?w3 = "snd (bloomd_remove_path_if_exists (fm_log_path (f_meta f)) ?w2)"
  let ?w4 = "snd (bloomd_bpf_unpin E (fm_pin_path (f_meta f)) ?w3)"
  have t2: "touches ?P {} (d_world d) ?w2" by (rule touches_trans [OF t1 touches_remove [OF touchesD(1) [OF t1] own_paths_in(1) [OF assms(2)]]])
  have t3: "touches ?P {} (d_world d) ?w3" by (rule touches_trans [OF t2 touches_remove [OF touchesD(1) [OF t2] own_paths_in(2) [OF assms(2)]]])
  have t4: "touches ?P {} (d_world d) ?w4" by (rule touches_trans [OF t3 touches_unpin [OF touchesD(1) [OF t3]]])
  note c1 = touches_trans [OF t1 cl [OF touchesD(1) [OF t1]]] and c4 = touches_trans [OF t4 cl [OF touchesD(1) [OF t4]]]
  show "own_step cfg f (d_world d) (d_world d')"
    "d_set d' = d_set d \<or> (\<exists>s. bloomd_filter_set_add (mem E) f (d_set d) = (None, s) \<and> d_set d' = s \<and> on_disk f (d_world d'))"
    using assms(3,4) mw ad od se t1 c1 c4
    by (auto simp: create_finish_def Let_def bloomd_meta_delete_def bloomd_log_delete_def bloomd_log_close_def
      split: option.splits dest!: respond_error_frame)
qed

lemma create_with_map_files:
  assumes "world_ok (d_world d)" "own_paths cfg (new_filter meta 0)" "create_with_map E meta resp d = (r, resp', d')"
  shows "touches (own_files cfg (fm_name meta)) {} (d_world d) (d_world d')"
    "d_set d' = d_set d \<or> (\<exists>fd s. bloomd_filter_set_add (mem E) (new_filter meta fd) (d_set d) = (None, s) \<and> d_set d' = s \<and>
      on_disk (new_filter meta fd) (d_world d'))"
proof -
  obtain fd st pool where tk: "bloomd_take_empty_map (fm_capacity meta) (fm_hashes meta) (fm_value_size meta) (d_stats d) (d_pool d) =
    (fd, st, pool)" using prod_cases3 by blast
  let ?d = "d\<lparr>d_stats := st, d_pool := pool\<rparr>"
  obtain rc w where c: "bloomd_bpf_create_map E (fm_name meta) (fm_capacity meta) (fm_hashes meta) (d_world d) = (rc, w)" by fastforce
  have t: "touches P I (d_world d) w" for P I
    using c by (intro touches_eq [OF assms(1)]) (auto simp: bloomd_bpf_create_map_def bloomd_sys_bpf_def split: if_splits prod.splits)
  have own: "own_paths cfg (new_filter meta x)" "f_name (new_filter meta x) = fm_name meta" "log_fd (new_filter meta x) < 0" for x
    using assms(2) by (simp_all add: own_paths_def new_filter_def)
  consider (finish) d2 x where "create_finish E (new_filter meta x) resp d2 = (r, resp', d')" "d_set d2 = d_set d"
      "d_world d2 = d_world d \<or> d_world d2 = w"
    | (err) "d_set d' = d_set d" "d_world d' = w"
    using assms(3) tk c
    by (cases rc) (auto simp: create_with_map_def Let_def split: if_splits prod.splits dest!: respond_error_frame)
  then have "touches (own_files cfg (fm_name meta)) {} (d_world d) (d_world d') \<and>
    (d_set d' = d_set d \<or> (\<exists>fd s. bloomd_filter_set_add (mem E) (new_filter meta fd) (d_set d) = (None, s) \<and> d_set d' = s \<and>
      on_disk (new_filter meta fd) (d_world d')))"
  proof cases
    case (finish d2 x)
    have t2: "touches P I (d_world d) (d_world d2)" for P I using finish(3) t touches_refl [OF assms(1)] by metis
    note cf = create_finish_files [OF touchesD(1) [OF t2] own(1,3) finish(1)]
    then show ?thesis using touches_trans [OF t2] own(2) finish(2) by auto
  qed (use t in simp)
  then show "touches (own_files cfg (fm_name meta)) {} (d_world d) (d_world d')"
    "d_set d' = d_set d \<or> (\<exists>fd s. bloomd_filter_set_add (mem E) (new_filter meta fd) (d_set d) = (None, s) \<and> d_set d' = s \<and>
      on_disk (new_filter meta fd) (d_world d'))" by auto
qed

lemma create_store:
  assumes inv: "store_ok kinv obj held cfg d" and v: "bloomd_name_is_valid name" and resp: "resp_ok resp"
    and free: "lookup (d_set d) name = None"
    and meta: "bloomd_assign_filter_paths cfg (new_filter_meta E name hdr) = Inr meta"
    and h: "create_with_map E meta resp d = (r, resp', d')"
  shows "store_ok kinv obj held cfg d'"
proof -
  note so = store_okD [OF inv]
  have nm: "fm_name meta = name" "\<not> fm_has_data meta"
    using meta by (auto simp: bloomd_assign_filter_paths_def new_filter_meta_def split: sum.splits)
  have own: "own_paths cfg (new_filter meta x)" for x
    using assign_paths_Inr [OF meta] v nm by (simp add: own_paths_def new_filter_def new_filter_meta_def)
  note cf = create_with_map_files [OF so(3) own h]
  note ref = create_with_map_refines [OF so(1) _ _ resp h, unfolded nm(1), OF v free]
  have added: "lookup t = (lookup (d_set d))(name \<mapsto> new_filter meta fd)"
    if s: "bloomd_filter_set_add (mem E) (new_filter meta fd) (d_set d) = (None, t)" for fd t
    using fs.add_law [OF so(4) _ _ s] free v nm(1) by (simp add: new_filter_def)
  have lk: "lookup (d_set d') a = lookup (d_set d) a" if "a \<noteq> name" for a
    using cf(2) added that by auto
  have new: "good cfg D f (d_world d')" if l: "lookup (d_set d') name = Some f" and D: "abs_filters obj held d' name = Some D" for f D
  proof -
    from l free obtain fd s where s: "bloomd_filter_set_add (mem E) (new_filter meta fd) (d_set d) = (None, s)" "d_set d' = s"
      "on_disk (new_filter meta fd) (d_world d')" using cf(2) by auto
    have f: "f = new_filter meta fd" using added [OF s(1)] l s(2) by simp
    have "\<not> fm_has_data (f_meta f)" using f nm(2) by (simp add: new_filter_def)
    then obtain m where "flt_map obj (d_world d') f = Some m" "held (kern (d_world d')) m = {}"
      using conjunct1 [OF ref] l unfolding daemon_inv_def by metis
    then have "D = {}" using D l by (simp add: abs_filters_def)
    then show ?thesis using own s(3) f nm(2) by (simp add: good_def log_ok_def new_filter_def)
  qed
  have "abs_filters obj held d' a = abs_filters obj held d a" if "a \<noteq> name" for a using ref that by (auto split: if_splits)
  then show ?thesis using store_step [OF inv conjunct1 [OF ref] v] cf(1) nm(1) lk new by blast
qed

lemma handle_create_store:
  assumes inv: "store_ok kinv obj held cfg d" and rq: "request_ok req" and resp: "resp_ok resp"
    and h: "bloomd_handle_create E cfg req resp d = (r, resp', d')"
  shows "store_ok kinv obj held cfg d'"
proof -
  let ?hdr = "create_request_of (rq_body req)"
  consider (bad) "d' = d"
    | (name) name where "create_name req = Some name" "24 + unat (cr_name_len ?hdr) = rq_len req"
      "create_named E cfg name ?hdr resp d = (r, resp', d')"
    using h unfolding bloomd_handle_create_def Let_def create_name_def
    by (auto split: if_splits sum.splits dest!: respond_error_frame)
  then show ?thesis
  proof cases
    case bad
    then show ?thesis using inv by simp
  next
    case (name name)
    have v: "bloomd_name_is_valid name" by (rule create_name_valid [OF rq name(1,2)])
    obtain ri s where find: "bloomd_filter_set_find_n (d_set d) name = (ri, s)" by fastforce
    note moved = store_cache [OF inv v find]
    have lk: "ri = None \<Longrightarrow> lookup (d_set (d\<lparr>d_set := s\<rparr>)) name = None"
      using find_n_spec(4) [OF store_okD(4) [OF inv] v find] fs.find_law [OF store_okD(4) [OF inv] v find] by simp
    show ?thesis
      using name(3) moved create_store [OF moved v resp lk, of ?hdr]
      by (auto simp: create_named_def bloomd_filter_set_find_def find split: option.splits sum.splits dest!: respond_error_frame)
  qed
qed

text \<open>Releasing a filter writes to its log, which may be unlinked already, and closes it.\<close>

lemma touches_bpf_close: "world_ok w \<Longrightarrow> touches P I w (snd (bloomd_bpf_close E fd w))"
  by (rule touches_eq) (auto simp: bloomd_bpf_close_def)

lemma touches_release:
  assumes "world_ok w" "log_fd f < 0 \<or> mine P I w (log_fd f)"
  shows "touches P I w (release_filter E b f w)"
proof -
  obtain r buf w1 where fl: "bloomd_log_buffer_flush (log_fd f) (log_buf f) b w = (r, buf, w1)" using prod_cases3 by blast
  have t: "touches P I w w1 \<and> fdtab w1 = fdtab w \<and> dirents w1 = dirents w" if m: "mine P I w (log_fd f)" "\<not> log_fd f < 0"
  proof -
    obtain r1 w2 where wr: "(if length (log_buf f) > 0 then bloomd_write_all (log_fd f) (log_buf f) w else (None, w)) = (r1, w2)" by fastforce
    have a: "touches P I w w2 \<and> fdtab w2 = fdtab w \<and> dirents w2 = dirents w"
      using wr touches_refl [OF assms(1)] touches_write_all [OF assms(1) m(1)] by (auto split: if_splits)
    then have "mine P I w2 (log_fd f)" using m(1) by (simp add: mine_def)
    from touches_fsync [OF touchesD(1) [OF conjunct1 [OF a]] this] have "touches P I w w3 \<and> fdtab w3 = fdtab w \<and> dirents w3 = dirents w"
      if "sys_fsync (log_fd f) w2 = (r3, w3)" for r3 w3 using that a touches_trans by fastforce
    then show ?thesis using fl a m(2) unfolding bloomd_log_buffer_flush_def wr
      by (auto simp: bloomd_log_sync_def split: option.splits if_splits prod.splits)
  qed
  have "touches P I w (snd (bloomd_log_close (log_fd f) False w1))"
  proof (cases "log_fd f < 0")
    case True
    then show ?thesis using fl touches_refl [OF assms(1)] by (simp add: bloomd_log_buffer_flush_def bloomd_log_close_def)
  next
    case False
    then have m: "mine P I w (log_fd f)" using assms(2) by simp
    have "touches P I w1 (sys_close (log_fd f) w1)"
      using t [OF m False] m by (intro touches_close) (auto simp: mine_def dest: touchesD(1))
    then show ?thesis using t [OF m False] False touches_trans by (auto simp: bloomd_log_close_def)
  qed
  then show ?thesis
    using touches_trans touches_bpf_close [OF touchesD(1)] by (fastforce simp: release_filter_def fl)
qed

lemma drop_finish_files:
  assumes ok: "world_ok w" and own: "own_paths cfg f" and l: "log_fd f < 0 \<or> (\<exists>ino. log_at f w ino)"
    and s: "set_ok (d_set d)" and i: "i < length (items (d_set d))" "f_name (items (d_set d) ! i) = f_name f"
  shows "own_step cfg f w (d_world (drop_finish E (f_name f) i f w d))"
    "lookup (d_set (drop_finish E (f_name f) i f w d)) = (lookup (d_set d))(f_name f := None)"
proof -
  let ?P = "own_files cfg (f_name f)" and ?w1 = "if fm_has_data (f_meta f) then snd (bloomd_log_delete (fm_log_path (f_meta f)) w) else w"
  let ?g = "if fm_has_data (f_meta f) then f else f\<lparr>map_fd := - 1\<rparr>" and ?I = "{i. Some i \<in> dirents w ` own_files cfg (f_name f)}"
  have v: "bloomd_name_is_valid (f_name f)" using own by (simp add: own_paths_def)
  have fg: "fdtab ?w1 = fdtab w"
    by (auto simp: bloomd_log_delete_def bloomd_remove_path_if_exists_def sys_unlink_def next_outcome_def split: option.splits list.splits outcome.splits)
  have t1: "touches ?P ?I w ?w1"
    using touches_remove [OF ok own_paths_in(2) [OF own]] touches_refl [OF ok] by (simp add: bloomd_log_delete_def)
  have "log_fd ?g < 0 \<or> mine ?P ?I ?w1 (log_fd ?g)"
    using l own_paths_in(2) [OF own] by (auto simp: mine_def fg log_at_def image_iff intro!: bexI)
  note t2 = touches_trans [OF t1 touches_release [OF touchesD(1) [OF t1] this, of False]]
  obtain r s' w2 where rm: "bloomd_filter_set_remove_n E (f_name f) (set_item i ?g (d_set d)) ?w1 = (r, s', w2)"
    using prod_cases3 by blast
  note dr = drop_removed [OF s v i _ rm]
  have t3: "touches ?P ?I w w2" using t2 dr(3) by simp
  have t: "touches ?P ?I w (d_world (drop_finish E (f_name f) i f w d))"
    using t3 touches_trans [OF t3 touches_bpf_close [OF touchesD(1) [OF t3]]] rm
    by (auto simp: drop_finish_def Let_def bloomd_store_empty_map_def split: if_splits)
  then show "own_step cfg f w (d_world (drop_finish E (f_name f) i f w d))" by (rule touches_absorb) simp
  show "lookup (d_set (drop_finish E (f_name f) i f w d)) = (lookup (d_set d))(f_name f := None)"
    using dr(2) rm by (auto simp: drop_finish_def Let_def split: prod.splits)
qed

lemma drop_store:
  assumes inv: "store_ok kinv obj held cfg d" and v: "bloomd_name_is_valid name"
    and find: "bloomd_filter_set_find_n (d_set d) name = (Some i, s)"
    and o: "obs_same kinv obj held (d_world d) w" and t: "touches (own_files cfg name) {} (d_world d) w"
    and l: "dirents w (fm_log_path (f_meta (items s ! i))) = dirents (d_world d) (fm_log_path (f_meta (items s ! i)))"
      "fdtab w = fdtab (d_world d)"
    and d': "d' = drop_finish E name i (items s ! i) w (d\<lparr>d_set := s\<rparr>)"
  shows "store_ok kinv obj held cfg d'"
proof -
  let ?f = "items s ! i" and ?d = "d\<lparr>d_set := s\<rparr>"
  note so = store_okD [OF inv] and moved = cache_moved [OF store_okD(1) [OF inv] v find]
  obtain m where m: "f_name ?f = name" "good cfg (held (kern (d_world d)) m) ?f (d_world d)"
    using found_good [OF inv v find] by metis
  have g: "own_paths cfg ?f" "log_fd ?f < 0 \<or> (\<exists>ino. log_at ?f w ino)"
    using m(2) l by (auto simp: good_def log_ok_def log_at_def)
  have s: "set_ok (d_set ?d)" "i < length (items (d_set ?d))" "f_name (items (d_set ?d) ! i) = f_name ?f" "lookup s = lookup (d_set d)"
    using moved(1) find_n_spec [OF so(4) v find] fs.find_law [OF so(4) v find] by (auto simp: daemon_inv_def)
  note ff = drop_finish_files [OF touchesD(1) [OF t] g s(1-3), unfolded m(1), folded d']
  have "daemon_inv kinv obj held d' \<and> abs_filters obj held d' = (abs_filters obj held ?d)(name := None)"
    using drop_finish_refines [OF moved(1) v s(2) _ _ , of w d'] o d' m(1) by simp
  then show ?thesis
    using store_step [OF inv _ v touches_trans [OF t ff(1)]] ff(2) s(4) moved(2) by auto
qed

lemma drop_worlds:
  assumes ok: "world_ok w" and own: "own_paths cfg f" "f_name f = name" and w1: "\<exists>k. w1 = w\<lparr>kern := k\<rparr>"
    and md: "bloomd_meta_delete (fm_meta_path (f_meta f)) w1 = (r2, w2)"
  shows "touches (own_files cfg name) {} w w1" "touches (own_files cfg name) {} w w2"
    "dirents w2 (fm_log_path (f_meta f)) = dirents w (fm_log_path (f_meta f))" "fdtab w2 = fdtab w"
    "good cfg D f w1 = good cfg D f w" "r2 \<noteq> None \<Longrightarrow> good cfg D f w2 = good cfg D f w"
proof -
  have e: "r2 \<noteq> None \<Longrightarrow> \<exists>c. w2 = w1\<lparr>script := c\<rparr>" "\<And>p. p \<noteq> fm_meta_path (f_meta f) \<Longrightarrow> dirents w2 p = dirents w1 p" "fdtab w2 = fdtab w1"
    using md by (auto simp: bloomd_meta_delete_def bloomd_remove_path_if_exists_def split: option.splits if_splits prod.splits
      elim!: sys_unlink_cases)
  show t1: "touches (own_files cfg name) {} w w1" using w1 touches_kern [OF ok] by blast
  show "touches (own_files cfg name) {} w w2"
    using touches_trans [OF t1 touches_remove [OF touchesD(1) [OF t1], of "fm_meta_path (f_meta f)"]] md own_paths_in(1) [OF own(1)] own(2)
    by (simp add: bloomd_meta_delete_def)
  have "fm_log_path (f_meta f) \<noteq> fm_meta_path (f_meta f)" using own_paths_in(4) [OF own(1), of 0] by simp
  then show "dirents w2 (fm_log_path (f_meta f)) = dirents w (fm_log_path (f_meta f))" "fdtab w2 = fdtab w" using e(2,3) w1 by auto
  show g1: "good cfg D f w1 = good cfg D f w" using w1 by (auto simp: good_kern)
  show "good cfg D f w2 = good cfg D f w" if "r2 \<noteq> None" using e(1) [OF that] g1 good_world [of w2 w1] by auto
qed

lemma handle_drop_store:
  assumes inv: "store_ok kinv obj held cfg d" and rq: "request_ok req" and h: "bloomd_handle_drop E req resp d = (r, resp', d')"
  shows "store_ok kinv obj held cfg d'"
proof (cases "parse_name_request ''DROP'' req")
  case (Inl x)
  then show ?thesis using h inv by (cases x) (auto simp: bloomd_handle_drop_def dest: arg_cong [where f = "\<lambda>x. snd (snd x)"])
next
  case (Inr name)
  have v: "bloomd_name_is_valid name" by (rule parse_name_request_valid [OF rq Inr])
  obtain ri s where find: "bloomd_filter_set_find_n (d_set d) name = (ri, s)" by fastforce
  note moved = store_cache [OF inv v find] and so = store_okD [OF inv]
  show ?thesis
  proof (cases ri)
    case None
    then show ?thesis using h moved by (auto simp: bloomd_handle_drop_def Inr find dest!: respond_error_frame)
  next
    case (Some i)
    note find' = find [unfolded Some]
    let ?W = "d_world d" and ?f = "items s ! i" and ?P = "own_files cfg name"
    obtain m where m: "flt_map obj ?W ?f = Some m" "f_name ?f = name" "good cfg (held (kern ?W) m) ?f ?W"
      using found_good [OF inv v find'] by metis
    have own: "own_paths cfg ?f" using m(3) by (simp add: good_def)
    obtain w1 r2 w2 where w1: "\<exists>k. w1 = ?W\<lparr>kern := k\<rparr>" "obs_same kinv obj held ?W w1"
      and md: "bloomd_meta_delete (fm_meta_path (f_meta ?f)) w1 = (r2, w2)"
      and out: "(d' = drop_finish E name i ?f w2 (d\<lparr>d_set := s\<rparr>) \<and> resp' = resp \<and> r = None) \<or>
        (\<exists>w'. d' = d\<lparr>d_set := s, d_world := w'\<rparr> \<and> \<not> resp_ok resp' \<and>
          (w' = w1 \<or> r2 \<noteq> None \<and> (\<exists>k. w' = w2\<lparr>kern := k\<rparr>) \<and> obs_same kinv obj held w2 w'))"
      by (rule drop_cases [OF Inr find' h])
    note dw = drop_worlds [OF so(3) own m(2) w1(1) md]
    have o2: "obs_same kinv obj held ?W w2" by (rule obs_same_trans [OF w1(2) quiet_obs [OF quiet_meta_delete [OF md]]])
    have late: "obs_same kinv obj held ?W w' \<and> touches ?P {} ?W w' \<and> good cfg (held (kern ?W) m) ?f w'"
      if "r2 \<noteq> None" "w' = w2\<lparr>kern := k\<rparr>" "obs_same kinv obj held w2 w'" for w' k
      using obs_same_trans [OF o2 that(3)] touches_trans [OF dw(2) touches_kern [OF touchesD(1) [OF dw(2)] that(2)]]
        dw(6) [OF that(1)] m(3) that(2) by (simp add: good_kern)
    from out consider (gone) "d' = drop_finish E name i ?f w2 (d\<lparr>d_set := s\<rparr>)"
      | (failed) w' where "d' = d\<lparr>d_set := s, d_world := w'\<rparr>" "obs_same kinv obj held ?W w'" "touches ?P {} ?W w'"
          "good cfg (held (kern ?W) m) ?f w'"
      using late dw(1,5) w1(2) m(3) by metis
    then show ?thesis
    proof cases
      case gone
      then show ?thesis using drop_store [OF inv v find' o2 dw(2-4)] by simp
    next
      case (failed w')
      have "d' = put_filter i ?f w' (d\<lparr>d_set := s\<rparr>)" using failed(1) find_n_spec(1) [OF so(4) v find'] by (simp add: put_filter_def set_item_def)
      then show ?thesis using store_put_same [OF inv v find' _ m(1) failed(2-4)] by (simp add: same_filter_def)
    qed
  qed
qed

section \<open>Requests, syncs and runs\<close>

lemma dispatch_store:
  assumes inv: "store_ok kinv obj held cfg d" and rq: "request_ok req" and resp: "resp_ok resp"
    and h: "dispatch_op E cfg req resp d = (r, resp', d')"
  shows "store_ok kinv obj held cfg d'"
proof (cases "rq_op req")
  case None
  then show ?thesis using h inv by (auto simp: dispatch_op_def dest!: respond_error_frame)
next
  case (Some op)
  show ?thesis
    using h inv Some handle_create_store [OF inv rq resp] handle_add_check_store [OF inv rq] handle_batch_store [OF inv rq]
      handle_info_store [OF inv rq] handle_drop_store [OF inv rq]
    by (cases op) (auto simp: dispatch_op_def Let_def split: if_splits dest!: respond_error_frame send_frame(4-6))
qed

lemma serve_request_store:
  assumes inv: "store_ok kinv obj held cfg d" and rq: "request_ok req" and h: "serve_request E cfg resp req d = (r, resp', d')"
  shows "store_ok kinv obj held cfg d'"
proof -
  let ?d = "d\<lparr>d_stats := (d_stats d)\<lparr>requests := requests (d_stats d) + 1\<rparr>\<rparr>"
  let ?resp = "bloomd_response_reset resp (opcode (rq_header req)) (request_id (rq_header req))"
  obtain r1 resp1 d1 where dp: "dispatch_op E cfg req ?resp ?d = (r1, resp1, d1)" using prod_cases3 by blast
  have "store_ok kinv obj held cfg ?d" using inv by simp
  from dispatch_store [OF this rq reset_ok(1) dp] have "store_ok kinv obj held cfg d1" .
  moreover have "\<exists>st. d' = d1\<lparr>d_stats := st\<rparr>"
    using h dp by (auto simp: serve_request_def bloomd_dispatch_def Let_def split: option.splits if_splits prod.splits
      dest!: respond_error_frame intro: exI [of _ "d_stats d1"])
  ultimately show ?thesis by auto
qed

end

text \<open>One pass over the logs.\<close>

lemma sync_items_good:
  assumes "sync_items E now force fs w = (fs', w')" "calm_files w" "distinct (map f_name fs)"
    "\<forall>f\<in>set fs. bloomd_name_is_valid (f_name f) \<and> good cfg (D (f_name f)) f w"
  shows "calm_files w' \<and> (\<forall>f\<in>set fs'. good cfg (D (f_name f)) f w') \<and>
    (\<forall>g X. f_name g \<notin> f_name ` set fs \<longrightarrow> good cfg X g w \<longrightarrow> good cfg X g w')"
  using assms
proof (induction fs arbitrary: w fs')
  case (Cons f fs)
  obtain f1 w1 where f1: "sync_dirty_log E now force f w = (f1, w1)" by fastforce
  obtain fs1 w2 where r: "sync_items E now force fs w1 = (fs1, w2)" by fastforce
  have e: "fs' = f1 # fs1" "w2 = w'" using Cons.prems(1) f1 r by auto
  have s: "own_step cfg f w w1" "good cfg (D (f_name f)) f1 w1" "f_name f1 = f_name f"
    using sync_good [OF Cons.prems(2) _ f1] Cons.prems(4) by auto
  have o: "good cfg X g w1" if "f_name g \<noteq> f_name f" "good cfg X g w" for g X
    using good_other [OF _ s(1) _ that] Cons.prems(2,4) by (simp add: calm_files_def)
  have "\<forall>g\<in>set fs. bloomd_name_is_valid (f_name g) \<and> good cfg (D (f_name g)) g w1" 
  proof (intro ballI conjI)
    fix g assume g: "g \<in> set fs"
    then show "bloomd_name_is_valid (f_name g)" using Cons.prems(4) by simp
    have "f_name g \<noteq> f_name f" using g Cons.prems(3) by (auto simp: image_iff)
    then show "good cfg (D (f_name g)) g w1" using o g Cons.prems(4) by simp
  qed
  from Cons.IH [OF r [unfolded e(2)] calm_files_step [OF Cons.prems(2) s(1)] _ this] show ?case
    using e(1) s(2,3) o Cons.prems(3) by auto
qed auto

lemma sync_logs_store:
  assumes inv: "store_ok kinv obj held cfg d" and s: "bloomd_sync_dirty_logs E now force (d_set d) (d_world d) = (fs, w)"
  shows "store_ok kinv obj held cfg (d\<lparr>d_set := fs, d_world := w\<rparr>)"
proof -
  note so = store_okD [OF inv]
  let ?D = "\<lambda>n. the (abs_filters obj held d n)" and ?d = "d\<lparr>d_world := w, d_set := fs\<rparr>"
  obtain its where i: "sync_items E now force (items (d_set d)) (d_world d) = (its, w)" "fs = (d_set d)\<lparr>items := its\<rparr>"
    using s by (auto simp: bloomd_sync_dirty_logs_def split: prod.splits)
  have g: "good cfg (?D (f_name f)) f (d_world d)" if "f \<in> set (items (d_set d))" for f
  proof -
    have l: "lookup (d_set d) (f_name f) = Some f" using lookup_Some [OF so(4)] that by simp
    then show ?thesis using so(6) [OF l] so(1) by (fastforce simp: abs_filters_def daemon_inv_def)
  qed
  have "distinct (map f_name (items (d_set d)))" using so(4) by (simp add: set_ok_def names_def)
  then have sg: "calm_files w" "\<forall>f\<in>set its. good cfg (?D (f_name f)) f w"
    using sync_items_good [OF i(1) so(2), of cfg ?D] g set_ok_valid [OF so(4)] by auto
  note k = sync_logs_keep [OF so(1) s]
  have fs: "set_ok fs" using k(1) by (simp add: daemon_inv_def)
  have "good cfg X f w" if "lookup fs n = Some f" "abs_filters obj held ?d n = Some X" for n f X
    using that sg(2) k(2) lookup_Some [OF fs] i(2) by fastforce
  then have "store_ok kinv obj held cfg ?d" using k(1) sg(1) by (simp add: store_ok_def)
  moreover have "?d = d\<lparr>d_set := fs, d_world := w\<rparr>" by simp
  ultimately show ?thesis by simp
qed

end
