(* ===== verification/Reboot.thy ===== *)
theory Reboot
  imports Disk_Store Wellformed
begin

text \<open>
  What the completeness of the logs is for: over any run of the daemon whose writes are not cut short, after a reboot or a power
  failure that loses all maps and pins, every filter is rebuilt with every digest it held, or the start refuses to come up.
\<close>

section \<open>Runs\<close>

text \<open>
  The daemon after its start in \<open>d0\<close>: it serves requests and syncs its logs, and between two steps time passes and
  the operating system decides which calls will fail or be interrupted; no write is cut short.
\<close>

inductive log_run :: "'k env \<Rightarrow> bloomd_config \<Rightarrow> 'k daemon \<Rightarrow> 'k daemon \<Rightarrow> bool" for E cfg d0 where
  start: "log_run E cfg d0 d0"
| request: "log_run E cfg d0 d \<Longrightarrow> request_ok req \<Longrightarrow> serve_request E cfg resp req d = (r, resp', d') \<Longrightarrow> log_run E cfg d0 d'"
| sync: "log_run E cfg d0 d \<Longrightarrow> bloomd_sync_dirty_logs E now force (d_set d) (d_world d) = (s, w) \<Longrightarrow>
    log_run E cfg d0 (d\<lparr>d_set := s, d_world := w\<rparr>)"
| elapsed: "log_run E cfg d0 d \<Longrightarrow> (\<forall>n. Short n \<notin> set ocs) \<Longrightarrow>
    log_run E cfg d0 (d\<lparr>d_world := (d_world d)\<lparr>script := ocs, ticks := ts, clock := c\<rparr>\<rparr>)"

lemma store_elapsed:
  assumes "store_ok kinv obj held cfg d" "\<forall>n. Short n \<notin> set ocs"
  shows "store_ok kinv obj held cfg (d\<lparr>d_world := (d_world d)\<lparr>script := ocs, ticks := ts, clock := c\<rparr>\<rparr>)"
proof -
  let ?w = "(d_world d)\<lparr>script := ocs, ticks := ts, clock := c\<rparr>"
  note so = store_okD [OF assms(1)]
  have q: "quiet (d_world d) ?w" using so(3) by (simp add: quiet_def world_ok_def)
  have c: "calm_files ?w" using so(2) assms(2) by (simp add: calm_files_def whole_def world_ok_def)
  have "good cfg D f ?w = good cfg D f (d_world d)" for D f by (rule good_world) simp_all
  then show ?thesis using quiet_moved [OF so(1) q] so(6) c by (simp add: store_ok_def)
qed

lemma run_store:
  assumes "log_run E cfg d0 d" "bpf_kernel E kinv obj held pinned" "store_ok kinv obj held cfg d0"
  shows "store_ok kinv obj held cfg d"
  using assms(1)
  by induction (use assms(2,3) in \<open>auto intro: bpf_kernel.serve_request_store sync_logs_store store_elapsed\<close>)

lemma run_filters:
  assumes "log_run E cfg d0 d" "filter_type E (log_sync_mode cfg) ok ready" "libm_ok E" "filters_all ok d0"
  shows "filters_all ok d"
  using assms(1)
proof induction
  case (sync d now force s w)
  then show ?case using filter_type.sync_logs_filters [OF assms(2) sync(2)] by (simp add: filters_all_def)
next
  case (request d req resp r resp' d')
  then show ?case using filter_type.serve_request_ok [OF assms(2) request(4) assms(3) refl] by blast
qed (use assms(4) in \<open>simp_all add: filters_all_def\<close>)

text \<open>A daemon that starts on an empty directory is such a start.\<close>

lemma fresh_store:
  assumes "kinv (kern w)" "calm_files w"
  shows "store_ok kinv obj held cfg (daemon_init w)" "filters_all filter_ok (daemon_init w)"
  using assms
  by (simp_all add: store_ok_def daemon_inv_def calm_files_def daemon_init_def set_ok_def names_def lookup_def
    bloomd_filter_set_init_def bloomd_empty_pool_def filters_all_def)

text \<open>
  C10. What is on disk follows what is in memory: over any run of requests and syncs, whichever calls fail or are interrupted,
  as long as no write is cut short, the metadata file of every filter is exactly what the writer makes of the metadata in memory,
  and on stable storage; and a filter that has data has its log open under its own path, a whole number of records long: unless
  the filter was loaded with an incomplete log, the records of the file together with those waiting in the buffer include every
  digest of its map.
\<close>

theorem disk_follows_memory:
  assumes "bpf_kernel E kinv obj held pinned" "store_ok kinv obj held cfg d0" "log_run E cfg d0 d"
    "lookup (d_set d) n = Some f" "abs_filters obj held d n = Some D"
  shows "file_data (fm_meta_path (f_meta f)) (d_world d) = Some (bytes_of_string (meta_body (f_meta f))) \<and>
    file_synced (fm_meta_path (f_meta f)) (d_world d) = Some (bytes_of_string (meta_body (f_meta f))) \<and>
    (fm_has_data (f_meta f) \<longrightarrow> (\<exists>data. file_data (fm_log_path (f_meta f)) (d_world d) = Some data \<and>
       fd_len (log_fd f) (d_world d) = length data \<and> 16 dvd length data \<and>
       (\<not> log_history_incomplete f \<longrightarrow>
         D \<subseteq> set (log_records (data @ (if log_sync_mode cfg = LOG_SYNC_PERIODIC then log_buf f else []))))))"
proof -
  have "good cfg D f (d_world d)" using store_okD(6) [OF run_store [OF assms(3,1,2)] assms(4,5)] .
  then show ?thesis
    by (auto simp: good_def on_disk_def log_ok_def log_at_def file_data_def log_content_def fd_len_def)
qed

lemma clean_log:
  assumes g: "good cfg D f w" "fm_has_data (f_meta f)"
    and c: "fm_log_clean (f_meta f) \<or> log_sync_mode cfg = LOG_SYNC_ALWAYS \<and> \<not> log_history_incomplete f"
  obtains data sdata where "file_data (fm_log_path (f_meta f)) w = Some data" "D \<subseteq> set (log_records data)"
    "file_synced (fm_log_path (f_meta f)) w = Some sdata" "D \<subseteq> set (log_records sdata)"
proof -
  have "\<not> log_history_incomplete f" using g c by (auto simp: good_def log_ok_def)
  then have s: "safe_part (log_sync_mode cfg) D f = D" using c by (auto simp: safe_part_def)
  obtain ino where "log_state (log_sync_mode cfg) f w ino (if log_history_incomplete f then {} else D) (safe_part (log_sync_mode cfg) D f)"
    using good_data [OF g] .
  then show thesis
    using s by (intro that [of "idata (inodes w ino)" "isynced (inodes w ino)"])
      (simp_all add: log_state_def log_at_def in_log_def file_data_def file_synced_def)
qed

text \<open>
  C11. The clean mark tells the truth: over any run in which no write is cut short, the log file of a filter whose metadata
  calls it clean holds, by itself and on stable storage, every digest of the filter's map; in the mode that syncs every digest
  that is so with or without the mark, unless the filter was loaded with an incomplete log.
\<close>

theorem clean_log_is_complete:
  assumes "bpf_kernel E kinv obj held pinned" "store_ok kinv obj held cfg d0" "log_run E cfg d0 d"
    "lookup (d_set d) n = Some f" "abs_filters obj held d n = Some D" "fm_has_data (f_meta f)"
    "fm_log_clean (f_meta f) \<or> log_sync_mode cfg = LOG_SYNC_ALWAYS \<and> \<not> log_history_incomplete f"
  shows "\<exists>data sdata. file_data (meta_root cfg @ ''/'' @ n @ ''.digests'') (d_world d) = Some data \<and> D \<subseteq> set (log_records data) \<and>
    file_synced (meta_root cfg @ ''/'' @ n @ ''.digests'') (d_world d) = Some sdata \<and> D \<subseteq> set (log_records sdata)"
proof -
  note so = store_okD [OF run_store [OF assms(3,1,2)]]
  have g: "good cfg D f (d_world d)" by (rule so(6) [OF assms(4,5)])
  have "fm_log_path (f_meta f) = meta_root cfg @ ''/'' @ n @ ''.digests''"
    using g lookup_Some [OF so(4)] assms(4) by (simp add: good_def own_paths_def)
  then show ?thesis using clean_log [OF g assms(6,7)] by metis
qed

section \<open>The reboot\<close>

text \<open>
  The machine comes up again: no map is pinned any more, and each file has the contents it had or, after a power failure, those
  that were synced.
\<close>

definition rebooted :: "('k \<Rightarrow> string \<Rightarrow> nat option) \<Rightarrow> 'k world \<Rightarrow> 'k world \<Rightarrow> bool" where
  "rebooted pinned w w' \<longleftrightarrow> world_ok w' \<and> (\<forall>p. file_data p w' = file_data p w \<or> file_data p w' = file_synced p w) \<and>
     (\<forall>p. pinned (kern w') p = None)"

lemma rebooted_meta:
  assumes "rebooted pinned w w'" "on_disk f w"
  shows "file_data (fm_meta_path (f_meta f)) w' = Some (bytes_of_string (meta_body (f_meta f)))"
  using assms by (metis on_disk_def rebooted_def)

text \<open>The directory listing shows every metadata file.\<close>

definition lists_all :: "bloomd_config \<Rightarrow> string list \<Rightarrow> 'k world \<Rightarrow> bool" where
  "lists_all cfg es w \<longleftrightarrow> (\<forall>n. bloomd_name_is_valid n \<longrightarrow>
     file_data (meta_root cfg @ ''/'' @ n @ ''.meta'') w \<noteq> None \<longrightarrow> n @ ''.meta'' \<in> set es)"

text \<open>The texts of the metadata fit into the buffers of the reader, and the error rate scans back to itself.\<close>

definition prints_back :: "bloomd_filter_meta \<Rightarrow> bool" where
  "prints_back m \<longleftrightarrow> length (fm_meta_path m) < PATH_MAX \<and> text_ok (fm_pin_path m) \<and>
     strtod (fmt_g17 (fm_error_rate m)) = (fm_error_rate m, None, []) \<and> text_ok (fmt_g17 (fm_error_rate m)) \<and>
     fmt_g17 (fm_error_rate m) \<noteq> [] \<and> length (fmt_g17 (fm_error_rate m)) \<le> 100"

text \<open>What the loader makes of the files of one filter, when there are no pins.\<close>

lemma loaded_after_reboot:
  assumes w: "rebooted pinned w w'" and f: "own_paths cfg f" "f_name f = n" "on_disk f w" "meta_ok (f_meta f)" "prints_back (f_meta f)"
    and l: "loaded_from obj held pinned cfg n w' d'"
  shows "abs_filters obj held d' n = Some (if fm_has_data (f_meta f) then
      (case file_data (fm_log_path (f_meta f)) w' of None \<Rightarrow> {} | Some data \<Rightarrow> set (log_records data)) else {})"
    "fm_has_data (f_meta f) \<Longrightarrow> fm_log_clean (f_meta f)"
proof -
  let ?path = "meta_root cfg @ ''/'' @ n @ ''.meta''" and ?lp = "meta_root cfg @ ''/'' @ n @ ''.digests''"
  have p: "fm_meta_path (f_meta f) = ?path" "fm_log_path (f_meta f) = ?lp" using f(1,2) by (simp_all add: own_paths_def)
  have parse: "meta_parse_text ?path (string_of_bytes (bytes_of_string (meta_body (f_meta f)))) =
      Inr ((f_meta f)\<lparr>fm_meta_path := snprintf_to PATH_MAX ?path, fm_log_path := []\<rparr>)"
    using f(5) by (intro meta_parse_body [OF f(4)]) (simp_all add: prints_back_def)
  have fl: "file_data ?path w' = Some (bytes_of_string (meta_body (f_meta f)))" "\<forall>p. pinned (kern w') p = None"
    using rebooted_meta [OF w f(3)] p(1) w by (simp_all add: rebooted_def)
  obtain m where m: "meta_parse_text ?path (string_of_bytes (bytes_of_string (meta_body (f_meta f)))) = Inr m"
    "abs_filters obj held d' n = Some (recovered_digests held pinned ?lp m w')" "fm_has_data m \<longrightarrow> fm_log_clean m"
    using l fl unfolding loaded_from_def Let_def by auto
  have "m = (f_meta f)\<lparr>fm_meta_path := snprintf_to PATH_MAX ?path, fm_log_path := []\<rparr>" using m(1) parse by simp
  then show "abs_filters obj held d' n = Some (if fm_has_data (f_meta f) then
      (case file_data (fm_log_path (f_meta f)) w' of None \<Rightarrow> {} | Some data \<Rightarrow> set (log_records data)) else {})"
    "fm_has_data (f_meta f) \<Longrightarrow> fm_log_clean (f_meta f)"
    using m(2,3) fl(2) p(2) by (simp_all add: recovered_digests_def)
qed

text \<open>
  C3. Neither a reboot nor a power failure loses a digest: after any run of requests and syncs in which no write is cut short,
  whichever calls failed, when the machine goes down, all maps and pins are gone and files may be left with no more than what was
  synced, a start of the daemon on what it finds that comes up and sets nothing aside has every filter again, each with every
  digest its map held. (A filter whose log may be incomplete stops the start instead.)
\<close>

theorem reboot_loses_nothing:
  assumes kernel: "bpf_kernel E kinv obj held pinned" "libm_ok E"
    and run: "store_ok kinv obj held cfg d0" "filters_all filter_ok d0" "log_run E cfg d0 d"
    and boot: "kinv (kern w')" "rebooted pinned (d_world d) w'"
    and dir: "bloomd_list_dir E (meta_root cfg) w' = Inr es" "distinct es" "length es < 2 ^ 64" "lists_all cfg es w'"
    and load: "bloomd_load_metadata_dir E cfg (daemon_init w') = (None, d')" "orphan_meta (d_stats d') = 0"
    and f: "lookup (d_set d) n = Some f" "abs_filters obj held d n = Some D" "prints_back (f_meta f)"
  shows "\<exists>D'. abs_filters obj held d' n = Some D' \<and> D \<subseteq> D'"
proof -
  note so = store_okD [OF run_store [OF run(3) kernel(1) run(1)]]
  have gd: "good cfg D f (d_world d)" by (rule so(6) [OF f(1,2)])
  have nm: "f_name f = n" "f \<in> set (items (d_set d))" using f(1) lookup_Some [OF so(4)] by simp_all
  have g: "own_paths cfg f" "on_disk f (d_world d)" "\<not> fm_has_data (f_meta f) \<Longrightarrow> D = {}" using gd by (auto simp: good_def log_ok_def)
  have mk: "meta_ok (f_meta f)"
    using run_filters [OF run(3) wf.filter_type_axioms kernel(2) run(2)] nm(2) by (auto simp: filters_all_def filter_ok_def)
  have w': "world_ok w'" "\<forall>p. pinned (kern w') p = None" using boot(2) by (simp_all add: rebooted_def)
  have v: "bloomd_name_is_valid n" "fm_meta_path (f_meta f) = meta_root cfg @ ''/'' @ n @ ''.meta''" using g(1) nm(1) by (auto simp: own_paths_def)
  have "file_data (meta_root cfg @ ''/'' @ n @ ''.meta'') w' \<noteq> None" using rebooted_meta [OF boot(2) g(2)] v(2) by simp
  then have e: "n @ ''.meta'' \<in> set es" using dir(4) v(1) by (simp add: lists_all_def)
  have inj: "pins_inj pinned (kern w')" "\<And>n. pins_empty held pinned cfg n w'" using w'(2) by (simp_all add: pins_inj_def pins_empty_def Let_def)
  have "loaded_from obj held pinned cfg n w' d'"
    using load_dir_recovers [OF kernel(1) boot(1) w'(1) inj(1) dir(1-3) inj(2) load] e v f(3) by (auto simp: prints_back_def)
  note l = loaded_after_reboot [OF boot(2) g(1) nm(1) g(2) mk f(3) this]
  show ?thesis
  proof (cases "fm_has_data (f_meta f)")
    case True
    obtain data sdata where "file_data (fm_log_path (f_meta f)) (d_world d) = Some data" "D \<subseteq> set (log_records data)"
      "file_synced (fm_log_path (f_meta f)) (d_world d) = Some sdata" "D \<subseteq> set (log_records sdata)"
      by (rule clean_log [OF gd True disjI1 [OF l(2) [OF True]]])
    then have "\<exists>x. file_data (fm_log_path (f_meta f)) w' = Some x \<and> D \<subseteq> set (log_records x)"
      using boot(2) unfolding rebooted_def by metis
    then show ?thesis using l(1) True by auto
  qed (use l(1) g(3) in simp)
qed

section \<open>A sample\<close>

text \<open>The filter \<open>users\<close> with one digest in its map and in its log, which is marked clean.\<close>

definition kept_meta :: bloomd_filter_meta where
  "kept_meta = sample_meta\<lparr>fm_has_data := True, fm_log_clean := True\<rparr>"

definition kept_world :: "(int \<Rightarrow> nat option) \<Rightarrow> mock \<Rightarrow> mock world" where
  "kept_world fds k = \<lparr>kern = k, dirents = [''/m/users.meta'' \<mapsto> 0, ''/m/users.digests'' \<mapsto> 1],
     inodes = (\<lambda>i. if i = 0
       then \<lparr>idata = bytes_of_string (meta_body kept_meta), isynced = bytes_of_string (meta_body kept_meta)\<rparr>
       else \<lparr>idata = replicate 16 7, isynced = replicate 16 7\<rparr>),
     fdtab = fds, next_ino = 2, next_fd = 6, script = [], ticks = [], clock = 0\<rparr>"

definition kept_daemon :: "mock daemon" where
  "kept_daemon = \<lparr>d_world = kept_world [5 \<mapsto> 1] (boot_kern\<lparr>mock_fds := [3 \<mapsto> 0], mock_next_fd := 4\<rparr>),
     d_set = \<lparr>items = [sample_filter\<lparr>f_meta := kept_meta\<rparr>], set_cap = 8, last_index = SIZE_MAX\<rparr>,
     d_stats = zero_stats, d_pool = bloomd_empty_pool\<rparr>"

lemma kept_name: "f_name (sample_filter\<lparr>f_meta := kept_meta\<rparr>) = ''users''"
  by (simp add: kept_meta_def sample_meta_def)

lemma kept_lookup: "lookup (d_set kept_daemon) n = (if n = ''users'' then Some (sample_filter\<lparr>f_meta := kept_meta\<rparr>) else None)"
  by (simp add: lookup_def kept_daemon_def kept_meta_def sample_meta_def)

lemma kept_abs: "abs_filters mock_fds mock_held kept_daemon ''users'' = Some {replicate 16 7}"
  by (simp add: abs_filters_def lookup_def kept_meta_def sample_meta_def flt_map_def kept_daemon_def kept_world_def boot_kern_def
    sample_filter_def mock_held_def)

lemma kept_records: "log_records (replicate 16 7) = [replicate 16 7]"
  by (rule records_digest) simp

lemma kept_good: "good boot_config {replicate 16 7} (sample_filter\<lparr>f_meta := kept_meta\<rparr>) (d_world kept_daemon)"
  using sample_valid
  by (simp add: good_def own_paths_def on_disk_def log_ok_def log_at_def log_content_def file_data_def file_synced_def in_log_def
    safe_part_def kept_daemon_def kept_world_def kept_meta_def sample_meta_def sample_filter_def boot_config_def bloomd_config_defaults_def kept_records)

lemma kept_inv: "daemon_inv mock_inv mock_fds mock_held kept_daemon"
  by (auto simp: daemon_inv_def kept_daemon_def kept_world_def boot_kern_def sample_filter_def kept_meta_def sample_meta_def
    mock_inv_def mock_held_def world_ok_def set_ok_def names_def lookup_def flt_map_def sample_valid bloomd_empty_pool_def split: if_splits)

lemma kept_store: "store_ok mock_inv mock_fds mock_held boot_config kept_daemon" "filters_all filter_ok kept_daemon"
proof -
  have "calm_files (d_world kept_daemon)"
    by (auto simp: calm_files_def world_ok_def whole_def kept_daemon_def kept_world_def split: if_splits)
  then show "store_ok mock_inv mock_fds mock_held boot_config kept_daemon"
    using kept_inv kept_good kept_abs by (auto simp: store_ok_def kept_lookup split: if_splits)
  have "meta_ok kept_meta" using sample_meta_ok(1) by (simp add: meta_ok_def kept_meta_def)
  then show "filters_all filter_ok kept_daemon" by (simp add: filters_all_def filter_ok_def kept_daemon_def sample_filter_def)
qed

lemma kept_load_read:
  "load_read boot_env boot_config ''users.meta'' (daemon_init (kept_world fds k)) =
    (Some (''/m/users.meta'', kept_meta\<lparr>fm_meta_path := ''/m/users.meta'', fm_log_path := []\<rparr>), daemon_init (kept_world fds k))"
proof -
  have p: "bloomd_path_under_root ''/sys/fs/bpf/bloomd/users'' ''/sys/fs/bpf/bloomd''"
    "bloomd_path_has_name ''/sys/fs/bpf/bloomd/users'' ''users''" by code_simp+
  have "bloomd_meta_read_file ''/m/users.meta'' (kept_world fds k) =
      (Inr (kept_meta\<lparr>fm_meta_path := ''/m/users.meta'', fm_log_path := []\<rparr>), kept_world fds k)"
    by (simp add: bloomd_meta_read_file_def next_outcome_def kept_world_def file_data_def kept_meta_def
      sample_parse_body [simplified] snprintf_to_def PATH_MAX_def)
  then show ?thesis
    using bpf_kernel.load_read_eq [OF boot_kernel sample_valid, of "''/m/users.meta''" boot_config "daemon_init (kept_world fds k)"] p
    by (simp add: boot_config_def daemon_init_def bloomd_config_defaults_def PATH_MAX_def kept_meta_def sample_meta_def)
qed

text \<open>After the reboot the map is rebuilt from the log.\<close>

lemma kept_entry:
  "\<exists>d'. load_entry boot_env boot_config ''users.meta'' (daemon_init (kept_world (\<lambda>_. None) mock_reset)) = (None, d') \<and>
    orphan_meta (d_stats d') = 0"
  unfolding load_entry_def kept_load_read
  by (simp add: load_map_def bloomd_rebuild_from_log_def bloomd_assign_filter_paths_def build_path_defs bloomd_join_path_def
    boot_config_def bloomd_config_defaults_def PATH_MAX_def Let_def kept_meta_def sample_meta_def bloomd_bpf_create_map_def
    bpf_call_defs kept_world_def mock_reset_def mock_map_create_def mock_map_handle_def MOCK_MAX_MAPS_def
    bloomd_log_replay_def log_replay_impl_def sys_open_rd_def next_outcome_def replay_loop.simps
    sys_read_at_def BLOOMD_DIGEST_SIZE_def bloomd_replay_digest_cb_def add_digest_kern_def
    mock_map_by_fd_def mock_map_add_def mock_map_has_def MOCK_MAX_DIGESTS_def sys_close_def sys_truncate_def
    mock_pin_add_def mock_pin_find_def MOCK_MAX_PINS_def daemon_init_def load_enter_def bloomd_validate_open_pinned_map_def
    bloomd_bpf_get_map_info_def boot_find bloomd_open_filter_log_def bloomd_log_open_append_def sys_open_def new_filter_def
    bloomd_now_ms_def bloomd_filter_set_add_def bloomd_filter_set_init_def zero_stats_def)

lemma kept_load:
  "\<exists>d'. bloomd_load_metadata_dir boot_env boot_config (daemon_init (kept_world (\<lambda>_. None) mock_reset)) = (None, d') \<and>
    orphan_meta (d_stats d') = 0"
  using kept_entry by (auto simp: bloomd_load_metadata_dir_def boot_config_def boot_list boot_skip)

text \<open>Later, when the next call on a file is going to fail.\<close>

abbreviation kept_later :: "mock daemon" where
  "kept_later \<equiv> kept_daemon\<lparr>d_world := (d_world kept_daemon)\<lparr>script := [Fail EIO], ticks := [], clock := 60000\<rparr>\<rparr>"

lemma kept_run: "log_run boot_env boot_config kept_daemon kept_later"
  by (rule log_run.elapsed [OF log_run.start]) simp

lemma kept_users:
  "lookup (d_set kept_later) ''users'' = Some (sample_filter\<lparr>f_meta := kept_meta\<rparr>)"
  "abs_filters mock_fds mock_held kept_later ''users'' = Some {replicate 16 7}"
  "fm_has_data (f_meta (sample_filter\<lparr>f_meta := kept_meta\<rparr>))" "fm_log_clean (f_meta (sample_filter\<lparr>f_meta := kept_meta\<rparr>))"
proof -
  have "abs_filters mock_fds mock_held kept_later ''users'' = abs_filters mock_fds mock_held kept_daemon ''users''"
    by (simp add: abs_filters_def flt_map_def cong: if_cong)
  then show "abs_filters mock_fds mock_held kept_later ''users'' = Some {replicate 16 7}" using kept_abs by simp
qed (simp_all add: kept_lookup kept_meta_def)

theorem disk_follows_memory_witness:
  "file_data ''/m/users.meta'' (d_world kept_later) = Some (bytes_of_string (meta_body kept_meta)) \<and>
    (\<exists>data. file_data ''/m/users.digests'' (d_world kept_later) = Some data \<and> replicate 16 7 \<in> set (log_records data))"
proof -
  from disk_follows_memory [OF boot_kernel kept_store(1) kept_run kept_users(1,2)] kept_users(3) show ?thesis
    by (auto simp: kept_meta_def sample_meta_def sample_filter_def split: if_splits)
qed

theorem clean_log_is_complete_witness:
  "\<exists>data. file_synced ''/m/users.digests'' (d_world kept_later) = Some data \<and> replicate 16 7 \<in> set (log_records data)"
  using clean_log_is_complete [OF boot_kernel kept_store(1) kept_run kept_users(1-3) disjI1 [OF kept_users(4)]]
  by (auto simp: boot_config_def)

theorem reboot_loses_nothing_witness:
  "\<exists>d' D. bloomd_load_metadata_dir boot_env boot_config (daemon_init (kept_world (\<lambda>_. None) mock_reset)) = (None, d') \<and>
    abs_filters mock_fds mock_held d' ''users'' = Some D \<and> replicate 16 7 \<in> D"
proof -
  let ?w = "kept_world (\<lambda>_. None) mock_reset"
  obtain d' where d': "bloomd_load_metadata_dir boot_env boot_config (daemon_init ?w) = (None, d')" "orphan_meta (d_stats d') = 0"
    using kept_load by blast
  have w: "mock_inv (kern ?w)" "rebooted mock_pinned (d_world kept_later) ?w"
    using boot_inv(2) by (auto simp: rebooted_def world_ok_def file_data_def kept_world_def kept_daemon_def mock_reset_def
      mock_pinned_def mock_pin_find_def split: if_splits)
  have l: "lists_all boot_config [''users.digests'', ''users.meta''] ?w"
    by (auto simp: lists_all_def file_data_def kept_world_def boot_config_def split: if_splits)
  have p: "prints_back (f_meta (sample_filter\<lparr>f_meta := kept_meta\<rparr>))"
    using sample_meta_ok by (simp add: prints_back_def kept_meta_def sample_meta_def PATH_MAX_def sample_rate text_ok_def)
  have "bloomd_list_dir boot_env (meta_root boot_config) ?w = Inr [''users.digests'', ''users.meta'']"
    by (simp add: boot_config_def boot_list)
  from reboot_loses_nothing [OF boot_kernel mock_libm_ok kept_store kept_run w this _ _ l d' kept_users(1,2) p] d'(1)
  show ?thesis by auto
qed

end
