(* ===== verification/Spec2Isabelle.thy ===== *)
theory Spec2Isabelle
  imports Durability Server_Correct Bloomctl_Output Inspect_Correct Progress Reboot
begin

text \<open>
  A verification development of kbloomd, a daemon that keeps named Bloom filters in BPF maps of the
  Linux kernel.

  \<^bold>\<open>The program.\<close> The daemon (\<open>src/src/daemon.c\<close>) listens on a Unix socket. A client sends frames
  (\<open>src/src/protocol.c\<close>); the daemon looks up the filter (\<open>src/src/util.c\<close>), hashes the payload to a
  16-byte digest (\<open>src/src/hash.c\<close>), appends it to a digest log (\<open>src/src/log.c\<close>) and pushes it
  into the map through \<open>bpf(2)\<close> (\<open>src/src/bpf.c\<close>). Each filter has a metadata file
  (\<open>src/src/meta.c\<close>) that is replaced atomically; the map of a filter with data is pinned in the BPF
  file system. At its start the daemon reads the metadata directory and opens the pinned maps, or
  rebuilds them from the logs. \<open>src/src/bloomctl.c\<close> is the command line client and
  \<open>src/src/bloominspect.c\<close> an offline checker of the directories.

  \<^bold>\<open>The model.\<close> The state is explicit. A \<open>world\<close> (\<open>Os_World\<close>) holds directory entries, inodes with
  current and synced contents, descriptors, the clock and the state of the BPF side of the kernel; a
  \<open>daemon\<close> (\<open>Daemon_Core\<close>) adds the filter set, the statistics and the pool of one empty map. Every
  C function is a function on these states that returns its result code (\<open>None\<close> for 0, \<open>Some\<close> error
  number otherwise) and the new state, under its name in the sources; every early return is a branch. Integers
  keep their width and wrap as in C, doubles are their 64-bit patterns.

  Whatever the environment decides is a parameter or a script, and the theorems hold for all of them:
  \<^item> the BPF side of the kernel is an abstract type; what the daemon relies on are the assumptions of
    the locale \<open>bpf_kernel\<close> (\<open>Bpf_Kernel\<close>), the documented behaviour of the \<open>bpf(2)\<close> commands, of \<open>close\<close> and of \<open>unlink\<close> on a
    pin. \<open>Mock_Kernel\<close> interprets it with the mock kernel of \<open>src/tests/test_recovery_log_state.c\<close>;
  \<^item> every file call takes its outcome (normal, short, failed with an error) from a finite script, and
    the calls after its end are normal; likewise \<open>read\<close>, \<open>write\<close> and \<open>writev\<close> on sockets, \<open>accept\<close>, \<open>poll\<close> and the clock;
  \<^item> \<open>malloc\<close>, \<open>readdir\<close>, \<open>statfs\<close>, \<open>time\<close>, \<open>getpid\<close> and \<open>log2\<close> are fields of the record \<open>env\<close>.
  A change of a directory entry counts as durable when the call returns; the contents of files distinguish current
  from synced bytes, and a power failure may leave a file with the latter (\<open>Reboot\<close>).

  \<^bold>\<open>Theories, from the bottom up.\<close>
  \<^item> \<open>Bloomd_Prelude\<close>: integer types, error numbers, byte strings, little-endian layouts, the
    collections of rewrite rules. \<open>Os_World\<close>: files and clock, \<open>bloomd_write_all\<close>.
  \<^item> \<open>Hash\<close>: \<open>hash.c\<close>; the interleaved digest is a pair of textbook SipHash-2-4 values, checked against the
    published test vector.
  \<^item> \<open>Protocol\<close>: encodings, buffers, frame headers, responses. \<open>Names_Paths\<close>, \<open>Doubles\<close>: names, paths,
    option values, and \<open>strtoul\<close>, \<open>strtod\<close> and \<open>%.17g\<close> of the C library.
  \<^item> \<open>Bpf_Kernel\<close>, \<open>Mock_Kernel\<close>: \<open>bpf.c\<close>, the contract of the kernel and its instance.
  \<^item> \<open>Digest_Log\<close>: \<open>log.c\<close>; replay delivers exactly the complete records. \<open>Meta_File\<close>: \<open>meta.c\<close>;
    replacement is all or nothing, and what is written is read back.
  \<^item> \<open>Filter_Set\<close>: the table of filters with its lookup cache; the locale \<open>filter_store\<close> states what its
    clients rely on, and the table refines a finite map.
  \<^item> \<open>Daemon_Core\<close>, \<open>Daemon_Handlers\<close>: the building blocks (pool, durable transition, dirty mark,
    staging, rollback, commit, periodic sync) and the ten request handlers with the dispatcher.
    \<open>Frames\<close>: what they leave alone. \<open>Durability\<close>: what the log records, and two situations in which the code
    goes wrong. \<open>Samples\<close>: the concrete daemon of the witnesses.
  \<^item> \<open>Refinement\<close>, \<open>Dispatch\<close>, \<open>Service\<close>: the abstract specification (a map from names to sets of digests, the
    relation \<open>filter_step\<close>), the invariant \<open>daemon_inv\<close>, and the proof that every request is a step
    of it whatever fails; from it follows that there are no false negatives.
  \<^item> \<open>Recovery\<close>, \<open>Recovery_Correct\<close>, \<open>Restart\<close>: loading the metadata directory, rebuilding, setting
    aside, removing orphan pins; every filter comes back with its digests.
  \<^item> \<open>Client\<close>, \<open>Connection\<close>: the non-blocking state machine of one connection; it serves exactly the
    frames of its byte stream. \<open>Server\<close>, \<open>Server_Correct\<close>: options, startup, accept, the poll loop, timeouts and
    shutdown; the whole process is a sequence of specification steps.
  \<^item> \<open>Wire_Io\<close>: blocking transfer of frames. \<open>Bloomctl\<close>, \<open>Bloomctl_Correct\<close>, \<open>Bloomctl_Output\<close>: the
    client; its requests are parsed as meant, its exchange ends, and what it prints is the state of the
    daemon.
  \<^item> \<open>Inspect\<close>, \<open>Inspect_Correct\<close>: the inspector; it changes nothing, agrees with the loader of the daemon, and its
    classes predict the next start.
  \<^item> \<open>Wellformed\<close>: invariants of the filters over all reachable states. The locale \<open>filter_type\<close> states what a
    property of one filter must be kept by, and carries it through requests, loading and syncing; it is
    interpreted with well-formedness and with the meaning of the clean mark. \<open>Progress\<close>: when nothing
    fails, CREATE and ADD are answered with success, and the transfer loop ends.
  \<^item> \<open>Disk_Frames\<close>, \<open>Log_Complete\<close>, \<open>Disk_Store\<close>, \<open>Reboot\<close>: what the operations of one filter may touch on the disk
    (\<open>touches\<close>), that each of them keeps the filter \<open>good\<close> (its metadata file as in memory and synced, its log complete, and
    synced when it is called clean), the same for all filters of the daemon over every request and sync (\<open>store_ok\<close>), and
    the composition with the loader: neither a reboot that loses every map and pin nor a power failure loses a digest.
    The one assumption is that no write is cut short; without it the log can go wrong, as \<open>Durability\<close> shows.

  \<^bold>\<open>Termination.\<close> There is no fuel. A retry loop uses up an element of its script on every interruption
  and a byte or an element on every other round, which is the measure of its termination proof; the poll loop
  runs over the finite list of its poll results, so its theorems speak of every finite run. The scaling of \<open>%.17g\<close> to its
  decimal exponent tries 400 steps in each direction, more than the exponents of doubles (below 330) need.

  \<^bold>\<open>Not modelled.\<close> Log lines and usage texts; the body of the signal handler (it sets the flag that
  the poll loop reads; the model ends the list of polls instead); \<open>fcntl\<close>, which enters as its result; releasing memory
  (\<open>free\<close>, \<open>bloomd_free_name_list\<close>, \<open>bloomd_buffer_free\<close>); the hooks that install the mock kernel; tests, build files
  and the service unit. Concurrency does not arise: the daemon has one thread, and the order of its
  requests is the order in which it reads them. Reordering of directory operations by a crash is outside the
  model.
\<close>

end
